(* ===== verification/Pyro_Prelude.thy ===== *)
theory Pyro_Prelude
  imports Main "HOL-Library.Word" "HOL-Library.Monad_Syntax" "HOL-Library.Code_Target_Nat"
begin

text \<open>
  Shared vocabulary of the development.

  \<^item> Machine types: bytes and the fixed-width unsigned integers of the C++ sources.
  \<^item> Outcomes: the value \<open>None\<close> of an \<open>'a outcome\<close> stands for a run of the C++ code that has no
    defined result: a failed \<open>assert\<close>, an access outside the storage a pointer designates, a read of
    indeterminate storage, a division by zero, a signed overflow, or a loop that does not end.
    \<open>Some\<close> is a defined result.  The monad is the option monad of the library.
  \<^item> Checked memory: loads and stores on a list that stands for an array.
  \<^item> Counted loops over a list of indices with an invariant rule.
  \<^item> Little-endian encoding of integers, as \<open>memcpy\<close> of an integer does on the wire.
  \<^item> Blocks of bytes under exclusive or.
\<close>

unbundle bit_operations_syntax

section \<open>Types and collections of rules\<close>

type_synonym byte = "8 word"
type_synonym u8 = "8 word"
type_synonym u16 = "16 word"
type_synonym u32 = "32 word"
type_synonym u64 = "64 word"
type_synonym 'a outcome = "'a option"

named_theorems frame_simps \<open>operations leave unrelated fields alone\<close>
named_theorems outcome_simps \<open>evaluation of checked operations\<close>
named_theorems layout_simps \<open>sizes of encoded records\<close>

section \<open>Definitions\<close>

subsection \<open>Outcomes and checked memory\<close>

definition guard :: "bool \<Rightarrow> unit outcome" where
  "guard b = (if b then Some () else None)"

text \<open>An array whose cells may be indeterminate: \<open>None\<close> in a cell is storage nobody has written.\<close>

definition load_cell :: "'a option list \<Rightarrow> nat \<Rightarrow> 'a outcome" where
  "load_cell xs i = (if i < length xs then xs ! i else None)"

definition load :: "'a list \<Rightarrow> nat \<Rightarrow> 'a outcome" where
  "load xs i = (if i < length xs then Some (xs ! i) else None)"

definition store :: "'a list \<Rightarrow> nat \<Rightarrow> 'a \<Rightarrow> 'a list outcome" where
  "store xs i v = (if i < length xs then Some (xs[i := v]) else None)"

text \<open>Whether a string occurs in another one.\<close>

definition strstr :: "string \<Rightarrow> string \<Rightarrow> bool" where
  "strstr hay needle = list_ex (\<lambda>k. take (length needle) (drop k hay) = needle) [0..<Suc (length hay)]"

text \<open>\<open>memcpy\<close> out of and into an array of bytes.\<close>

definition read_bytes :: "'a list \<Rightarrow> nat \<Rightarrow> nat \<Rightarrow> 'a list outcome" where
  "read_bytes mem off n = (if off + n \<le> length mem then Some (take n (drop off mem)) else None)"

definition write_bytes :: "'a list \<Rightarrow> nat \<Rightarrow> 'a list \<Rightarrow> 'a list outcome" where
  "write_bytes mem off bs =
     (if off + length bs \<le> length mem
      then Some (take off mem @ bs @ drop (off + length bs) mem) else None)"

subsection \<open>Counted loops\<close>

primrec for_list :: "('a \<Rightarrow> 's \<Rightarrow> 's outcome) \<Rightarrow> 'a list \<Rightarrow> 's \<Rightarrow> 's outcome" where
  "for_list f [] s = Some s"
| "for_list f (x # xs) s = do { s' \<leftarrow> f x s; for_list f xs s' }"

subsection \<open>Doubling a capacity\<close>

text \<open>
  The loop \<open>while (capacity < need) capacity *= 2\<close> on a \<open>w\<close>-bit unsigned integer.  Once the doubling
  wraps to 0 the loop never ends, which is the value \<open>None\<close>.
\<close>

partial_function (option) grow_pow2 :: "nat \<Rightarrow> nat \<Rightarrow> nat \<Rightarrow> nat option" where
  "grow_pow2 w cap need =
     (if cap < need then grow_pow2 w ((cap * 2) mod 2 ^ w) need else Some cap)"

declare grow_pow2.simps [code]

subsection \<open>Little-endian integers\<close>

primrec le_bytes :: "nat \<Rightarrow> nat \<Rightarrow> byte list" where
  "le_bytes 0 v = []"
| "le_bytes (Suc n) v = word_of_nat (v mod 256) # le_bytes n (v div 256)"

primrec le_nat :: "byte list \<Rightarrow> nat" where
  "le_nat [] = 0"
| "le_nat (b # bs) = unat b + 256 * le_nat bs"

subsection \<open>Exclusive or of blocks\<close>

definition xor_bytes :: "byte list \<Rightarrow> byte list \<Rightarrow> byte list" where
  "xor_bytes a b = map2 (\<lambda>x y. x XOR y) a b"

definition zero_block :: "nat \<Rightarrow> byte list" where
  "zero_block n = replicate n 0"

text \<open>The exclusive or of the blocks a list of indices selects.\<close>

primrec xor_blocks :: "nat \<Rightarrow> (nat \<Rightarrow> byte list) \<Rightarrow> nat list \<Rightarrow> byte list" where
  "xor_blocks n blk [] = zero_block n"
| "xor_blocks n blk (i # is) = xor_bytes (blk i) (xor_blocks n blk is)"

primrec xor_nats :: "nat list \<Rightarrow> nat" where
  "xor_nats [] = 0"
| "xor_nats (i # is) = i XOR xor_nats is"

section \<open>Lemmas\<close>

subsection \<open>Outcomes and checked memory\<close>

lemma guard_simps [simp, outcome_simps]:
  "guard True = Some ()" "guard False = None"
  by (simp_all add: guard_def)

lemma guard_eq_Some [simp]: "guard b = Some u \<longleftrightarrow> b"
  by (simp add: guard_def)

lemma guard_eq_None [simp]: "guard b = None \<longleftrightarrow> \<not> b"
  by (simp add: guard_def)

lemma guard_bind [simp, outcome_simps]:
  "b \<Longrightarrow> (guard b \<bind> f) = f ()"
  by (simp add: guard_def)

lemma load_Some [simp, outcome_simps]: "i < length xs \<Longrightarrow> load xs i = Some (xs ! i)"
  by (simp add: load_def)

lemma load_eq_Some: "load xs i = Some v \<longleftrightarrow> i < length xs \<and> xs ! i = v"
  by (auto simp: load_def)

lemma store_Some [simp, outcome_simps]: "i < length xs \<Longrightarrow> store xs i v = Some (xs[i := v])"
  by (simp add: store_def)

lemma store_eq_Some: "store xs i v = Some ys \<longleftrightarrow> i < length xs \<and> ys = xs[i := v]"
  by (auto simp: store_def)

lemma load_cell_eq_Some: "load_cell xs i = Some v \<longleftrightarrow> i < length xs \<and> xs ! i = Some v"
  by (auto simp: load_cell_def)

lemma read_bytes_eq_Some:
  "read_bytes mem off n = Some bs \<longleftrightarrow> off + n \<le> length mem \<and> bs = take n (drop off mem)"
  by (auto simp: read_bytes_def)

lemma length_read_bytes: "read_bytes mem off n = Some bs \<Longrightarrow> length bs = n"
  by (auto simp: read_bytes_eq_Some)

lemma write_bytes_Some [outcome_simps]:
  "off + length bs \<le> length mem \<Longrightarrow>
   write_bytes mem off bs = Some (take off mem @ bs @ drop (off + length bs) mem)"
  by (simp add: write_bytes_def)

lemma length_write_bytes: "write_bytes mem off bs = Some mem' \<Longrightarrow> length mem' = length mem"
  by (auto simp: write_bytes_def split: if_splits)

lemma nth_write_bytes:
  assumes "write_bytes mem off bs = Some mem'" "p < length mem"
  shows "mem' ! p = (if off \<le> p \<and> p < off + length bs then bs ! (p - off) else mem ! p)"
proof -
  from assms(1) have m: "off + length bs \<le> length mem" "mem' = take off mem @ bs @ drop (off + length bs) mem"
    by (auto simp: write_bytes_def split: if_splits)
  consider "p < off" | "off \<le> p" "p < off + length bs" | "off + length bs \<le> p" by linarith
  then show ?thesis
  proof cases
    case 1
    with m show ?thesis by (simp add: nth_append)
  next
    case 2
    then have "p - off < length bs" by linarith
    with 2 m show ?thesis by (simp add: nth_append)
  next
    case 3
    then have "\<not> p - off < length bs" "\<not> p < off" by linarith+
    with 3 m assms(2) show ?thesis by (simp add: nth_append)
  qed
qed

subsection \<open>Counted loops\<close>

lemma for_list_append:
  "for_list f (xs @ ys) s = do { s' \<leftarrow> for_list f xs s; for_list f ys s' }"
  by (induction xs arbitrary: s) (auto simp: Option.bind_assoc)

text \<open>
  The rule for a counted loop: an invariant that speaks of the part already done, holds at the
  start, and from which every step returns and keeps it.
\<close>

lemma for_list_invariant:
  assumes "I [] s"
    and step: "\<And>done x rest t. xs = done @ x # rest \<Longrightarrow> I done t \<Longrightarrow> \<exists>t'. f x t = Some t' \<and> I (done @ [x]) t'"
  shows "\<exists>t. for_list f xs s = Some t \<and> I xs t"
proof -
  have "\<exists>t. for_list f ys t0 = Some t \<and> I xs t" if "xs = done @ ys" "I done t0" for ys "done" t0
    using that
  proof (induction ys arbitrary: "done" t0)
    case Nil
    then show ?case by simp
  next
    case (Cons y ys)
    from step[OF Cons.prems] obtain t1 where t1: "f y t0 = Some t1" "I (done @ [y]) t1" by blast
    from Cons.IH[of "done @ [y]" t1] Cons.prems(1) t1 show ?case by simp
  qed
  from this[of "[]" xs s] assms(1) show ?thesis by simp
qed

text \<open>Where a counted loop stands.\<close>

lemma upt_split:
  assumes "[0..<m] = done @ f # rest"
  shows "f = length done" "f < m"
proof -
  have "length [0..<m] = length (done @ f # rest)" by (simp only: assms)
  then have lt: "length done < m" by simp
  have "[0..<m] ! length done = f" by (simp add: assms)
  with lt show "f = length done" "f < m" by auto
qed

text \<open>A loop whose every returning step keeps a fact keeps it.\<close>

lemma for_list_preserves:
  assumes "for_list f xs s = Some t" "P s"
    and "\<And>x u v. x \<in> set xs \<Longrightarrow> f x u = Some v \<Longrightarrow> P u \<Longrightarrow> P v"
  shows "P t"
  using assms by (induction xs arbitrary: s) (auto simp: Option.bind_eq_Some_conv)

subsection \<open>Doubling\<close>

lemma grow_pow2_returns:
  assumes "k + d = w" "need \<le> 2 ^ w"
  shows "\<exists>c. grow_pow2 (Suc w) (2 ^ k) need = Some c \<and> need \<le> c \<and> c \<le> 2 ^ w \<and> 0 < c"
  using assms
proof (induction d arbitrary: k)
  case 0
  then show ?case by (subst grow_pow2.simps) auto
next
  case (Suc d)
  show ?case
  proof (cases "2 ^ k < need")
    case True
    have "(2::nat) ^ Suc k \<le> 2 ^ w"
      using Suc.prems(1) by (intro power_increasing) auto
    moreover have "(2::nat) ^ w < 2 ^ Suc w" by simp
    ultimately have "(2 ^ k * 2 :: nat) < 2 ^ Suc w" by (simp only: power_Suc mult.commute)
    then have eq: "(2 ^ k * 2) mod 2 ^ Suc w = (2::nat) ^ Suc k"
      by simp
    from Suc.IH[of "Suc k"] Suc.prems have
      "\<exists>c. grow_pow2 (Suc w) (2 ^ Suc k) need = Some c \<and> need \<le> c \<and> c \<le> 2 ^ w \<and> 0 < c"
      by simp
    with True eq show ?thesis by (subst grow_pow2.simps) (simp del: power_Suc)
  next
    case False
    have "(2::nat) ^ k \<le> 2 ^ w" using Suc.prems(1) by (intro power_increasing) auto
    with False show ?thesis by (subst grow_pow2.simps) auto
  qed
qed

lemma grow_pow2_ge: "grow_pow2 w cap need = Some c \<Longrightarrow> need \<le> c"
proof -
  assume ret: "grow_pow2 w cap need = Some c"
  show ?thesis
  proof (rule grow_pow2.raw_induct[where P = "\<lambda>w cap need c. need \<le> c", OF _ ret])
    fix f w cap need c
    assume "\<And>w cap need c. f w cap need = Some c \<Longrightarrow> need \<le> c"
      and "(if cap < need then f w (cap * 2 mod 2 ^ w) need else Some cap) = Some (c::nat)"
    then show "need \<le> c" by (auto split: if_splits)
  qed
qed

subsection \<open>Little-endian integers\<close>

lemma length_le_bytes [simp, layout_simps]: "length (le_bytes n v) = n"
  by (induction n arbitrary: v) auto

lemma le_nat_le_bytes [simp]: "le_nat (le_bytes n v) = v mod 256 ^ n"
proof (induction n arbitrary: v)
  case 0
  then show ?case by simp
next
  case (Suc n)
  have "unat (word_of_nat (v mod 256) :: byte) = v mod 256"
    by (simp add: unat_of_nat)
  with Suc show ?case
    by (simp add: mod_mult2_eq [of v 256 "256 ^ n"])
qed

lemma le_nat_bound: "le_nat bs < 256 ^ length bs"
proof (induction bs)
  case Nil
  then show ?case by simp
next
  case (Cons b bs)
  have "unat b < 256" using unsigned_less[of b] by simp
  moreover have "Suc (le_nat bs) \<le> 256 ^ length bs" using Cons by simp
  then have "256 * Suc (le_nat bs) \<le> 256 * 256 ^ length bs" by (rule mult_le_mono2)
  ultimately show ?case by simp
qed

lemma le_bytes_le_nat [simp]: "length bs = n \<Longrightarrow> le_bytes n (le_nat bs) = bs"
proof (induction bs arbitrary: n)
  case Nil
  then show ?case by simp
next
  case (Cons b bs)
  then obtain m where n: "n = Suc m" "length bs = m" by auto
  have u: "unat b < 256" using unsigned_less[of b] by simp
  then have "(unat b + 256 * le_nat bs) mod 256 = unat b"
    and "(unat b + 256 * le_nat bs) div 256 = le_nat bs" by auto
  with Cons.IH[OF n(2)] n u show ?case by simp
qed

subsection \<open>Exclusive or of blocks\<close>

lemma length_xor_bytes [simp]: "length (xor_bytes a b) = min (length a) (length b)"
  by (simp add: xor_bytes_def)

lemma nth_xor_bytes [simp]:
  "i < length a \<Longrightarrow> i < length b \<Longrightarrow> xor_bytes a b ! i = a ! i XOR b ! i"
  by (simp add: xor_bytes_def)

lemma length_zero_block [simp]: "length (zero_block n) = n"
  by (simp add: zero_block_def)

lemma nth_zero_block [simp]: "i < n \<Longrightarrow> zero_block n ! i = 0"
  by (simp add: zero_block_def)

lemma xor_bytes_zero [simp]: "length a = n \<Longrightarrow> xor_bytes a (zero_block n) = a"
  by (rule nth_equalityI) auto

lemma xor_bytes_commute: "xor_bytes a b = xor_bytes b a"
  by (rule nth_equalityI) (auto simp: xor.commute)

lemma xor_bytes_left_commute:
  "length a = length b \<Longrightarrow> length b = length c \<Longrightarrow>
   xor_bytes a (xor_bytes b c) = xor_bytes b (xor_bytes a c)"
  by (rule nth_equalityI) (auto simp: xor.left_commute)

lemma xor_bytes_cancel:
  "length a = length b \<Longrightarrow> xor_bytes a (xor_bytes a b) = b"
  by (rule nth_equalityI) (auto simp flip: xor.assoc)

lemma length_xor_blocks [simp]:
  "(\<And>i. i \<in> set is \<Longrightarrow> length (blk i) = n) \<Longrightarrow> length (xor_blocks n blk is) = n"
  by (induction "is") auto

lemma xor_blocks_remove1:
  assumes "\<And>i. i \<in> set is \<Longrightarrow> length (blk i) = n" "j \<in> set is"
  shows "xor_bytes (xor_blocks n blk is) (blk j) = xor_blocks n blk (remove1 j is)"
  using assms
proof (induction "is")
  case Nil
  then show ?case by simp
next
  case (Cons i "is")
  have len: "length (xor_blocks n blk is) = n" "length (blk i) = n" "length (blk j) = n"
    using Cons.prems by auto
  show ?case
  proof (cases "i = j")
    case True
    with len show ?thesis by (simp add: xor_bytes_commute[of _ "blk j"] xor_bytes_cancel)
  next
    case False
    then have j: "j \<in> set is" using Cons.prems(2) by auto
    then have IH: "xor_bytes (xor_blocks n blk is) (blk j) = xor_blocks n blk (remove1 j is)"
      using Cons by auto
    have "xor_bytes (xor_bytes (blk i) (xor_blocks n blk is)) (blk j)
        = xor_bytes (blk j) (xor_bytes (blk i) (xor_blocks n blk is))"
      by (rule xor_bytes_commute)
    also have "\<dots> = xor_bytes (blk i) (xor_bytes (blk j) (xor_blocks n blk is))"
      using len by (intro xor_bytes_left_commute) auto
    also have "\<dots> = xor_bytes (blk i) (xor_blocks n blk (remove1 j is))"
      by (simp add: xor_bytes_commute[of "blk j"] IH)
    finally show ?thesis using False by simp
  qed
qed

lemma xor_nats_remove1:
  "j \<in> set is \<Longrightarrow> xor_nats is XOR j = xor_nats (remove1 j is)"
proof (induction "is")
  case Nil
  then show ?case by simp
next
  case (Cons i "is")
  show ?case
  proof (cases "i = j")
    case True
    then show ?thesis by (simp add: xor.commute xor.left_commute flip: xor.assoc)
  next
    case False
    with Cons have IH: "xor_nats is XOR j = xor_nats (remove1 j is)" by auto
    have "(i XOR xor_nats is) XOR j = i XOR (xor_nats is XOR j)" by (rule xor.assoc)
    with IH False show ?thesis by simp
  qed
qed

lemma xor_nats_append [simp]: "xor_nats (is @ js) = xor_nats is XOR xor_nats js"
  by (induction "is") (auto simp: xor.assoc)

lemma remove1_filter_distinct:
  "distinct xs \<Longrightarrow> remove1 x (filter P xs) = filter (\<lambda>y. P y \<and> y \<noteq> x) xs"
  by (induction xs) (auto simp: remove1_idem intro: filter_cong)

subsection \<open>Flat tables\<close>

text \<open>Two cells of a table with rows of \<open>n\<close> cells coincide only when row and column do.\<close>

lemma table_index_inj:
  fixes i j k l n :: nat
  assumes "i * n + k = j * n + l" "k < n" "l < n"
  shows "i = j \<and> k = l"
proof -
  have "(i * n + k) div n = i" "(j * n + l) div n = j"
    using assms(2,3) by auto
  with assms(1) have "i = j" by metis
  with assms(1) show ?thesis by simp
qed

lemma table_index_less:
  fixes i k m n :: nat
  assumes "i < m" "k < n"
  shows "i * n + k < m * n"
proof -
  have "i * n + k < Suc i * n" using assms(2) by simp
  also have "\<dots> \<le> m * n" using assms(1) by (intro mult_le_mono1) auto
  finally show ?thesis .
qed

end
