(* ===== verification/Pyro_Protocol.thy ===== *)
theory Pyro_Protocol
  imports Pyro_Prelude
begin

text \<open>
  The wire protocol (\<open>proto/pyro_protocol.h\<close>): message types and their magic, the sequence numbers in a
  payload header, and the byte layout of every structure that is sent.  All of them are little-endian and
  have no padding.

  The locale \<open>wire_format\<close> states what a layout promises; every structure is an interpretation of it.
\<close>

section \<open>Message types\<close>

definition PYRO_VERSION_MASK :: u32 where
  "PYRO_VERSION_MASK = push_bit 16 0xaa02"

text \<open>The letters of the magic are the codes of \<open>P\<close>, \<open>Y\<close> and \<open>R\<close>.\<close>

definition PYRO_MAKE_MESSAGE_TYPE :: "u32 \<Rightarrow> u32 \<Rightarrow> u32" where
  "PYRO_MAKE_MESSAGE_TYPE t s =
     (push_bit 26 0x50 OR push_bit 20 0x59 OR push_bit 14 0x52 OR t OR push_bit 6 s) XOR PYRO_VERSION_MASK"

definition PYRO_MESSAGE_MAGIC_MASK :: u32 where
  "PYRO_MESSAGE_MAGIC_MASK = push_bit 14 (NOT 0)"

definition PYRO_MAX_PAYLOAD_SIZE :: nat where
  "PYRO_MAX_PAYLOAD_SIZE = 1024"

datatype pyro_message =
    MESSAGE_OK | MESSAGE_NAK | MESSAGE_AGAIN | MESSAGE_HELLO | MESSAGE_COOKIE | MESSAGE_KICK
  | MESSAGE_PROGRESS | MESSAGE_CODEC_PARAMETERS | MESSAGE_PHASE_OFFSET | MESSAGE_GAMEPAD_STATE | MESSAGE_PING

text \<open>The sizes of the structures that travel in messages.\<close>

definition sizeof_cookie :: nat where "sizeof_cookie = 8"
definition sizeof_kick_state :: nat where "sizeof_kick_state = 4"
definition sizeof_progress_report :: nat where "sizeof_progress_report = 40"
definition sizeof_codec_parameters :: nat where "sizeof_codec_parameters = 28"
definition sizeof_phase_offset :: nat where "sizeof_phase_offset = 4"
definition sizeof_gamepad_state :: nat where "sizeof_gamepad_state = 16"
definition sizeof_ping_state :: nat where "sizeof_ping_state = 2"
definition sizeof_ping_state_extended :: nat where "sizeof_ping_state_extended = 8"
definition sizeof_payload_header :: nat where "sizeof_payload_header = 24"
definition sizeof_message_type :: nat where "sizeof_message_type = 4"

lemmas sizeof_defs [layout_simps] =
  sizeof_cookie_def sizeof_kick_state_def sizeof_progress_report_def sizeof_codec_parameters_def
  sizeof_phase_offset_def sizeof_gamepad_state_def sizeof_ping_state_def sizeof_ping_state_extended_def
  sizeof_payload_header_def sizeof_message_type_def

definition PYRO_MAX_UDP_DATAGRAM_SIZE :: nat where
  "PYRO_MAX_UDP_DATAGRAM_SIZE = PYRO_MAX_PAYLOAD_SIZE + sizeof_payload_header"

definition PYRO_MAX_MESSAGE_BUFFER_LENGTH :: nat where
  "PYRO_MAX_MESSAGE_BUFFER_LENGTH = 255 + sizeof_message_type"

fun message_payload_size :: "pyro_message \<Rightarrow> nat" where
  "message_payload_size MESSAGE_COOKIE = sizeof_cookie"
| "message_payload_size MESSAGE_KICK = sizeof_kick_state"
| "message_payload_size MESSAGE_PROGRESS = sizeof_progress_report"
| "message_payload_size MESSAGE_CODEC_PARAMETERS = sizeof_codec_parameters"
| "message_payload_size MESSAGE_PHASE_OFFSET = sizeof_phase_offset"
| "message_payload_size MESSAGE_GAMEPAD_STATE = sizeof_gamepad_state"
| "message_payload_size MESSAGE_PING = sizeof_ping_state"
| "message_payload_size _ = 0"

fun message_number :: "pyro_message \<Rightarrow> u32" where
  "message_number MESSAGE_OK = 0"
| "message_number MESSAGE_NAK = 1"
| "message_number MESSAGE_AGAIN = 2"
| "message_number MESSAGE_HELLO = 3"
| "message_number MESSAGE_COOKIE = 4"
| "message_number MESSAGE_KICK = 5"
| "message_number MESSAGE_PROGRESS = 6"
| "message_number MESSAGE_CODEC_PARAMETERS = 7"
| "message_number MESSAGE_PHASE_OFFSET = 8"
| "message_number MESSAGE_GAMEPAD_STATE = 9"
| "message_number MESSAGE_PING = 10"

definition message_code :: "pyro_message \<Rightarrow> u32" where
  "message_code m = PYRO_MAKE_MESSAGE_TYPE (message_number m) (word_of_nat (message_payload_size m))"

definition pyro_message_validate_magic :: "u32 \<Rightarrow> bool" where
  "pyro_message_validate_magic v \<longleftrightarrow> PYRO_MAKE_MESSAGE_TYPE 0 0 = v AND PYRO_MESSAGE_MAGIC_MASK"

definition pyro_message_get_length :: "u32 \<Rightarrow> u32" where
  "pyro_message_get_length v = drop_bit 6 v AND 0xff"

text \<open>The \<open>switch\<close> over a message type: which case a code selects, if any.\<close>

definition all_messages :: "pyro_message list" where
  "all_messages = [MESSAGE_OK, MESSAGE_NAK, MESSAGE_AGAIN, MESSAGE_HELLO, MESSAGE_COOKIE, MESSAGE_KICK,
     MESSAGE_PROGRESS, MESSAGE_CODEC_PARAMETERS, MESSAGE_PHASE_OFFSET, MESSAGE_GAMEPAD_STATE, MESSAGE_PING]"

definition message_of_code :: "u32 \<Rightarrow> pyro_message option" where
  "message_of_code v = List.find (\<lambda>m. message_code m = v) all_messages"

section \<open>Payload flags and sequence numbers\<close>

definition PYRO_PAYLOAD_KEY_FRAME_BIT :: u32 where "PYRO_PAYLOAD_KEY_FRAME_BIT = 1"
definition PYRO_PAYLOAD_STREAM_TYPE_BIT :: u32 where "PYRO_PAYLOAD_STREAM_TYPE_BIT = 2"
definition PYRO_PAYLOAD_PACKET_FEC_BIT :: u32 where "PYRO_PAYLOAD_PACKET_FEC_BIT = 4"
definition PYRO_PAYLOAD_PACKET_BEGIN_BIT :: u32 where "PYRO_PAYLOAD_PACKET_BEGIN_BIT = 8"
definition PYRO_PAYLOAD_PACKET_SEQ_OFFSET :: nat where "PYRO_PAYLOAD_PACKET_SEQ_OFFSET = 4"
definition PYRO_PAYLOAD_SUBPACKET_SEQ_OFFSET :: nat where "PYRO_PAYLOAD_SUBPACKET_SEQ_OFFSET = 18"
definition PYRO_PAYLOAD_PACKET_SEQ_MASK :: u32 where "PYRO_PAYLOAD_PACKET_SEQ_MASK = 0x3fff"
definition PYRO_PAYLOAD_SUBPACKET_SEQ_MASK :: u32 where "PYRO_PAYLOAD_SUBPACKET_SEQ_MASK = 0x3fff"

definition pyro_payload_get_packet_seq :: "u32 \<Rightarrow> u32" where
  "pyro_payload_get_packet_seq flags = drop_bit PYRO_PAYLOAD_PACKET_SEQ_OFFSET flags AND PYRO_PAYLOAD_PACKET_SEQ_MASK"

definition pyro_payload_get_subpacket_seq :: "u32 \<Rightarrow> u32" where
  "pyro_payload_get_subpacket_seq flags =
     drop_bit PYRO_PAYLOAD_SUBPACKET_SEQ_OFFSET flags AND PYRO_PAYLOAD_SUBPACKET_SEQ_MASK"

definition pyro_payload_get_seq_delta :: "u32 \<Rightarrow> u32 \<Rightarrow> u32 \<Rightarrow> int" where
  "pyro_payload_get_seq_delta a b mw =
     (let d = (a - b) AND mw
      in if d \<le> drop_bit 1 mw then uint d else uint d - uint (mw + 1))"

definition pyro_payload_get_packet_seq_delta :: "u32 \<Rightarrow> u32 \<Rightarrow> int" where
  "pyro_payload_get_packet_seq_delta a b = pyro_payload_get_seq_delta a b PYRO_PAYLOAD_PACKET_SEQ_MASK"

definition pyro_payload_get_subpacket_seq_delta :: "u32 \<Rightarrow> u32 \<Rightarrow> int" where
  "pyro_payload_get_subpacket_seq_delta a b = pyro_payload_get_seq_delta a b PYRO_PAYLOAD_SUBPACKET_SEQ_MASK"

section \<open>Structures\<close>

definition put_word :: "nat \<Rightarrow> 'a::len word \<Rightarrow> byte list" where
  "put_word n w = le_bytes n (unat w)"

definition get_word :: "nat \<Rightarrow> nat \<Rightarrow> byte list \<Rightarrow> 'a::len word" where
  "get_word off n bs = word_of_nat (le_nat (take n (drop off bs)))"

record pyro_payload_header =
  pts_lo :: u32
  pts_hi :: u32
  dts_delta :: u32
  payload_size :: u32
  num_fec_blocks :: u16
  hdr_xor_blocks_even :: u8
  hdr_xor_blocks_odd :: u8
  encoded :: u32

definition put_header :: "pyro_payload_header \<Rightarrow> byte list" where
  "put_header h = put_word 4 (pts_lo h) @ put_word 4 (pts_hi h) @ put_word 4 (dts_delta h)
     @ put_word 4 (payload_size h) @ put_word 2 (num_fec_blocks h) @ put_word 1 (hdr_xor_blocks_even h)
     @ put_word 1 (hdr_xor_blocks_odd h) @ put_word 4 (encoded h)"

definition get_header :: "byte list \<Rightarrow> pyro_payload_header" where
  "get_header b = \<lparr>pts_lo = get_word 0 4 b, pts_hi = get_word 4 4 b, dts_delta = get_word 8 4 b,
     payload_size = get_word 12 4 b, num_fec_blocks = get_word 16 2 b, hdr_xor_blocks_even = get_word 18 1 b,
     hdr_xor_blocks_odd = get_word 19 1 b, encoded = get_word 20 4 b\<rparr>"

text \<open>The enumerations of codecs and colour profiles have 32-bit values; \<open>PYRO_VIDEO_CODEC_NONE\<close> is 0.\<close>

definition PYRO_VIDEO_CODEC_NONE :: u32 where "PYRO_VIDEO_CODEC_NONE = 0"
definition PYRO_VIDEO_CODEC_PYROWAVE :: u32 where "PYRO_VIDEO_CODEC_PYROWAVE = 4"

record pyro_codec_parameters =
  video_codec :: u32
  video_color_profile :: u32
  audio_codec :: u32
  frame_rate_num :: u16
  frame_rate_den :: u16
  codec_width :: u16
  codec_height :: u16
  channels :: u32
  rate :: u32

definition put_codec :: "pyro_codec_parameters \<Rightarrow> byte list" where
  "put_codec c = put_word 4 (video_codec c) @ put_word 4 (video_color_profile c) @ put_word 4 (audio_codec c)
     @ put_word 2 (frame_rate_num c) @ put_word 2 (frame_rate_den c) @ put_word 2 (codec_width c)
     @ put_word 2 (codec_height c) @ put_word 4 (channels c) @ put_word 4 (rate c)"

definition get_codec :: "byte list \<Rightarrow> pyro_codec_parameters" where
  "get_codec b = \<lparr>video_codec = get_word 0 4 b, video_color_profile = get_word 4 4 b, audio_codec = get_word 8 4 b,
     frame_rate_num = get_word 12 2 b, frame_rate_den = get_word 14 2 b, codec_width = get_word 16 2 b,
     codec_height = get_word 18 2 b, channels = get_word 20 4 b, rate = get_word 24 4 b\<rparr>"

record pyro_progress_report =
  total_received_packets :: u64
  total_recovered_packets :: u64
  total_dropped_video_packets :: u64
  total_dropped_audio_packets :: u64
  total_received_key_frames :: u64

definition put_progress :: "pyro_progress_report \<Rightarrow> byte list" where
  "put_progress p = put_word 8 (total_received_packets p) @ put_word 8 (total_recovered_packets p)
     @ put_word 8 (total_dropped_video_packets p) @ put_word 8 (total_dropped_audio_packets p)
     @ put_word 8 (total_received_key_frames p)"

definition get_progress :: "byte list \<Rightarrow> pyro_progress_report" where
  "get_progress b = \<lparr>total_received_packets = get_word 0 8 b, total_recovered_packets = get_word 8 8 b,
     total_dropped_video_packets = get_word 16 8 b, total_dropped_audio_packets = get_word 24 8 b,
     total_received_key_frames = get_word 32 8 b\<rparr>"

text \<open>Signed fields are kept as words and read with \<open>sint\<close>.\<close>

record pyro_gamepad_state =
  gp_seq :: u16
  buttons :: u16
  axis_lx :: u16
  axis_ly :: u16
  axis_rx :: u16
  axis_ry :: u16
  lz :: u8
  rz :: u8
  hat_x :: u8
  hat_y :: u8

definition put_gamepad :: "pyro_gamepad_state \<Rightarrow> byte list" where
  "put_gamepad g = put_word 2 (gp_seq g) @ put_word 2 (buttons g) @ put_word 2 (axis_lx g) @ put_word 2 (axis_ly g)
     @ put_word 2 (axis_rx g) @ put_word 2 (axis_ry g) @ put_word 1 (lz g) @ put_word 1 (rz g)
     @ put_word 1 (hat_x g) @ put_word 1 (hat_y g)"

definition get_gamepad :: "byte list \<Rightarrow> pyro_gamepad_state" where
  "get_gamepad b = \<lparr>gp_seq = get_word 0 2 b, buttons = get_word 2 2 b, axis_lx = get_word 4 2 b,
     axis_ly = get_word 6 2 b, axis_rx = get_word 8 2 b, axis_ry = get_word 10 2 b, lz = get_word 12 1 b,
     rz = get_word 13 1 b, hat_x = get_word 14 1 b, hat_y = get_word 15 1 b\<rparr>"

record pyro_ping_state_extended =
  pts_reference_lo :: u32
  pts_reference_hi :: u32

definition put_ping_extended :: "pyro_ping_state_extended \<Rightarrow> byte list" where
  "put_ping_extended p = put_word 4 (pts_reference_lo p) @ put_word 4 (pts_reference_hi p)"

definition get_ping_extended :: "byte list \<Rightarrow> pyro_ping_state_extended" where
  "get_ping_extended b = \<lparr>pts_reference_lo = get_word 0 4 b, pts_reference_hi = get_word 4 4 b\<rparr>"

definition PYRO_PAD_SOUTH_BIT :: u16 where "PYRO_PAD_SOUTH_BIT = 0x1"
definition PYRO_PAD_EAST_BIT :: u16 where "PYRO_PAD_EAST_BIT = 0x2"
definition PYRO_PAD_WEST_BIT :: u16 where "PYRO_PAD_WEST_BIT = 0x4"
definition PYRO_PAD_NORTH_BIT :: u16 where "PYRO_PAD_NORTH_BIT = 0x8"
definition PYRO_PAD_TL_BIT :: u16 where "PYRO_PAD_TL_BIT = 0x10"
definition PYRO_PAD_TR_BIT :: u16 where "PYRO_PAD_TR_BIT = 0x20"
definition PYRO_PAD_THUMBL_BIT :: u16 where "PYRO_PAD_THUMBL_BIT = 0x40"
definition PYRO_PAD_THUMBR_BIT :: u16 where "PYRO_PAD_THUMBR_BIT = 0x80"
definition PYRO_PAD_START_BIT :: u16 where "PYRO_PAD_START_BIT = 0x100"
definition PYRO_PAD_SELECT_BIT :: u16 where "PYRO_PAD_SELECT_BIT = 0x200"
definition PYRO_PAD_MODE_BIT :: u16 where "PYRO_PAD_MODE_BIT = 0x400"

definition PYRO_KICK_STATE_VIDEO_BIT :: u32 where "PYRO_KICK_STATE_VIDEO_BIT = 1"
definition PYRO_KICK_STATE_AUDIO_BIT :: u32 where "PYRO_KICK_STATE_AUDIO_BIT = 2"
definition PYRO_KICK_STATE_GAMEPAD_BIT :: u32 where "PYRO_KICK_STATE_GAMEPAD_BIT = 4"

section \<open>The contract of a layout\<close>

locale wire_format =
  fixes put :: "'a \<Rightarrow> byte list"
    and get :: "byte list \<Rightarrow> 'a"
    and sz :: nat
  assumes put_length: "length (put x) = sz"
    and get_put: "get (put x @ rest) = x"
    and put_get: "length b = sz \<Longrightarrow> put (get b) = b"
begin

lemma put_inj: "put x = put y \<longleftrightarrow> x = y"
  by (metis get_put)

lemma get_take: "sz \<le> length b \<Longrightarrow> get (take sz b) = get b"
  by (metis append_take_drop_id get_put length_take min_absorb2 put_get)

text \<open>A structure at the front of a message is read back, and what follows it is left.\<close>

lemma split_message: "take sz (put x @ rest) = put x \<and> drop sz (put x @ rest) = rest"
  by (simp add: put_length)

end

section \<open>Lemmas on words and layouts\<close>

lemma length_put_word [simp, layout_simps]: "length (put_word n w) = n"
  by (simp add: put_word_def)

lemma word_of_le_bytes:
  fixes w :: "'a::len word"
  assumes "LENGTH('a) = 8 * n"
  shows "word_of_nat (le_nat (le_bytes n (unat w))) = w"
proof -
  have "(256::nat) ^ n = 2 ^ LENGTH('a)" by (simp add: assms power_mult)
  then have "unat w mod 256 ^ n = unat w" using unsigned_less[of w] by simp
  then show ?thesis by simp
qed

lemma get_put_word:
  fixes w :: "'a::len word"
  assumes "LENGTH('a) = 8 * n" "length pre = off"
  shows "get_word off n (pre @ put_word n w @ rest) = w"
  using assms(2) word_of_le_bytes[OF assms(1), of w] by (simp add: get_word_def put_word_def)

lemma put_get_word:
  assumes "LENGTH('a::len) = 8 * n" "off + n \<le> length b"
  shows "put_word n (get_word off n b :: 'a word) = take n (drop off b)"
proof -
  have len: "length (take n (drop off b)) = n" using assms(2) by simp
  have "le_nat (take n (drop off b)) < 2 ^ LENGTH('a)"
    using le_nat_bound[of "take n (drop off b)"] len by (simp add: assms(1) power_mult)
  then have "unat (word_of_nat (le_nat (take n (drop off b))) :: 'a word) = le_nat (take n (drop off b))"
    by (simp add: unat_of_nat)
  with len show ?thesis by (simp add: put_word_def get_word_def)
qed

lemma byte_mod_256: "word_of_nat (unat (w :: byte) mod 256) = w"
  using word_of_le_bytes[of 1 w] by simp

lemmas word_layout_simps =
  get_word_def put_word_def word_of_le_bytes byte_mod_256

lemmas put_get_words = put_get_word[where 'a = 8 and n = "Suc 0"] put_get_word[where 'a = 16 and n = 2]
  put_get_word[where 'a = 32 and n = 4] put_get_word[where 'a = 64 and n = 8]

section \<open>Every structure meets the contract\<close>

interpretation header_format: wire_format put_header get_header sizeof_payload_header
proof
  show "length (put_header h) = sizeof_payload_header" for h
    by (simp add: put_header_def layout_simps)
  show "get_header (put_header h @ rest) = h" for h rest
    by (simp add: get_header_def put_header_def word_layout_simps del: le_nat_le_bytes)
  show "put_header (get_header b) = b" if "length b = sizeof_payload_header" for b
    using that
    by (simp add: put_header_def get_header_def put_get_words layout_simps)
       (auto simp: numeral_eq_Suc length_Suc_conv)
qed

interpretation codec_format: wire_format put_codec get_codec sizeof_codec_parameters
proof
  show "length (put_codec h) = sizeof_codec_parameters" for h
    by (simp add: put_codec_def layout_simps)
  show "get_codec (put_codec h @ rest) = h" for h rest
    by (simp add: get_codec_def put_codec_def word_layout_simps del: le_nat_le_bytes)
  show "put_codec (get_codec b) = b" if "length b = sizeof_codec_parameters" for b
    using that
    by (simp add: put_codec_def get_codec_def put_get_words layout_simps)
       (auto simp: numeral_eq_Suc length_Suc_conv)
qed

interpretation progress_format: wire_format put_progress get_progress sizeof_progress_report
proof
  show "length (put_progress h) = sizeof_progress_report" for h
    by (simp add: put_progress_def layout_simps)
  show "get_progress (put_progress h @ rest) = h" for h rest
    by (simp add: get_progress_def put_progress_def word_layout_simps del: le_nat_le_bytes)
  show "put_progress (get_progress b) = b" if "length b = sizeof_progress_report" for b
    using that
    by (simp add: put_progress_def get_progress_def put_get_words layout_simps)
       (auto simp: numeral_eq_Suc length_Suc_conv)
qed

interpretation gamepad_format: wire_format put_gamepad get_gamepad sizeof_gamepad_state
proof
  show "length (put_gamepad h) = sizeof_gamepad_state" for h
    by (simp add: put_gamepad_def layout_simps)
  show "get_gamepad (put_gamepad h @ rest) = h" for h rest
    by (simp add: get_gamepad_def put_gamepad_def word_layout_simps del: le_nat_le_bytes)
  show "put_gamepad (get_gamepad b) = b" if "length b = sizeof_gamepad_state" for b
    using that
    by (simp add: put_gamepad_def get_gamepad_def put_get_words layout_simps)
       (auto simp: numeral_eq_Suc length_Suc_conv)
qed

interpretation ping_extended_format: wire_format put_ping_extended get_ping_extended sizeof_ping_state_extended
proof
  show "length (put_ping_extended h) = sizeof_ping_state_extended" for h
    by (simp add: put_ping_extended_def layout_simps)
  show "get_ping_extended (put_ping_extended h @ rest) = h" for h rest
    by (simp add: get_ping_extended_def put_ping_extended_def word_layout_simps del: le_nat_le_bytes)
  show "put_ping_extended (get_ping_extended b) = b" if "length b = sizeof_ping_state_extended" for b
    using that
    by (simp add: put_ping_extended_def get_ping_extended_def put_get_words layout_simps)
qed

section \<open>Message types\<close>

text \<open>The magic leaves the low 14 bits to the number and the length of a message.\<close>

lemma take_bit_or_xor_low:
  fixes c v x :: u32
  assumes "take_bit 14 c = 0" "take_bit 14 v = 0"
  shows "take_bit 14 ((c OR x) XOR v) = take_bit 14 x"
  using assms by (simp add: take_bit_xor take_bit_or)

lemma message_type_low: "take_bit 14 (PYRO_MAKE_MESSAGE_TYPE t s) = take_bit 14 (t OR push_bit 6 s)"
proof -
  have "PYRO_MAKE_MESSAGE_TYPE t s
      = ((push_bit 26 0x50 OR push_bit 20 0x59 OR push_bit 14 0x52) OR (t OR push_bit 6 s)) XOR PYRO_VERSION_MASK"
    by (simp only: PYRO_MAKE_MESSAGE_TYPE_def or.assoc)
  moreover have "take_bit 14 (push_bit 26 0x50 OR push_bit 20 0x59 OR push_bit 14 0x52 :: u32) = 0"
    "take_bit 14 PYRO_VERSION_MASK = 0"
    by code_simp+
  ultimately show ?thesis by (simp only: take_bit_or_xor_low)
qed

lemma message_type_length:
  assumes "t AND 0x3f = t" "s AND 0xff = s"
  shows "pyro_message_get_length (PYRO_MAKE_MESSAGE_TYPE t s) = s"
proof (rule bit_word_eqI)
  fix n :: nat assume n: "n < LENGTH(32)"
  have ff: "bit (0xff :: u32) n \<longleftrightarrow> n < 8"
  proof -
    have "(0xff :: u32) = mask 8" by (simp add: mask_eq_exp_minus_1)
    then show ?thesis using n by (simp only: bit_mask_iff) simp
  qed
  have t: "\<not> bit t (n + 6)"
  proof
    assume "bit t (n + 6)"
    then have "bit (t AND 0x3f) (n + 6)" using assms(1) by simp
    moreover have "(0x3f :: u32) = mask 6" by (simp add: mask_eq_exp_minus_1)
    ultimately show False by (simp only: bit_and_iff bit_mask_iff) simp
  qed
  have s: "bit s n \<Longrightarrow> n < 8" using assms(2) ff by (metis bit_and_iff)
  have "bit (take_bit 14 (PYRO_MAKE_MESSAGE_TYPE t s)) (n + 6) \<longleftrightarrow> n + 6 < 14 \<and> bit (t OR push_bit 6 s) (n + 6)"
    unfolding message_type_low by (simp only: bit_take_bit_iff)
  then have "n + 6 < 14 \<Longrightarrow> bit (PYRO_MAKE_MESSAGE_TYPE t s) (n + 6) \<longleftrightarrow> bit s n"
    using t n by (simp add: bit_take_bit_iff bit_or_iff bit_push_bit_iff)
  with ff s show "bit (pyro_message_get_length (PYRO_MAKE_MESSAGE_TYPE t s)) n \<longleftrightarrow> bit s n"
    by (auto simp: pyro_message_get_length_def bit_and_iff bit_drop_bit_eq add.commute)
qed

text \<open>
  Every message of the protocol passes the magic check, carries the size of its structure in its length
  field, and is told apart from the others by its code.
\<close>

lemma magic_mask: "PYRO_MESSAGE_MAGIC_MASK = 0xffffc000" "PYRO_MAKE_MESSAGE_TYPE 0 0 = 0xef968000"
  by (simp_all add: PYRO_MESSAGE_MAGIC_MASK_def mask_eq_exp_minus_1 PYRO_MAKE_MESSAGE_TYPE_def PYRO_VERSION_MASK_def)

lemma message_codes:
  "message_code MESSAGE_OK = 0xef968000"
  "message_code MESSAGE_NAK = 0xef968001"
  "message_code MESSAGE_AGAIN = 0xef968002"
  "message_code MESSAGE_HELLO = 0xef968003"
  "message_code MESSAGE_COOKIE = 0xef968204"
  "message_code MESSAGE_KICK = 0xef968105"
  "message_code MESSAGE_PROGRESS = 0xef968a06"
  "message_code MESSAGE_CODEC_PARAMETERS = 0xef968707"
  "message_code MESSAGE_PHASE_OFFSET = 0xef968108"
  "message_code MESSAGE_GAMEPAD_STATE = 0xef968409"
  "message_code MESSAGE_PING = 0xef96808a"
  by (simp_all add: message_code_def PYRO_MAKE_MESSAGE_TYPE_def PYRO_VERSION_MASK_def sizeof_defs)

lemma message_code_facts:
  "pyro_message_validate_magic (message_code m)"
  "unat (pyro_message_get_length (message_code m)) = message_payload_size m"
  "message_of_code (message_code m) = Some m"
proof -
  show "pyro_message_validate_magic (message_code m)"
    by (cases m) (simp_all add: message_codes pyro_message_validate_magic_def magic_mask)
  show "unat (pyro_message_get_length (message_code m)) = message_payload_size m"
    by (cases m) (simp_all add: message_codes pyro_message_get_length_def sizeof_defs)
  show "message_of_code (message_code m) = Some m"
    by (cases m) (simp_all add: message_codes message_of_code_def all_messages_def)
qed

lemma message_of_code_Some: "message_of_code v = Some m \<longleftrightarrow> v = message_code m"
proof
  assume "message_of_code v = Some m"
  then show "v = message_code m" by (auto simp: message_of_code_def find_Some_iff)
qed (simp add: message_code_facts)

section \<open>Sequence numbers\<close>

lemma mask_14: "(0x3fff :: u32) = mask 14"
  by (simp add: mask_eq_exp_minus_1)

lemma uint_and_mask_14: "uint (w AND 0x3fff :: u32) = uint w mod 16384"
  by (simp only: mask_14 take_bit_eq_mask[symmetric] unsigned_take_bit_eq) (simp add: take_bit_eq_mod)

text \<open>The distance of two sequence numbers is their difference, read in the window from -8192 to 8191.\<close>

lemma packet_seq_delta_eq:
  "pyro_payload_get_packet_seq_delta a b = (uint a - uint b + 8192) mod 16384 - 8192"
proof -
  define r where "r = (uint a - uint b) mod 16384"
  have r: "0 \<le> r" "r < 16384" by (simp_all add: r_def)
  have d: "uint ((a - b) AND 0x3fff) = r"
  proof -
    have "uint (a - b) = (uint a - uint b) mod 2 ^ 32" by (simp add: uint_word_ariths)
    then show ?thesis by (simp add: uint_and_mask_14 r_def mod_mod_cancel)
  qed
  have half: "(a - b) AND 0x3fff \<le> (0x1fff :: u32) \<longleftrightarrow> r \<le> 8191" by (simp add: word_le_def d)
  have "(uint a - uint b + 8192) mod 16384 = (r + 8192) mod 16384" by (simp add: r_def mod_simps)
  moreover have "(r + 8192) mod 16384 = (if r \<le> 8191 then r + 8192 else r - 8192)"
  proof (cases "r \<le> 8191")
    case True
    with r show ?thesis by simp
  next
    case False
    have "(r + 8192) mod 16384 = (r + 8192 - 16384) mod 16384" by (simp only: minus_mod_self2)
    with False r show ?thesis by simp
  qed
  moreover have "drop_bit 1 (0x3fff :: u32) = 0x1fff" by code_simp
  ultimately show ?thesis
    using half d
    by (simp add: pyro_payload_get_packet_seq_delta_def pyro_payload_get_seq_delta_def
        PYRO_PAYLOAD_PACKET_SEQ_MASK_def Let_def)
qed

lemma subpacket_seq_delta_eq:
  "pyro_payload_get_subpacket_seq_delta a b = pyro_payload_get_packet_seq_delta a b"
  by (simp add: pyro_payload_get_subpacket_seq_delta_def pyro_payload_get_packet_seq_delta_def
      PYRO_PAYLOAD_PACKET_SEQ_MASK_def PYRO_PAYLOAD_SUBPACKET_SEQ_MASK_def)

lemma seq_delta_bounds:
  "-8192 \<le> pyro_payload_get_packet_seq_delta a b" "pyro_payload_get_packet_seq_delta a b \<le> 8191"
  by (simp_all add: packet_seq_delta_eq)

lemma seq_delta_window:
  assumes "uint a = x mod 16384" "uint b = y mod 16384" "-8192 \<le> x - y" "x - y \<le> 8191"
  shows "pyro_payload_get_packet_seq_delta a b = x - y"
proof -
  have "(uint a - uint b + 8192) mod 16384 = (x - y + 8192) mod 16384"
    unfolding assms(1,2) by (metis mod_add_left_eq mod_diff_eq)
  also have "\<dots> = x - y + 8192" using assms(3,4) by simp
  finally show ?thesis by (simp add: packet_seq_delta_eq)
qed

section \<open>Payload flags\<close>

definition payload_flags :: "bool \<Rightarrow> bool \<Rightarrow> bool \<Rightarrow> bool \<Rightarrow> u32 \<Rightarrow> u32 \<Rightarrow> u32" where
  "payload_flags key audio fec beg seq sub =
     (if key then PYRO_PAYLOAD_KEY_FRAME_BIT else 0) OR (if audio then PYRO_PAYLOAD_STREAM_TYPE_BIT else 0)
     OR (if fec then PYRO_PAYLOAD_PACKET_FEC_BIT else 0) OR (if beg then PYRO_PAYLOAD_PACKET_BEGIN_BIT else 0)
     OR push_bit PYRO_PAYLOAD_PACKET_SEQ_OFFSET seq OR push_bit PYRO_PAYLOAD_SUBPACKET_SEQ_OFFSET sub"

lemma flag_bits:
  "PYRO_PAYLOAD_KEY_FRAME_BIT = 2 ^ 0" "PYRO_PAYLOAD_STREAM_TYPE_BIT = 2 ^ 1"
  "PYRO_PAYLOAD_PACKET_FEC_BIT = 2 ^ 2" "PYRO_PAYLOAD_PACKET_BEGIN_BIT = 2 ^ 3"
  by (simp_all add: PYRO_PAYLOAD_KEY_FRAME_BIT_def PYRO_PAYLOAD_STREAM_TYPE_BIT_def
      PYRO_PAYLOAD_PACKET_FEC_BIT_def PYRO_PAYLOAD_PACKET_BEGIN_BIT_def)

lemma bit_flags:
  "bit PYRO_PAYLOAD_KEY_FRAME_BIT k \<longleftrightarrow> k = 0" "bit PYRO_PAYLOAD_STREAM_TYPE_BIT k \<longleftrightarrow> k = 1"
  "bit PYRO_PAYLOAD_PACKET_FEC_BIT k \<longleftrightarrow> k = 2" "bit PYRO_PAYLOAD_PACKET_BEGIN_BIT k \<longleftrightarrow> k = 3"
  unfolding flag_bits bit_exp_iff by auto

lemma and_flag_nonzero:
  "w AND PYRO_PAYLOAD_KEY_FRAME_BIT \<noteq> 0 \<longleftrightarrow> bit w 0" "w AND PYRO_PAYLOAD_STREAM_TYPE_BIT \<noteq> 0 \<longleftrightarrow> bit w 1"
  "w AND PYRO_PAYLOAD_PACKET_FEC_BIT \<noteq> 0 \<longleftrightarrow> bit w 2" "w AND PYRO_PAYLOAD_PACKET_BEGIN_BIT \<noteq> 0 \<longleftrightarrow> bit w 3"
  unfolding flag_bits by (simp_all only: and_exp_eq_0_iff_not_bit not_not)

lemma small_no_bit: "seq AND 0x3fff = (seq :: u32) \<Longrightarrow> 14 \<le> j \<Longrightarrow> \<not> bit seq j"
  by (metis bit_and_iff bit_mask_iff mask_14 not_le)

lemma bit_payload_flags:
  assumes "seq AND 0x3fff = seq" "sub AND 0x3fff = sub" "k < 32"
  shows "bit (payload_flags key audio fec beg seq sub) k \<longleftrightarrow>
    (if k = 0 then key else if k = 1 then audio else if k = 2 then fec else if k = 3 then beg
     else if k < 18 then bit seq (k - 4) else bit sub (k - 18))"
proof -
  have "k \<ge> 18 \<Longrightarrow> \<not> bit seq (k - 4)" using small_no_bit[OF assms(1)] by simp
  then show ?thesis
    using assms(3)
    by (auto simp: payload_flags_def bit_flags bit_or_iff bit_push_bit_iff
        PYRO_PAYLOAD_PACKET_SEQ_OFFSET_def PYRO_PAYLOAD_SUBPACKET_SEQ_OFFSET_def)
qed

lemma payload_flags_fields:
  fixes key audio fec beg :: bool
  assumes "seq AND 0x3fff = seq" "sub AND 0x3fff = sub"
  defines "e \<equiv> payload_flags key audio fec beg seq sub"
  shows "pyro_payload_get_packet_seq e = seq" "pyro_payload_get_subpacket_seq e = sub"
    "e AND PYRO_PAYLOAD_KEY_FRAME_BIT \<noteq> 0 \<longleftrightarrow> key" "e AND PYRO_PAYLOAD_STREAM_TYPE_BIT \<noteq> 0 \<longleftrightarrow> audio"
    "e AND PYRO_PAYLOAD_PACKET_FEC_BIT \<noteq> 0 \<longleftrightarrow> fec" "e AND PYRO_PAYLOAD_PACKET_BEGIN_BIT \<noteq> 0 \<longleftrightarrow> beg"
proof -
  note b = bit_payload_flags[OF assms(1,2), of _ key audio fec beg, folded e_def]
  have m: "bit (0x3fff :: u32) k \<longleftrightarrow> k < 14" if "k < 32" for k
    using that unfolding mask_14 bit_mask_iff by simp
  show "pyro_payload_get_packet_seq e = seq"
  proof (rule bit_word_eqI)
    fix k :: nat assume "k < LENGTH(32)"
    then show "bit (pyro_payload_get_packet_seq e) k \<longleftrightarrow> bit seq k"
      using b[of "k + 4"] m[of k] small_no_bit[OF assms(1), of k]
      by (auto simp: pyro_payload_get_packet_seq_def bit_and_iff bit_drop_bit_eq
          PYRO_PAYLOAD_PACKET_SEQ_OFFSET_def PYRO_PAYLOAD_PACKET_SEQ_MASK_def add.commute)
  qed
  show "pyro_payload_get_subpacket_seq e = sub"
  proof (rule bit_word_eqI)
    fix k :: nat assume "k < LENGTH(32)"
    then show "bit (pyro_payload_get_subpacket_seq e) k \<longleftrightarrow> bit sub k"
      using b[of "k + 18"] m[of k] small_no_bit[OF assms(2), of k]
      by (auto simp: pyro_payload_get_subpacket_seq_def bit_and_iff bit_drop_bit_eq
          PYRO_PAYLOAD_SUBPACKET_SEQ_OFFSET_def PYRO_PAYLOAD_SUBPACKET_SEQ_MASK_def add.commute)
  qed
  show "e AND PYRO_PAYLOAD_KEY_FRAME_BIT \<noteq> 0 \<longleftrightarrow> key" "e AND PYRO_PAYLOAD_STREAM_TYPE_BIT \<noteq> 0 \<longleftrightarrow> audio"
    "e AND PYRO_PAYLOAD_PACKET_FEC_BIT \<noteq> 0 \<longleftrightarrow> fec" "e AND PYRO_PAYLOAD_PACKET_BEGIN_BIT \<noteq> 0 \<longleftrightarrow> beg"
    unfolding and_flag_nonzero by (simp_all add: b)
qed

end
