(* ===== verification/LT_Shuffle.thy ===== *)
theory LT_Shuffle
  imports Pyro_Prelude
begin

text \<open>
  The index shuffler of the FEC codec (\<open>lt/lt_shuffle.hpp\<close>, \<open>lt/lt_shuffle.cpp\<close>).  Encoder and decoder
  each own one and must draw the same data-block indices from the same seed.

  The first part is the code: the generator \<open>std::minstd_rand\<close>, the growing array, \<open>seed\<close>, \<open>flush\<close>,
  \<open>begin\<close> and \<open>pick\<close>.  The second part is what it promises: an abstract pool of remaining indices, the
  locale \<open>index_sampler\<close> that states the contract over that pool, and the interpretation of the locale
  on the code.
\<close>

section \<open>The code\<close>

text \<open>
  \<open>std::minstd_rand\<close> is the linear congruential generator with multiplier 48271, increment 0 and
  modulus \<open>2^31 - 1\<close>; a seed that is 0 modulo the modulus becomes 1.
\<close>

definition minstd_seed :: "nat \<Rightarrow> nat" where
  "minstd_seed s = (let r = s mod 2147483647 in if r = 0 then 1 else r)"

definition minstd_next :: "nat \<Rightarrow> nat" where
  "minstd_next x = (48271 * x) mod 2147483647"

text \<open>
  \<open>data\<close> is the array of \<open>capacity\<close> cells (no array at all while \<open>capacity\<close> is 0).  A cell of a new
  array is indeterminate until it is written.
\<close>

record shuffler =
  rnd :: nat
  sh_data :: "nat option list"
  capacity :: nat
  entries :: nat

definition shuffler_new :: shuffler where
  "shuffler_new = \<lparr>rnd = 1, sh_data = [], capacity = 0, entries = 0\<rparr>"

definition seed :: "nat \<Rightarrow> shuffler \<Rightarrow> shuffler" where
  "seed s sh = sh\<lparr>rnd := minstd_seed s\<rparr>"

definition flush :: "shuffler \<Rightarrow> shuffler" where
  "flush sh = sh\<lparr>entries := 0\<rparr>"

text \<open>
  Growing: double the capacity (a 32-bit integer) until it suffices, allocate, and copy the
  \<open>entries\<close> live cells.
\<close>

definition reserve :: "nat \<Rightarrow> shuffler \<Rightarrow> shuffler outcome" where
  "reserve total_elements sh =
     (if capacity sh < total_elements then do {
        cap \<leftarrow> grow_pow2 32 (if capacity sh = 0 then 1 else capacity sh) total_elements;
        let kept = take (entries sh) (sh_data sh);
        Some (sh\<lparr>capacity := cap, sh_data := kept @ replicate (cap - length kept) None\<rparr>)
      } else Some sh)"

definition begin_pick :: "nat \<Rightarrow> nat \<Rightarrow> shuffler \<Rightarrow> shuffler outcome" where
  "begin_pick total_elements selected_elements sh = do {
     guard (total_elements \<ge> selected_elements);
     sh \<leftarrow> reserve total_elements sh;
     if entries sh < selected_elements
     then do {
       d \<leftarrow> write_bytes (sh_data sh) 0 (map Some [0..<total_elements]);
       Some (sh\<lparr>sh_data := d, entries := total_elements\<rparr>)
     }
     else Some sh
   }"

definition pick :: "shuffler \<Rightarrow> (nat \<times> shuffler) outcome" where
  "pick sh = do {
     guard (entries sh \<noteq> 0);
     let r = minstd_next (rnd sh);
     let index = r mod entries sh;
     ret \<leftarrow> load_cell (sh_data sh) index;
     back \<leftarrow> load_cell (sh_data sh) (entries sh - 1);
     d \<leftarrow> store (sh_data sh) index (Some back);
     Some (ret, sh\<lparr>rnd := r, sh_data := d, entries := entries sh - 1\<rparr>)
   }"

section \<open>The contract\<close>

text \<open>A pool: the generator's state and the indices that are still to be drawn.\<close>

type_synonym pool = "nat \<times> nat list"

definition pool_begin :: "nat \<Rightarrow> nat \<Rightarrow> pool \<Rightarrow> pool" where
  "pool_begin n k p = (fst p, if length (snd p) < k then [0..<n] else snd p)"

definition pool_pick :: "pool \<Rightarrow> nat \<times> pool" where
  "pool_pick p =
     (let r = minstd_next (fst p); i = r mod length (snd p)
      in (snd p ! i, r, butlast ((snd p)[i := last (snd p)])))"

primrec pool_draws :: "nat \<Rightarrow> pool \<Rightarrow> nat list \<times> pool" where
  "pool_draws 0 p = ([], p)"
| "pool_draws (Suc k) p =
     (let (x, p1) = pool_pick p; (xs, p2) = pool_draws k p1 in (x # xs, p2))"

text \<open>The index lists of consecutive groups of draws, one per FEC block.\<close>

primrec pool_groups :: "nat \<Rightarrow> nat list \<Rightarrow> pool \<Rightarrow> nat list list \<times> pool" where
  "pool_groups n [] p = ([], p)"
| "pool_groups n (k # ks) p =
     (let (xs, p1) = pool_draws k (pool_begin n k p); (xss, p2) = pool_groups n ks p1
      in (xs # xss, p2))"

definition pool_wf :: "nat \<Rightarrow> pool \<Rightarrow> bool" where
  "pool_wf n p \<longleftrightarrow> distinct (snd p) \<and> set (snd p) \<subseteq> {..<n}"

text \<open>The contract between the shuffler and the two codecs that draw from it.\<close>

locale index_sampler =
  fixes beg :: "nat \<Rightarrow> nat \<Rightarrow> 's \<Rightarrow> 's option"
    and draw :: "'s \<Rightarrow> (nat \<times> 's) option"
    and pool :: "'s \<Rightarrow> pool"
    and inv :: "'s \<Rightarrow> bool"
    and max_total :: nat
  assumes beg_refines:
      "inv s \<Longrightarrow> k \<le> n \<Longrightarrow> n \<le> max_total \<Longrightarrow>
       \<exists>s'. beg n k s = Some s' \<and> inv s' \<and> pool s' = pool_begin n k (pool s)"
    and draw_refines:
      "inv s \<Longrightarrow> snd (pool s) \<noteq> [] \<Longrightarrow>
       \<exists>s'. draw s = Some (fst (pool_pick (pool s)), s') \<and> inv s'
          \<and> pool s' = snd (pool_pick (pool s))"
begin

text \<open>
  A counted loop that draws one index per round is a loop over the drawn list: drawing does not
  depend on what the body does with the index.
\<close>

lemma draw_loop:
  assumes "inv s" "j \<le> i + length (snd (pool s))"
  shows "\<exists>s'. inv s' \<and> pool s' = snd (pool_draws (j - i) (pool s)) \<and>
    for_list (\<lambda>m (s, t). do { (x, s1) \<leftarrow> draw s; t1 \<leftarrow> body m x t; Some (s1, t1) }) [i..<j] (s, t)
    = do { t' \<leftarrow> for_list (\<lambda>(m, x). body m x) (zip [i..<j] (fst (pool_draws (j - i) (pool s)))) t;
           Some (s', t') }"
  using assms
proof (induction "j - i" arbitrary: i s t)
  case 0
  then show ?case by auto
next
  case (Suc d)
  then have ij: "i < j" "j - i = Suc (j - Suc i)" by simp_all
  from Suc.prems(2) ij have ne: "snd (pool s) \<noteq> []" by auto
  from draw_refines[OF Suc.prems(1) ne] obtain s1 where
    s1: "draw s = Some (fst (pool_pick (pool s)), s1)" "inv s1" "pool s1 = snd (pool_pick (pool s))"
    by blast
  have len: "length (snd (pool s1)) = length (snd (pool s)) - 1"
    by (simp add: s1(3) pool_pick_def Let_def)
  have j: "j \<le> Suc i + length (snd (pool s1))" using Suc.prems(2) ne len by (cases "snd (pool s)") auto
  have upt: "[i..<j] = i # [Suc i..<j]" using ij(1) by (rule upt_conv_Cons)
  have draws: "pool_draws (j - i) (pool s)
      = (fst (pool_pick (pool s)) # fst (pool_draws (j - Suc i) (pool s1)),
         snd (pool_draws (j - Suc i) (pool s1)))"
    by (simp add: ij(2) s1(3) split: prod.split)
  define x where "x = fst (pool_pick (pool s))"
  from Suc.hyps(2) have "d = j - Suc i" by simp
  note IH = Suc.hyps(1)[OF this s1(2) j]
  show ?case
  proof (cases "body i x t")
    case None
    from IH[of t] obtain s' where
      "inv s'" "pool s' = snd (pool_draws (j - Suc i) (pool s1))" by blast
    with None show ?thesis
      by (intro exI[of _ s']) (simp add: upt draws s1(1) x_def)
  next
    case (Some t1)
    from IH[of t1] obtain s' where
      "inv s'" "pool s' = snd (pool_draws (j - Suc i) (pool s1))"
      "for_list (\<lambda>m (s, t). do { (x, s1) \<leftarrow> draw s; t1 \<leftarrow> body m x t; Some (s1, t1) }) [Suc i..<j] (s1, t1)
       = do { t' \<leftarrow> for_list (\<lambda>(m, x). body m x) (zip [Suc i..<j] (fst (pool_draws (j - Suc i) (pool s1)))) t1;
              Some (s', t') }"
      by blast
    with Some show ?thesis
      by (intro exI[of _ s']) (simp add: upt draws s1(1) x_def)
  qed
qed

end

section \<open>Lemmas on pools\<close>

lemma pool_pick_props:
  assumes "snd p \<noteq> []" "distinct (snd p)"
  shows "fst (pool_pick p) \<in> set (snd p)"
    and "set (snd (snd (pool_pick p))) = set (snd p) - {fst (pool_pick p)}"
    and "distinct (snd (snd (pool_pick p)))"
    and "length (snd (snd (pool_pick p))) = length (snd p) - 1"
proof -
  define i where "i = minstd_next (fst p) mod length (snd p)"
  have i: "i < length (snd p)" using assms(1) by (simp add: i_def)
  obtain ys z where yz: "snd p = ys @ [z]" using assms(1) by (metis append_butlast_last_id)
  define rest where "rest = butlast ((snd p)[i := last (snd p)])"
  have pk: "pool_pick p = (snd p ! i, minstd_next (fst p), rest)"
    by (simp add: pool_pick_def Let_def i_def rest_def)
  have rest: "set rest = set (snd p) - {snd p ! i} \<and> distinct rest"
  proof (cases "i = length ys")
    case True
    then have "rest = ys" "snd p ! i = z" by (auto simp: rest_def yz list_update_append nth_append)
    with assms(2) show ?thesis by (auto simp: yz)
  next
    case False
    with i have il: "i < length ys" by (simp add: yz)
    then have r: "rest = ys[i := z]" "snd p ! i = ys ! i"
      by (auto simp: rest_def yz list_update_append nth_append butlast_append)
    have z: "z \<notin> set ys" "distinct ys" using assms(2) by (auto simp: yz)
    have "set (ys[i := z]) = insert z (set ys - {ys ! i})"
      using il z(2) by (rule set_update_distinct[rotated])
    moreover have "distinct (ys[i := z])" using z il by (simp add: distinct_list_update)
    moreover have "z \<noteq> ys ! i" using z(1) il by (metis nth_mem)
    moreover have "set (snd p) = insert z (set ys)" by (simp add: yz)
    ultimately show ?thesis by (simp add: r insert_Diff_if)
  qed
  show "fst (pool_pick p) \<in> set (snd p)" using i by (simp add: pk)
  show "set (snd (snd (pool_pick p))) = set (snd p) - {fst (pool_pick p)}"
    and "distinct (snd (snd (pool_pick p)))" using rest by (simp_all add: pk)
  show "length (snd (snd (pool_pick p))) = length (snd p) - 1" by (simp add: pk rest_def)
qed

lemma pool_draws_props:
  assumes "k \<le> length (snd p)" "distinct (snd p)"
  shows "distinct (fst (pool_draws k p)) \<and> length (fst (pool_draws k p)) = k
    \<and> set (fst (pool_draws k p)) \<subseteq> set (snd p)
    \<and> set (snd (snd (pool_draws k p))) = set (snd p) - set (fst (pool_draws k p))
    \<and> distinct (snd (snd (pool_draws k p)))
    \<and> length (snd (snd (pool_draws k p))) = length (snd p) - k"
  using assms
proof (induction k arbitrary: p)
  case 0
  then show ?case by simp
next
  case (Suc k)
  then have ne: "snd p \<noteq> []" by auto
  obtain x p1 where x: "pool_pick p = (x, p1)" by (rule prod.exhaust)
  note pp = pool_pick_props[OF ne Suc.prems(2), unfolded x fst_conv snd_conv]
  obtain xs p2 where xs: "pool_draws k p1 = (xs, p2)" by (rule prod.exhaust)
  have "k \<le> length (snd p1)" using Suc.prems(1) pp(4) by simp
  from Suc.IH[OF this pp(3)] show ?case
    using pp ne by (auto simp: x xs)
qed

lemma pool_begin_wf:
  "pool_wf n p \<Longrightarrow> k \<le> n \<Longrightarrow> pool_wf n (pool_begin n k p) \<and> k \<le> length (snd (pool_begin n k p))"
  by (auto simp: pool_wf_def pool_begin_def)

lemma pool_draws_wf:
  "pool_wf n p \<Longrightarrow> k \<le> length (snd p) \<Longrightarrow> pool_wf n (snd (pool_draws k p))"
  using pool_draws_props[of k p] by (auto simp: pool_wf_def)

lemma pool_groups_props:
  assumes "pool_wf n p" "\<forall>k \<in> set ks. k \<le> n"
  shows "length (fst (pool_groups n ks p)) = length ks
    \<and> (\<forall>f < length ks. distinct (fst (pool_groups n ks p) ! f)
        \<and> length (fst (pool_groups n ks p) ! f) = ks ! f
        \<and> set (fst (pool_groups n ks p) ! f) \<subseteq> {..<n})
    \<and> pool_wf n (snd (pool_groups n ks p))"
  using assms
proof (induction ks arbitrary: p)
  case Nil
  then show ?case by simp
next
  case (Cons k ks)
  have pb: "pool_wf n (pool_begin n k p)" "k \<le> length (snd (pool_begin n k p))"
    using pool_begin_wf[of n p k] Cons.prems by auto
  obtain xs p1 where xs: "pool_draws k (pool_begin n k p) = (xs, p1)" by (rule prod.exhaust)
  obtain xss p2 where xss: "pool_groups n ks p1 = (xss, p2)" by (rule prod.exhaust)
  have p1: "pool_wf n p1" using pool_draws_wf[OF pb] by (simp add: xs)
  have d: "distinct xs \<and> length xs = k \<and> set xs \<subseteq> {..<n}"
    using pool_draws_props[of k "pool_begin n k p"] pb by (auto simp: xs pool_wf_def)
  have IH: "length xss = length ks \<and> (\<forall>f < length ks. distinct (xss ! f) \<and> length (xss ! f) = ks ! f
        \<and> set (xss ! f) \<subseteq> {..<n}) \<and> pool_wf n p2"
    using Cons.IH[OF p1] Cons.prems(2) by (simp add: xss)
  show ?case
    using d IH by (auto simp: xs xss nth_Cons split: nat.splits)
qed

lemma pool_groups_snoc:
  "pool_groups n (ks @ [k]) p =
     (let (xss, p1) = pool_groups n ks p; (xs, p2) = pool_draws k (pool_begin n k p1)
      in (xss @ [xs], p2))"
  by (induction ks arbitrary: p) (auto split: prod.splits)

text \<open>Two groups in a row that together fit the pool draw disjoint indices.\<close>

lemma two_groups_disjoint:
  assumes "k0 + k1 \<le> n" "0 < k0" "0 < k1"
  shows "set (fst (pool_groups n [k0, k1] (r, [])) ! 0)
    \<inter> set (fst (pool_groups n [k0, k1] (r, [])) ! 1) = {}"
proof -
  let ?p0 = "pool_begin n k0 (r, [])"
  have p0: "?p0 = (r, [0..<n])" using assms(2) by (simp add: pool_begin_def)
  obtain xs p1 where xs: "pool_draws k0 (r, [0..<n]) = (xs, p1)" by (rule prod.exhaust)
  from pool_draws_props[of k0 "(r, [0..<n])"] assms(1) have
    d: "set (snd p1) = {..<n} - set xs" "length (snd p1) = n - k0" "distinct (snd p1)"
    by (auto simp: xs atLeast0LessThan)
  have p1: "pool_begin n k1 p1 = p1"
    using d(2) assms(1) by (cases p1) (auto simp: pool_begin_def)
  obtain ys p2 where ys: "pool_draws k1 p1 = (ys, p2)" by (rule prod.exhaust)
  from pool_draws_props[of k1 p1] d assms(1) have "set ys \<subseteq> {..<n} - set xs"
    by (auto simp: ys)
  then show ?thesis by (auto simp: p0 xs ys p1)
qed

section \<open>The code meets the contract\<close>

definition shuffler_inv :: "shuffler \<Rightarrow> bool" where
  "shuffler_inv sh \<longleftrightarrow>
     length (sh_data sh) = capacity sh \<and> entries sh \<le> capacity sh
     \<and> (\<forall>i < entries sh. sh_data sh ! i \<noteq> None)
     \<and> (capacity sh = 0 \<or> (\<exists>k \<le> 31. capacity sh = 2 ^ k))"

definition shuffler_pool :: "shuffler \<Rightarrow> pool" where
  "shuffler_pool sh = (rnd sh, map the (take (entries sh) (sh_data sh)))"

lemma shuffler_inv_new [simp]: "shuffler_inv shuffler_new"
  by (simp add: shuffler_inv_def shuffler_new_def)

lemma shuffler_inv_seed [simp]: "shuffler_inv (seed s sh) = shuffler_inv sh"
  by (simp add: shuffler_inv_def seed_def)

lemma shuffler_inv_flush [simp]: "shuffler_inv sh \<Longrightarrow> shuffler_inv (flush sh)"
  by (simp add: shuffler_inv_def flush_def)

text \<open>Whatever was drawn before, seeding and flushing leave the same pool, in either order.\<close>

lemma shuffler_pool_seeded [simp]:
  "shuffler_pool (flush (seed s sh)) = (minstd_seed s, [])"
  "shuffler_pool (seed s (flush sh)) = (minstd_seed s, [])"
  by (simp_all add: shuffler_pool_def seed_def flush_def)

lemma length_shuffler_pool: "shuffler_inv sh \<Longrightarrow> length (snd (shuffler_pool sh)) = entries sh"
  by (simp add: shuffler_inv_def shuffler_pool_def)

text \<open>The doubling loop ends at a power of two that suffices.\<close>

lemma grow_pow2_power:
  assumes "k + d = w" "need \<le> 2 ^ w"
  shows "\<exists>j \<le> w. grow_pow2 (Suc w) (2 ^ k) need = Some (2 ^ j) \<and> need \<le> 2 ^ j"
  using assms
proof (induction d arbitrary: k)
  case 0
  then show ?case by (subst grow_pow2.simps) auto
next
  case (Suc d)
  show ?case
  proof (cases "2 ^ k < need")
    case True
    have "(2::nat) ^ Suc k < 2 ^ Suc w"
      using Suc.prems(1) by (intro power_strict_increasing) auto
    then have eq: "(2 ^ k * 2) mod 2 ^ Suc w = (2::nat) ^ Suc k"
      by (simp only: power_Suc mult.commute mod_less)
    from Suc.IH[of "Suc k"] Suc.prems obtain j where
      "j \<le> w" "grow_pow2 (Suc w) (2 ^ Suc k) need = Some (2 ^ j)" "need \<le> 2 ^ j" by auto
    with True eq show ?thesis
      by (subst grow_pow2.simps) (auto simp del: power_Suc)
  next
    case False
    with Suc.prems show ?thesis by (subst grow_pow2.simps) (auto intro!: exI[of _ k])
  qed
qed

lemma reserve_ok:
  assumes "shuffler_inv sh" "total_elements \<le> 2 ^ 31"
  shows "\<exists>sh'. reserve total_elements sh = Some sh' \<and> shuffler_inv sh' \<and> total_elements \<le> capacity sh'
    \<and> entries sh' = entries sh \<and> shuffler_pool sh' = shuffler_pool sh"
proof (cases "capacity sh < total_elements")
  case False
  with assms show ?thesis by (auto simp: reserve_def)
next
  case True
  define c0 where "c0 = (if capacity sh = 0 then 1 else capacity sh)"
  obtain k where k: "k \<le> 31" "c0 = 2 ^ k"
  proof (cases "capacity sh = 0")
    case True
    then show thesis by (intro that[of 0]) (auto simp: c0_def)
  next
    case False
    with assms(1) show thesis by (auto simp: c0_def shuffler_inv_def intro: that)
  qed
  from grow_pow2_power[of k "31 - k" 31 total_elements] k assms(2) obtain j where
    j: "j \<le> 31" "grow_pow2 32 c0 total_elements = Some (2 ^ j)" "total_elements \<le> 2 ^ j" by auto
  define kept where "kept = take (entries sh) (sh_data sh)"
  have kept: "length kept = entries sh" "entries sh < 2 ^ j"
    using assms(1) True j(3) by (auto simp: kept_def shuffler_inv_def)
  let ?sh' = "sh\<lparr>capacity := 2 ^ j, sh_data := kept @ replicate (2 ^ j - length kept) None\<rparr>"
  have "shuffler_inv ?sh'"
    using kept assms(1) j(1) by (auto simp: shuffler_inv_def nth_append kept_def)
  moreover have "shuffler_pool ?sh' = shuffler_pool sh"
    using kept by (simp add: shuffler_pool_def) (simp add: kept_def)
  moreover have "reserve total_elements sh = Some ?sh'"
    using True j(2) by (simp add: reserve_def c0_def[symmetric] kept_def Let_def)
  ultimately show ?thesis using j(3) by auto
qed

lemma begin_pick_refines:
  assumes "shuffler_inv sh" "k \<le> n" "n \<le> 2 ^ 31"
  shows "\<exists>sh'. begin_pick n k sh = Some sh' \<and> shuffler_inv sh'
    \<and> shuffler_pool sh' = pool_begin n k (shuffler_pool sh)"
proof -
  from reserve_ok[OF assms(1,3)] obtain sh1 where
    sh1: "reserve n sh = Some sh1" "shuffler_inv sh1" "n \<le> capacity sh1"
      "entries sh1 = entries sh" "shuffler_pool sh1 = shuffler_pool sh" by blast
  have len: "length (snd (shuffler_pool sh)) = entries sh" using assms(1) by (rule length_shuffler_pool)
  show ?thesis
  proof (cases "entries sh1 < k")
    case False
    with sh1 assms(2) len show ?thesis by (auto simp: begin_pick_def pool_begin_def)
  next
    case True
    let ?d = "map Some [0..<n] @ drop n (sh_data sh1)"
    have lenc: "length (sh_data sh1) = capacity sh1" using sh1(2) by (simp add: shuffler_inv_def)
    then have w: "write_bytes (sh_data sh1) 0 (map Some [0..<n]) = Some ?d"
      using sh1(3) by (simp add: write_bytes_def)
    let ?sh' = "sh1\<lparr>sh_data := ?d, entries := n\<rparr>"
    have "shuffler_inv ?sh'"
      using sh1(2,3) lenc by (auto simp: shuffler_inv_def nth_append)
    moreover have "shuffler_pool ?sh' = pool_begin n k (shuffler_pool sh)"
    proof -
      have "rnd sh1 = rnd sh" using sh1(5) by (simp add: shuffler_pool_def)
      with True len sh1(4) show ?thesis by (simp add: shuffler_pool_def pool_begin_def o_def)
    qed
    ultimately show ?thesis using True sh1(1) w assms(2) by (auto simp: begin_pick_def)
  qed
qed

lemma pick_refines:
  assumes "shuffler_inv sh" "snd (shuffler_pool sh) \<noteq> []"
  shows "\<exists>sh'. pick sh = Some (fst (pool_pick (shuffler_pool sh)), sh') \<and> shuffler_inv sh'
    \<and> shuffler_pool sh' = snd (pool_pick (shuffler_pool sh))"
proof -
  define e where "e = entries sh"
  define d where "d = sh_data sh"
  define r where "r = minstd_next (rnd sh)"
  define i where "i = r mod e"
  have e: "0 < e" "e \<le> length d" using assms by (auto simp: e_def d_def shuffler_inv_def shuffler_pool_def)
  then have i: "i < e" by (simp add: i_def)
  have init: "d ! j = Some (the (d ! j))" if "j < e" for j
    using assms(1) that by (auto simp: e_def d_def shuffler_inv_def)
  obtain m where m: "e = Suc m" using e(1) by (cases e) auto
  have li: "load_cell d i = Some (the (d ! i))" "load_cell d m = Some (the (d ! m))"
    using i e init[of i] init[of m] m by (auto simp: load_cell_def)
  let ?sh' = "sh\<lparr>rnd := r, sh_data := d[i := Some (the (d ! m))], entries := m\<rparr>"
  have ret: "pick sh = Some (the (d ! i), ?sh')"
  proof -
    have "e \<noteq> 0" "e - 1 = m" "i < length d" using e i m by auto
    then show ?thesis
      using li
      by (simp add: pick_def Let_def e_def[symmetric] d_def[symmetric] r_def[symmetric] i_def[symmetric])
  qed
  have "shuffler_inv ?sh'"
    using assms(1) i m init
    by (auto simp: shuffler_inv_def e_def[symmetric] d_def[symmetric] nth_list_update)
  moreover have "shuffler_pool ?sh' = snd (pool_pick (shuffler_pool sh))"
    and "the (d ! i) = fst (pool_pick (shuffler_pool sh))"
  proof -
    have P: "snd (shuffler_pool sh) = map the (take e d)" by (simp add: shuffler_pool_def e_def d_def)
    have last: "last (map the (take e d)) = the (d ! m)"
      using e m by (simp add: take_Suc_conv_app_nth)
    have "butlast ((map the (take e d))[i := the (d ! m)]) = map the (take m (d[i := Some (the (d ! m))]))"
      using e m i by (intro nth_equalityI) (auto simp: nth_butlast nth_list_update)
    moreover have "fst (shuffler_pool sh) = rnd sh" by (simp add: shuffler_pool_def)
    ultimately show "shuffler_pool ?sh' = snd (pool_pick (shuffler_pool sh))"
      and "the (d ! i) = fst (pool_pick (shuffler_pool sh))"
      using e i by (simp_all add: shuffler_pool_def[of ?sh'] pool_pick_def Let_def P last
          i_def[symmetric] r_def[symmetric] min_absorb2)
  qed
  ultimately show ?thesis using ret by auto
qed

interpretation sampler: index_sampler begin_pick pick shuffler_pool shuffler_inv "2 ^ 31"
  by unfold_locales (use begin_pick_refines pick_refines in auto)

end
