(* ===== verification/LT_Encode.thy ===== *)
theory LT_Encode
  imports LT_Shuffle
begin

text \<open>
  The FEC encoder (\<open>lt/lt_encode.hpp\<close>, \<open>lt/lt_encode.cpp\<close>): each FEC block is the exclusive or of the
  data blocks whose indices the shuffler draws, the last data block being extended with zeros.

  The lemmas show that \<open>generate\<close> returns, and returns exactly that exclusive or.
\<close>

section \<open>The code\<close>

text \<open>\<open>a[i] ^= b[i]\<close> for \<open>i < size\<close>; both arrays must be that long.\<close>

definition xor_block :: "byte list \<Rightarrow> byte list \<Rightarrow> nat \<Rightarrow> byte list outcome" where
  "xor_block a b sz =
     (if sz \<le> length a \<and> sz \<le> length b
      then Some (xor_bytes (take sz a) (take sz b) @ drop sz a) else None)"

record encoder =
  enc_shuffler :: shuffler
  enc_block_size :: nat

definition encoder_new :: encoder where
  "encoder_new = \<lparr>enc_shuffler = shuffler_new, enc_block_size = 0\<rparr>"

definition enc_set_block_size :: "nat \<Rightarrow> encoder \<Rightarrow> encoder" where
  "enc_set_block_size sz enc = enc\<lparr>enc_block_size := sz\<rparr>"

definition enc_seed :: "nat \<Rightarrow> encoder \<Rightarrow> encoder" where
  "enc_seed s enc = enc\<lparr>enc_shuffler := seed s (enc_shuffler enc)\<rparr>"

definition enc_flush :: "encoder \<Rightarrow> encoder" where
  "enc_flush enc = enc\<lparr>enc_shuffler := flush (enc_shuffler enc)\<rparr>"

text \<open>The body of the loop in \<open>generate\<close>, for round \<open>i\<close> and drawn index \<open>idx\<close>.\<close>

definition absorb_block ::
  "nat \<Rightarrow> byte list \<Rightarrow> nat \<Rightarrow> nat \<Rightarrow> nat \<Rightarrow> nat \<Rightarrow> byte list \<Rightarrow> byte list outcome" where
  "absorb_block block_size input_data sz input_blocks i idx xor_data =
     (if i = 0 then
        (if idx + 1 = input_blocks then do {
           let copy_size = sz - idx * block_size;
           b \<leftarrow> read_bytes input_data (block_size * idx) copy_size;
           x \<leftarrow> write_bytes xor_data 0 b;
           write_bytes x copy_size (replicate (block_size - copy_size) 0)
         } else do {
           b \<leftarrow> read_bytes input_data (block_size * idx) block_size;
           write_bytes xor_data 0 b
         })
      else
        (if idx + 1 = input_blocks
         then xor_block xor_data (drop (block_size * idx) input_data) (sz - idx * block_size)
         else xor_block xor_data (drop (block_size * idx) input_data) block_size))"

definition generate ::
  "byte list \<Rightarrow> byte list \<Rightarrow> nat \<Rightarrow> nat \<Rightarrow> encoder \<Rightarrow> (encoder \<times> byte list) outcome" where
  "generate xor_data input_data sz num_xor_blocks enc = do {
     let bs = enc_block_size enc;
     guard (bs \<noteq> 0);
     let input_blocks = ((sz + bs - 1) div bs) mod 2 ^ 32;
     sh \<leftarrow> begin_pick input_blocks num_xor_blocks (enc_shuffler enc);
     (sh, xor_data) \<leftarrow>
       for_list (\<lambda>i (sh, x). do {
           (idx, sh) \<leftarrow> pick sh;
           x \<leftarrow> absorb_block bs input_data sz input_blocks i idx x;
           Some (sh, x) })
         [0..<num_xor_blocks] (sh, xor_data);
     Some (enc\<lparr>enc_shuffler := sh\<rparr>, xor_data)
   }"

section \<open>Specification\<close>

text \<open>How many blocks a payload takes, and its \<open>i\<close>-th block extended with zeros.\<close>

definition num_blocks :: "nat \<Rightarrow> nat \<Rightarrow> nat" where
  "num_blocks bs sz = (sz + bs - 1) div bs"

definition data_block :: "nat \<Rightarrow> byte list \<Rightarrow> nat \<Rightarrow> byte list" where
  "data_block bs data i =
     (let b = take bs (drop (bs * i) data) in b @ replicate (bs - length b) 0)"

section \<open>Lemmas\<close>

lemma length_data_block [simp]: "length (data_block bs data i) = bs"
  by (simp add: data_block_def Let_def)

lemma xor_block_Some:
  "sz \<le> length a \<Longrightarrow> sz \<le> length b \<Longrightarrow>
   xor_block a b sz = Some (xor_bytes (take sz a) (take sz b) @ drop sz a)"
  by (simp add: xor_block_def)

lemma num_blocks_bounds:
  assumes "0 < bs" "i < num_blocks bs sz"
  shows "bs * i < sz" "i + 1 \<noteq> num_blocks bs sz \<Longrightarrow> bs * i + bs \<le> sz"
    "i + 1 = num_blocks bs sz \<Longrightarrow> sz - i * bs \<le> bs"
proof -
  define n where "n = num_blocks bs sz"
  have lo: "n * bs < sz + bs" and hi: "sz \<le> n * bs"
  proof -
    have "n * bs \<le> sz + bs - 1" by (simp add: n_def num_blocks_def)
    then show "n * bs < sz + bs" using assms(1) by linarith
    have "sz + bs - 1 < Suc n * bs" using assms(1) unfolding n_def num_blocks_def
      by (metis dividend_less_div_times mult_Suc add.commute)
    then show "sz \<le> n * bs" using assms(1) by simp
  qed
  have i: "Suc i * bs \<le> n * bs" using assms(2) by (intro mult_le_mono1) (simp add: n_def)
  with lo show "bs * i < sz" by (simp add: mult.commute)
  show "sz - i * bs \<le> bs" if "i + 1 = num_blocks bs sz"
  proof -
    have "n = Suc i" using that by (simp add: n_def)
    with hi show ?thesis by simp
  qed
  show "bs * i + bs \<le> sz" if "i + 1 \<noteq> num_blocks bs sz"
  proof -
    have "Suc (Suc i) * bs \<le> n * bs" using assms(2) that by (intro mult_le_mono1) (simp add: n_def)
    with lo show ?thesis by (simp add: mult.commute)
  qed
qed

lemma absorb_first:
  assumes "0 < bs" "length data = sz" "idx < num_blocks bs sz" "length x = bs"
  shows "absorb_block bs data sz (num_blocks bs sz) 0 idx x = Some (data_block bs data idx)"
proof (cases "idx + 1 = num_blocks bs sz")
  case True
  note b = num_blocks_bounds[OF assms(1,3)]
  have len: "length (drop (bs * idx) data) = sz - idx * bs" using assms(2) by (simp add: mult.commute)
  then have "take (sz - idx * bs) (drop (bs * idx) data) = take bs (drop (bs * idx) data)"
    using b(3)[OF True] by simp
  moreover have "length (take bs (drop (bs * idx) data)) = sz - idx * bs"
    using len b(3)[OF True] by simp
  ultimately show ?thesis
    using True b assms len
    by (simp add: absorb_block_def read_bytes_def write_bytes_def data_block_def Let_def mult.commute)
next
  case False
  note b = num_blocks_bounds(2)[OF assms(1,3) False]
  show ?thesis
    using False b assms
    by (simp add: absorb_block_def read_bytes_def write_bytes_def data_block_def Let_def)
qed

lemma absorb_later:
  assumes "0 < bs" "length data = sz" "idx < num_blocks bs sz" "length x = bs" "i \<noteq> 0"
  shows "absorb_block bs data sz (num_blocks bs sz) i idx x
    = Some (xor_bytes x (data_block bs data idx))"
proof (cases "idx + 1 = num_blocks bs sz")
  case True
  note b = num_blocks_bounds[OF assms(1,3)]
  define m where "m = sz - idx * bs"
  have m: "m \<le> bs" "length (drop (bs * idx) data) = m"
    using b(3)[OF True] assms(2) by (auto simp: m_def mult.commute)
  have "xor_bytes (take m x) (take m (drop (bs * idx) data)) @ drop m x
      = xor_bytes x (data_block bs data idx)"
    using m assms(4) by (intro nth_equalityI) (auto simp: data_block_def Let_def nth_append)
  with True assms m show ?thesis
    by (simp add: absorb_block_def xor_block_def m_def[symmetric])
next
  case False
  note b = num_blocks_bounds(2)[OF assms(1,3) False]
  with False assms show ?thesis
    by (simp add: absorb_block_def xor_block_def data_block_def Let_def)
qed

lemma absorb_rest:
  assumes "0 < bs" "length data = sz" "set xs \<subseteq> {..<num_blocks bs sz}" "length x = bs"
    "\<forall>i \<in> set is. i \<noteq> 0" "length is = length xs"
  shows "for_list (\<lambda>(i, idx). absorb_block bs data sz (num_blocks bs sz) i idx) (zip is xs) x
    = Some (xor_bytes x (xor_blocks bs (data_block bs data) xs))"
  using assms
proof (induction xs arbitrary: x "is")
  case Nil
  then show ?case by simp
next
  case (Cons idx xs)
  then obtain i is' where "is": "is = i # is'" by (cases "is") auto
  let ?b = "data_block bs data idx" and ?r = "xor_blocks bs (data_block bs data) xs"
  have step: "absorb_block bs data sz (num_blocks bs sz) i idx x = Some (xor_bytes x ?b)"
    using Cons.prems "is" by (intro absorb_later) auto
  have IH: "for_list (\<lambda>(i, idx). absorb_block bs data sz (num_blocks bs sz) i idx) (zip is' xs)
      (xor_bytes x ?b) = Some (xor_bytes (xor_bytes x ?b) ?r)"
    using Cons.prems "is" by (intro Cons.IH) auto
  have "xor_bytes (xor_bytes x ?b) ?r = xor_bytes x (xor_bytes ?b ?r)"
    using Cons.prems(4) by (intro nth_equalityI) (auto simp: xor.assoc)
  with step IH show ?case by (simp add: "is")
qed

lemma absorb_all:
  assumes "0 < bs" "length data = sz" "set xs \<subseteq> {..<num_blocks bs sz}" "length x = bs" "xs \<noteq> []"
  shows "for_list (\<lambda>(i, idx). absorb_block bs data sz (num_blocks bs sz) i idx)
      (zip [0..<length xs] xs) x = Some (xor_blocks bs (data_block bs data) xs)"
proof (cases xs)
  case Nil
  with assms(5) show ?thesis by simp
next
  case (Cons idx ys)
  have "[0..<length xs] = 0 # [1..<length xs]" by (simp add: Cons upt_conv_Cons del: upt_Suc)
  moreover have "absorb_block bs data sz (num_blocks bs sz) 0 idx x = Some (data_block bs data idx)"
    using assms Cons by (intro absorb_first) auto
  moreover have "for_list (\<lambda>(i, idx). absorb_block bs data sz (num_blocks bs sz) i idx)
      (zip [1..<length xs] ys) (data_block bs data idx)
      = Some (xor_bytes (data_block bs data idx) (xor_blocks bs (data_block bs data) ys))"
    using assms Cons by (intro absorb_rest) (auto simp del: upt_Suc)
  ultimately show ?thesis by (simp add: Cons del: upt_Suc)
qed

text \<open>What \<open>generate\<close> returns: the exclusive or over the drawn indices.\<close>

lemma generate_spec:
  assumes inv: "shuffler_inv (enc_shuffler enc)"
    and wf: "pool_wf n (shuffler_pool (enc_shuffler enc))"
    and n: "n = num_blocks (enc_block_size enc) (length data)" "n \<le> 2 ^ 31"
    and k: "0 < k" "k \<le> n"
    and bs: "0 < enc_block_size enc" "length x = enc_block_size enc"
  defines "p \<equiv> pool_begin n k (shuffler_pool (enc_shuffler enc))"
  shows "\<exists>sh. generate x data (length data) k enc
      = Some (enc\<lparr>enc_shuffler := sh\<rparr>,
              xor_blocks (enc_block_size enc) (data_block (enc_block_size enc) data) (fst (pool_draws k p)))
    \<and> shuffler_inv sh \<and> shuffler_pool sh = snd (pool_draws k p)"
proof -
  let ?bs = "enc_block_size enc"
  have n32: "((length data + ?bs - 1) div ?bs) mod 2 ^ 32 = n"
    using n by (simp add: num_blocks_def)
  from begin_pick_refines[OF inv k(2) n(2)] obtain sh0 where
    sh0: "begin_pick n k (enc_shuffler enc) = Some sh0" "shuffler_inv sh0" "shuffler_pool sh0 = p"
    by (auto simp: p_def)
  have p: "pool_wf n p" "k \<le> length (snd p)"
    using pool_begin_wf[OF wf k(2)] by (simp_all add: p_def)
  from pool_draws_props[OF p(2)] p(1) have
    xs: "length (fst (pool_draws k p)) = k" "set (fst (pool_draws k p)) \<subseteq> {..<n}"
    by (auto simp: pool_wf_def)
  then have ne: "fst (pool_draws k p) \<noteq> []" using k(1) by auto
  from sampler.draw_loop[OF sh0(2), of k 0 "absorb_block ?bs data (length data) n" x] p(2) sh0(3)
  obtain sh where sh: "shuffler_inv sh" "shuffler_pool sh = snd (pool_draws k p)"
    "for_list (\<lambda>m (s, t). do { (y, s1) \<leftarrow> pick s; t1 \<leftarrow> absorb_block ?bs data (length data) n m y t; Some (s1, t1) })
       [0..<k] (sh0, x)
     = do { t' \<leftarrow> for_list (\<lambda>(m, y). absorb_block ?bs data (length data) n m y) (zip [0..<k] (fst (pool_draws k p))) x;
            Some (sh, t') }"
    by auto
  have "for_list (\<lambda>(m, y). absorb_block ?bs data (length data) n m y) (zip [0..<k] (fst (pool_draws k p))) x
      = Some (xor_blocks ?bs (data_block ?bs data) (fst (pool_draws k p)))"
    using absorb_all[of ?bs data "length data" "fst (pool_draws k p)" x] xs ne bs n(1) by simp
  with sh sh0(1) bs(1) n32 show ?thesis
    by (intro exI[of _ sh]) (simp add: generate_def Let_def)
qed

end
