(* ===== verification/Stream_Server.thy ===== *)
theory Stream_Server
  imports Pyro_Protocol LT_Encode
begin

text \<open>
  The stream server (\<open>pyro-server/pyro_server.hpp\<close>, \<open>pyro-server/pyro_server.cpp\<close>): a
  \<open>PyroStreamConnection\<close> per client, with its TCP message loop, its UDP datagrams and the packetiser, and
  the \<open>PyroStreamServer\<close> that owns the connections, the gamepad and the IDR policy.

  Environment.  What a connection sends is appended to \<open>tcp_out\<close> and \<open>udp_out\<close>.  The results of
  \<open>send_stream_message\<close> are read from \<open>send_script\<close>, one per call (a call beyond its end succeeds).  Bytes
  that \<open>receive_stream_message\<close> can deliver, the clock and the contents of uninitialised stack memory are
  arguments.  Printing is left out.
\<close>

section \<open>Remote addresses\<close>

record remote_address =
  addr :: "byte list"
  addr_size :: nat

definition no_remote :: remote_address where
  "no_remote = \<lparr>addr = replicate 128 0, addr_size = 0\<rparr>"

definition remote_valid :: "remote_address \<Rightarrow> bool" where
  "remote_valid r \<longleftrightarrow> addr_size r \<noteq> 0"

definition remote_eq :: "remote_address \<Rightarrow> remote_address \<Rightarrow> bool" where
  "remote_eq a b \<longleftrightarrow> addr_size a = addr_size b \<and> take (addr_size a) (addr a) = take (addr_size a) (addr b)"

section \<open>Connection and server state\<close>

text \<open>
  \<open>tcp_buffer\<close> holds the first \<open>tcp_length\<close> bytes of the receive buffer.  \<open>timer\<close> is the time-out the
  connection last armed, in seconds; \<open>cancelled\<close> records that \<open>cancel_connection\<close> was called.
\<close>

record stream_connection =
  cookie :: u64
  tcp_remote :: remote_address
  udp_remote :: remote_address
  progress :: pyro_progress_report
  needs_key_frame :: bool
  has_pending_video_packet_loss :: bool
  conn_encoder :: encoder
  conn_total_dropped_video_packets :: u64
  packet_seq_video :: u32
  packet_seq_audio :: u32
  kick_flags :: u32
  conn_fec :: bool
  tcp_buffer :: "byte list"
  last_gamepad_seq :: u16
  kicked :: bool
  valid_gamepad_seq :: bool
  timer :: "nat option"
  cancelled :: bool
  tcp_out :: "byte list"
  udp_out :: "(remote_address \<times> byte list) list"
  send_script :: "bool list"

record stream_server =
  srv_cookie :: u64
  connections :: "stream_connection list"
  codec :: pyro_codec_parameters
  idr_counter :: u64
  phase_offset_us :: u32
  bitrate_change_request :: int
  current_gamepad_remote :: remote_address
  current_gamepad_state :: pyro_gamepad_state
  new_gamepad_state :: bool
  srv_fec :: bool
  idr_on_packet_loss :: bool

definition progress_zero :: pyro_progress_report where
  "progress_zero = \<lparr>total_received_packets = 0, total_recovered_packets = 0, total_dropped_video_packets = 0,
     total_dropped_audio_packets = 0, total_received_key_frames = 0\<rparr>"

definition codec_none :: pyro_codec_parameters where
  "codec_none = \<lparr>video_codec = 0, video_color_profile = 0, audio_codec = 0, frame_rate_num = 0,
     frame_rate_den = 0, codec_width = 0, codec_height = 0, channels = 0, rate = 0\<rparr>"

definition gamepad_zero :: pyro_gamepad_state where
  "gamepad_zero = \<lparr>gp_seq = 0, buttons = 0, axis_lx = 0, axis_ly = 0, axis_rx = 0, axis_ry = 0, lz = 0, rz = 0,
     hat_x = 0, hat_y = 0\<rparr>"

definition connection_new :: "remote_address \<Rightarrow> u64 \<Rightarrow> stream_connection" where
  "connection_new remote c = \<lparr>cookie = c, tcp_remote = remote, udp_remote = no_remote, progress = progress_zero,
     needs_key_frame = False, has_pending_video_packet_loss = False, conn_encoder = encoder_new,
     conn_total_dropped_video_packets = 0, packet_seq_video = ucast (c AND 0x3fff),
     packet_seq_audio = ucast (NOT c AND 0x3fff), kick_flags = 0, conn_fec = False, tcp_buffer = [],
     last_gamepad_seq = 0, kicked = False, valid_gamepad_seq = False, timer = None, cancelled = False,
     tcp_out = [], udp_out = [], send_script = []\<rparr>"

definition server_new :: stream_server where
  "server_new = \<lparr>srv_cookie = 1000, connections = [], codec = codec_none, idr_counter = 0, phase_offset_us = 0,
     bitrate_change_request = 0, current_gamepad_remote = no_remote, current_gamepad_state = gamepad_zero,
     new_gamepad_state = False, srv_fec = False, idr_on_packet_loss = False\<rparr>"

section \<open>Small operations\<close>

definition conn_requires_idr :: "stream_connection \<Rightarrow> bool" where
  "conn_requires_idr c \<longleftrightarrow> kick_flags c AND PYRO_KICK_STATE_VIDEO_BIT \<noteq> 0 \<and> needs_key_frame c"

definition conn_set_forward_error_correction :: "bool \<Rightarrow> stream_connection \<Rightarrow> stream_connection" where
  "conn_set_forward_error_correction enable c = c\<lparr>conn_fec := enable\<rparr>"

definition get_and_clear_pending_video_packet_loss :: "stream_connection \<Rightarrow> bool \<times> stream_connection" where
  "get_and_clear_pending_video_packet_loss c =
     (has_pending_video_packet_loss c, c\<lparr>has_pending_video_packet_loss := False\<rparr>)"

definition set_codec_parameters :: "pyro_codec_parameters \<Rightarrow> stream_server \<Rightarrow> stream_server" where
  "set_codec_parameters p s = s\<lparr>codec := p\<rparr>"

definition get_codec_parameters :: "stream_server \<Rightarrow> pyro_codec_parameters" where
  "get_codec_parameters s = codec s"

definition set_phase_offset :: "u32 \<Rightarrow> stream_server \<Rightarrow> stream_server" where
  "set_phase_offset off s = s\<lparr>phase_offset_us := phase_offset_us s + off\<rparr>"

definition get_phase_offset_us :: "stream_server \<Rightarrow> u32 \<times> stream_server" where
  "get_phase_offset_us s = (phase_offset_us s, s\<lparr>phase_offset_us := 0\<rparr>)"

definition get_updated_gamepad_state :: "stream_server \<Rightarrow> pyro_gamepad_state option \<times> stream_server" where
  "get_updated_gamepad_state s =
     (if new_gamepad_state s then Some (current_gamepad_state s) else None, s\<lparr>new_gamepad_state := False\<rparr>)"

definition srv_set_forward_error_correction :: "bool \<Rightarrow> stream_server \<Rightarrow> stream_server" where
  "srv_set_forward_error_correction enable s = s\<lparr>srv_fec := enable\<rparr>"

definition set_idr_on_packet_loss :: "bool \<Rightarrow> stream_server \<Rightarrow> stream_server" where
  "set_idr_on_packet_loss enable s = s\<lparr>idr_on_packet_loss := enable\<rparr>"

definition reset_gamepad_ownership :: "stream_server \<Rightarrow> stream_server" where
  "reset_gamepad_ownership s = s\<lparr>current_gamepad_remote := no_remote\<rparr>"

definition consume_bitrate_change_request :: "stream_server \<Rightarrow> int \<times> stream_server" where
  "consume_bitrate_change_request s = (bitrate_change_request s, s\<lparr>bitrate_change_request := 0\<rparr>)"

definition sample_reference_pts :: "u64 \<Rightarrow> u64" where
  "sample_reference_pts now_ns = now_ns div 1000"

definition button_combo :: u16 where
  "button_combo = PYRO_PAD_START_BIT OR PYRO_PAD_SELECT_BIT OR PYRO_PAD_TL_BIT OR PYRO_PAD_TR_BIT"

definition combo_takes_control :: "pyro_gamepad_state \<Rightarrow> bool" where
  "combo_takes_control st \<longleftrightarrow> buttons st AND PYRO_PAD_MODE_BIT \<noteq> 0 \<or> buttons st AND button_combo = button_combo"

definition set_gamepad_state :: "remote_address \<Rightarrow> pyro_gamepad_state \<Rightarrow> stream_server \<Rightarrow> stream_server" where
  "set_gamepad_state remote st s =
     (let combo = combo_takes_control st
      in if remote_eq remote (current_gamepad_remote s) \<or> \<not> remote_valid (current_gamepad_remote s) \<or> combo
         then s\<lparr>bitrate_change_request :=
                  (if combo \<and> sint (hat_y st) = -1 \<and> hat_y (current_gamepad_state s) = 0 then 1
                   else if combo \<and> sint (hat_y st) = 1 \<and> hat_y (current_gamepad_state s) = 0 then -1
                   else bitrate_change_request s),
                current_gamepad_state := st, current_gamepad_remote := remote, new_gamepad_state := True\<rparr>
         else s)"

section \<open>The TCP message loop\<close>

definition send_stream_message :: "byte list \<Rightarrow> stream_connection \<Rightarrow> bool \<times> stream_connection" where
  "send_stream_message msg c =
     (case send_script c of
        [] \<Rightarrow> (True, c\<lparr>tcp_out := tcp_out c @ msg\<rparr>)
      | r # rs \<Rightarrow> (r, c\<lparr>tcp_out := (if r then tcp_out c @ msg else tcp_out c), send_script := rs\<rparr>))"

text \<open>Two messages in a row; the second is sent only when the first went out.\<close>

definition send_two :: "byte list \<Rightarrow> byte list \<Rightarrow> stream_connection \<Rightarrow> bool \<times> stream_connection" where
  "send_two a b c = (let (r, c) = send_stream_message a c in if r then send_stream_message b c else (False, c))"

definition put_message :: "pyro_message \<Rightarrow> byte list" where
  "put_message m = put_word 4 (message_code m)"

text \<open>
  The cases of the \<open>switch\<close>.  The first component is \<open>Some r\<close> when the case returns \<open>r\<close> from \<open>handle\<close>, and
  \<open>None\<close> when it leaves the \<open>switch\<close>.
\<close>

definition handle_hello :: "stream_server \<Rightarrow> stream_connection \<Rightarrow> bool option \<times> stream_server \<times> stream_connection" where
  "handle_hello s c =
     (let (ok, c) = send_two (put_message MESSAGE_COOKIE) (put_word 8 (cookie c)) c
      in (if ok then None else Some False, s, c))"

definition kick_reply :: "stream_server \<Rightarrow> stream_connection \<Rightarrow> bool \<times> stream_connection" where
  "kick_reply s c =
     (if remote_valid (udp_remote c) \<and> video_codec (get_codec_parameters s) \<noteq> PYRO_VIDEO_CODEC_NONE then
        (let (ok, c) = send_two (put_message MESSAGE_CODEC_PARAMETERS) (put_codec (get_codec_parameters s)) c
         in if ok then (True, c\<lparr>kicked := True, needs_key_frame := True\<rparr>) else (False, c))
      else if remote_valid (udp_remote c) then send_stream_message (put_message MESSAGE_AGAIN) c
      else send_stream_message (put_message MESSAGE_NAK) c)"

definition handle_kick :: "byte list \<Rightarrow> stream_server \<Rightarrow> stream_connection \<Rightarrow> bool option \<times> stream_server \<times> stream_connection" where
  "handle_kick payload s c =
     (let c = c\<lparr>kick_flags := get_word 0 4 payload\<rparr>
      in if kicked c then (Some True, s, c)
         else let (ok, c) = kick_reply s c
              in if \<not> ok then (Some False, s, c)
                 else (None,
                       if kick_flags c AND PYRO_KICK_STATE_GAMEPAD_BIT \<noteq> 0 then reset_gamepad_ownership s else s,
                       c\<lparr>timer := Some 15\<rparr>))"

definition handle_progress :: "byte list \<Rightarrow> stream_server \<Rightarrow> stream_connection \<Rightarrow> bool option \<times> stream_server \<times> stream_connection" where
  "handle_progress payload s c =
     (let p = get_progress payload;
          c = c\<lparr>timer := Some 15, progress := p, needs_key_frame := (total_received_key_frames p = 0),
                has_pending_video_packet_loss :=
                  (conn_total_dropped_video_packets c \<noteq> total_dropped_video_packets p
                   \<or> has_pending_video_packet_loss c),
                conn_total_dropped_video_packets := total_dropped_video_packets p\<rparr>
      in (None, s, c))"

definition handle_other :: "stream_server \<Rightarrow> stream_connection \<Rightarrow> bool option \<times> stream_server \<times> stream_connection" where
  "handle_other s c =
     (let (ok, c) = send_stream_message (put_message MESSAGE_NAK) c
      in (if ok then None else Some False, s, c))"

definition handle_message ::
  "u32 \<Rightarrow> byte list \<Rightarrow> stream_server \<Rightarrow> stream_connection \<Rightarrow> bool option \<times> stream_server \<times> stream_connection" where
  "handle_message type payload s c =
     (case message_of_code type of
        Some MESSAGE_HELLO \<Rightarrow> handle_hello s c
      | Some MESSAGE_KICK \<Rightarrow> handle_kick payload s c
      | Some MESSAGE_PROGRESS \<Rightarrow> handle_progress payload s c
      | _ \<Rightarrow> handle_other s c)"

text \<open>How many bytes the message at the front of the buffer takes, when it is there as a whole.\<close>

definition message_length :: "byte list \<Rightarrow> nat" where
  "message_length buf = unat (pyro_message_get_length (get_word 0 4 buf)) + sizeof_message_type"

definition message_complete :: "byte list \<Rightarrow> bool" where
  "message_complete buf \<longleftrightarrow> sizeof_message_type \<le> length buf \<and> message_length buf \<le> length buf"

function handle_messages :: "stream_server \<Rightarrow> stream_connection \<Rightarrow> bool \<times> stream_server \<times> stream_connection" where
  "handle_messages s c =
     (let buf = tcp_buffer c; type = get_word 0 4 buf
      in if \<not> message_complete buf then (True, s, c)
         else if \<not> pyro_message_validate_magic type then (False, s, c)
         else case handle_message type (drop sizeof_message_type buf) s c of
                (Some r, s', c') \<Rightarrow> (r, s', c')
              | (None, s', c') \<Rightarrow> handle_messages s' (c'\<lparr>tcp_buffer := drop (message_length buf) buf\<rparr>))"
  by pat_completeness auto
termination
  by (relation "measure (\<lambda>(s, c). length (tcp_buffer c))")
    (auto simp: message_complete_def message_length_def layout_simps)

declare handle_messages.simps [simp del]

definition handle :: "byte list \<Rightarrow> nat \<Rightarrow> stream_server \<Rightarrow> stream_connection \<Rightarrow> bool \<times> stream_server \<times> stream_connection" where
  "handle incoming ident s c =
     (if ident \<noteq> 0 then (False, s, c\<lparr>cancelled := True\<rparr>)
      else if PYRO_MAX_MESSAGE_BUFFER_LENGTH \<le> length (tcp_buffer c) then (False, s, c)
      else let got = take (PYRO_MAX_MESSAGE_BUFFER_LENGTH - length (tcp_buffer c)) incoming
           in if got = [] then (False, s, c)
              else handle_messages s (c\<lparr>tcp_buffer := tcp_buffer c @ got\<rparr>))"

section \<open>The packetiser\<close>

text \<open>The header of one data datagram: \<open>BEGIN\<close> on the first one, and the wrapped subsequence number.\<close>

definition subpacket_header :: "pyro_payload_header \<Rightarrow> bool \<Rightarrow> u32 \<Rightarrow> pyro_payload_header" where
  "subpacket_header h first subseq =
     (let e = encoded h AND NOT PYRO_PAYLOAD_PACKET_BEGIN_BIT;
          e = (if first then e OR PYRO_PAYLOAD_PACKET_BEGIN_BIT else e);
          e = e AND NOT (push_bit PYRO_PAYLOAD_SUBPACKET_SEQ_OFFSET PYRO_PAYLOAD_SUBPACKET_SEQ_MASK);
          e = e OR push_bit PYRO_PAYLOAD_SUBPACKET_SEQ_OFFSET subseq
      in h\<lparr>encoded := e\<rparr>)"

text \<open>The loop over the payload; the header it leaves is the one the FEC datagrams start from.\<close>

function emit_subpackets ::
  "pyro_payload_header \<Rightarrow> u32 \<Rightarrow> nat \<Rightarrow> byte list \<Rightarrow> byte list list \<times> pyro_payload_header" where
  "emit_subpackets h subseq i data =
     (if i < length data then
        let h = subpacket_header h (i = 0) subseq;
            chunk = take (min PYRO_MAX_PAYLOAD_SIZE ((length data - i) mod 2 ^ 32)) (drop i data);
            (rest, h') = emit_subpackets h ((subseq + 1) AND PYRO_PAYLOAD_SUBPACKET_SEQ_MASK)
                           (i + PYRO_MAX_PAYLOAD_SIZE) data
        in ((put_header h @ chunk) # rest, h')
      else ([], h))"
  by pat_completeness auto
termination
  by (relation "measure (\<lambda>(h, subseq, i, data). length data - i)") (auto simp: PYRO_MAX_PAYLOAD_SIZE_def)

declare emit_subpackets.simps [simp del]

definition fec_header :: "pyro_payload_header \<Rightarrow> nat \<Rightarrow> pyro_payload_header" where
  "fec_header h i =
     h\<lparr>encoded := (encoded h AND NOT (push_bit PYRO_PAYLOAD_SUBPACKET_SEQ_OFFSET PYRO_PAYLOAD_SUBPACKET_SEQ_MASK))
                  OR push_bit PYRO_PAYLOAD_SUBPACKET_SEQ_OFFSET (word_of_nat i)\<rparr>"

definition emit_fec ::
  "byte list \<Rightarrow> nat \<Rightarrow> nat \<Rightarrow> nat \<Rightarrow> encoder \<times> byte list \<times> pyro_payload_header \<times> byte list list
   \<Rightarrow> (encoder \<times> byte list \<times> pyro_payload_header \<times> byte list list) outcome" where
  "emit_fec data xor_even xor_odd i st = do {
     let (enc, xor_data, h, out) = st;
     (enc, xor_data) \<leftarrow> generate xor_data data (length data) (if odd i then xor_odd else xor_even) enc;
     let h = fec_header h i;
     Some (enc, xor_data, h, out @ [put_header h @ xor_data])
   }"

text \<open>The FEC parameters of a payload of \<open>n\<close> data blocks: number of FEC blocks and their two sizes.\<close>

definition fec_parameters :: "nat \<Rightarrow> nat \<times> nat \<times> nat" where
  "fec_parameters n =
     (if n \<le> 8 then (1, n, n) else (n div 4 + 1, min (n div 2) 64, min ((n + 1) div 2) 64))"

definition packet_header ::
  "u64 \<Rightarrow> u64 \<Rightarrow> nat \<Rightarrow> bool \<Rightarrow> bool \<Rightarrow> bool \<Rightarrow> u32 \<Rightarrow> pyro_payload_header" where
  "packet_header pts dts sz is_audio is_key_frame fec seq =
     (let n = ((sz + PYRO_MAX_PAYLOAD_SIZE - 1) div PYRO_MAX_PAYLOAD_SIZE) mod 2 ^ 32;
          (num_fec, xor_even, xor_odd) = fec_parameters n;
          use_fec = (\<not> is_audio \<and> fec)
      in \<lparr>pts_lo = ucast pts, pts_hi = ucast (drop_bit 32 pts), dts_delta = ucast (pts - dts),
          payload_size = word_of_nat sz,
          num_fec_blocks = (if use_fec then word_of_nat num_fec else 0),
          hdr_xor_blocks_even = (if use_fec then word_of_nat xor_even else 0),
          hdr_xor_blocks_odd = (if use_fec then word_of_nat xor_odd else 0),
          encoded = (if is_audio then PYRO_PAYLOAD_STREAM_TYPE_BIT else 0)
            OR (if is_key_frame then PYRO_PAYLOAD_KEY_FRAME_BIT else 0)
            OR push_bit PYRO_PAYLOAD_PACKET_SEQ_OFFSET seq\<rparr>)"

text \<open>
  \<open>stack\<close> is what the uninitialised array \<open>xor_data\<close> holds.  The guard is the signed subtraction
  \<open>pts - dts\<close>.
\<close>

definition write_packet ::
  "byte list \<Rightarrow> u64 \<Rightarrow> u64 \<Rightarrow> byte list \<Rightarrow> bool \<Rightarrow> bool \<Rightarrow> stream_connection \<Rightarrow> stream_connection outcome" where
  "write_packet stack pts dts data is_audio is_key_frame c =
     (if \<not> remote_valid (udp_remote c) \<or> \<not> kicked c then Some c
      else if is_audio \<and> kick_flags c AND PYRO_KICK_STATE_AUDIO_BIT = 0 then Some c
      else if \<not> is_audio \<and> kick_flags c AND PYRO_KICK_STATE_VIDEO_BIT = 0 then Some c
      else do {
        guard (- (2 ^ 63) \<le> sint pts - sint dts \<and> sint pts - sint dts < 2 ^ 63);
        let seq = (if is_audio then packet_seq_audio c else packet_seq_video c);
        let n = ((length data + PYRO_MAX_PAYLOAD_SIZE - 1) div PYRO_MAX_PAYLOAD_SIZE) mod 2 ^ 32;
        let (num_fec, xor_even, xor_odd) = fec_parameters n;
        let (out, h) = emit_subpackets
              (packet_header pts dts (length data) is_audio is_key_frame (conn_fec c) seq) 0 0 data;
        c \<leftarrow> (if \<not> is_audio \<and> conn_fec c then do {
               let h = h\<lparr>encoded := (encoded h AND NOT PYRO_PAYLOAD_PACKET_BEGIN_BIT) OR PYRO_PAYLOAD_PACKET_FEC_BIT\<rparr>;
               let enc = enc_set_block_size PYRO_MAX_PAYLOAD_SIZE (enc_seed (unat (pts_lo h)) (enc_flush (conn_encoder c)));
               (enc, _, _, fec_out) \<leftarrow>
                 for_list (emit_fec data xor_even xor_odd) [0..<num_fec] (enc, stack, h, []);
               Some (c\<lparr>conn_encoder := enc,
                       udp_out := udp_out c @ map (\<lambda>d. (udp_remote c, d)) (out @ fec_out)\<rparr>)
             } else Some (c\<lparr>udp_out := udp_out c @ map (\<lambda>d. (udp_remote c, d)) out\<rparr>));
        let seq' = (seq + 1) AND PYRO_PAYLOAD_PACKET_SEQ_MASK;
        Some (if is_audio then c\<lparr>packet_seq_audio := seq'\<rparr> else c\<lparr>packet_seq_video := seq'\<rparr>)
      })"

definition conn_write_video_packet ::
  "byte list \<Rightarrow> u64 \<Rightarrow> u64 \<Rightarrow> byte list \<Rightarrow> bool \<Rightarrow> stream_connection \<Rightarrow> stream_connection outcome" where
  "conn_write_video_packet stack pts dts data is_key_frame c = write_packet stack pts dts data False is_key_frame c"

definition conn_write_audio_packet ::
  "byte list \<Rightarrow> u64 \<Rightarrow> u64 \<Rightarrow> byte list \<Rightarrow> stream_connection \<Rightarrow> stream_connection outcome" where
  "conn_write_audio_packet stack pts dts data c = write_packet stack pts dts data True False c"

section \<open>UDP datagrams from the client\<close>

definition udp_cookie :: "remote_address \<Rightarrow> byte list \<Rightarrow> stream_connection \<Rightarrow> stream_connection" where
  "udp_cookie remote msg c =
     (if take 8 msg = put_word 8 (cookie c) \<and> \<not> remote_valid (udp_remote c) then c\<lparr>udp_remote := remote\<rparr> else c)"

definition udp_phase_offset :: "remote_address \<Rightarrow> byte list \<Rightarrow> stream_server \<Rightarrow> stream_connection \<Rightarrow> stream_server" where
  "udp_phase_offset remote msg s c =
     (if remote_eq (udp_remote c) remote then set_phase_offset (get_word 0 4 msg) s else s)"

definition udp_gamepad ::
  "remote_address \<Rightarrow> byte list \<Rightarrow> stream_server \<Rightarrow> stream_connection \<Rightarrow> stream_server \<times> stream_connection" where
  "udp_gamepad remote msg s c =
     (if remote_eq (udp_remote c) remote \<and> kick_flags c AND PYRO_KICK_STATE_GAMEPAD_BIT \<noteq> 0 then
        (let st = get_gamepad msg
         in if \<not> bit (gp_seq st - last_gamepad_seq c) 15 \<or> \<not> valid_gamepad_seq c
            then (set_gamepad_state (udp_remote c) st s,
                  c\<lparr>last_gamepad_seq := gp_seq st, valid_gamepad_seq := True\<rparr>)
            else (s, c\<lparr>valid_gamepad_seq := True\<rparr>))
      else (s, c))"

definition ping_header :: "u16 \<Rightarrow> pyro_payload_header" where
  "ping_header seq = \<lparr>pts_lo = 0, pts_hi = 0, dts_delta = 0, payload_size = 0, num_fec_blocks = 0,
     hdr_xor_blocks_even = 0, hdr_xor_blocks_odd = 0,
     encoded = (PYRO_PAYLOAD_KEY_FRAME_BIT OR PYRO_PAYLOAD_STREAM_TYPE_BIT)
       OR push_bit PYRO_PAYLOAD_PACKET_SEQ_OFFSET (ucast seq)\<rparr>"

definition udp_ping :: "u64 \<Rightarrow> remote_address \<Rightarrow> byte list \<Rightarrow> stream_connection \<Rightarrow> stream_connection" where
  "udp_ping now_ns remote msg c =
     (if remote_eq (udp_remote c) remote \<and> kicked c then
        (let seq = get_word 0 2 msg AND ucast PYRO_PAYLOAD_PACKET_SEQ_MASK;
             pts = sample_reference_pts now_ns;
             ext = \<lparr>pts_reference_lo = ucast pts, pts_reference_hi = ucast (drop_bit 32 pts)\<rparr>
         in c\<lparr>udp_out := udp_out c @ [(udp_remote c, put_header (ping_header seq) @ put_ping_extended ext)]\<rparr>)
      else c)"

definition conn_handle_udp_datagram ::
  "u64 \<Rightarrow> remote_address \<Rightarrow> byte list \<Rightarrow> stream_server \<Rightarrow> stream_connection \<Rightarrow> stream_server \<times> stream_connection" where
  "conn_handle_udp_datagram now_ns remote msg s c =
     (if length msg < sizeof_message_type then (s, c)
      else let type = get_word 0 4 msg; payload = drop sizeof_message_type msg
           in if \<not> pyro_message_validate_magic type then (s, c)
              else if unat (pyro_message_get_length type) + sizeof_message_type \<noteq> length msg then (s, c)
              else case message_of_code type of
                     Some MESSAGE_COOKIE \<Rightarrow> (s, udp_cookie remote payload c)
                   | Some MESSAGE_PHASE_OFFSET \<Rightarrow> (udp_phase_offset remote payload s c, c)
                   | Some MESSAGE_GAMEPAD_STATE \<Rightarrow> udp_gamepad remote payload s c
                   | Some MESSAGE_PING \<Rightarrow> (s, udp_ping now_ns remote payload c)
                   | _ \<Rightarrow> (s, c))"

section \<open>The server\<close>

definition register_tcp_handler :: "remote_address \<Rightarrow> stream_server \<Rightarrow> stream_server" where
  "register_tcp_handler remote s =
     (let k = srv_cookie s + 1
      in s\<lparr>srv_cookie := k,
           connections := connections s @ [conn_set_forward_error_correction (srv_fec s) (connection_new remote k)]\<rparr>)"

primrec write_all ::
  "(stream_connection \<Rightarrow> stream_connection outcome) \<Rightarrow> stream_connection list \<Rightarrow> stream_connection list outcome" where
  "write_all f [] = Some []"
| "write_all f (c # cs) = do { c' \<leftarrow> f c; cs' \<leftarrow> write_all f cs; Some (c' # cs') }"

definition srv_write_video_packet ::
  "byte list \<Rightarrow> u64 \<Rightarrow> u64 \<Rightarrow> byte list \<Rightarrow> bool \<Rightarrow> stream_server \<Rightarrow> stream_server outcome" where
  "srv_write_video_packet stack pts dts data is_key_frame s = do {
     cs \<leftarrow> write_all (conn_write_video_packet stack pts dts data is_key_frame) (connections s);
     Some (s\<lparr>connections := cs\<rparr>) }"

definition srv_write_audio_packet ::
  "byte list \<Rightarrow> u64 \<Rightarrow> u64 \<Rightarrow> byte list \<Rightarrow> stream_server \<Rightarrow> stream_server outcome" where
  "srv_write_audio_packet stack pts dts data s = do {
     cs \<leftarrow> write_all (conn_write_audio_packet stack pts dts data) (connections s);
     Some (s\<lparr>connections := cs\<rparr>) }"

text \<open>The loop over the connections; \<open>s\<close> is the server without its list of connections.\<close>

primrec udp_all ::
  "u64 \<Rightarrow> remote_address \<Rightarrow> byte list \<Rightarrow> stream_connection list \<Rightarrow> stream_server \<Rightarrow> stream_server \<times> stream_connection list" where
  "udp_all now_ns remote msg [] s = (s, [])"
| "udp_all now_ns remote msg (c # cs) s =
     (let (s, c') = conn_handle_udp_datagram now_ns remote msg s c;
          (s, cs') = udp_all now_ns remote msg cs s
      in (s, c' # cs'))"

definition srv_handle_udp_datagram :: "u64 \<Rightarrow> remote_address \<Rightarrow> byte list \<Rightarrow> stream_server \<Rightarrow> stream_server" where
  "srv_handle_udp_datagram now_ns remote msg s =
     (let (s', cs) = udp_all now_ns remote msg (connections s) s in s'\<lparr>connections := cs\<rparr>)"

text \<open>A connection is identified by its cookie, which is unique (see below).\<close>

definition release_connection :: "u64 \<Rightarrow> stream_server \<Rightarrow> stream_server" where
  "release_connection k s =
     s\<lparr>connections := (case List.extract (\<lambda>c. cookie c = k) (connections s) of
                         Some (before, _, after) \<Rightarrow> before @ after | None \<Rightarrow> connections s)\<rparr>"

definition idr_scan :: "bool \<Rightarrow> stream_connection list \<Rightarrow> bool \<times> stream_connection list" where
  "idr_scan on_loss cs =
     (list_ex (\<lambda>c. (fst (get_and_clear_pending_video_packet_loss c) \<and> on_loss)
                   \<or> conn_requires_idr (snd (get_and_clear_pending_video_packet_loss c))) cs,
      map (\<lambda>c. snd (get_and_clear_pending_video_packet_loss c)) cs)"

definition should_force_idr :: "stream_server \<Rightarrow> bool \<times> stream_server" where
  "should_force_idr s =
     (let count = idr_counter s; s = s\<lparr>idr_counter := count + 1\<rparr>
      in if count < 60 then (False, s)
         else let (req, cs) = idr_scan (idr_on_packet_loss s) (connections s)
              in (req, s\<lparr>connections := cs, idr_counter := (if req then 0 else idr_counter s)\<rparr>))"

text \<open>The dispatcher calls \<open>handle\<close> of the connection that owns the descriptor.\<close>

definition srv_handle :: "u64 \<Rightarrow> byte list \<Rightarrow> nat \<Rightarrow> stream_server \<Rightarrow> bool \<times> stream_server" where
  "srv_handle k incoming ident s =
     (case List.find (\<lambda>c. cookie c = k) (connections s) of
        None \<Rightarrow> (False, s)
      | Some c \<Rightarrow> let (r, s', c') = handle incoming ident s c
                   in (r, s'\<lparr>connections := map (\<lambda>x. if cookie x = k then c' else x) (connections s')\<rparr>))"

definition release_id :: "nat \<Rightarrow> u64 \<Rightarrow> stream_server \<Rightarrow> stream_server" where
  "release_id ident k s = (if ident = 0 then release_connection k s else s)"

end
