(* ===== verification/Stream_Control.thy ===== *)
theory Stream_Control
  imports Stream_Server
begin

text \<open>
  What the stream server promises about its control traffic: the message loop does not depend on how TCP cuts
  the stream, datagrams only go to an address that has shown the cookie, and forced key frames are rationed.
\<close>

section \<open>Frame and prefix of a message\<close>

lemma send_stream_message_frame:
  "send_stream_message m (c\<lparr>tcp_buffer := b\<rparr>) = map_prod id (\<lambda>c. c\<lparr>tcp_buffer := b\<rparr>) (send_stream_message m c)"
  by (simp add: send_stream_message_def split: list.splits)

lemma send_two_frame:
  "send_two m n (c\<lparr>tcp_buffer := b\<rparr>) = map_prod id (\<lambda>c. c\<lparr>tcp_buffer := b\<rparr>) (send_two m n c)"
  by (simp add: send_two_def send_stream_message_frame split: prod.splits)

lemma kick_reply_frame:
  "kick_reply s (c\<lparr>tcp_buffer := b\<rparr>) = map_prod id (\<lambda>c. c\<lparr>tcp_buffer := b\<rparr>) (kick_reply s c)"
  by (simp add: kick_reply_def send_two_frame send_stream_message_frame split: prod.splits)

lemma handle_kick_frame:
  "handle_kick p s (c\<lparr>tcp_buffer := b\<rparr>) = map_prod id (map_prod id (\<lambda>c. c\<lparr>tcp_buffer := b\<rparr>)) (handle_kick p s c)"
proof -
  define f :: u32 where "f = get_word 0 4 p"
  have k: "c\<lparr>tcp_buffer := b, kick_flags := f\<rparr> = c\<lparr>kick_flags := f, tcp_buffer := b\<rparr>" by simp
  have "kick_reply s (c\<lparr>tcp_buffer := b, kick_flags := f\<rparr>)
      = map_prod id (\<lambda>c. c\<lparr>tcp_buffer := b\<rparr>) (kick_reply s (c\<lparr>kick_flags := f\<rparr>))"
    unfolding k by (rule kick_reply_frame)
  then show ?thesis
    unfolding handle_kick_def f_def[symmetric] Let_def
    by (cases "kick_reply s (c\<lparr>kick_flags := f\<rparr>)") simp
qed

lemma handle_message_frame:
  "handle_message t p s (c\<lparr>tcp_buffer := b\<rparr>) =
     map_prod id (map_prod id (\<lambda>c. c\<lparr>tcp_buffer := b\<rparr>)) (handle_message t p s c)"
  by (simp add: handle_message_def handle_hello_def handle_kick_frame handle_progress_def handle_other_def
      send_two_frame send_stream_message_frame Let_def split: prod.splits option.splits pyro_message.splits)

lemma send_stream_message_buffer [simp]: "tcp_buffer (snd (send_stream_message m c)) = tcp_buffer c"
  by (simp add: send_stream_message_def split: list.splits)

lemma handle_message_buffer [simp]: "tcp_buffer (snd (snd (handle_message t p s c))) = tcp_buffer c"
proof -
  have "handle_message t p s c = handle_message t p s (c\<lparr>tcp_buffer := tcp_buffer c\<rparr>)" by simp
  also have "\<dots> = map_prod id (map_prod id (\<lambda>x. x\<lparr>tcp_buffer := tcp_buffer c\<rparr>)) (handle_message t p s c)"
    by (rule handle_message_frame)
  finally show ?thesis by (cases "handle_message t p s c") (metis map_prod_simp snd_conv stream_connection.select_convs(13)
      stream_connection.surjective stream_connection.update_convs(13))
qed

lemma get_word_append: "off + n \<le> length a \<Longrightarrow> get_word off n (a @ b) = get_word off n a"
  by (simp add: get_word_def)

lemma get_progress_append: "sizeof_progress_report \<le> length a \<Longrightarrow> get_progress (a @ b) = get_progress a"
  by (metis progress_format.get_put progress_format.get_take progress_format.put_get append.assoc
      append_take_drop_id length_take min_absorb2)

lemma handle_message_append:
  assumes "unat (pyro_message_get_length t) \<le> length p"
  shows "handle_message t (p @ x) s c = handle_message t p s c"
proof (cases "message_of_code t")
  case None
  then show ?thesis by (simp add: handle_message_def)
next
  case (Some m)
  then have "message_payload_size m \<le> length p"
    using assms by (simp add: message_of_code_Some message_code_facts)
  with Some show ?thesis
    by (cases m) (simp_all add: handle_message_def handle_kick_def handle_progress_def get_word_append
        get_progress_append sizeof_kick_state_def)
qed

text \<open>The only case that leaves the loop with success is a repeated \<open>KICK\<close>.\<close>

lemma handle_message_redundant:
  assumes "handle_message t p s c = (Some True, s', c')"
  shows "t = message_code MESSAGE_KICK" "kicked c" "s' = s" "c' = c\<lparr>kick_flags := get_word 0 4 p\<rparr>"
  using assms
  by (auto simp: handle_message_def handle_hello_def handle_kick_def handle_progress_def handle_other_def Let_def
      message_of_code_Some split: option.splits pyro_message.splits prod.splits if_splits)

lemma redundant_kick_again:
  assumes "kicked c"
  shows "handle_message (message_code MESSAGE_KICK) p s c = (Some True, s, c\<lparr>kick_flags := get_word 0 4 p\<rparr>)"
  using assms by (simp add: handle_message_def handle_kick_def message_code_facts)

section \<open>The message loop and the cuts of the stream\<close>

text \<open>More bytes behind the buffer.\<close>

abbreviation behind :: "byte list \<Rightarrow> stream_connection \<Rightarrow> stream_connection" where
  "behind x c \<equiv> c\<lparr>tcp_buffer := tcp_buffer c @ x\<rparr>"

lemma message_front_append:
  assumes "message_complete buf"
  shows "message_complete (buf @ x)" "get_word 0 4 (buf @ x) = (get_word 0 4 buf :: u32)"
    "message_length (buf @ x) = message_length buf" "drop sizeof_message_type (buf @ x) = drop sizeof_message_type buf @ x"
    "drop (message_length buf) (buf @ x) = drop (message_length buf) buf @ x"
proof -
  have l: "4 \<le> length buf" "message_length buf \<le> length buf"
    using assms by (simp_all add: message_complete_def sizeof_message_type_def)
  then show g: "get_word 0 4 (buf @ x) = (get_word 0 4 buf :: u32)" by (simp add: get_word_append)
  from g show "message_length (buf @ x) = message_length buf" by (simp add: message_length_def)
  with l show "message_complete (buf @ x)" by (simp add: message_complete_def sizeof_message_type_def)
  from l show "drop sizeof_message_type (buf @ x) = drop sizeof_message_type buf @ x"
    "drop (message_length buf) (buf @ x) = drop (message_length buf) buf @ x"
    by (simp_all add: sizeof_message_type_def)
qed

lemma message_payload_there:
  "message_complete buf \<Longrightarrow> unat (pyro_message_get_length (get_word 0 4 buf)) \<le> length (drop sizeof_message_type buf)"
  by (auto simp: message_complete_def message_length_def)

lemma handle_messages_append:
  "handle_messages s (behind x c) =
     (let (r, s', c') = handle_messages s c in if r then handle_messages s' (behind x c') else (False, s', behind x c'))"
proof (induction s c rule: handle_messages.induct)
  case (1 s c)
  let ?buf = "tcp_buffer c" and ?t = "get_word 0 4 (tcp_buffer c) :: u32"
  show ?case
  proof (cases "message_complete ?buf \<and> pyro_message_validate_magic ?t")
    case False
    then show ?thesis
      using message_front_append[of ?buf x]
      by (subst (2) handle_messages.simps, cases "message_complete ?buf") (simp_all add: handle_messages.simps[of s "behind x c"])
  next
    case True
    then have cmp: "message_complete ?buf" and magic: "pyro_message_validate_magic ?t" by simp_all
    note front = message_front_append[OF cmp, of x]
    obtain r s1 c1 where m: "handle_message ?t (drop sizeof_message_type ?buf) s c = (r, s1, c1)" by (rule prod_cases3)
    have buf1: "tcp_buffer c1 = ?buf" using handle_message_buffer[of ?t "drop sizeof_message_type ?buf" s c] by (simp add: m)
    have mx: "handle_message ?t (drop sizeof_message_type ?buf @ x) s (behind x c) = (r, s1, behind x c1)"
      unfolding handle_message_append[OF message_payload_there[OF cmp]] handle_message_frame by (simp add: m buf1)
    have step: "handle_messages s (behind x c) = (case r of Some b \<Rightarrow> (b, s1, behind x c1)
        | None \<Rightarrow> handle_messages s1 (c1\<lparr>tcp_buffer := drop (message_length ?buf) ?buf @ x\<rparr>))"
      by (subst handle_messages.simps) (simp add: front magic mx Let_def del: drop_append split: option.splits)
    have step0: "handle_messages s c = (case r of Some b \<Rightarrow> (b, s1, c1)
        | None \<Rightarrow> handle_messages s1 (c1\<lparr>tcp_buffer := drop (message_length ?buf) ?buf\<rparr>))"
      by (subst handle_messages.simps) (simp add: cmp magic m Let_def split: option.splits)
    show ?thesis
    proof (cases r)
      case None
      with "1.IH"[OF refl refl _ _ m[symmetric, unfolded None] refl refl] cmp magic show ?thesis by (simp add: step step0)
    next
      case (Some b)
      show ?thesis
      proof (cases b)
        case False
        with Some show ?thesis by (simp add: step step0)
      next
        case True
        with m Some have "handle_message ?t (drop sizeof_message_type ?buf) s c = (Some True, s1, c1)" by simp
        from handle_message_redundant[OF this]
        have k: "?t = message_code MESSAGE_KICK" "kicked c" "s1 = s"
          "c1 = c\<lparr>kick_flags := get_word 0 4 (drop sizeof_message_type ?buf)\<rparr>" by simp_all
        have "handle_message ?t (drop sizeof_message_type ?buf @ x) s1 (behind x c1) = (Some True, s1, behind x c1)"
          unfolding handle_message_append[OF message_payload_there[OF cmp]] using k by (simp add: redundant_kick_again)
        then have "handle_messages s1 (behind x c1) = (True, s1, behind x c1)"
          by (subst handle_messages.simps) (simp add: buf1 front magic Let_def del: drop_append)
        with Some True show ?thesis by (simp add: step step0)
      qed
    qed
  qed
qed

lemma handle_messages_settled:
  "handle_messages s c = (True, s', c') \<Longrightarrow> handle_messages s' c' = (True, s', c')"
  using handle_messages_append[where s = s and c = c and x = "[]"] by simp

lemma handle_messages_buffer: "length (tcp_buffer (snd (snd (handle_messages s c)))) \<le> length (tcp_buffer c)"
proof (induction s c rule: handle_messages.induct)
  case (1 s c)
  obtain r s1 c1 where m: "handle_message (get_word 0 4 (tcp_buffer c)) (drop sizeof_message_type (tcp_buffer c)) s c = (r, s1, c1)"
    by (rule prod_cases3)
  have buf1: "tcp_buffer c1 = tcp_buffer c"
    using handle_message_buffer[of "get_word 0 4 (tcp_buffer c)" "drop sizeof_message_type (tcp_buffer c)" s c] by (simp add: m)
  show ?case
  proof (cases "message_complete (tcp_buffer c) \<and> pyro_message_validate_magic (get_word 0 4 (tcp_buffer c)) \<and> r = None")
    case True
    with m "1.IH"[OF refl refl _ _ m[symmetric] _ refl] show ?thesis
      by (subst handle_messages.simps) (simp add: Let_def)
  next
    case False
    with m buf1 show ?thesis by (subst handle_messages.simps) (auto simp: Let_def split: option.splits)
  qed
qed

text \<open>
  The dispatcher calls \<open>handle\<close> as long as there are bytes; \<open>ns\<close> says how many bytes are there at each call.  The result
  has the bytes that were not received yet.
\<close>

fun deliver :: "nat list \<Rightarrow> byte list \<Rightarrow> stream_server \<Rightarrow> stream_connection
    \<Rightarrow> bool \<times> stream_server \<times> stream_connection \<times> byte list" where
  "deliver [] bytes s c = (True, s, c, bytes)"
| "deliver (n # ns) bytes s c =
     (if bytes = [] then (True, s, c, [])
      else let k = min n (PYRO_MAX_MESSAGE_BUFFER_LENGTH - length (tcp_buffer c)); (r, s', c') = handle (take n bytes) 0 s c
      in if r then deliver ns (drop k bytes) s' c' else (False, s', c', drop k bytes))"

lemma buffer_length: "PYRO_MAX_MESSAGE_BUFFER_LENGTH = 259"
  by (simp add: PYRO_MAX_MESSAGE_BUFFER_LENGTH_def sizeof_message_type_def)

lemma handle_fits:
  "incoming \<noteq> [] \<Longrightarrow> length (tcp_buffer c) + length incoming \<le> 259
    \<Longrightarrow> handle incoming 0 s c = handle_messages s (behind incoming c)"
  by (cases incoming) (simp_all add: handle_def buffer_length)

text \<open>
  A full buffer that the message loop leaves as it is has a second \<open>KICK\<close> at its front, since every message fits: then more bytes change
  nothing either.
\<close>

lemma blocked_full:
  assumes st: "handle_messages s c = (True, s, c)" and full: "259 \<le> length (tcp_buffer c)"
  shows "handle_messages s (behind x c) = (True, s, behind x c)"
proof -
  let ?buf = "tcp_buffer c" and ?t = "get_word 0 4 (tcp_buffer c) :: u32"
  have "unat (pyro_message_get_length ?t) \<le> 255"
  proof -
    have "pyro_message_get_length ?t \<le> 0xff" unfolding pyro_message_get_length_def by (rule word_and_le1)
    then show ?thesis by (simp add: word_le_nat_alt)
  qed
  then have cmp: "message_complete ?buf" using full by (simp add: message_complete_def message_length_def sizeof_message_type_def)
  obtain r s1 c1 where m: "handle_message ?t (drop sizeof_message_type ?buf) s c = (r, s1, c1)" by (rule prod_cases3)
  have buf1: "tcp_buffer c1 = ?buf" using handle_message_buffer[of ?t "drop sizeof_message_type ?buf" s c] by (simp add: m)
  have magic: "pyro_message_validate_magic ?t" using st cmp by (subst (asm) handle_messages.simps) (auto simp: Let_def split: if_splits)
  have step: "handle_messages s c = (case r of Some b \<Rightarrow> (b, s1, c1)
      | None \<Rightarrow> handle_messages s1 (c1\<lparr>tcp_buffer := drop (message_length ?buf) ?buf\<rparr>))"
    by (subst handle_messages.simps) (simp add: cmp magic m Let_def split: option.splits)
  have "r = Some True"
  proof (cases r)
    case None
    with step st have "handle_messages s1 (c1\<lparr>tcp_buffer := drop (message_length ?buf) ?buf\<rparr>) = (True, s, c)" by (simp only: option.case)
    with handle_messages_buffer[of s1 "c1\<lparr>tcp_buffer := drop (message_length ?buf) ?buf\<rparr>"]
    have "length ?buf \<le> length (drop (message_length ?buf) ?buf)" by simp
    then show ?thesis using full by (simp add: message_length_def sizeof_message_type_def)
  qed (use step st in simp)
  moreover from this have "s1 = s" "c1 = c" using step st by simp_all
  moreover have "handle_message ?t (drop sizeof_message_type ?buf @ x) s (behind x c) = (r, s1, behind x c1)"
    unfolding handle_message_append[OF message_payload_there[OF cmp]] handle_message_frame by (simp add: m buf1)
  ultimately show ?thesis
    by (subst handle_messages.simps) (simp add: message_front_append[OF cmp, of x] magic Let_def del: drop_append)
qed

text \<open>Whatever the cuts, the calls together do what one pass of the message loop over all the bytes does.\<close>

lemma deliver_is_one_go:
  assumes "list_all (\<lambda>n. 0 < n) ns" "length bytes \<le> length ns" "bytes \<noteq> [] \<or> handle_messages s c = (True, s, c)"
    "length (tcp_buffer c) < 259 \<or> handle_messages s c = (True, s, c)"
    "handle_messages s (behind bytes c) = (r, s', c')" "r \<longrightarrow> length (tcp_buffer c') < 259"
  shows "if r then deliver ns bytes s c = (True, s', c', [])
    else \<exists>c1 rest. deliver ns bytes s c = (False, s', c1, rest) \<and> c' = behind rest c1"
  using assms
proof (induction ns arbitrary: bytes s c)
  case Nil
  then show ?case by simp
next
  case (Cons n ns)
  show ?case
  proof (cases "bytes = []")
    case True
    with Cons.prems(3,5) show ?thesis by simp
  next
    case False
    have room: "length (tcp_buffer c) < 259"
    proof (rule ccontr)
      assume f: "\<not> length (tcp_buffer c) < 259"
      with Cons.prems(4) blocked_full[of s c bytes] Cons.prems(5,6) show False by auto
    qed
    define k where "k = min n (259 - length (tcp_buffer c))"
    have k: "0 < k" using Cons.prems(1) room by (simp add: k_def)
    have got: "take (259 - length (tcp_buffer c)) (take n bytes) = take k bytes" "take k bytes \<noteq> []"
      using k False by (simp_all add: k_def min.commute)
    obtain r1 s1 c1 where h: "handle_messages s (behind (take k bytes) c) = (r1, s1, c1)" by (rule prod_cases3)
    have hd: "handle (take n bytes) 0 s c = (r1, s1, c1)"
      using room got h by (simp add: handle_def buffer_length Let_def del: take_take)
    have d: "deliver (n # ns) bytes s c = (if r1 then deliver ns (drop k bytes) s1 c1 else (False, s1, c1, drop k bytes))"
      using False by (simp add: hd buffer_length k_def)
    have one: "(r, s', c') = (if r1 then handle_messages s1 (behind (drop k bytes) c1) else (False, s1, behind (drop k bytes) c1))"
      using handle_messages_append[where s = s and x = "drop k bytes" and c = "behind (take k bytes) c"] h Cons.prems(5) by simp
    show ?thesis
    proof (cases r1)
      case True
      have st: "handle_messages s1 c1 = (True, s1, c1)" using h True by (auto intro: handle_messages_settled)
      have "length (drop k bytes) \<le> length ns" using k Cons.prems(2) by simp
      from Cons.IH[OF _ this disjI2[OF st] disjI2[OF st] _ Cons.prems(6)] one True Cons.prems(1) show ?thesis unfolding d by simp
    next
      case False
      then show ?thesis using one unfolding d by simp
    qed
  qed
qed

text \<open>A message with its payload at the front of the buffer.\<close>

lemma message_at_front:
  assumes "length p = message_payload_size m"
  shows "handle_messages s (c\<lparr>tcp_buffer := put_message m @ p @ x\<rparr>) =
    (case handle_message (message_code m) p s (c\<lparr>tcp_buffer := put_message m @ p @ x\<rparr>) of
       (Some r, s', c') \<Rightarrow> (r, s', c')
     | (None, s', c') \<Rightarrow> handle_messages s' (c'\<lparr>tcp_buffer := x\<rparr>))"
proof -
  have g: "get_word 0 4 (put_message m @ y) = message_code m" for y
    using get_put_word[of 4 "[]" 0 "message_code m" y] by (simp add: put_message_def)
  have l: "message_length (put_message m @ p @ x) = 4 + length p"
    by (simp add: message_length_def g message_code_facts assms sizeof_message_type_def)
  have len: "length (put_message m) = 4" by (simp add: put_message_def)
  have "message_complete (put_message m @ p @ x)" by (simp add: message_complete_def l len sizeof_message_type_def)
  then show ?thesis
    by (subst handle_messages.simps)
       (simp add: g l len message_code_facts assms handle_message_append sizeof_message_type_def Let_def
          split: prod.splits option.splits)
qed

lemma incomplete_message: "length (tcp_buffer c) < 4 \<Longrightarrow> handle_messages s c = (True, s, c)"
  by (subst handle_messages.simps) (simp add: message_complete_def sizeof_message_type_def)

lemma hello_at_front:
  assumes "send_script c = []"
  shows "handle_messages s (c\<lparr>tcp_buffer := put_message MESSAGE_HELLO\<rparr>) =
    (True, s, c\<lparr>tcp_buffer := [], tcp_out := tcp_out c @ put_message MESSAGE_COOKIE @ put_word 8 (cookie c)\<rparr>)"
  using message_at_front[where m = MESSAGE_HELLO and p = "[]" and x = "[]" and s = s and c = c] assms incomplete_message
  by (simp add: handle_message_def handle_hello_def send_two_def send_stream_message_def message_code_facts)

text \<open>
  C17. The server handles a client's TCP stream independently of how it is cut.  However the bytes are delivered, in pieces of any size,
  the calls of \<open>handle\<close> together do what one pass of the message loop over all the bytes at once does: when that pass
  keeps the connection, every delivery keeps it, with the same server, replies, flags and rest in the buffer; when it drops
  the connection, every delivery drops it in the same state, at the same message, and only how much of the following
  bytes has been received is different.  The pass must not leave a full buffer, which only a second \<open>KICK\<close> can do.
\<close>

theorem segmentation_irrelevant:
  assumes "bytes \<noteq> []" "list_all (\<lambda>n. 0 < n) ns" "length bytes \<le> length ns" "length (tcp_buffer c) < PYRO_MAX_MESSAGE_BUFFER_LENGTH"
    "handle_messages s (c\<lparr>tcp_buffer := tcp_buffer c @ bytes\<rparr>) = (r, s', c')" "r \<longrightarrow> length (tcp_buffer c') < PYRO_MAX_MESSAGE_BUFFER_LENGTH"
  shows "if r then deliver ns bytes s c = (True, s', c', [])
    else \<exists>c1 rest. deliver ns bytes s c = (False, s', c1, rest) \<and> c' = c1\<lparr>tcp_buffer := tcp_buffer c1 @ rest\<rparr>"
  using deliver_is_one_go[OF assms(2,3) disjI1[OF assms(1)] _ assms(5)] assms(4,6) unfolding buffer_length by blast

lemma segmentation_irrelevant_witness:
  "\<exists>c1. deliver [1, 3, 1, 1] (put_message MESSAGE_HELLO) server_new (connection_new no_remote 1001) = (True, server_new, c1, [])
    \<and> deliver [4, 4, 4, 4] (put_message MESSAGE_HELLO) server_new (connection_new no_remote 1001) = (True, server_new, c1, [])
    \<and> tcp_out c1 = put_message MESSAGE_COOKIE @ put_word 8 (1001 :: u64)"
proof -
  define c where "c = connection_new no_remote 1001"
  define b where "b = put_message MESSAGE_HELLO"
  define c1 where "c1 = c\<lparr>tcp_buffer := [], tcp_out := put_message MESSAGE_COOKIE @ put_word 8 (1001 :: u64)\<rparr>"
  have c: "tcp_buffer c = []" "tcp_out c = []" "cookie c = 1001" "send_script c = []"
    by (simp_all add: c_def connection_new_def)
  have b: "length b = 4" "b \<noteq> []" by (auto simp: b_def put_message_def simp flip: length_0_conv)
  have room: "length (tcp_buffer c) < PYRO_MAX_MESSAGE_BUFFER_LENGTH" "True \<longrightarrow> length (tcp_buffer c1) < PYRO_MAX_MESSAGE_BUFFER_LENGTH"
    by (simp_all add: c c1_def buffer_length)
  have one: "handle_messages server_new (c\<lparr>tcp_buffer := tcp_buffer c @ b\<rparr>) = (True, server_new, c1)"
    using hello_at_front[of c server_new] by (simp add: b_def c1_def c)
  from segmentation_irrelevant[OF b(2) _ _ room(1) one room(2), of "[1, 3, 1, 1]"]
    segmentation_irrelevant[OF b(2) _ _ room(1) one room(2), of "[4, 4, 4, 4]"] b(1)
  show ?thesis by (intro exI[of _ c1]) (simp add: b_def c_def c1_def)
qed

text \<open>
  A second \<open>KICK\<close> blocks the connection: it stays at the front of the buffer, and whatever arrives later, progress
  reports included, changes nothing but the flags and the buffer, until the buffer is full or the timer expires.
\<close>

theorem redundant_kick_blocks:
  assumes "kicked c" "take 4 (tcp_buffer c) = put_message MESSAGE_KICK" "8 \<le> length (tcp_buffer c)"
  shows "\<exists>ok f buf rest. deliver ns bytes s c = (ok, s, c\<lparr>kick_flags := f, tcp_buffer := buf\<rparr>, rest)"
  using assms
proof (induction ns arbitrary: bytes c)
  case Nil
  have "deliver [] bytes s c = (True, s, c\<lparr>kick_flags := kick_flags c, tcp_buffer := tcp_buffer c\<rparr>, bytes)" by simp
  then show ?case by blast
next
  case (Cons n ns)
  define got where "got = take (PYRO_MAX_MESSAGE_BUFFER_LENGTH - length (tcp_buffer c)) (take n bytes)"
  let ?buf = "tcp_buffer c @ got"
  let ?c = "c\<lparr>kick_flags := get_word 0 4 (drop 4 ?buf), tcp_buffer := ?buf\<rparr>"
  have front: "?buf = put_message MESSAGE_KICK @ (take 4 (drop 4 ?buf)) @ drop 8 ?buf"
    using Cons.prems(2,3) append_take_drop_id[of 4 ?buf] append_take_drop_id[of 4 "drop 4 ?buf"] by simp
  have l: "length (take 4 (drop 4 ?buf)) = 4" using Cons.prems(3) by simp
  have w: "get_word 0 4 (take 4 (drop 4 ?buf)) = (get_word 0 4 (drop 4 ?buf) :: u32)"
    by (simp add: get_word_def del: take_append drop_append)
  have "handle_messages s (c\<lparr>tcp_buffer := ?buf\<rparr>) = (True, s, ?c)"
    using message_at_front[where p = "take 4 (drop 4 ?buf)" and m = MESSAGE_KICK and s = s and c = c and x = "drop 8 ?buf", folded front] Cons.prems(1) l w
    by (simp add: redundant_kick_again sizeof_kick_state_def)
  then have h: "handle (take n bytes) 0 s c = (True, s, ?c) \<or> handle (take n bytes) 0 s c = (False, s, c)"
    unfolding handle_def Let_def got_def[symmetric] by metis
  consider "bytes = []" | "bytes \<noteq> []" "handle (take n bytes) 0 s c = (False, s, c)" | "bytes \<noteq> []" "handle (take n bytes) 0 s c \<noteq> (False, s, c)" by blast
  then show ?case
  proof cases
    case 1
    then have "deliver (n # ns) bytes s c = (True, s, c\<lparr>kick_flags := kick_flags c, tcp_buffer := tcp_buffer c\<rparr>, [])" by simp
    then show ?thesis by blast
  next
    case 2
    then have "deliver (n # ns) bytes s c = (False, s, c\<lparr>kick_flags := kick_flags c, tcp_buffer := tcp_buffer c\<rparr>,
        drop (min n (PYRO_MAX_MESSAGE_BUFFER_LENGTH - length (tcp_buffer c))) bytes)" by (simp add: Let_def)
    then show ?thesis by blast
  next
    case 3
    with h have "handle (take n bytes) 0 s c = (True, s, ?c)" by simp
    moreover note \<open>bytes \<noteq> []\<close>
    moreover have "take 4 (tcp_buffer ?c) = put_message MESSAGE_KICK" "8 \<le> length (tcp_buffer ?c)" "kicked ?c"
      using Cons.prems by simp_all
    ultimately obtain ok f buf rest where
      "deliver (n # ns) bytes s c = (ok, s, ?c\<lparr>kick_flags := f, tcp_buffer := buf\<rparr>, rest)"
      using Cons.IH[of ?c "drop (min n (PYRO_MAX_MESSAGE_BUFFER_LENGTH - length (tcp_buffer c))) bytes"] by (auto simp: Let_def)
    then have "deliver (n # ns) bytes s c = (ok, s, c\<lparr>kick_flags := f, tcp_buffer := buf\<rparr>, rest)" by simp
    then show ?thesis by blast
  qed
qed

section \<open>Datagrams go only where the cookie was shown\<close>

text \<open>What can happen to a connection: bytes or a time-out on its descriptors, a datagram, a packet to send.\<close>

datatype conn_event =
    TcpEvent "byte list" nat
  | Datagram u64 remote_address "byte list"
  | SendVideo "byte list" u64 u64 "byte list" bool
  | SendAudio "byte list" u64 u64 "byte list"

fun conn_event_step :: "conn_event \<Rightarrow> stream_server \<times> stream_connection \<Rightarrow> (stream_server \<times> stream_connection) outcome" where
  "conn_event_step (TcpEvent b ident) (s, c) = (let (_, s', c') = handle b ident s c in Some (s', c'))"
| "conn_event_step (Datagram now r msg) (s, c) = Some (conn_handle_udp_datagram now r msg s c)"
| "conn_event_step (SendVideo stack pts dts data key) (s, c) =
     do { c' \<leftarrow> conn_write_video_packet stack pts dts data key c; Some (s, c') }"
| "conn_event_step (SendAudio stack pts dts data) (s, c) =
     do { c' \<leftarrow> conn_write_audio_packet stack pts dts data c; Some (s, c') }"

abbreviation conn_events :: "conn_event list \<Rightarrow> stream_server \<times> stream_connection \<Rightarrow> (stream_server \<times> stream_connection) outcome" where
  "conn_events \<equiv> for_list conn_event_step"

definition cookie_datagram :: "u64 \<Rightarrow> byte list" where
  "cookie_datagram k = put_message MESSAGE_COOKIE @ put_word 8 k"

text \<open>The fields that messages over TCP leave alone.\<close>

definition udp_view :: "stream_connection \<Rightarrow> u64 \<times> remote_address \<times> (remote_address \<times> byte list) list" where
  "udp_view c = (cookie c, udp_remote c, udp_out c)"

lemma send_stream_message_udp [simp]: "udp_view (snd (send_stream_message m c)) = udp_view c"
  by (simp add: send_stream_message_def udp_view_def split: list.splits)

lemma send_two_udp [simp]: "udp_view (snd (send_two m n c)) = udp_view c"
  by (simp add: send_two_def split: prod.splits) (metis send_stream_message_udp snd_conv)

lemma udp_view_update [simp]:
  "udp_view (c\<lparr>kicked := a\<rparr>) = udp_view c" "udp_view (c\<lparr>needs_key_frame := a\<rparr>) = udp_view c"
  "udp_view (c\<lparr>kick_flags := f\<rparr>) = udp_view c" "udp_view (c\<lparr>timer := t\<rparr>) = udp_view c"
  "udp_view (c\<lparr>tcp_buffer := b\<rparr>) = udp_view c" "udp_view (c\<lparr>cancelled := a\<rparr>) = udp_view c"
  by (simp_all add: udp_view_def)

lemma kick_reply_udp [simp]: "udp_view (snd (kick_reply s c)) = udp_view c"
proof -
  obtain ok c1 where t: "send_two (put_message MESSAGE_CODEC_PARAMETERS) (put_codec (get_codec_parameters s)) c = (ok, c1)"
    by fastforce
  have "udp_view c1 = udp_view c" by (metis t snd_conv send_two_udp)
  then show ?thesis by (simp add: kick_reply_def t)
qed

lemma sent_udp [dest]:
  "send_stream_message m c = (ok, c') \<Longrightarrow> udp_view c' = udp_view c" "send_two m n c = (ok, c') \<Longrightarrow> udp_view c' = udp_view c"
  "kick_reply s c = (ok, c') \<Longrightarrow> udp_view c' = udp_view c"
  by (metis send_stream_message_udp snd_conv, metis send_two_udp snd_conv, metis kick_reply_udp snd_conv)

lemma handle_message_udp [simp]: "udp_view (snd (snd (handle_message t p s c))) = udp_view c"
proof -
  have "udp_view (snd (snd (handle_hello s c))) = udp_view c"
    by (auto simp: handle_hello_def split: prod.splits)
  moreover have "udp_view (snd (snd (handle_kick p s c))) = udp_view c"
    by (auto simp: handle_kick_def Let_def dest!: sent_udp split: prod.splits)
  moreover have "udp_view (snd (snd (handle_progress p s c))) = udp_view c"
    by (simp add: handle_progress_def Let_def udp_view_def)
  moreover have "udp_view (snd (snd (handle_other s c))) = udp_view c"
    by (auto simp: handle_other_def split: prod.splits)
  ultimately show ?thesis by (simp add: handle_message_def split: option.splits pyro_message.splits)
qed

lemma handle_messages_udp [simp]: "udp_view (snd (snd (handle_messages s c))) = udp_view c"
proof (induction s c rule: handle_messages.induct)
  case (1 s c)
  let ?t = "get_word 0 4 (tcp_buffer c)" and ?p = "drop sizeof_message_type (tcp_buffer c)"
  obtain r s1 c1 where m: "handle_message ?t ?p s c = (r, s1, c1)" by (rule prod_cases3)
  have v: "udp_view c1 = udp_view c" using handle_message_udp[of ?t ?p s c] by (simp only: m snd_conv)
  show ?case
  proof (cases "message_complete (tcp_buffer c) \<and> pyro_message_validate_magic ?t \<and> r = None")
    case True
    with m v "1.IH"[OF refl refl _ _ m[symmetric] _ refl] show ?thesis
      by (subst handle_messages.simps) (simp add: Let_def)
  next
    case False
    with m v show ?thesis by (subst handle_messages.simps) (auto simp: Let_def split: option.splits)
  qed
qed

lemma handle_udp [simp]: "udp_view (snd (snd (handle b ident s c))) = udp_view c"
  by (simp add: handle_def Let_def)

text \<open>A connection is kicked only once it has a remote address.\<close>

lemma sent_kicked [dest]:
  "send_stream_message m c = (ok, c') \<Longrightarrow> kicked c' = kicked c" "send_two m n c = (ok, c') \<Longrightarrow> kicked c' = kicked c"
  by (auto simp: send_two_def send_stream_message_def split: list.splits prod.splits if_splits)

lemma handle_message_kicked:
  assumes "handle_message t p s c = (r, s', c')" "kicked c'"
  shows "kicked c \<or> remote_valid (udp_remote c)"
proof (rule ccontr)
  assume n: "\<not> ?thesis"
  then have "\<not> kicked (snd (snd (handle_kick p s c)))"
    by (auto simp: handle_kick_def kick_reply_def Let_def split: prod.splits)
  moreover have "\<not> kicked (snd (snd (handle_hello s c)))" using n by (auto simp: handle_hello_def split: prod.splits)
  moreover have "\<not> kicked (snd (snd (handle_progress p s c)))" using n by (simp add: handle_progress_def Let_def)
  moreover have "\<not> kicked (snd (snd (handle_other s c)))" using n by (auto simp: handle_other_def split: prod.splits)
  ultimately have "\<not> kicked (snd (snd (handle_message t p s c)))"
    by (simp add: handle_message_def split: option.splits pyro_message.splits)
  with assms show False by simp
qed

lemma handle_messages_kicked:
  "kicked (snd (snd (handle_messages s c))) \<Longrightarrow> kicked c \<or> remote_valid (udp_remote c)"
proof (induction s c rule: handle_messages.induct)
  case (1 s c)
  let ?t = "get_word 0 4 (tcp_buffer c)" and ?p = "drop sizeof_message_type (tcp_buffer c)"
  obtain r s1 c1 where m: "handle_message ?t ?p s c = (r, s1, c1)" by (rule prod_cases3)
  have v: "udp_remote c1 = udp_remote c" using handle_message_udp[of ?t ?p s c] by (simp add: m udp_view_def)
  note k = handle_message_kicked[OF m]
  show ?case
  proof (cases "message_complete (tcp_buffer c) \<and> pyro_message_validate_magic ?t")
    case True
    with "1.prems" have "kicked (snd (snd (case r of Some b \<Rightarrow> (b, s1, c1)
        | None \<Rightarrow> handle_messages s1 (c1\<lparr>tcp_buffer := drop (message_length (tcp_buffer c)) (tcp_buffer c)\<rparr>))))"
      by (subst (asm) handle_messages.simps) (simp add: m Let_def split: option.splits)
    with True k v "1.IH"[OF refl refl _ _ m[symmetric] _ refl] show ?thesis by (auto split: option.splits)
  next
    case False
    with "1.prems" show ?thesis by (subst (asm) handle_messages.simps) (auto simp: Let_def split: if_splits)
  qed
qed

lemma handle_kicked: "kicked (snd (snd (handle b ident s c))) \<Longrightarrow> kicked c \<or> remote_valid (udp_remote c)"
  using handle_messages_kicked[of s "c\<lparr>tcp_buffer := tcp_buffer c @ take (PYRO_MAX_MESSAGE_BUFFER_LENGTH - length (tcp_buffer c)) b\<rparr>"]
  by (auto simp: handle_def Let_def split: if_splits)

text \<open>A datagram.\<close>

lemma cookie_datagram_iff:
  assumes "sizeof_message_type \<le> length msg" "unat (pyro_message_get_length (get_word 0 4 msg)) + sizeof_message_type = length msg"
    "get_word 0 4 msg = message_code MESSAGE_COOKIE" "take 8 (drop sizeof_message_type msg) = put_word 8 k"
  shows "msg = cookie_datagram k"
proof -
  have l: "length msg = 12" using assms(2) unfolding assms(3) by (simp add: message_code_facts layout_simps)
  have "put_word 4 (get_word 0 4 msg :: u32) = take 4 msg" using put_get_words(3)[of 0 msg] l by simp
  moreover have "take 8 (drop 4 msg) = drop 4 msg" using l by simp
  ultimately show ?thesis
    using assms(3,4) by (metis append_take_drop_id cookie_datagram_def put_message_def sizeof_message_type_def)
qed

lemma datagram_udp:
  assumes "conn_handle_udp_datagram now r msg s c = (s', c')"
  shows "cookie c' = cookie c" "kicked c' = kicked c"
    "udp_remote c' = udp_remote c \<or> \<not> remote_valid (udp_remote c) \<and> udp_remote c' = r \<and> msg = cookie_datagram (cookie c)"
    "\<exists>xs. udp_out c' = udp_out c @ xs \<and> fst ` set xs \<subseteq> {udp_remote c} \<and> (\<not> kicked c \<longrightarrow> xs = [])"
proof -
  have e: "message_of_code (get_word 0 4 msg) = Some m \<longleftrightarrow> get_word 0 4 msg = message_code m" for m
    by (rule message_of_code_Some)
  show "cookie c' = cookie c" "kicked c' = kicked c"
    using assms by (auto simp: conn_handle_udp_datagram_def Let_def udp_cookie_def udp_gamepad_def udp_ping_def
        split: if_splits option.splits pyro_message.splits)
  show "udp_remote c' = udp_remote c \<or> \<not> remote_valid (udp_remote c) \<and> udp_remote c' = r \<and> msg = cookie_datagram (cookie c)"
    using assms cookie_datagram_iff[of msg "cookie c"]
    by (auto simp: conn_handle_udp_datagram_def Let_def udp_cookie_def udp_gamepad_def udp_ping_def e
        split: if_splits option.splits pyro_message.splits)
  show "\<exists>xs. udp_out c' = udp_out c @ xs \<and> fst ` set xs \<subseteq> {udp_remote c} \<and> (\<not> kicked c \<longrightarrow> xs = [])"
    using assms by (auto simp: conn_handle_udp_datagram_def Let_def udp_cookie_def udp_gamepad_def udp_ping_def
        split: if_splits option.splits pyro_message.splits)
qed

text \<open>A packet.\<close>

lemma write_packet_udp:
  assumes "write_packet stack pts dts data a k c = Some c'"
  shows "cookie c' = cookie c" "kicked c' = kicked c" "udp_remote c' = udp_remote c"
    "\<exists>xs. udp_out c' = udp_out c @ xs \<and> fst ` set xs \<subseteq> {udp_remote c} \<and> (\<not> kicked c \<longrightarrow> xs = [])"
  using assms by (auto simp: write_packet_def Let_def split: if_splits bind_splits prod.splits)

definition conn_bound :: "conn_event list \<Rightarrow> stream_connection \<Rightarrow> bool" where
  "conn_bound evs c \<longleftrightarrow>
     (if remote_valid (udp_remote c)
      then (\<exists>now. Datagram now (udp_remote c) (cookie_datagram (cookie c)) \<in> set evs)
        \<and> fst ` set (udp_out c) \<subseteq> {udp_remote c}
      else \<not> kicked c \<and> udp_out c = [])"

lemma conn_bound_grow:
  assumes "conn_bound evs c" "cookie c' = cookie c" "kicked c' = kicked c" "udp_remote c' = udp_remote c"
    "\<exists>xs. udp_out c' = udp_out c @ xs \<and> fst ` set xs \<subseteq> {udp_remote c} \<and> (\<not> kicked c \<longrightarrow> xs = [])"
    "set evs \<subseteq> set evs'"
  shows "conn_bound evs' c'"
  using assms by (auto simp: conn_bound_def split: if_splits)

lemma conn_event_bound:
  assumes "conn_event_step e (s, c) = Some (s', c')" "conn_bound evs c"
  shows "conn_bound (e # evs) c' \<and> cookie c' = cookie c"
proof (cases e)
  case (TcpEvent b ident)
  with assms(1) obtain ok where h: "handle b ident s c = (ok, s', c')" by (auto simp: Let_def split: prod.splits)
  have v: "udp_view c' = udp_view c" by (metis h handle_udp snd_conv)
  moreover have "kicked c \<or> remote_valid (udp_remote c)" if "kicked c'"
    using handle_kicked[of b ident s c] that by (simp add: h)
  ultimately show ?thesis using assms(2) by (auto simp: conn_bound_def udp_view_def)
next
  case (Datagram now r msg)
  with assms(1) have "conn_handle_udp_datagram now r msg s c = (s', c')" by simp
  note d = datagram_udp[OF this]
  from d(3) show ?thesis
  proof
    assume "udp_remote c' = udp_remote c"
    with conn_bound_grow[OF assms(2) d(1,2) _ d(4), of "e # evs"] d(1) show ?thesis by auto
  next
    assume n: "\<not> remote_valid (udp_remote c) \<and> udp_remote c' = r \<and> msg = cookie_datagram (cookie c)"
    with assms(2) have "\<not> kicked c" "udp_out c = []" by (simp_all add: conn_bound_def)
    with d n Datagram show ?thesis by (auto simp: conn_bound_def)
  qed
next
  case (SendVideo stack pts dts data key)
  with assms(1) have "write_packet stack pts dts data False key c = Some c'"
    by (auto simp: conn_write_video_packet_def split: bind_splits)
  from conn_bound_grow[OF assms(2) write_packet_udp[OF this], of "e # evs"] write_packet_udp(1)[OF this]
  show ?thesis by auto
next
  case (SendAudio stack pts dts data)
  with assms(1) have "write_packet stack pts dts data True False c = Some c'"
    by (auto simp: conn_write_audio_packet_def split: bind_splits)
  from conn_bound_grow[OF assms(2) write_packet_udp[OF this], of "e # evs"] write_packet_udp(1)[OF this]
  show ?thesis by auto
qed

lemma conn_events_bound:
  "conn_events evs (s, c) = Some (s', c') \<Longrightarrow> conn_bound past c \<Longrightarrow> conn_bound (past @ evs) c' \<and> cookie c' = cookie c"
proof (induction evs arbitrary: s c past)
  case (Cons e evs)
  from Cons.prems(1) obtain s1 c1 where e: "conn_event_step e (s, c) = Some (s1, c1)" "conn_events evs (s1, c1) = Some (s', c')"
    by (auto split: bind_splits)
  from conn_event_bound[OF e(1) Cons.prems(2)] have b: "conn_bound (e # past) c1" "cookie c1 = cookie c" by simp_all
  then have "conn_bound (past @ [e]) c1" by (auto simp: conn_bound_def split: if_splits)
  from Cons.IH[OF e(2) this] b(2) show ?case by simp
qed simp

text \<open>A bound connection ignores every other address.\<close>

lemma stranger_ignored:
  assumes "remote_valid (udp_remote c)" "\<not> remote_eq (udp_remote c) r"
  shows "conn_handle_udp_datagram now r msg s c = (s, c)"
  using assms by (simp add: conn_handle_udp_datagram_def udp_cookie_def udp_phase_offset_def udp_gamepad_def
      udp_ping_def Let_def split: option.splits pyro_message.splits)

text \<open>
  C18. Whatever bytes, datagrams and packets come, and from whom: the connection sends datagrams to one address
  only, that address has sent a datagram with exactly the cookie that the connection was given, and from then on
  datagrams from any other address change neither the connection nor the server.
\<close>

theorem datagrams_need_cookie:
  assumes "conn_events evs (s, connection_new remote k) = Some (s', c')"
  shows "fst ` set (udp_out c') \<subseteq> {udp_remote c'} \<inter> {r. \<exists>now. Datagram now r (cookie_datagram k) \<in> set evs}
    \<and> (udp_out c' \<noteq> [] \<and> \<not> remote_eq (udp_remote c') r \<longrightarrow> conn_handle_udp_datagram now r msg s' c' = (s', c'))"
proof -
  have "conn_bound [] (connection_new remote k)"
    by (simp add: conn_bound_def connection_new_def no_remote_def remote_valid_def)
  from conn_events_bound[OF assms this] have b: "conn_bound evs c'" "cookie c' = k" by (simp_all add: connection_new_def)
  then have "udp_out c' \<noteq> [] \<Longrightarrow> remote_valid (udp_remote c')" by (simp add: conn_bound_def split: if_splits)
  moreover have "fst ` set (udp_out c') \<subseteq> {udp_remote c'} \<inter> {r. \<exists>now. Datagram now r (cookie_datagram k) \<in> set evs}"
    using b by (cases "remote_valid (udp_remote c')") (fastforce simp: conn_bound_def)+
  ultimately show ?thesis by (auto simp: stranger_ignored)
qed

text \<open>The messages of a client that connects.\<close>

lemma get_message [simp]: "get_word 0 4 (put_message m @ y) = message_code m"
  using get_put_word[of 4 "[]" 0 "message_code m" y] by (simp add: put_message_def)

lemma length_put_message [simp]: "length (put_message m) = 4"
  by (simp add: put_message_def)

lemma datagram_message:
  assumes "length p = message_payload_size m"
  shows "conn_handle_udp_datagram now r (put_message m @ p) s c =
    (case m of MESSAGE_COOKIE \<Rightarrow> (s, udp_cookie r p c) | MESSAGE_PHASE_OFFSET \<Rightarrow> (udp_phase_offset r p s c, c)
     | MESSAGE_GAMEPAD_STATE \<Rightarrow> udp_gamepad r p s c | MESSAGE_PING \<Rightarrow> (s, udp_ping now r p c) | _ \<Rightarrow> (s, c))"
  by (simp add: conn_handle_udp_datagram_def message_code_facts assms sizeof_message_type_def Let_def)

lemma cookie_datagram_binds:
  "conn_handle_udp_datagram now r (cookie_datagram (cookie c)) s c =
    (s, if remote_valid (udp_remote c) then c else c\<lparr>udp_remote := r\<rparr>)"
  unfolding cookie_datagram_def by (subst datagram_message) (simp_all add: layout_simps udp_cookie_def)

lemma kick_at_front:
  assumes "send_script c = []" "\<not> kicked c"
  shows "handle_messages s (c\<lparr>tcp_buffer := put_message MESSAGE_KICK @ put_word 4 f\<rparr>) =
    (True, if f AND PYRO_KICK_STATE_GAMEPAD_BIT \<noteq> 0 then reset_gamepad_ownership s else s,
     (snd (kick_reply s (c\<lparr>kick_flags := f\<rparr>)))\<lparr>timer := Some 15, tcp_buffer := []\<rparr>)"
proof -
  have g: "get_word 0 4 (put_word 4 f) = f" using get_put_word[of 4 "[]" 0 f "[]"] by simp
  have r: "fst (kick_reply s (c\<lparr>kick_flags := f\<rparr>))" "kick_flags (snd (kick_reply s (c\<lparr>kick_flags := f\<rparr>))) = f"
    using assms by (simp_all add: kick_reply_def send_two_def send_stream_message_def)
  have m: "handle_message (message_code MESSAGE_KICK) (put_word 4 f) s c =
      (None, if f AND PYRO_KICK_STATE_GAMEPAD_BIT \<noteq> 0 then reset_gamepad_ownership s else s,
       (snd (kick_reply s (c\<lparr>kick_flags := f\<rparr>)))\<lparr>timer := Some 15\<rparr>)"
    using r assms(2) by (cases "kick_reply s (c\<lparr>kick_flags := f\<rparr>)") (simp add: handle_message_def message_code_facts handle_kick_def g)
  show ?thesis
    using message_at_front[where m = MESSAGE_KICK and p = "put_word 4 f" and x = "[]" and s = s and c = c]
    by (simp add: handle_message_frame m sizeof_kick_state_def incomplete_message)
qed

lemma datagrams_need_cookie_witness:
  "\<exists>evs r s' c'. evs = [Datagram 0 r (cookie_datagram 7), TcpEvent (put_message MESSAGE_KICK @ put_word 4 (1 :: u32)) 0,
      Datagram 5 r (put_message MESSAGE_PING @ put_word 2 (3 :: u16))]
    \<and> conn_events evs (set_codec_parameters (codec_none\<lparr>video_codec := 1\<rparr>) server_new, connection_new no_remote 7) = Some (s', c')
    \<and> length (udp_out c') = 1 \<and> fst ` set (udp_out c') \<subseteq> {udp_remote c'} \<inter> {r. \<exists>now. Datagram now r (cookie_datagram 7) \<in> set evs}"
proof -
  define r where "r = \<lparr>addr = replicate 128 1, addr_size = 16\<rparr>"
  define s where "s = set_codec_parameters (codec_none\<lparr>video_codec := 1\<rparr>) server_new"
  define c where "c = connection_new no_remote 7"
  define kick where "kick = put_message MESSAGE_KICK @ put_word 4 (1 :: u32)"
  define ping where "ping = put_message MESSAGE_PING @ put_word 2 (3 :: u16)"
  define c1 where "c1 = c\<lparr>udp_remote := r\<rparr>"
  define c2 where "c2 = snd (snd (handle kick 0 s c1))"
  have "cookie c = 7" "\<not> remote_valid (udp_remote c)" by (simp_all add: c_def connection_new_def no_remote_def remote_valid_def)
  then have e1: "conn_event_step (Datagram 0 r (cookie_datagram 7)) (s, c) = Some (s, c1)"
    using cookie_datagram_binds[of 0 r c s] by (simp add: c1_def)
  have c1: "tcp_buffer c1 = []" "\<not> kicked c1" "send_script c1 = []" "udp_remote c1 = r" "udp_out c1 = []" "remote_valid r"
    by (simp_all add: c1_def c_def connection_new_def r_def remote_valid_def)
  have k: "kick \<noteq> []" "length kick = 8" by (auto simp: kick_def simp flip: length_0_conv)
  have "handle kick 0 s c1 = handle_messages s (c1\<lparr>tcp_buffer := kick\<rparr>)" using k c1 by (simp add: handle_fits)
  moreover have "\<dots> = (True, s, (snd (kick_reply s (c1\<lparr>kick_flags := 1\<rparr>)))\<lparr>timer := Some 15, tcp_buffer := []\<rparr>)"
    unfolding kick_def using kick_at_front[OF c1(3,2), of s 1] by (simp add: PYRO_KICK_STATE_GAMEPAD_BIT_def)
  ultimately have h: "handle kick 0 s c1 = (True, s, c2)" "c2 = (snd (kick_reply s (c1\<lparr>kick_flags := 1\<rparr>)))\<lparr>timer := Some 15, tcp_buffer := []\<rparr>"
    by (simp_all add: c2_def)
  have v: "video_codec (get_codec_parameters s) \<noteq> PYRO_VIDEO_CODEC_NONE"
    by (simp add: s_def set_codec_parameters_def get_codec_parameters_def PYRO_VIDEO_CODEC_NONE_def)
  then have c2: "kicked c2" "udp_remote c2 = r" "udp_out c2 = []"
    using c1 by (simp_all add: h(2) kick_reply_def send_two_def send_stream_message_def)
  define c3 where "c3 = udp_ping 5 r (put_word 2 (3 :: u16)) c2"
  have e3: "conn_handle_udp_datagram 5 r ping s c2 = (s, c3)"
    unfolding ping_def by (subst datagram_message) (simp_all add: layout_simps c3_def)
  have l: "length (udp_out c3) = 1" using c2 by (simp add: c3_def udp_ping_def remote_eq_def Let_def)
  have run: "conn_events [Datagram 0 r (cookie_datagram 7), TcpEvent kick 0, Datagram 5 r ping] (s, connection_new no_remote 7) = Some (s, c3)"
    using e1 h(1) e3 by (simp add: c_def[symmetric])
  from datagrams_need_cookie[OF run] l run show ?thesis unfolding s_def kick_def ping_def by blast
qed

section \<open>Forced key frames\<close>

text \<open>
  Calls of \<open>should_force_idr\<close>, before each of which the server is changed by some function; the number of
  calls that asked for a key frame.
\<close>

primrec idr_calls :: "(stream_server \<Rightarrow> stream_server) list \<Rightarrow> stream_server \<Rightarrow> nat \<times> stream_server" where
  "idr_calls [] s = (0, s)"
| "idr_calls (f # fs) s =
     (let (b, s) = should_force_idr (f s); (n, s) = idr_calls fs s in (n + of_bool b, s))"

definition keeps_idr_counter :: "(stream_server \<Rightarrow> stream_server) \<Rightarrow> bool" where
  "keeps_idr_counter f \<longleftrightarrow> (\<forall>s. idr_counter (f s) = idr_counter s)"

lemma should_force_idr_counter:
  "61 * of_bool (fst (should_force_idr s)) + unat (idr_counter (snd (should_force_idr s))) \<le> unat (idr_counter s) + 1"
proof -
  have "unat (x + 1) \<le> unat x + 1" for x :: u64
    unfolding unat_word_ariths(1) by (simp only: unsigned_1 mod_less_eq_dividend)
  moreover have "60 \<le> unat (idr_counter s)" if "\<not> idr_counter s < 60"
    using that by (simp add: word_less_nat_alt)
  ultimately show ?thesis by (auto simp: should_force_idr_def Let_def split: prod.splits)
qed

lemma idr_calls_counter:
  assumes "list_all keeps_idr_counter fs"
  shows "61 * fst (idr_calls fs s) + unat (idr_counter (snd (idr_calls fs s))) \<le> unat (idr_counter s) + length fs"
  using assms
proof (induction fs arbitrary: s)
  case (Cons f fs)
  obtain b s1 where h: "should_force_idr (f s) = (b, s1)" by fastforce
  from should_force_idr_counter[of "f s"] h Cons.prems
  have "61 * of_bool b + unat (idr_counter s1) \<le> unat (idr_counter s) + 1" by (simp add: keeps_idr_counter_def)
  moreover have "61 * fst (idr_calls fs s1) + unat (idr_counter (snd (idr_calls fs s1))) \<le> unat (idr_counter s1) + length fs"
    using Cons by simp
  ultimately show ?case by (cases "idr_calls fs s1"; cases b) (simp_all add: h)
qed simp

text \<open>Every other operation of the server keeps the counter.\<close>

lemma handle_message_idr: "idr_counter (fst (snd (handle_message t p s c))) = idr_counter s"
  by (simp add: handle_message_def handle_hello_def handle_kick_def handle_progress_def handle_other_def Let_def
      reset_gamepad_ownership_def split: prod.splits option.splits pyro_message.splits)

lemma handle_messages_idr: "idr_counter (fst (snd (handle_messages s c))) = idr_counter s"
proof (induction s c rule: handle_messages.induct)
  case (1 s c)
  let ?t = "get_word 0 4 (tcp_buffer c)" and ?p = "drop sizeof_message_type (tcp_buffer c)"
  obtain r s1 c1 where m: "handle_message ?t ?p s c = (r, s1, c1)" by (rule prod_cases3)
  have v: "idr_counter s1 = idr_counter s" using handle_message_idr[of ?t ?p s c] by (simp only: m fst_conv snd_conv)
  show ?case
  proof (cases "message_complete (tcp_buffer c) \<and> pyro_message_validate_magic ?t \<and> r = None")
    case True
    with m v "1.IH"[OF refl refl _ _ m[symmetric] _ refl] show ?thesis
      by (subst handle_messages.simps) (simp add: Let_def)
  next
    case False
    with m v show ?thesis by (subst handle_messages.simps) (auto simp: Let_def split: option.splits)
  qed
qed

lemma srv_handle_keeps_idr: "keeps_idr_counter (\<lambda>s. snd (srv_handle k b ident s))"
proof -
  have "idr_counter (fst (snd (handle b ident s c))) = idr_counter s" for s c
    by (simp add: handle_def Let_def handle_messages_idr)
  then have h: "handle b ident s c = (r, s', c') \<Longrightarrow> idr_counter s' = idr_counter s" for s c r s' c'
    by (metis fst_conv snd_conv)
  then show ?thesis by (auto simp: keeps_idr_counter_def srv_handle_def split: option.splits prod.splits)
qed

lemma srv_datagram_keeps_idr: "keeps_idr_counter (srv_handle_udp_datagram now r msg)"
proof -
  have "idr_counter (fst (conn_handle_udp_datagram now r msg s c)) = idr_counter s" for s c
    by (simp add: conn_handle_udp_datagram_def udp_phase_offset_def udp_gamepad_def set_phase_offset_def
        set_gamepad_state_def Let_def split: option.splits pyro_message.splits)
  then have d: "conn_handle_udp_datagram now r msg s c = (s', c') \<Longrightarrow> idr_counter s' = idr_counter s" for s c s' c'
    by (metis fst_conv)
  have "udp_all now r msg cs s = (s', cs') \<Longrightarrow> idr_counter s' = idr_counter s" for cs s s' cs'
    by (induction cs arbitrary: s cs') (auto split: prod.splits dest: d)
  then show ?thesis by (auto simp: keeps_idr_counter_def srv_handle_udp_datagram_def split: prod.splits)
qed

lemma server_keeps_idr:
  "keeps_idr_counter (register_tcp_handler r)" "keeps_idr_counter (release_id ident k)"
  "keeps_idr_counter (set_codec_parameters p)" "keeps_idr_counter (\<lambda>s. snd (get_phase_offset_us s))"
  "keeps_idr_counter (\<lambda>s. snd (get_updated_gamepad_state s))" "keeps_idr_counter (\<lambda>s. snd (consume_bitrate_change_request s))"
  "keeps_idr_counter (srv_set_forward_error_correction b)" "keeps_idr_counter (set_idr_on_packet_loss b)"
  by (simp_all add: keeps_idr_counter_def register_tcp_handler_def release_id_def release_connection_def
      set_codec_parameters_def get_phase_offset_us_def get_updated_gamepad_state_def consume_bitrate_change_request_def
      srv_set_forward_error_correction_def set_idr_on_packet_loss_def Let_def)

text \<open>
  Key frames are rationed and not refused: whatever else happens to a new server between the calls, of
  \<open>n\<close> calls of \<open>should_force_idr\<close> at most \<open>n div 61\<close> ask for a key frame; and a call that comes at least 60
  calls after the last one that did asks for one exactly when some connection needs it or, if that is enabled, has lost
  a packet.
\<close>

theorem idr_rationed:
  assumes "list_all keeps_idr_counter fs" "idr_calls fs server_new = (n, s)"
  shows "n \<le> length fs div 61
    \<and> (fst (should_force_idr s) \<longleftrightarrow> 60 \<le> idr_counter s
        \<and> (\<exists>c \<in> set (connections s). conn_requires_idr c \<or> idr_on_packet_loss s \<and> has_pending_video_packet_loss c))"
proof
  have "61 * n \<le> length fs"
    using idr_calls_counter[OF assms(1), of server_new] assms(2) by (simp add: server_new_def)
  then show "n \<le> length fs div 61" by linarith
  have r: "conn_requires_idr (c\<lparr>has_pending_video_packet_loss := False\<rparr>) = conn_requires_idr c" for c
    by (simp add: conn_requires_idr_def)
  show "fst (should_force_idr s) \<longleftrightarrow> 60 \<le> idr_counter s
      \<and> (\<exists>c \<in> set (connections s). conn_requires_idr c \<or> idr_on_packet_loss s \<and> has_pending_video_packet_loss c)"
    by (auto simp: should_force_idr_def idr_scan_def get_and_clear_pending_video_packet_loss_def list_ex_iff r Let_def not_less)
qed

lemma quiet_calls:
  assumes "unat (idr_counter s) + k \<le> 60" "connections s = cs"
  shows "\<exists>s'. idr_calls (replicate k (\<lambda>s. s)) s = (0, s') \<and> unat (idr_counter s') = unat (idr_counter s) + k \<and> connections s' = cs"
  using assms
proof (induction k arbitrary: s)
  case (Suc k)
  let ?s = "s\<lparr>idr_counter := idr_counter s + 1\<rparr>"
  have lt: "idr_counter s < 60" using Suc.prems(1) by (simp add: word_less_nat_alt)
  then have h: "should_force_idr s = (False, ?s)" by (simp add: should_force_idr_def Let_def)
  have u: "unat (idr_counter s + 1) = unat (idr_counter s) + 1"
    using Suc.prems(1) by (simp add: unat_word_ariths)
  obtain s' where "idr_calls (replicate k (\<lambda>s. s)) ?s = (0, s')" "unat (idr_counter s') = unat (idr_counter s) + 1 + k" "connections s' = cs"
    using Suc.IH[of ?s] Suc.prems u by auto
  then show ?case by (simp add: h)
qed simp

lemma idr_rationed_witness:
  "\<exists>fs s. length fs = 60 \<and> idr_calls fs server_new = (0, s) \<and> 0 \<le> length fs div 61 \<and> fst (should_force_idr s)"
proof -
  define c where "c = (connection_new no_remote 7)\<lparr>kick_flags := 1, needs_key_frame := True\<rparr>"
  define f where "f = (\<lambda>s :: stream_server. s\<lparr>connections := [c]\<rparr>)"
  define s1 where "s1 = (f server_new)\<lparr>idr_counter := 1\<rparr>"
  have f: "keeps_idr_counter f" "keeps_idr_counter (\<lambda>s. s)" by (simp_all add: f_def keeps_idr_counter_def)
  have one: "should_force_idr (f server_new) = (False, s1)"
    by (simp add: s1_def f_def server_new_def should_force_idr_def Let_def)
  obtain s' where q: "idr_calls (replicate 59 (\<lambda>s. s)) s1 = (0, s')" "unat (idr_counter s') = 60" "connections s' = [c]"
    using quiet_calls[of s1 59 "[c]"] by (auto simp: s1_def f_def)
  have k: "60 \<le> idr_counter s'" using q(2) by (simp add: word_le_nat_alt)
  have run: "idr_calls (f # replicate 59 (\<lambda>s. s)) server_new = (0, s')" by (simp add: one q(1))
  have "conn_requires_idr c" by (simp add: c_def conn_requires_idr_def PYRO_KICK_STATE_VIDEO_BIT_def)
  with k q(3) have x: "60 \<le> idr_counter s' \<and> (\<exists>c \<in> set (connections s'). conn_requires_idr c \<or> idr_on_packet_loss s' \<and> has_pending_video_packet_loss c)"
    by simp
  have all: "list_all keeps_idr_counter (f # replicate 59 (\<lambda>s. s))" using f by (simp add: list_all_iff)
  have "fst (should_force_idr s')" using idr_rationed[OF all run] x by simp
  then show ?thesis using run by (intro exI[of _ "f # replicate 59 (\<lambda>s. s)"] exI[of _ s']) simp
qed

end
