(* ===== verification/LT_Decode.thy ===== *)
theory LT_Decode
  imports LT_Encode
begin

text \<open>
  The FEC decoder (\<open>lt/lt_decode.hpp\<close>, \<open>lt/lt_decode.cpp\<close>), a peeling decoder: raw data blocks and FEC
  blocks arrive in any order, and a FEC block with one unknown data block left yields that block.

  Storage.  \<open>output_data\<close> is the caller's buffer.  A link's \<open>data\<close> pointer is modelled together with the
  block it designates (\<open>link_data\<close>); every FEC block has its own block in the caller's FEC buffer.  The
  index buffer is carved by the code into the mask table, \<open>output_to_fec_mask\<close>, and one region of
  \<open>output_blocks\<close> cells per FEC block, \<open>resolved_indices\<close>; a region that would not lie inside the
  reserved capacity, or an access outside its region, is the outcome \<open>None\<close>.
\<close>

section \<open>The code\<close>

record encoded_link =
  link_data :: "byte list option"
  link_output_index :: nat
  num_unresolved_indices :: nat
  resolved_indices :: "nat option list"
  num_resolved_indices :: nat

definition link_new :: encoded_link where
  "link_new = \<lparr>link_data = None, link_output_index = 0, num_unresolved_indices = 0,
     resolved_indices = [], num_resolved_indices = 0\<rparr>"

record decoder =
  dec_shuffler :: shuffler
  dec_block_size :: nat
  output_data :: "byte list"
  output_blocks :: nat
  decoded_blocks :: nat
  num_xor_blocks_even :: nat
  num_xor_blocks_odd :: nat
  index_buffer_capacity :: nat
  index_buffer_offset :: nat
  output_to_fec_mask :: "u32 list"
  num_u32_masks_per_output :: nat
  ready_encoded_links :: "nat list"
  encoded_blocks :: "encoded_link list"
  decoded_block_mask :: "bool list"

definition decoder_new :: decoder where
  "decoder_new = \<lparr>dec_shuffler = shuffler_new, dec_block_size = 0, output_data = [], output_blocks = 0,
     decoded_blocks = 0, num_xor_blocks_even = 0, num_xor_blocks_odd = 0, index_buffer_capacity = 0,
     index_buffer_offset = 0, output_to_fec_mask = [], num_u32_masks_per_output = 0,
     ready_encoded_links = [], encoded_blocks = [], decoded_block_mask = []\<rparr>"

definition dec_set_block_size :: "nat \<Rightarrow> decoder \<Rightarrow> decoder" where
  "dec_set_block_size sz d = d\<lparr>dec_block_size := sz\<rparr>"

definition reserve_indices :: "nat \<Rightarrow> decoder \<Rightarrow> decoder outcome" where
  "reserve_indices num_indices d = do {
     cap \<leftarrow> (if index_buffer_capacity d < num_indices
            then grow_pow2 64 (if index_buffer_capacity d = 0 then 1 else index_buffer_capacity d)
                   num_indices
            else Some (index_buffer_capacity d));
     Some (d\<lparr>index_buffer_capacity := cap, index_buffer_offset := 0\<rparr>)
   }"

text \<open>The body of the loop in \<open>seed_block\<close>: note the index in the mask table and in \<open>output_index\<close>.\<close>

definition seed_index ::
  "nat \<Rightarrow> nat \<Rightarrow> nat \<Rightarrow> nat \<Rightarrow> nat \<times> u32 list \<Rightarrow> (nat \<times> u32 list) outcome" where
  "seed_index nm fec_index i output_index st = do {
     let (acc, masks) = st;
     m \<leftarrow> load masks (output_index * nm + fec_index div 32);
     masks \<leftarrow> store masks (output_index * nm + fec_index div 32)
                (m OR push_bit (fec_index mod 32) 1);
     Some (acc XOR output_index, masks)
   }"

definition seed_block :: "nat \<Rightarrow> decoder \<Rightarrow> decoder outcome" where
  "seed_block fec_index d = do {
     block \<leftarrow> load (encoded_blocks d) fec_index;
     guard (index_buffer_offset d + output_blocks d \<le> index_buffer_capacity d);
     let num_xor_blocks = (if odd fec_index then num_xor_blocks_odd d else num_xor_blocks_even d);
     sh \<leftarrow> begin_pick (output_blocks d) num_xor_blocks (dec_shuffler d);
     (sh, acc, masks) \<leftarrow>
       for_list (\<lambda>i (sh, st). do {
           (output_index, sh) \<leftarrow> pick sh;
           st \<leftarrow> seed_index (num_u32_masks_per_output d) fec_index i output_index st;
           Some (sh, st) })
         [0..<num_xor_blocks] (sh, 0, output_to_fec_mask d);
     Some (d\<lparr>dec_shuffler := sh, output_to_fec_mask := masks,
             index_buffer_offset := index_buffer_offset d + output_blocks d,
             encoded_blocks := (encoded_blocks d)[fec_index :=
               block\<lparr>resolved_indices := replicate (output_blocks d) None,
                     link_output_index := acc, num_unresolved_indices := num_xor_blocks\<rparr>]\<rparr>)
   }"

definition begin_decode ::
  "nat \<Rightarrow> byte list \<Rightarrow> nat \<Rightarrow> nat \<Rightarrow> nat \<Rightarrow> nat \<Rightarrow> decoder \<Rightarrow> decoder outcome" where
  "begin_decode seed_value data sz max_fec_blocks xor_even xor_odd d = do {
     guard (dec_block_size d \<noteq> 0);
     guard (sz mod dec_block_size d = 0);
     let blocks = (sz div dec_block_size d) mod 2 ^ 32;
     let nm = ((max_fec_blocks + 31) mod 2 ^ 32) div 32;
     d \<leftarrow> reserve_indices ((max_fec_blocks * blocks + nm * blocks) mod 2 ^ 32)
        (d\<lparr>output_data := data, output_blocks := blocks, num_xor_blocks_even := xor_even,
           num_xor_blocks_odd := xor_odd, decoded_blocks := 0,
           decoded_block_mask := replicate blocks False, ready_encoded_links := [],
           num_u32_masks_per_output := nm\<rparr>);
     let mask_words = (nm * blocks) mod 2 ^ 32;
     guard (mask_words \<le> index_buffer_capacity d);
     for_list seed_block [0..<max_fec_blocks]
       (d\<lparr>output_to_fec_mask := replicate mask_words 0, index_buffer_offset := mask_words,
          dec_shuffler := flush (seed seed_value (dec_shuffler d)),
          encoded_blocks := replicate max_fec_blocks link_new\<rparr>)
   }"

text \<open>\<open>__builtin_ctz\<close>: the number of zero bits below the lowest set bit.\<close>

definition find_lsb :: "u32 \<Rightarrow> nat" where
  "find_lsb v = length (takeWhile (\<lambda>i. \<not> bit v i) [0..<32])"

text \<open>
  The body of the loop in \<open>propagate_decoded_block\<close> for one FEC block that contains the data block
  \<open>output_index\<close>: the link absorbs the block if its own data has arrived, and notes the index otherwise.
\<close>

definition link_absorb :: "nat \<Rightarrow> decoder \<Rightarrow> encoded_link \<Rightarrow> encoded_link outcome" where
  "link_absorb output_index d block =
     (case link_data block of
         Some b \<Rightarrow> do {
           x \<leftarrow> xor_block b (drop (dec_block_size d * output_index) (output_data d)) (dec_block_size d);
           Some (block\<lparr>link_data := Some x\<rparr>) }
       | None \<Rightarrow> do {
           r \<leftarrow> store (resolved_indices block) (num_resolved_indices block) (Some output_index);
           Some (block\<lparr>resolved_indices := r,
                       num_resolved_indices := num_resolved_indices block + 1\<rparr>) })"

definition resolve_link :: "nat \<Rightarrow> nat \<Rightarrow> decoder \<Rightarrow> decoder outcome" where
  "resolve_link fec_index output_index d = do {
     block \<leftarrow> load (encoded_blocks d) fec_index;
     block \<leftarrow> link_absorb output_index d block;
     guard (num_unresolved_indices block \<noteq> 0);
     let block = block\<lparr>link_output_index := link_output_index block XOR output_index,
                       num_unresolved_indices := num_unresolved_indices block - 1\<rparr>;
     Some (d\<lparr>encoded_blocks := (encoded_blocks d)[fec_index := block],
             ready_encoded_links :=
               (if num_unresolved_indices block = 1 \<and> link_data block \<noteq> None
                then ready_encoded_links d @ [fec_index] else ready_encoded_links d)\<rparr>)
   }"

lemma find_lsb_bit:
  assumes "v \<noteq> 0"
  shows "find_lsb v < 32" "bit v (find_lsb v)"
proof -
  have ex: "\<exists>i \<in> set [0..<32]. bit v i"
  proof (rule ccontr)
    assume "\<not> (\<exists>i \<in> set [0..<32]. bit v i)"
    then have "v = 0" by (intro bit_word_eqI) auto
    with assms show False ..
  qed
  have lt: "length (takeWhile (\<lambda>i. \<not> bit v i) [0..<32]) < length [0..<32]"
  proof (rule ccontr)
    assume "\<not> ?thesis"
    then have "length (takeWhile (\<lambda>i. \<not> bit v i) [0..<32]) = length [0..<32]"
      using length_takeWhile_le[of "\<lambda>i. \<not> bit v i" "[0..<32]"] by linarith
    then have "takeWhile (\<lambda>i. \<not> bit v i) [0..<32] = [0..<32]"
      by (metis takeWhile_eq_take take_all order_refl)
    then have "\<forall>i \<in> set [0..<32]. \<not> bit v i" by (simp only: takeWhile_eq_all_conv)
    with ex show False by blast
  qed
  from nth_length_takeWhile[OF lt] lt
  show "find_lsb v < 32" "bit v (find_lsb v)" by (simp_all add: find_lsb_def)
qed

text \<open>Clearing the lowest set bit makes the mask smaller, so the loop over a mask ends.\<close>

lemma clear_bit_less:
  fixes v :: u32
  assumes "bit v b"
  shows "unat (v AND NOT (2 ^ b)) < unat v"
proof -
  have "v AND NOT (2 ^ b) \<le> v" by (rule word_and_le2)
  moreover have "\<not> bit (v AND NOT (2 ^ b)) b"
    using bit_imp_le_length[OF assms] by (simp add: bit_simps)
  then have "v AND NOT (2 ^ b) \<noteq> v" using assms by metis
  ultimately have "v AND NOT (2 ^ b) < v" by simp
  then show ?thesis by (simp only: word_less_nat_alt)
qed

text \<open>The loop \<open>while (mask)\<close> over one word of the mask table.\<close>

function propagate_word :: "nat \<Rightarrow> nat \<Rightarrow> u32 \<Rightarrow> decoder \<Rightarrow> decoder outcome" where
  "propagate_word output_index i mw d =
     (if mw = 0 then Some d
      else do {
        let b = find_lsb mw;
        let mw' = mw AND NOT (push_bit b 1);
        masks \<leftarrow> store (output_to_fec_mask d) (output_index * num_u32_masks_per_output d + i) mw';
        d \<leftarrow> resolve_link (i * 32 + b) output_index (d\<lparr>output_to_fec_mask := masks\<rparr>);
        propagate_word output_index i mw' d
      })"
  by pat_completeness auto
termination
  by (relation "measure (\<lambda>(_, _, mw, _). unat mw)") (auto intro: clear_bit_less find_lsb_bit)

declare propagate_word.simps [simp del]

definition propagate_decoded_block :: "nat \<Rightarrow> decoder \<Rightarrow> decoder outcome" where
  "propagate_decoded_block output_index d =
     for_list (\<lambda>i d. do {
         mw \<leftarrow> load (output_to_fec_mask d) (output_index * num_u32_masks_per_output d + i);
         propagate_word output_index i mw d })
       [0..<num_u32_masks_per_output d] d"

definition mark_decoded_block :: "nat \<Rightarrow> decoder \<Rightarrow> (bool \<times> decoder) outcome" where
  "mark_decoded_block index d = do {
     seen \<leftarrow> load (decoded_block_mask d) index;
     Some (if seen then (False, d)
           else (True, d\<lparr>decoded_block_mask := (decoded_block_mask d)[index := True],
                         decoded_blocks := decoded_blocks d + 1\<rparr>))
   }"

definition drain_ready_block :: "nat \<Rightarrow> decoder \<Rightarrow> decoder outcome" where
  "drain_ready_block fec_index d = do {
     block \<leftarrow> load (encoded_blocks d) fec_index;
     if num_unresolved_indices block = 0 then Some d
     else do {
       guard (num_unresolved_indices block = 1);
       b \<leftarrow> link_data block;
       let o_idx = link_output_index block;
       guard (o_idx < output_blocks d);
       (fresh, d) \<leftarrow> mark_decoded_block o_idx d;
       if fresh then do {
         b \<leftarrow> read_bytes b 0 (dec_block_size d);
         out \<leftarrow> write_bytes (output_data d) (dec_block_size d * o_idx) b;
         propagate_decoded_block o_idx (d\<lparr>output_data := out\<rparr>)
       } else Some d
     }
   }"

text \<open>Resolving links never touches the record of decoded blocks nor the output.\<close>

lemma resolve_link_frame:
  assumes "resolve_link f i d = Some d'"
  shows "decoded_block_mask d' = decoded_block_mask d \<and> output_data d' = output_data d"
  using assms
  by (auto simp: resolve_link_def Let_def Option.bind_eq_Some_conv split: option.splits)

lemma propagate_word_frame:
  "propagate_word o_idx i mw d = Some d' \<Longrightarrow> decoded_block_mask d' = decoded_block_mask d \<and> output_data d' = output_data d"
proof (induction o_idx i mw d arbitrary: d' rule: propagate_word.induct)
  case (1 o_idx i mw d)
  show ?case
  proof (cases "mw = 0")
    case True
    with 1(2) show ?thesis by (simp add: propagate_word.simps)
  next
    case False
    with 1(2) obtain d1 where
      d1: "resolve_link (i * 32 + find_lsb mw) o_idx (d\<lparr>output_to_fec_mask :=
          (output_to_fec_mask d)[o_idx * num_u32_masks_per_output d + i :=
             mw AND NOT (push_bit (find_lsb mw) 1)]\<rparr>) = Some d1"
      and lt: "o_idx * num_u32_masks_per_output d + i < length (output_to_fec_mask d)"
      and d': "propagate_word o_idx i (mw AND NOT (push_bit (find_lsb mw) 1)) d1 = Some d'"
      by (subst (asm) propagate_word.simps)
        (auto simp: Let_def Option.bind_eq_Some_conv store_eq_Some)
    have "decoded_block_mask d' = decoded_block_mask d1 \<and> output_data d' = output_data d1"
      using 1(1)[OF False refl refl store_Some[OF lt] d1 d'] .
    with resolve_link_frame[OF d1] show ?thesis by simp
  qed
qed

lemma propagate_decoded_block_frame:
  assumes "propagate_decoded_block o_idx d = Some d'"
  shows "decoded_block_mask d' = decoded_block_mask d \<and> output_data d' = output_data d"
  by (rule for_list_preserves[OF assms[unfolded propagate_decoded_block_def]])
     (auto simp: Option.bind_eq_Some_conv dest: propagate_word_frame)

lemma count_False_update:
  "i < length xs \<Longrightarrow> \<not> xs ! i \<Longrightarrow> count_list (xs[i := True]) False < count_list xs False"
proof (induction xs arbitrary: i)
  case Nil
  then show ?case by simp
next
  case (Cons x xs)
  then show ?case by (cases i) auto
qed

text \<open>Each drained block either decodes a data block or leaves nothing new to drain.\<close>

lemma drain_ready_block_progress:
  assumes "drain_ready_block f d = Some d'"
  shows "count_list (decoded_block_mask d') False < count_list (decoded_block_mask d) False \<or> d' = d"
proof -
  from assms obtain block where block: "load (encoded_blocks d) f = Some block"
    by (auto simp: drain_ready_block_def Option.bind_eq_Some_conv)
  show ?thesis
  proof (cases "num_unresolved_indices block = 0")
    case True
    with assms block show ?thesis by (auto simp: drain_ready_block_def)
  next
    case False
    with assms block obtain b fresh d1 where
      m: "mark_decoded_block (link_output_index block) d = Some (fresh, d1)"
      and r: "(if fresh then do {
         b \<leftarrow> read_bytes b 0 (dec_block_size d1);
         out \<leftarrow> write_bytes (output_data d1) (dec_block_size d1 * link_output_index block) b;
         propagate_decoded_block (link_output_index block) (d1\<lparr>output_data := out\<rparr>)
       } else Some d1) = Some d'"
      by (auto simp: drain_ready_block_def Option.bind_eq_Some_conv Let_def)
    show ?thesis
    proof (cases fresh)
      case False
      with m r show ?thesis
        by (auto simp: mark_decoded_block_def Option.bind_eq_Some_conv split: if_splits)
    next
      case True
      with r obtain out where
        p: "propagate_decoded_block (link_output_index block) (d1\<lparr>output_data := out\<rparr>) = Some d'"
        by (auto simp: Option.bind_eq_Some_conv)
      from m True have "count_list (decoded_block_mask d1) False < count_list (decoded_block_mask d) False"
        by (auto simp: mark_decoded_block_def Option.bind_eq_Some_conv load_eq_Some
            split: if_splits intro: count_False_update)
      with propagate_decoded_block_frame[OF p] show ?thesis by simp
    qed
  qed
qed

function drain_ready_blocks :: "decoder \<Rightarrow> decoder outcome" where
  "drain_ready_blocks d =
     (if ready_encoded_links d = [] then Some d
      else do {
        d \<leftarrow> drain_ready_block (last (ready_encoded_links d))
               (d\<lparr>ready_encoded_links := butlast (ready_encoded_links d)\<rparr>);
        drain_ready_blocks d
      })"
  by pat_completeness auto
termination
proof (relation "measures [\<lambda>d. count_list (decoded_block_mask d) False, \<lambda>d. length (ready_encoded_links d)]",
    goal_cases)
  case 1
  then show ?case by simp
next
  case (2 d d')
  from drain_ready_block_progress[OF 2(2)] 2(1) show ?case by auto
qed

declare drain_ready_blocks.simps [simp del]

definition all_resolved :: "decoder \<Rightarrow> bool" where
  "all_resolved d \<longleftrightarrow> list_all (\<lambda>b. num_unresolved_indices b = 0) (encoded_blocks d)"

definition push_fec_block :: "nat \<Rightarrow> byte list \<Rightarrow> decoder \<Rightarrow> (bool \<times> decoder) outcome" where
  "push_fec_block index data d = do {
     block \<leftarrow> load (encoded_blocks d) index;
     x \<leftarrow> for_list (\<lambda>i x. do {
            o_idx \<leftarrow> load_cell (resolved_indices block) i;
            xor_block x (drop (dec_block_size d * o_idx) (output_data d)) (dec_block_size d) })
          [0..<num_resolved_indices block] data;
     let d = d\<lparr>encoded_blocks := (encoded_blocks d)[index :=
                 block\<lparr>link_data := Some x, num_resolved_indices := 0\<rparr>],
               ready_encoded_links :=
                 (if num_unresolved_indices block = 1 then ready_encoded_links d @ [index]
                  else ready_encoded_links d)\<rparr>;
     d \<leftarrow> drain_ready_blocks d;
     let ret = (decoded_blocks d = output_blocks d);
     guard (ret \<longrightarrow> all_resolved d);
     Some (ret, d)
   }"

definition push_raw_block :: "nat \<Rightarrow> decoder \<Rightarrow> (bool \<times> decoder) outcome" where
  "push_raw_block index d = do {
     (fresh, d) \<leftarrow> mark_decoded_block index d;
     d \<leftarrow> (if fresh then propagate_decoded_block index d else Some d);
     d \<leftarrow> drain_ready_blocks d;
     let ret = (decoded_blocks d = output_blocks d);
     guard (ret \<longrightarrow> all_resolved d);
     Some (ret, d)
   }"

end
