(* ===== verification/Stream_Client.thy ===== *)
theory Stream_Client
  imports Pyro_Protocol LT_Decode
begin

text \<open>
  The stream client (\<open>pyro-client/pyro_client.hpp\<close>, \<open>pyro-client/pyro_client.cpp\<close>): reassembly of packets
  from datagrams (\<open>ReconstructedPacket\<close>), the two packets in flight per stream, progress reports, the
  handshake and the messages to the server.

  Storage.  The decoder of a packet writes into the packet's \<open>buffer\<close> through the pointer it was given, so
  the buffer is handed to the decoder before a call and taken back after it.  The bytes of the FEC buffer
  are those of the decoder's links; only its size is kept here.

  Environment.  Received datagrams, the clock (nanoseconds) and the bytes that the server sends over TCP are
  inputs; results of \<open>tcp.write\<close> and \<open>udp.write_message\<close> are read from \<open>write_script\<close> (a call beyond its end
  succeeds), and what was written is appended to \<open>cl_tcp_out\<close> and \<open>cl_udp_out\<close>.  The debug log, the simulated
  losses of the debug build and the floating-point statistics are left out; a ping delay is kept in
  nanoseconds.
\<close>

section \<open>A packet under reconstruction\<close>

record reconstructed_packet =
  rp_seq :: u32
  buffer :: "byte list"
  fec_buffer_size :: nat
  rp_decoder :: decoder
  is_done :: bool
  is_error :: bool
  fec_recovered :: bool
  subpacket_seq_accum :: int
  last_subpacket_raw_seq :: u32
  current_header :: pyro_payload_header

definition header_zero :: pyro_payload_header where
  "header_zero = \<lparr>pts_lo = 0, pts_hi = 0, dts_delta = 0, payload_size = 0, num_fec_blocks = 0,
     hdr_xor_blocks_even = 0, hdr_xor_blocks_odd = 0, encoded = 0\<rparr>"

definition packet_new :: reconstructed_packet where
  "packet_new = \<lparr>rp_seq = 0, buffer = [], fec_buffer_size = 0, rp_decoder = decoder_new, is_done = False,
     is_error = False, fec_recovered = False, subpacket_seq_accum = 0, last_subpacket_raw_seq = 0,
     current_header = header_zero\<rparr>"

definition rp_reset :: "reconstructed_packet \<Rightarrow> reconstructed_packet" where
  "rp_reset p = p\<lparr>buffer := [], last_subpacket_raw_seq := 0, subpacket_seq_accum := 0, rp_seq := 0\<rparr>"

definition is_reset :: "reconstructed_packet \<Rightarrow> bool" where
  "is_reset p \<longleftrightarrow> buffer p = []"

definition is_complete :: "reconstructed_packet \<Rightarrow> bool" where
  "is_complete p \<longleftrightarrow> is_done p \<and> \<not> is_error p"

definition is_fec_recovered :: "reconstructed_packet \<Rightarrow> bool" where
  "is_fec_recovered p \<longleftrightarrow> fec_recovered p"

definition rp_packet_size :: "reconstructed_packet \<Rightarrow> nat" where
  "rp_packet_size p = unat (payload_size (current_header p))"

text \<open>The size of the buffer for a payload: rounded up in 32-bit arithmetic, then bounded.\<close>

definition buffer_size_for :: "pyro_payload_header \<Rightarrow> nat" where
  "buffer_size_for h =
     min (unat ((payload_size h + word_of_nat PYRO_MAX_PAYLOAD_SIZE - 1) AND NOT (word_of_nat PYRO_MAX_PAYLOAD_SIZE - 1)))
         (128 * 1024 * PYRO_MAX_PAYLOAD_SIZE)"

definition start_packet :: "pyro_payload_header \<Rightarrow> reconstructed_packet \<Rightarrow> reconstructed_packet outcome" where
  "start_packet h p = do {
     let sz = buffer_size_for h;
     d \<leftarrow> begin_decode (unat (pts_lo h)) (replicate sz 0) sz (unat (num_fec_blocks h))
            (unat (hdr_xor_blocks_even h)) (unat (hdr_xor_blocks_odd h))
            (dec_set_block_size PYRO_MAX_PAYLOAD_SIZE (rp_decoder p));
     Some (p\<lparr>current_header := h, is_done := False, buffer := output_data d,
             fec_buffer_size := unat (num_fec_blocks h) * PYRO_MAX_PAYLOAD_SIZE, rp_decoder := d,
             subpacket_seq_accum := 0, last_subpacket_raw_seq := 0, fec_recovered := False\<rparr>)
   }"

text \<open>Tracking the subsequence number of a data datagram (an \<open>int\<close> of 32 bits), with the checks on the \<open>BEGIN\<close> flag.\<close>

definition track_subpacket :: "pyro_payload_header \<Rightarrow> reconstructed_packet \<Rightarrow> reconstructed_packet" where
  "track_subpacket h p =
     (let seq = pyro_payload_get_subpacket_seq (encoded h);
          accum = signed_take_bit 31 (subpacket_seq_accum p + pyro_payload_get_subpacket_seq_delta seq (last_subpacket_raw_seq p));
          beg = (encoded h AND PYRO_PAYLOAD_PACKET_BEGIN_BIT \<noteq> 0);
          bad = (accum < 0 \<or> (accum = 0 \<and> \<not> beg) \<or> (accum \<noteq> 0 \<and> beg))
      in p\<lparr>subpacket_seq_accum := accum, last_subpacket_raw_seq := seq, is_error := (is_error p \<or> bad)\<rparr>)"

definition prepare_decode :: "pyro_payload_header \<Rightarrow> reconstructed_packet \<Rightarrow> reconstructed_packet outcome" where
  "prepare_decode h p = do {
     p \<leftarrow> (if buffer p = [] then start_packet h p else Some p);
     Some (if encoded h AND PYRO_PAYLOAD_PACKET_FEC_BIT = 0 then track_subpacket h p else p)
   }"

text \<open>Copying a subpacket to its place, a short one filled up with zeros.\<close>

definition store_subpacket :: "nat \<Rightarrow> byte list \<Rightarrow> byte list \<Rightarrow> byte list outcome" where
  "store_subpacket offset data mem = do {
     mem \<leftarrow> write_bytes mem offset data;
     if length data \<noteq> PYRO_MAX_PAYLOAD_SIZE
     then write_bytes mem (offset + length data) (replicate (PYRO_MAX_PAYLOAD_SIZE - length data) 0)
     else Some mem
   }"

text \<open>The offset is a product of \<open>int\<close>s; the guard is its overflow.\<close>

definition add_payload_data :: "byte list \<Rightarrow> reconstructed_packet \<Rightarrow> reconstructed_packet outcome" where
  "add_payload_data data p =
     (if is_done p \<or> is_error p then Some p
      else do {
        guard (0 \<le> subpacket_seq_accum p \<and> subpacket_seq_accum p * int PYRO_MAX_PAYLOAD_SIZE < 2 ^ 31);
        let index = nat (subpacket_seq_accum p);
        let offset = index * PYRO_MAX_PAYLOAD_SIZE;
        if offset < length (buffer p) then do {
          mem \<leftarrow> store_subpacket offset data (buffer p);
          (fin, d) \<leftarrow> push_raw_block index ((rp_decoder p)\<lparr>output_data := mem\<rparr>);
          Some (p\<lparr>buffer := output_data d, rp_decoder := d, is_done := fin\<rparr>)
        } else Some p
      })"

definition add_fec_data :: "u32 \<Rightarrow> byte list \<Rightarrow> reconstructed_packet \<Rightarrow> reconstructed_packet outcome" where
  "add_fec_data subseq data p =
     (if is_done p \<or> is_error p then Some p
      else if unat subseq * PYRO_MAX_PAYLOAD_SIZE < fec_buffer_size p then do {
        guard (unat subseq * PYRO_MAX_PAYLOAD_SIZE + length data \<le> fec_buffer_size p);
        (fin, d) \<leftarrow> push_fec_block (unat subseq) data ((rp_decoder p)\<lparr>output_data := buffer p\<rparr>);
        Some (p\<lparr>buffer := output_data d, rp_decoder := d, is_done := fin,
                fec_recovered := (fec_recovered p \<or> fin)\<rparr>)
      } else Some p)"

section \<open>Two packets in flight\<close>

type_synonym slots = "reconstructed_packet \<times> reconstructed_packet"

definition slot :: "slots \<Rightarrow> nat \<Rightarrow> reconstructed_packet" where
  "slot ps i = (if i = 0 then fst ps else snd ps)"

definition set_slot :: "nat \<Rightarrow> reconstructed_packet \<Rightarrow> slots \<Rightarrow> slots" where
  "set_slot i p ps = (if i = 0 then (p, snd ps) else (fst ps, p))"

definition swap_slots :: "slots \<Rightarrow> slots" where
  "swap_slots ps = (snd ps, fst ps)"

definition new_in_slot :: "nat \<Rightarrow> u32 \<Rightarrow> slots \<Rightarrow> slots" where
  "new_in_slot i seq ps = set_slot i ((rp_reset (slot ps i))\<lparr>rp_seq := seq\<rparr>) ps"

definition num_active_packets :: "slots \<Rightarrow> nat" where
  "num_active_packets ps = (if is_reset (fst ps) then 0 else if is_reset (snd ps) then 1 else 2)"

text \<open>The first packet that the new one is older than, or the number of packets.\<close>

definition insert_position :: "slots \<Rightarrow> nat \<Rightarrow> u32 \<Rightarrow> nat" where
  "insert_position ps active seq =
     length (takeWhile (\<lambda>i. \<not> pyro_payload_get_packet_seq_delta seq (rp_seq (slot ps i)) < 0) [0..<active])"

definition get_stream_packet :: "slots \<Rightarrow> u32 \<Rightarrow> (nat option \<times> slots) outcome" where
  "get_stream_packet ps seq = do {
     guard (is_reset (fst ps) \<longrightarrow> is_reset (snd ps));
     let active = num_active_packets ps;
     if active = 0 then Some (Some 0, new_in_slot 0 seq ps)
     else case List.find (\<lambda>i. \<not> is_reset (slot ps i) \<and> rp_seq (slot ps i) = seq) [0..<active] of
       Some i \<Rightarrow> Some (Some i, ps)
     | None \<Rightarrow>
         let i = insert_position ps active seq
         in Some (if i = 0 then
              (if active = 1 then (Some 0, new_in_slot 0 seq (swap_slots ps)) else (None, ps))
            else if i = 1 then
              (if active = 2 then (Some 0, new_in_slot 0 seq ps) else (Some 1, new_in_slot 1 seq ps))
            else (Some 1, new_in_slot 1 seq (swap_slots ps)))
   }"

section \<open>The client\<close>

definition HistoryRingSize :: nat where
  "HistoryRingSize = 8192"

text \<open>
  \<open>current\<close> points to the first slot of the audio (\<open>Some True\<close>) or the video stream (\<open>Some False\<close>), or
  nowhere.  The sequence numbers of completed packets start as \<open>UINT32_MAX\<close>.
\<close>

record stream_client =
  cl_kick_flags :: u32
  last_completed_video_seq :: u32
  last_completed_audio_seq :: u32
  cl_progress :: pyro_progress_report
  request_immediate_feedback :: bool
  video :: slots
  audio :: slots
  current :: "bool option"
  cl_codec :: pyro_codec_parameters
  last_progress_time :: int
  gamepad_seq :: u16
  ping_seq :: u16
  ping_times :: "int list"
  last_ping_ns :: int
  last_reference_pts :: int
  last_local_pts :: int
  history :: "(int \<times> nat) list"
  history_ring_index :: nat
  base_time :: int
  cl_tcp_in :: "byte list"
  cl_tcp_out :: "byte list"
  cl_udp_out :: "byte list list"
  write_script :: "bool list"

definition client_new :: "int \<Rightarrow> byte list \<Rightarrow> stream_client" where
  "client_new now tcp_in = \<lparr>cl_kick_flags = 0, last_completed_video_seq = -1, last_completed_audio_seq = -1,
     cl_progress = \<lparr>total_received_packets = 0, total_recovered_packets = 0, total_dropped_video_packets = 0,
       total_dropped_audio_packets = 0, total_received_key_frames = 0\<rparr>,
     request_immediate_feedback = False, video = (packet_new, packet_new), audio = (packet_new, packet_new),
     current = None, cl_codec = \<lparr>video_codec = 0, video_color_profile = 0, audio_codec = 0, frame_rate_num = 0,
       frame_rate_den = 0, codec_width = 0, codec_height = 0, channels = 0, rate = 0\<rparr>,
     last_progress_time = 0, gamepad_seq = 0, ping_seq = 0, ping_times = replicate 256 0, last_ping_ns = 0,
     last_reference_pts = 0, last_local_pts = 0, history = replicate HistoryRingSize (0, 0),
     history_ring_index = 0, base_time = now, cl_tcp_in = tcp_in, cl_tcp_out = [], cl_udp_out = [],
     write_script = []\<rparr>"

definition next_write :: "stream_client \<Rightarrow> bool \<times> stream_client" where
  "next_write c = (case write_script c of [] \<Rightarrow> (True, c) | r # rs \<Rightarrow> (r, c\<lparr>write_script := rs\<rparr>))"

definition tcp_write :: "byte list \<Rightarrow> stream_client \<Rightarrow> bool \<times> stream_client" where
  "tcp_write msg c = (let (ok, c) = next_write c in (ok, if ok then c\<lparr>cl_tcp_out := cl_tcp_out c @ msg\<rparr> else c))"

definition udp_write_message :: "byte list \<Rightarrow> stream_client \<Rightarrow> bool \<times> stream_client" where
  "udp_write_message msg c = (let (ok, c) = next_write c in (ok, if ok then c\<lparr>cl_udp_out := cl_udp_out c @ [msg]\<rparr> else c))"

definition tcp_read :: "nat \<Rightarrow> stream_client \<Rightarrow> byte list option \<times> stream_client" where
  "tcp_read n c =
     (if n \<le> length (cl_tcp_in c)
      then (Some (take n (cl_tcp_in c)), c\<lparr>cl_tcp_in := drop n (cl_tcp_in c)\<rparr>) else (None, c))"

section \<open>Handshake\<close>

text \<open>One round of the loop: \<open>Some r\<close> when the function returns \<open>r\<close>.\<close>

definition handshake_round :: "u32 \<Rightarrow> byte list \<Rightarrow> stream_client \<Rightarrow> bool option \<times> stream_client" where
  "handshake_round flags ck c =
     (let (ok, c) = udp_write_message (put_word 4 (message_code MESSAGE_COOKIE) @ ck) c
      in if \<not> ok then (Some False, c)
         else let (ok, c) = tcp_write (put_word 4 (message_code MESSAGE_KICK)) c
         in if \<not> ok then (Some False, c)
         else let (ok, c) = tcp_write (put_word 4 flags) c
         in if \<not> ok then (Some False, c)
         else case tcp_read 4 c of
                (None, c) \<Rightarrow> (Some False, c)
              | (Some t, c) \<Rightarrow>
                  if get_word 0 4 t \<noteq> message_code MESSAGE_CODEC_PARAMETERS then (None, c)
                  else case tcp_read sizeof_codec_parameters c of
                         (None, c) \<Rightarrow> (Some False, c)
                       | (Some b, c) \<Rightarrow> (None, c\<lparr>cl_codec := get_codec b\<rparr>))"

primrec handshake_loop :: "nat \<Rightarrow> u32 \<Rightarrow> byte list \<Rightarrow> stream_client \<Rightarrow> bool option \<times> stream_client" where
  "handshake_loop 0 flags ck c = (None, c)"
| "handshake_loop (Suc k) flags ck c =
     (if video_codec (cl_codec c) \<noteq> PYRO_VIDEO_CODEC_NONE then (None, c)
      else case handshake_round flags ck c of
             (Some r, c) \<Rightarrow> (Some r, c)
           | (None, c) \<Rightarrow> handshake_loop k flags ck c)"

definition handshake :: "int \<Rightarrow> u32 \<Rightarrow> stream_client \<Rightarrow> bool \<times> stream_client" where
  "handshake now flags c =
     (let (ok, c) = tcp_write (put_word 4 (message_code MESSAGE_HELLO)) c
      in if \<not> ok then (False, c)
         else case tcp_read 4 c of
                (None, c) \<Rightarrow> (False, c)
              | (Some t, c) \<Rightarrow>
                  if get_word 0 4 t \<noteq> message_code MESSAGE_COOKIE then (False, c)
                  else case tcp_read 8 c of
                         (None, c) \<Rightarrow> (False, c)
                       | (Some ck, c) \<Rightarrow>
                           case handshake_loop 64 flags ck c of
                             (Some r, c) \<Rightarrow> (r, c)
                           | (None, c) \<Rightarrow> (video_codec (cl_codec c) \<noteq> PYRO_VIDEO_CODEC_NONE,
                                            c\<lparr>last_progress_time := now, cl_kick_flags := flags\<rparr>))"

section \<open>Messages to the server\<close>

definition send_target_phase_offset :: "u32 \<Rightarrow> stream_client \<Rightarrow> bool \<times> stream_client" where
  "send_target_phase_offset off c = udp_write_message (put_word 4 (message_code MESSAGE_PHASE_OFFSET) @ put_word 4 off) c"

definition check_send_progress :: "int \<Rightarrow> stream_client \<Rightarrow> bool \<times> stream_client" where
  "check_send_progress now c =
     (if (now - last_progress_time c) div 1000000 \<ge> 1000 \<or> request_immediate_feedback c then
        (let (ok, c) = tcp_write (put_word 4 (message_code MESSAGE_PROGRESS)) (c\<lparr>last_progress_time := now\<rparr>)
         in if \<not> ok then (False, c)
            else let (ok, c) = tcp_write (put_progress (cl_progress c)) c
                 in if \<not> ok then (False, c) else (True, c\<lparr>request_immediate_feedback := False\<rparr>))
      else (True, c))"

definition send_gamepad_state :: "int \<Rightarrow> pyro_gamepad_state \<Rightarrow> stream_client \<Rightarrow> bool \<times> stream_client" where
  "send_gamepad_state now st c =
     (let st = st\<lparr>gp_seq := gamepad_seq c\<rparr>;
          (ok, c) = udp_write_message (put_word 4 (message_code MESSAGE_GAMEPAD_STATE) @ put_gamepad st)
                      (c\<lparr>gamepad_seq := gamepad_seq c + 1\<rparr>)
      in if \<not> ok then (False, c)
         else let (ok, c) =
                (if gamepad_seq c AND 15 = 0 then
                   (let seq = ping_seq c mod 256;
                        (ok, c) = udp_write_message (put_word 4 (message_code MESSAGE_PING) @ put_word 2 seq)
                                    (c\<lparr>ping_seq := ping_seq c + 1\<rparr>)
                    in if \<not> ok then (False, c) else (True, c\<lparr>ping_times := (ping_times c)[unat seq := now]\<rparr>))
                 else (True, c))
              in if \<not> ok then (False, c)
                 else if cl_kick_flags c AND (PYRO_KICK_STATE_AUDIO_BIT OR PYRO_KICK_STATE_VIDEO_BIT) = 0
                      then check_send_progress now c
                      else (True, c))"

section \<open>Receiving\<close>

definition video_codec_is_self_recovering :: "pyro_codec_parameters \<Rightarrow> bool" where
  "video_codec_is_self_recovering p \<longleftrightarrow> video_codec p = PYRO_VIDEO_CODEC_PYROWAVE"

definition register_received_packet_size :: "int \<Rightarrow> nat \<Rightarrow> stream_client \<Rightarrow> stream_client" where
  "register_received_packet_size now sz c =
     c\<lparr>history := (history c)[history_ring_index c := (now - base_time c, sz)],
       history_ring_index := (history_ring_index c + 1) mod HistoryRingSize\<rparr>"

text \<open>Signed division rounds towards zero.\<close>

definition half_delay_us :: "int \<Rightarrow> int" where
  "half_delay_us ns = (if 0 \<le> ns then ns div 2000 else - ((- ns) div 2000))"

definition receive_ping :: "int \<Rightarrow> pyro_payload_header \<Rightarrow> byte list \<Rightarrow> stream_client \<Rightarrow> stream_client" where
  "receive_ping now h payload c =
     (let ns = now - ping_times c ! (unat (pyro_payload_get_packet_seq (encoded h)) mod 256);
          c = c\<lparr>last_ping_ns := ns\<rparr>
      in if length payload = sizeof_ping_state_extended then
           (let sync = get_ping_extended payload;
                pts = sint (ucast (pts_reference_lo sync) OR push_bit 32 (ucast (pts_reference_hi sync)) :: u64)
            in c\<lparr>last_reference_pts := pts - half_delay_us ns, last_local_pts := now div 1000\<rparr>)
         else c)"

definition stream_slots :: "bool \<Rightarrow> stream_client \<Rightarrow> slots" where
  "stream_slots is_audio c = (if is_audio then audio c else video c)"

definition set_stream_slots :: "bool \<Rightarrow> slots \<Rightarrow> stream_client \<Rightarrow> stream_client" where
  "set_stream_slots is_audio ps c = (if is_audio then c\<lparr>audio := ps\<rparr> else c\<lparr>video := ps\<rparr>)"

definition last_completed_seq :: "bool \<Rightarrow> stream_client \<Rightarrow> u32" where
  "last_completed_seq is_audio c = (if is_audio then last_completed_audio_seq c else last_completed_video_seq c)"

definition set_last_completed_seq :: "bool \<Rightarrow> u32 \<Rightarrow> stream_client \<Rightarrow> stream_client" where
  "set_last_completed_seq is_audio q c =
     (if is_audio then c\<lparr>last_completed_audio_seq := q\<rparr> else c\<lparr>last_completed_video_seq := q\<rparr>)"

text \<open>The packets that a completed packet jumps over are counted as dropped.\<close>

definition count_drops :: "bool \<Rightarrow> int \<Rightarrow> stream_client \<Rightarrow> stream_client" where
  "count_drops is_audio delta c =
     (let dropped = word_of_int (delta - 1); p = cl_progress c;
          p = (if is_audio then p\<lparr>total_dropped_audio_packets := total_dropped_audio_packets p + dropped\<rparr>
               else p\<lparr>total_dropped_video_packets := total_dropped_video_packets p + dropped\<rparr>)
      in c\<lparr>cl_progress := p,
           request_immediate_feedback := (request_immediate_feedback c
             \<or> (\<not> is_audio \<and> delta > 1 \<and> \<not> video_codec_is_self_recovering (cl_codec c)))\<rparr>)"

definition count_complete :: "bool \<Rightarrow> bool \<Rightarrow> stream_client \<Rightarrow> stream_client" where
  "count_complete recovered key c =
     (let p = cl_progress c;
          p = p\<lparr>total_received_packets := total_received_packets p + 1\<rparr>;
          p = (if recovered then p\<lparr>total_recovered_packets := total_recovered_packets p + 1\<rparr> else p);
          first = (key \<and> total_received_key_frames p = 0);
          p = (if key then p\<lparr>total_received_key_frames := total_received_key_frames p + 1\<rparr> else p)
      in c\<lparr>cl_progress := p, request_immediate_feedback := (request_immediate_feedback c \<or> first)\<rparr>)"

text \<open>The packet in slot \<open>i\<close> is complete: it becomes the packet in slot 0, is counted and reported.\<close>

definition complete_packet :: "int \<Rightarrow> bool \<Rightarrow> u32 \<Rightarrow> nat \<Rightarrow> stream_client \<Rightarrow> bool \<times> stream_client" where
  "complete_packet now is_audio flags i c =
     (let ps = stream_slots is_audio c;
          ps = (if i = 1 then swap_slots (set_slot 0 (rp_reset (slot ps 0)) ps) else ps);
          c = set_stream_slots is_audio ps c;
          p = slot ps 0;
          seen = last_completed_seq is_audio c;
          delta = pyro_payload_get_packet_seq_delta (rp_seq p) seen
      in if seen \<noteq> -1 \<and> delta < 1 then (False, c)
         else let c = (if seen \<noteq> -1 then count_drops is_audio delta c else c);
                  c = set_last_completed_seq is_audio (rp_seq p) c;
                  c = count_complete (is_fec_recovered p) (flags AND PYRO_PAYLOAD_KEY_FRAME_BIT \<noteq> 0) c;
                  (ok, c) = check_send_progress now c
              in if ok then (True, c\<lparr>current := Some is_audio\<rparr>) else (False, c))"

text \<open>A datagram for the packet in slot \<open>i\<close>; a FEC datagram of the wrong size ends the run.\<close>

definition receive_subpacket ::
  "int \<Rightarrow> bool \<Rightarrow> pyro_payload_header \<Rightarrow> byte list \<Rightarrow> nat \<Rightarrow> stream_client \<Rightarrow> (bool \<times> stream_client) outcome" where
  "receive_subpacket now is_audio h payload i c = do {
     p \<leftarrow> prepare_decode h (slot (stream_slots is_audio c) i);
     let c = set_stream_slots is_audio (set_slot i p (stream_slots is_audio c)) c;
     if encoded h AND PYRO_PAYLOAD_PACKET_FEC_BIT \<noteq> 0 \<and> length payload \<noteq> PYRO_MAX_PAYLOAD_SIZE
     then Some (False, c)
     else do {
       p \<leftarrow> (if encoded h AND PYRO_PAYLOAD_PACKET_FEC_BIT \<noteq> 0
             then add_fec_data (pyro_payload_get_subpacket_seq (encoded h)) payload p
             else add_payload_data payload p);
       let c = set_stream_slots is_audio (set_slot i p (stream_slots is_audio c)) c;
       Some (if is_complete p then complete_packet now is_audio (encoded h) i c else (True, c))
     }
   }"

definition iterate :: "int \<Rightarrow> byte list \<Rightarrow> stream_client \<Rightarrow> (bool \<times> stream_client) outcome" where
  "iterate now pkt c =
     (let c = register_received_packet_size now (length pkt) c
      in if length pkt < sizeof_payload_header \<or> PYRO_MAX_UDP_DATAGRAM_SIZE < length pkt then Some (False, c)
         else
           let h = get_header pkt; payload = drop sizeof_payload_header pkt;
               special = PYRO_PAYLOAD_KEY_FRAME_BIT OR PYRO_PAYLOAD_STREAM_TYPE_BIT;
               is_audio = (encoded h AND PYRO_PAYLOAD_STREAM_TYPE_BIT \<noteq> 0);
               seq = pyro_payload_get_packet_seq (encoded h);
               seen = last_completed_seq is_audio c
           in if encoded h AND special = special then Some (True, receive_ping now h payload c)
              else if encoded h AND PYRO_PAYLOAD_PACKET_FEC_BIT \<noteq> 0 \<and> is_audio then Some (True, c)
              else if seen \<noteq> -1 \<and> pyro_payload_get_packet_seq_delta seq seen \<le> 0 then Some (True, c)
              else do {
                (found, ps) \<leftarrow> get_stream_packet (stream_slots is_audio c) seq;
                let c = set_stream_slots is_audio ps c;
                case found of
                  None \<Rightarrow> Some (True, c)
                | Some i \<Rightarrow> receive_subpacket now is_audio h payload i c
              })"

text \<open>The caller is done with the packet it was given: its slot is cleared and moves to the back.\<close>

definition release_current :: "stream_client \<Rightarrow> stream_client" where
  "release_current c =
     (case current c of
        None \<Rightarrow> c
      | Some is_audio \<Rightarrow>
          let ps = swap_slots (stream_slots is_audio c)
          in set_stream_slots is_audio (set_slot 1 (rp_reset (slot ps 1)) ps) c)\<lparr>current := None\<rparr>"

text \<open>
  The arriving datagrams, with the time at which each is read.  When they run out the read times out and
  returns nothing, at time \<open>t_end\<close>.
\<close>

fun wait_loop ::
  "int \<Rightarrow> (int \<times> byte list) list \<Rightarrow> stream_client \<Rightarrow> (bool \<times> stream_client \<times> (int \<times> byte list) list) outcome" where
  "wait_loop t_end [] c =
     (if current c \<noteq> None then Some (True, c, [])
      else do { (ok, c) \<leftarrow> iterate t_end [] c; Some (ok, c, []) })"
| "wait_loop t_end ((now, pkt) # rest) c =
     (if current c \<noteq> None then Some (True, c, (now, pkt) # rest)
      else do {
        (ok, c) \<leftarrow> iterate now pkt c;
        if ok then wait_loop t_end rest c else Some (False, c, rest)
      })"

definition wait_next_packet ::
  "int \<Rightarrow> (int \<times> byte list) list \<Rightarrow> stream_client \<Rightarrow> (bool \<times> stream_client \<times> (int \<times> byte list) list) outcome" where
  "wait_next_packet t_end pkts c = wait_loop t_end pkts (release_current c)"

definition get_packet_data :: "stream_client \<Rightarrow> byte list option" where
  "get_packet_data c = map_option (\<lambda>a. buffer (slot (stream_slots a c) 0)) (current c)"

definition get_packet_size :: "stream_client \<Rightarrow> nat" where
  "get_packet_size c = (case current c of None \<Rightarrow> 0 | Some a \<Rightarrow> rp_packet_size (slot (stream_slots a c) 0))"

text \<open>There is no header to read when no packet is current.\<close>

definition get_payload_header :: "stream_client \<Rightarrow> pyro_payload_header outcome" where
  "get_payload_header c = map_option (\<lambda>a. current_header (slot (stream_slots a c) 0)) (current c)"

end
