(* ===== verification/Stream_Handshake.thy ===== *)
theory Stream_Handshake
  imports Stream_Control Stream_Client
begin

text \<open>
  The handshake of the stream client with the stream server: \<open>handshake\<close> of \<open>pyro_client.cpp\<close> against \<open>handle\<close> and
  \<open>handle_udp_datagram\<close> of \<open>pyro_server.cpp\<close>.

  The client runs in rounds: it sends the cookie in a datagram, which may be lost, and a \<open>KICK\<close> over TCP, and the
  server replies.  A round says whether its datagram arrives before the \<open>KICK\<close>, and what codec parameters the server
  has by then.
\<close>

section \<open>The server in the handshake\<close>

type_synonym round = "bool \<times> pyro_codec_parameters"

definition kick_message :: "u32 \<Rightarrow> byte list" where
  "kick_message flags = put_message MESSAGE_KICK @ put_word 4 flags"

definition server_round ::
  "u64 \<Rightarrow> remote_address \<Rightarrow> u32 \<Rightarrow> round \<Rightarrow> stream_server \<times> stream_connection \<Rightarrow> stream_server \<times> stream_connection" where
  "server_round now r flags rd sc =
     (let (s, c) = sc;
          s = set_codec_parameters (snd rd) s;
          (s, c) = (if fst rd then conn_handle_udp_datagram now r (cookie_datagram (cookie c)) s c else (s, c))
      in snd (handle (kick_message flags) 0 s c))"

definition server_rounds ::
  "u64 \<Rightarrow> remote_address \<Rightarrow> u32 \<Rightarrow> round list \<Rightarrow> stream_server \<times> stream_connection \<Rightarrow> stream_server \<times> stream_connection" where
  "server_rounds now r flags rds sc =
     fold (server_round now r flags) rds (snd (handle (put_message MESSAGE_HELLO) 0 (fst sc) (snd sc)))"

text \<open>The first round that the server accepts is the last one; \<open>bound\<close>: the cookie has arrived before.\<close>

fun succeeds_last :: "bool \<Rightarrow> round list \<Rightarrow> bool" where
  "succeeds_last bound [] = False"
| "succeeds_last bound (rd # rds) =
     (let bound = (bound \<or> fst rd) in
      if bound \<and> video_codec (snd rd) \<noteq> PYRO_VIDEO_CODEC_NONE then rds = [] else succeeds_last bound rds)"

fun round_replies :: "bool \<Rightarrow> round list \<Rightarrow> byte list" where
  "round_replies bound [] = []"
| "round_replies bound (rd # rds) =
     (let bound = (bound \<or> fst rd) in
      (if bound \<and> video_codec (snd rd) \<noteq> PYRO_VIDEO_CODEC_NONE then put_message MESSAGE_CODEC_PARAMETERS @ put_codec (snd rd)
       else if bound then put_message MESSAGE_AGAIN else put_message MESSAGE_NAK) @ round_replies bound rds)"

definition shaking :: "stream_connection \<Rightarrow> bool" where
  "shaking c \<longleftrightarrow> send_script c = [] \<and> tcp_buffer c = [] \<and> \<not> kicked c"

lemma server_round_reply:
  fixes rd :: round
  assumes "shaking c" "remote_valid r" "bound = remote_valid (udp_remote c)"
  defines "b \<equiv> bound \<or> fst rd"
  defines "ok \<equiv> b \<and> video_codec (snd rd) \<noteq> PYRO_VIDEO_CODEC_NONE"
  shows "\<exists>s' c'. server_round now r flags rd (s, c) = (s', c') \<and> cookie c' = cookie c
    \<and> tcp_out c' = tcp_out c @ round_replies bound [rd] \<and> remote_valid (udp_remote c') = b
    \<and> udp_remote c' = (if bound \<or> \<not> fst rd then udp_remote c else r) \<and> kicked c' = ok \<and> (\<not> ok \<longrightarrow> shaking c')"
proof -
  define s1 where "s1 = set_codec_parameters (snd rd) s"
  define c1 where "c1 = (if fst rd \<and> \<not> bound then c\<lparr>udp_remote := r\<rparr> else c)"
  have c1: "shaking c1" "cookie c1 = cookie c" "tcp_out c1 = tcp_out c" "remote_valid (udp_remote c1) = b"
    "udp_remote c1 = (if bound \<or> \<not> fst rd then udp_remote c else r)"
    using assms by (auto simp: c1_def shaking_def)
  have d: "(if fst rd then conn_handle_udp_datagram now r (cookie_datagram (cookie c)) s1 c else (s1, c)) = (s1, c1)"
    using assms(3) by (simp add: c1_def cookie_datagram_binds)
  have k: "kick_message flags \<noteq> []" "length (kick_message flags) = 8" by (auto simp: kick_message_def simp flip: length_0_conv)
  have "handle (kick_message flags) 0 s1 c1 = handle_messages s1 (c1\<lparr>tcp_buffer := kick_message flags\<rparr>)"
    using k c1(1) by (simp add: handle_fits shaking_def)
  also have "\<dots> = (True, if flags AND PYRO_KICK_STATE_GAMEPAD_BIT \<noteq> 0 then reset_gamepad_ownership s1 else s1,
      (snd (kick_reply s1 (c1\<lparr>kick_flags := flags\<rparr>)))\<lparr>timer := Some 15, tcp_buffer := []\<rparr>)"
    unfolding kick_message_def using c1(1) by (intro kick_at_front) (simp_all add: shaking_def)
  finally have h: "server_round now r flags rd (s, c) =
      (if flags AND PYRO_KICK_STATE_GAMEPAD_BIT \<noteq> 0 then reset_gamepad_ownership s1 else s1,
       (snd (kick_reply s1 (c1\<lparr>kick_flags := flags\<rparr>)))\<lparr>timer := Some 15, tcp_buffer := []\<rparr>)"
    using d by (simp add: server_round_def s1_def[symmetric])
  have p: "get_codec_parameters s1 = snd rd" by (simp add: s1_def get_codec_parameters_def set_codec_parameters_def)
  show ?thesis
    using c1 assms(3) unfolding h
    by (simp add: p kick_reply_def send_two_def send_stream_message_def shaking_def ok_def Let_def b_def)
qed

lemma server_rounds_replies:
  assumes "shaking c" "remote_valid r" "bound = remote_valid (udp_remote c)" "succeeds_last bound rds"
    "bound \<longrightarrow> udp_remote c = r"
  shows "\<exists>s' c'. fold (server_round now r flags) rds (s, c) = (s', c') \<and> tcp_out c' = tcp_out c @ round_replies bound rds
    \<and> udp_remote c' = r \<and> kicked c'"
  using assms
proof (induction rds arbitrary: s c bound)
  case (Cons rd rds)
  let ?b = "bound \<or> fst rd"
  obtain s1 c1 where r: "server_round now r flags rd (s, c) = (s1, c1)"
      "tcp_out c1 = tcp_out c @ round_replies bound [rd]" "remote_valid (udp_remote c1) = ?b"
      "udp_remote c1 = (if bound \<or> \<not> fst rd then udp_remote c else r)"
      "kicked c1 = (?b \<and> video_codec (snd rd) \<noteq> PYRO_VIDEO_CODEC_NONE)"
      "\<not> kicked c1 \<longrightarrow> shaking c1"
    using server_round_reply[OF Cons.prems(1-3), of now flags rd s] by auto
  show ?case
  proof (cases "kicked c1")
    case True
    then have "rds = []" using Cons.prems(4) r(5) by (simp add: Let_def)
    with r True Cons.prems(5) show ?thesis by auto
  next
    case False
    then have "succeeds_last ?b rds" using Cons.prems(4) r(5) by (auto simp: Let_def split: if_splits)
    from Cons.IH[OF _ Cons.prems(2) _ this, of c1 s1] r False Cons.prems(5) show ?thesis by (auto simp: Let_def)
  qed
qed simp

section \<open>The client in the handshake\<close>

lemma handshake_round_refused:
  assumes "write_script c = []" "cl_tcp_in c = put_message m @ rest" "m \<noteq> MESSAGE_CODEC_PARAMETERS"
  shows "handshake_round flags ck c = (None, c\<lparr>cl_tcp_in := rest, cl_tcp_out := cl_tcp_out c @ kick_message flags,
      cl_udp_out := cl_udp_out c @ [put_message MESSAGE_COOKIE @ ck]\<rparr>)"
proof -
  have "get_word 0 4 (put_message m) \<noteq> message_code MESSAGE_CODEC_PARAMETERS"
    using get_message[of m "[]"] assms(3) message_code_facts(3) by (metis append_Nil2 option.inject)
  with assms show ?thesis
    by (simp add: handshake_round_def udp_write_message_def tcp_write_def next_write_def tcp_read_def kick_message_def
        put_message_def)
qed

lemma handshake_round_accepted:
  assumes "write_script c = []" "cl_tcp_in c = put_message MESSAGE_CODEC_PARAMETERS @ put_codec p @ rest"
  shows "handshake_round flags ck c = (None, c\<lparr>cl_tcp_in := rest, cl_tcp_out := cl_tcp_out c @ kick_message flags,
      cl_udp_out := cl_udp_out c @ [put_message MESSAGE_COOKIE @ ck], cl_codec := p\<rparr>)"
proof -
  have "get_word 0 4 (put_message MESSAGE_CODEC_PARAMETERS) = message_code MESSAGE_CODEC_PARAMETERS"
    using get_message[of MESSAGE_CODEC_PARAMETERS "[]"] by simp
  moreover have "get_codec (put_codec p) = p" using codec_format.get_put[of p "[]"] by simp
  ultimately show ?thesis
    using assms codec_format.put_length[of p]
    by (simp add: handshake_round_def udp_write_message_def tcp_write_def next_write_def tcp_read_def kick_message_def
        put_message_def)
qed

lemma handshake_loop_replies:
  assumes "write_script c = []" "cl_tcp_in c = round_replies bound rds" "succeeds_last bound rds" "length rds \<le> k"
    "video_codec (cl_codec c) = PYRO_VIDEO_CODEC_NONE"
  shows "handshake_loop k flags ck c = (None, c\<lparr>cl_tcp_in := [],
      cl_tcp_out := cl_tcp_out c @ concat (replicate (length rds) (kick_message flags)),
      cl_udp_out := cl_udp_out c @ replicate (length rds) (put_message MESSAGE_COOKIE @ ck), cl_codec := snd (last rds)\<rparr>)
    \<and> video_codec (snd (last rds)) \<noteq> PYRO_VIDEO_CODEC_NONE"
  using assms
proof (induction rds arbitrary: c k bound)
  case (Cons rd rds)
  let ?b = "bound \<or> fst rd"
  obtain k' where k: "k = Suc k'" "length rds \<le> k'" using Cons.prems(4) by (cases k) auto
  show ?case
  proof (cases "?b \<and> video_codec (snd rd) \<noteq> PYRO_VIDEO_CODEC_NONE")
    case True
    then have "rds = []" using Cons.prems(3) by (simp add: Let_def)
    moreover have "handshake_loop k' flags ck c' = (None, c')" if "video_codec (cl_codec c') \<noteq> PYRO_VIDEO_CODEC_NONE" for c'
      using that by (cases k') simp_all
    ultimately show ?thesis
      using True Cons.prems handshake_round_accepted[OF Cons.prems(1), of "snd rd" "[]" flags ck] by (simp add: k Let_def)
  next
    case False
    define m where "m = (if ?b then MESSAGE_AGAIN else MESSAGE_NAK)"
    define c' where "c' = c\<lparr>cl_tcp_in := round_replies ?b rds, cl_tcp_out := cl_tcp_out c @ kick_message flags,
      cl_udp_out := cl_udp_out c @ [put_message MESSAGE_COOKIE @ ck]\<rparr>"
    have s: "succeeds_last ?b rds" using False Cons.prems(3) by (simp add: Let_def split: if_splits)
    then have ne: "rds \<noteq> []" by auto
    have "cl_tcp_in c = put_message m @ round_replies ?b rds" "m \<noteq> MESSAGE_CODEC_PARAMETERS"
      using False Cons.prems(2) by (auto simp: m_def Let_def)
    from handshake_round_refused[OF Cons.prems(1) this, of flags ck] Cons.prems(5)
    have "handshake_loop k flags ck c = handshake_loop k' flags ck c'" by (simp add: k c'_def)
    moreover have "cl_tcp_out c' = cl_tcp_out c @ kick_message flags"
      "cl_udp_out c' = cl_udp_out c @ [put_message MESSAGE_COOKIE @ ck]" by (simp_all add: c'_def)
    moreover note Cons.IH[OF _ _ s k(2), of c']
    ultimately show ?thesis using Cons.prems(1,5) ne by (simp add: c'_def)
  qed
qed simp

section \<open>Both together\<close>

text \<open>
  C15. The handshake succeeds although datagrams are lost and the server is not ready: when the first round in
  which the cookie has arrived and the server has a codec is among the first 64, the client, reading what the
  server replies, ends with success and the codec parameters of that round; what it has sent is exactly what the
  server was given; and the server has bound the address of the client and starts to stream to it.
\<close>

theorem handshake_completes:
  assumes "remote_valid r" "succeeds_last False rds" "length rds \<le> 64"
    and "server_rounds t r flags rds (s, connection_new tcp k) = (s', c')"
  shows "udp_remote c' = r \<and> kicked c'
    \<and> (\<exists>cl. handshake now flags (client_new now0 (tcp_out c')) = (True, cl)
        \<and> cl_codec cl = snd (last rds) \<and> cl_kick_flags cl = flags \<and> cl_tcp_in cl = []
        \<and> cl_tcp_out cl = put_message MESSAGE_HELLO @ concat (replicate (length rds) (kick_message flags))
        \<and> cl_udp_out cl = replicate (length rds) (cookie_datagram k))"
proof -
  define c where "c = (connection_new tcp k)\<lparr>tcp_buffer := [], tcp_out := put_message MESSAGE_COOKIE @ put_word 8 k\<rparr>"
  have "handle (put_message MESSAGE_HELLO) 0 s (connection_new tcp k) = handle_messages s ((connection_new tcp k)\<lparr>tcp_buffer := put_message MESSAGE_HELLO\<rparr>)"
    by (subst handle_fits) (auto simp: connection_new_def simp flip: length_0_conv)
  also have "\<dots> = (True, s, c)"
    by (subst hello_at_front) (simp_all add: c_def connection_new_def)
  finally have "fold (server_round t r flags) rds (s, c) = (s', c')" using assms(4) by (simp add: server_rounds_def)
  moreover have "shaking c" "False = remote_valid (udp_remote c)"
    by (simp_all add: c_def connection_new_def shaking_def no_remote_def remote_valid_def)
  ultimately have c': "tcp_out c' = put_message MESSAGE_COOKIE @ put_word 8 k @ round_replies False rds" "udp_remote c' = r" "kicked c'"
    using server_rounds_replies[of c r False rds t flags s] assms(1,2) by (auto simp: c_def)
  let ?cl = "client_new now0 (tcp_out c')"
  define cl where "cl = ?cl\<lparr>cl_tcp_in := round_replies False rds, cl_tcp_out := put_message MESSAGE_HELLO\<rparr>"
  have g: "get_word 0 4 (put_message MESSAGE_COOKIE) = message_code MESSAGE_COOKIE"
    using get_message[of MESSAGE_COOKIE "[]"] by simp
  have cl: "write_script cl = []" "cl_tcp_in cl = round_replies False rds" "video_codec (cl_codec cl) = PYRO_VIDEO_CODEC_NONE"
    "cl_tcp_out cl = put_message MESSAGE_HELLO" "cl_udp_out cl = []"
    by (simp_all add: cl_def client_new_def PYRO_VIDEO_CODEC_NONE_def)
  from handshake_loop_replies[OF cl(1,2) assms(2,3) cl(3), of flags "put_word 8 k"]
  have l: "handshake_loop 64 flags (put_word 8 k) cl = (None, cl\<lparr>cl_tcp_in := [],
      cl_tcp_out := put_message MESSAGE_HELLO @ concat (replicate (length rds) (kick_message flags)),
      cl_udp_out := replicate (length rds) (cookie_datagram k), cl_codec := snd (last rds)\<rparr>)"
    "video_codec (snd (last rds)) \<noteq> PYRO_VIDEO_CODEC_NONE"
    by (simp_all add: cl cookie_datagram_def)
  have "tcp_write (put_message MESSAGE_HELLO) ?cl = (True, ?cl\<lparr>cl_tcp_out := put_message MESSAGE_HELLO\<rparr>)"
    by (simp add: tcp_write_def next_write_def client_new_def)
  moreover have "tcp_read 4 (?cl\<lparr>cl_tcp_out := put_message MESSAGE_HELLO\<rparr>)
      = (Some (put_message MESSAGE_COOKIE), cl\<lparr>cl_tcp_in := put_word 8 k @ round_replies False rds\<rparr>)"
    by (simp add: tcp_read_def c'(1) cl_def client_new_def)
  moreover have "tcp_read 8 (cl\<lparr>cl_tcp_in := put_word 8 k @ round_replies False rds\<rparr>) = (Some (put_word 8 k), cl)"
    by (simp add: tcp_read_def cl_def)
  ultimately have "handshake now flags ?cl = (True, (snd (handshake_loop 64 flags (put_word 8 k) cl))\<lparr>last_progress_time := now, cl_kick_flags := flags\<rparr>)"
    using l(2) by (simp add: handshake_def put_message_def[symmetric] g l(1))
  with c'(2,3) show ?thesis by (simp add: l(1))
qed

text \<open>The first datagram is lost, and the codec is chosen only after the second round.\<close>

lemma handshake_completes_witness:
  "\<exists>r c' cl. server_rounds 0 r 3 [(False, codec_none), (True, codec_none), (False, codec_none\<lparr>video_codec := 1\<rparr>)]
        (server_new, connection_new no_remote 1001) = (fst (server_rounds 0 r 3 [(False, codec_none), (True, codec_none),
           (False, codec_none\<lparr>video_codec := 1\<rparr>)] (server_new, connection_new no_remote 1001)), c')
    \<and> udp_remote c' = r \<and> kicked c' \<and> handshake 0 3 (client_new 0 (tcp_out c')) = (True, cl)
    \<and> cl_codec cl = codec_none\<lparr>video_codec := 1\<rparr> \<and> cl_udp_out cl = replicate 3 (cookie_datagram 1001)"
proof -
  define r where "r = \<lparr>addr = replicate 128 1, addr_size = 16\<rparr>"
  define rds where "rds = [(False, codec_none), (True, codec_none), (False, codec_none\<lparr>video_codec := 1\<rparr>)]"
  have h: "remote_valid r" "succeeds_last False rds" "length rds \<le> 64"
    by (simp_all add: r_def remote_valid_def rds_def codec_none_def PYRO_VIDEO_CODEC_NONE_def)
  have l: "length rds = 3" "snd (last rds) = codec_none\<lparr>video_codec := 1\<rparr>" by (simp_all add: rds_def)
  have "\<exists>cl. udp_remote c' = r \<and> kicked c' \<and> handshake 0 3 (client_new 0 (tcp_out c')) = (True, cl)
      \<and> cl_codec cl = codec_none\<lparr>video_codec := 1\<rparr> \<and> cl_udp_out cl = replicate 3 (cookie_datagram 1001)"
    if "server_rounds 0 r 3 rds (server_new, connection_new no_remote 1001) = (s', c')" for s' c'
    using handshake_completes[OF h that, where now = 0 and ?now0.0 = 0, unfolded l] by blast
  then show ?thesis unfolding rds_def by (metis prod.collapse)
qed

end
