(* ===== verification/LT_Correct.thy ===== *)
theory LT_Correct
  imports LT_Decode
begin

text \<open>
  Correctness of the FEC decoder against the index lists the encoder drew.

  A code is given by its data blocks \<open>orig\<close> (each \<open>bs\<close> bytes, \<open>n\<close> of them) and, for each FEC block, the
  list \<open>pss ! f\<close> of the data blocks it combines.  The invariant \<open>dec_inv\<close> ties every field of the decoder to
  the list \<open>u f\<close> of data blocks that FEC block \<open>f\<close> still misses; \<open>dec_stable\<close> adds that nothing is half-way:
  \<open>u f\<close> is exactly the undecoded part of \<open>pss ! f\<close>.
\<close>

section \<open>The invariant\<close>

definition code_ok :: "nat \<Rightarrow> nat \<Rightarrow> (nat \<Rightarrow> byte list) \<Rightarrow> nat list list \<Rightarrow> bool" where
  "code_ok n bs orig pss \<longleftrightarrow>
     0 < bs \<and> (\<forall>i < n. length (orig i) = bs) \<and> (\<forall>ps \<in> set pss. distinct ps \<and> set ps \<subseteq> {..<n})"

definition out_block :: "decoder \<Rightarrow> nat \<Rightarrow> byte list" where
  "out_block d i = take (dec_block_size d) (drop (dec_block_size d * i) (output_data d))"

definition fec_bit :: "decoder \<Rightarrow> nat \<Rightarrow> nat \<Rightarrow> bool" where
  "fec_bit d i f = bit (output_to_fec_mask d ! (i * num_u32_masks_per_output d + f div 32)) (f mod 32)"

definition link_ok :: "nat \<Rightarrow> nat \<Rightarrow> (nat \<Rightarrow> byte list) \<Rightarrow> nat list \<Rightarrow> nat list \<Rightarrow> encoded_link \<Rightarrow> bool" where
  "link_ok n bs orig ps us b \<longleftrightarrow>
     num_unresolved_indices b = length us \<and> link_output_index b = xor_nats us
     \<and> length (resolved_indices b) = n \<and> distinct us \<and> set us \<subseteq> set ps
     \<and> (case link_data b of
          Some c \<Rightarrow> c = xor_blocks bs orig us \<and> num_resolved_indices b = 0
        | None \<Rightarrow> \<exists>rs. num_resolved_indices b = length rs \<and> distinct rs \<and> set rs = set ps - set us
            \<and> take (length rs) (resolved_indices b) = map Some rs)"

text \<open>The index buffer is unallocated or holds a power of two of cells; a decoder can be used again and again.\<close>

definition pow2_capacity :: "nat \<Rightarrow> bool" where
  "pow2_capacity c \<longleftrightarrow> c = 0 \<or> (\<exists>k \<le> 63. c = 2 ^ k)"

definition decoder_reusable :: "decoder \<Rightarrow> bool" where
  "decoder_reusable d \<longleftrightarrow> shuffler_inv (dec_shuffler d) \<and> pow2_capacity (index_buffer_capacity d)"

definition dec_shape :: "nat \<Rightarrow> nat \<Rightarrow> nat list list \<Rightarrow> decoder \<Rightarrow> bool" where
  "dec_shape n bs pss d \<longleftrightarrow>
     dec_block_size d = bs \<and> output_blocks d = n \<and> length (output_data d) = bs * n
     \<and> length (encoded_blocks d) = length pss \<and> length (decoded_block_mask d) = n
     \<and> num_u32_masks_per_output d = (length pss + 31) div 32
     \<and> length (output_to_fec_mask d) = num_u32_masks_per_output d * n
     \<and> shuffler_inv (dec_shuffler d) \<and> pow2_capacity (index_buffer_capacity d)"

text \<open>
  \<open>got\<close> is the set of FEC blocks that have arrived, \<open>out\<close> a set of links that have just been taken off the
  ready list and are about to be resolved.
\<close>

definition dec_inv ::
  "nat \<Rightarrow> nat \<Rightarrow> (nat \<Rightarrow> byte list) \<Rightarrow> nat list list \<Rightarrow> nat set \<Rightarrow> nat set \<Rightarrow> (nat \<Rightarrow> nat list) \<Rightarrow> decoder \<Rightarrow> bool" where
  "dec_inv n bs orig pss got out u d \<longleftrightarrow>
     dec_shape n bs pss d
     \<and> (\<forall>f < length pss. link_ok n bs orig (pss ! f) (u f) (encoded_blocks d ! f))
     \<and> (\<forall>f < length pss. link_data (encoded_blocks d ! f) \<noteq> None \<longleftrightarrow> f \<in> got)
     \<and> (\<forall>i < n. \<forall>f < 32 * num_u32_masks_per_output d. fec_bit d i f \<longleftrightarrow> f < length pss \<and> i \<in> set (u f))
     \<and> (\<forall>i < n. decoded_block_mask d ! i \<longrightarrow> out_block d i = orig i)
     \<and> decoded_blocks d = count_list (decoded_block_mask d) True
     \<and> (\<forall>f \<in> set (ready_encoded_links d). f < length pss \<and> f \<in> got \<and> length (u f) \<le> 1)
     \<and> (\<forall>f < length pss. f \<in> got \<and> f \<notin> out \<and> length (u f) = 1 \<longrightarrow> f \<in> set (ready_encoded_links d))"

definition undecoded :: "decoder \<Rightarrow> nat list \<Rightarrow> nat list" where
  "undecoded d ps = filter (\<lambda>i. \<not> decoded_block_mask d ! i) ps"

definition dec_stable ::
  "nat \<Rightarrow> nat \<Rightarrow> (nat \<Rightarrow> byte list) \<Rightarrow> nat list list \<Rightarrow> nat set \<Rightarrow> decoder \<Rightarrow> bool" where
  "dec_stable n bs orig pss got d \<longleftrightarrow> dec_inv n bs orig pss got {} (\<lambda>f. undecoded d (pss ! f)) d"

text \<open>The data blocks the decoder has, and the sets of data blocks that the FEC blocks add nothing to.\<close>

definition known :: "nat \<Rightarrow> decoder \<Rightarrow> nat set" where
  "known n d = {i. i < n \<and> decoded_block_mask d ! i}"

definition peel_closed :: "nat list list \<Rightarrow> nat set \<Rightarrow> nat set \<Rightarrow> bool" where
  "peel_closed pss got K \<longleftrightarrow>
     (\<forall>f \<in> got. f < length pss \<longrightarrow> (\<forall>i \<in> set (pss ! f). set (pss ! f) - {i} \<subseteq> K \<longrightarrow> i \<in> K))"

section \<open>Blocks and bits\<close>

lemma length_out_block:
  "dec_shape n bs pss d \<Longrightarrow> i < n \<Longrightarrow> length (out_block d i) = bs"
proof -
  assume "dec_shape n bs pss d" "i < n"
  then have "bs * Suc i \<le> bs * n" "length (output_data d) = bs * n" "dec_block_size d = bs"
    by (auto simp: dec_shape_def simp del: mult_Suc_right intro!: mult_le_mono2)
  then show ?thesis by (simp add: out_block_def)
qed

lemma block_range:
  fixes bs :: nat
  assumes "k < bs"
  shows "bs * i \<le> bs * j + k \<and> bs * j + k < bs * i + bs \<longleftrightarrow> j = i"
proof -
  consider "j < i" | "j = i" | "i < j" by linarith
  then show ?thesis
  proof cases
    case 1
    then have "bs * Suc j \<le> bs * i" by (intro mult_le_mono2) simp
    with 1 assms show ?thesis by simp
  next
    case 2
    with assms show ?thesis by simp
  next
    case 3
    then have "bs * Suc i \<le> bs * j" by (intro mult_le_mono2) simp
    with 3 assms show ?thesis by simp
  qed
qed

lemma out_block_write:
  assumes "dec_shape n bs pss d" "i < n" "j < n" "length b = bs"
    "write_bytes (output_data d) (bs * i) b = Some out"
  shows "out_block (d\<lparr>output_data := out\<rparr>) j = (if j = i then b else out_block d j)"
proof -
  have m: "length (output_data d) = bs * n" "dec_block_size d = bs" using assms(1) by (auto simp: dec_shape_def)
  have bj: "bs * j + bs \<le> bs * n" using mult_le_mono2[of "Suc j" n bs] assms(3) by auto
  have len: "length out = bs * n" using length_write_bytes[OF assms(5)] m(1) by simp
  have cell: "out ! (bs * j + k) = (if j = i then b ! k else output_data d ! (bs * j + k))" if "k < bs" for k
  proof -
    have "bs * i \<le> bs * j + k \<and> bs * j + k < bs * i + bs \<longleftrightarrow> j = i"
      using block_range[OF that] .
    with nth_write_bytes[OF assms(5), of "bs * j + k"] m bj that assms(4) show ?thesis by auto
  qed
  have "take bs (drop (bs * j) out) = (if j = i then b else take bs (drop (bs * j) (output_data d)))"
    by (rule nth_equalityI) (use cell bj add_leD1[OF bj] len m(1) assms(4) in \<open>auto\<close>)
  then show ?thesis by (simp add: out_block_def m)
qed

text \<open>Clearing one bit of the mask table.\<close>

lemma fec_bit_clear:
  assumes shape: "dec_shape n bs pss d"
    and i: "i < n" and w: "w < num_u32_masks_per_output d" and b: "b < 32"
    and j: "j < n" and g: "g < 32 * num_u32_masks_per_output d"
  defines "cell \<equiv> i * num_u32_masks_per_output d + w"
  shows "cell < length (output_to_fec_mask d)"
    and "fec_bit (d\<lparr>output_to_fec_mask := (output_to_fec_mask d)[cell :=
            output_to_fec_mask d ! cell AND NOT (push_bit b 1)]\<rparr>) j g
         \<longleftrightarrow> fec_bit d j g \<and> \<not> (j = i \<and> g = w * 32 + b)"
proof -
  let ?nm = "num_u32_masks_per_output d"
  have len: "length (output_to_fec_mask d) = n * ?nm" using shape by (simp add: dec_shape_def mult.commute)
  show lt: "cell < length (output_to_fec_mask d)"
    unfolding len cell_def using i w by (rule table_index_less)
  have gw: "g div 32 < ?nm" using g by auto
  have same: "j * ?nm + g div 32 = cell \<longleftrightarrow> j = i \<and> g div 32 = w"
    using table_index_inj[of j ?nm "g div 32" i w] gw w by (auto simp: cell_def)
  have "g = w * 32 + b \<longleftrightarrow> g div 32 = w \<and> g mod 32 = b" using b by auto
  with same lt show "fec_bit (d\<lparr>output_to_fec_mask := (output_to_fec_mask d)[cell :=
            output_to_fec_mask d ! cell AND NOT (push_bit b 1)]\<rparr>) j g
         \<longleftrightarrow> fec_bit d j g \<and> \<not> (j = i \<and> g = w * 32 + b)"
    by (auto simp: fec_bit_def nth_list_update bit_simps)
qed

lemma dec_inv_cong:
  "(\<And>f. f < length pss \<Longrightarrow> u f = v f) \<Longrightarrow> dec_inv n bs orig pss got out u d = dec_inv n bs orig pss got out v d"
  by (auto simp: dec_inv_def)

lemma code_ok_index:
  assumes "code_ok n bs orig pss" "f < length pss"
  shows "distinct (pss ! f)" "i \<in> set (pss ! f) \<Longrightarrow> i < n" "i \<in> set (pss ! f) \<Longrightarrow> length (orig i) = bs"
proof -
  have "pss ! f \<in> set pss" using assms(2) by simp
  with assms(1) have "distinct (pss ! f)" "set (pss ! f) \<subseteq> {..<n}" "\<forall>i < n. length (orig i) = bs"
    by (auto simp: code_ok_def)
  then show "distinct (pss ! f)" "i \<in> set (pss ! f) \<Longrightarrow> i < n" "i \<in> set (pss ! f) \<Longrightarrow> length (orig i) = bs"
    by auto
qed

section \<open>Resolving a link\<close>

text \<open>
  One round of the loop over a mask: the bit is cleared, the link absorbs the decoded block, and the
  invariant holds for the shortened list.
\<close>

lemma link_ok_resolve:
  assumes ok: "code_ok n bs orig pss" and f: "f < length pss"
    and link: "link_ok n bs orig (pss ! f) us b" and i: "i \<in> set us"
    and out: "take bs (drop (bs * i) (output_data d)) = orig i" "bs \<le> length (drop (bs * i) (output_data d))"
    and dbs: "dec_block_size d = bs"
  obtains b' where
    "link_absorb i d b = Some b'"
    "num_unresolved_indices b' = length us" "length us \<noteq> 0"
    "link_data b' = None \<longleftrightarrow> link_data b = None"
    "link_ok n bs orig (pss ! f) (remove1 i us)
       (b'\<lparr>link_output_index := link_output_index b' XOR i,
           num_unresolved_indices := num_unresolved_indices b' - 1\<rparr>)"
proof -
  have ps: "distinct (pss ! f)" "set (pss ! f) \<subseteq> {..<n}" and bs: "0 < bs"
    using ok f by (auto simp: code_ok_def)
  have us: "distinct us" "set us \<subseteq> set (pss ! f)" using link by (auto simp: link_ok_def)
  have lens: "\<And>j. j \<in> set us \<Longrightarrow> length (orig j) = bs" using us ps ok by (auto simp: code_ok_def)
  have ne: "length us \<noteq> 0" using i by auto
  have len1: "length (remove1 i us) = length us - 1" using i by (simp add: length_remove1)
  have xn: "xor_nats us XOR i = xor_nats (remove1 i us)" using i by (rule xor_nats_remove1)
  have sub: "set (remove1 i us) \<subseteq> set (pss ! f)" using us set_remove1_subset by fastforce
  show thesis
  proof (cases "link_data b")
    case (Some c)
    have c: "c = xor_blocks bs orig us" "num_resolved_indices b = 0" using link Some by (auto simp: link_ok_def)
    have lc: "length c = bs" using lens by (simp add: c)
    have "xor_bytes c (orig i) = xor_blocks bs orig (remove1 i us)"
      unfolding c(1) using lens i by (rule xor_blocks_remove1)
    then have x: "xor_block c (drop (bs * i) (output_data d)) bs = Some (xor_blocks bs orig (remove1 i us))"
      using lc out by (simp add: xor_block_def)
    show thesis
      by (rule that[of "b\<lparr>link_data := Some (xor_blocks bs orig (remove1 i us))\<rparr>"])
        (use Some x link ne len1 xn us sub c(2) dbs in \<open>auto simp: link_ok_def link_absorb_def\<close>)
  next
    case None
    with link obtain rs where
      rs: "num_resolved_indices b = length rs" "distinct rs" "set rs = set (pss ! f) - set us"
        "take (length rs) (resolved_indices b) = map Some rs" and rl: "length (resolved_indices b) = n"
      by (auto simp: link_ok_def)
    have irs: "i \<notin> set rs" using rs(3) i by simp
    have "insert i (set rs) \<subseteq> {..<n}" using rs(3) us(2) i ps by auto
    then have "card (insert i (set rs)) \<le> card {..<n}" by (intro card_mono) auto
    then have room: "length rs < n" using irs rs(2) by (simp add: distinct_card)
    define r where "r = (resolved_indices b)[length rs := Some i]"
    have tk: "take (length (rs @ [i])) r = map Some (rs @ [i])"
      using room rl rs(4) by (simp add: r_def take_Suc_conv_app_nth)
    have rs': "distinct (rs @ [i])" "set (rs @ [i]) = set (pss ! f) - set (remove1 i us)"
      using rs(2,3) irs us i by auto
    have st: "store (resolved_indices b) (num_resolved_indices b) (Some i) = Some r"
      using room rl by (simp add: rs(1) r_def)
    have lr: "length r = n" by (simp add: r_def rl)
    show thesis
      by (rule that[of "b\<lparr>resolved_indices := r, num_resolved_indices := num_resolved_indices b + 1\<rparr>"])
        (use None st link ne len1 xn us sub rs(1) tk rs' lr in
          \<open>auto simp: link_ok_def link_absorb_def intro!: exI[of _ "rs @ [i]"]\<close>)
  qed
qed

lemma link_absorb_masks: "link_absorb i (d\<lparr>output_to_fec_mask := ms\<rparr>) b = link_absorb i d b"
  by (cases "link_data b") (simp_all add: link_absorb_def)

lemma resolve_step:
  assumes ok: "code_ok n bs orig pss" and inv: "dec_inv n bs orig pss got out u d"
    and f: "f < length pss" "f = w * 32 + b" "b < 32" and i: "i < n" "i \<in> set (u f)"
    and dec: "decoded_block_mask d ! i"
  defines "cell \<equiv> i * num_u32_masks_per_output d + w"
  defines "ms \<equiv> (output_to_fec_mask d)[cell := output_to_fec_mask d ! cell AND NOT (push_bit b 1)]"
  shows "\<exists>d'. resolve_link f i (d\<lparr>output_to_fec_mask := ms\<rparr>) = Some d'
    \<and> dec_inv n bs orig pss got out (u(f := remove1 i (u f))) d'
    \<and> output_to_fec_mask d' = ms \<and> decoded_block_mask d' = decoded_block_mask d
    \<and> num_u32_masks_per_output d' = num_u32_masks_per_output d"
proof -
  have shape: "dec_shape n bs pss d" using inv by (simp add: dec_inv_def)
  have w: "w < num_u32_masks_per_output d" using shape f by (auto simp: dec_shape_def)
  let ?e = "encoded_blocks d ! f"
  have bs: "dec_block_size d = bs" using shape by (simp add: dec_shape_def)
  have link: "link_ok n bs orig (pss ! f) (u f) ?e" using inv f(1) by (simp add: dec_inv_def)
  have blk: "take bs (drop (bs * i) (output_data d)) = orig i" "bs \<le> length (drop (bs * i) (output_data d))"
    using inv dec i(1) shape mult_le_mono2[of "Suc i" n bs]
    by (auto simp: dec_inv_def out_block_def dec_shape_def)
  from link_ok_resolve[OF ok f(1) link i(2) blk bs] obtain b' where
    b': "link_absorb i d ?e = Some b'"
    "num_unresolved_indices b' = length (u f)" "length (u f) \<noteq> 0"
    "link_data b' = None \<longleftrightarrow> link_data ?e = None"
    "link_ok n bs orig (pss ! f) (remove1 i (u f))
       (b'\<lparr>link_output_index := link_output_index b' XOR i,
           num_unresolved_indices := num_unresolved_indices b' - 1\<rparr>)"
    by blast
  define e' where "e' = b'\<lparr>link_output_index := link_output_index b' XOR i,
           num_unresolved_indices := num_unresolved_indices b' - 1\<rparr>"
  define ready where "ready = (if num_unresolved_indices e' = 1 \<and> link_data e' \<noteq> None
                then ready_encoded_links d @ [f] else ready_encoded_links d)"
  define d' where "d' = d\<lparr>output_to_fec_mask := ms, encoded_blocks := (encoded_blocks d)[f := e'],
             ready_encoded_links := ready\<rparr>"
  have fe: "f < length (encoded_blocks d)" using shape f(1) by (simp add: dec_shape_def)
  have ret: "resolve_link f i (d\<lparr>output_to_fec_mask := ms\<rparr>) = Some d'"
    using fe b'(1,2,3) by (simp add: resolve_link_def link_absorb_masks Let_def d'_def ready_def e'_def)
  have e'len: "num_unresolved_indices e' = length (remove1 i (u f))"
    and e'data: "link_data e' = None \<longleftrightarrow> link_data ?e = None"
    using b' i(2) by (simp_all add: e'_def length_remove1)
  have shape': "dec_shape n bs pss d'" using shape by (simp add: dec_shape_def d'_def ms_def)
  let ?u = "u(f := remove1 i (u f))"
  have bits: "fec_bit d' j g \<longleftrightarrow> g < length pss \<and> j \<in> set (?u g)"
    if "j < n" "g < 32 * num_u32_masks_per_output d" for j g
  proof -
    have "fec_bit d' j g = fec_bit (d\<lparr>output_to_fec_mask := ms\<rparr>) j g" by (simp add: fec_bit_def d'_def)
    also have "\<dots> \<longleftrightarrow> fec_bit d j g \<and> \<not> (j = i \<and> g = w * 32 + b)"
      unfolding ms_def cell_def using shape i(1) w f(3) that by (rule fec_bit_clear(2))
    also have "fec_bit d j g \<longleftrightarrow> g < length pss \<and> j \<in> set (u g)" using inv that by (simp add: dec_inv_def)
    finally show ?thesis using link f(2) by (auto simp: link_ok_def)
  qed
  have old: "\<forall>g \<in> set (ready_encoded_links d). g < length pss \<and> g \<in> got \<and> length (u g) \<le> 1"
      "\<forall>g < length pss. g \<in> got \<and> g \<notin> out \<and> length (u g) = 1 \<longrightarrow> g \<in> set (ready_encoded_links d)"
      "\<forall>g < length pss. link_data (encoded_blocks d ! g) \<noteq> None \<longleftrightarrow> g \<in> got"
    using inv by (simp_all add: dec_inv_def)
  have "dec_inv n bs orig pss got out ?u d'"
    unfolding dec_inv_def
  proof (intro conjI)
    show "\<forall>g < length pss. link_ok n bs orig (pss ! g) (?u g) (encoded_blocks d' ! g)"
      using inv b'(5) fe by (auto simp: dec_inv_def d'_def e'_def nth_list_update)
    show "\<forall>g < length pss. link_data (encoded_blocks d' ! g) \<noteq> None \<longleftrightarrow> g \<in> got"
      using old(3) e'data fe f(1) by (auto simp: d'_def nth_list_update)
    show "\<forall>j < n. decoded_block_mask d' ! j \<longrightarrow> out_block d' j = orig j"
      using inv by (simp add: dec_inv_def d'_def out_block_def)
    show "\<forall>g \<in> set (ready_encoded_links d'). g < length pss \<and> g \<in> got \<and> length (?u g) \<le> 1"
    proof
      fix g assume g: "g \<in> set (ready_encoded_links d')"
      show "g < length pss \<and> g \<in> got \<and> length (?u g) \<le> 1"
      proof (cases "g \<in> set (ready_encoded_links d)")
        case True
        with old(1) have "g < length pss" "g \<in> got" "length (u g) \<le> 1" by auto
        then show ?thesis by (cases "g = f") (auto simp: length_remove1 le_diff_conv)
      next
        case False
        with g have "g = f" "num_unresolved_indices e' = 1" "link_data e' \<noteq> None"
          by (auto simp: d'_def ready_def split: if_splits)
        with f(1) e'len e'data old(3) show ?thesis by simp
      qed
    qed
    show "\<forall>g < length pss. g \<in> got \<and> g \<notin> out \<and> length (?u g) = 1 \<longrightarrow> g \<in> set (ready_encoded_links d')"
    proof (intro allI impI)
      fix g assume g: "g < length pss" "g \<in> got \<and> g \<notin> out \<and> length (?u g) = 1"
      show "g \<in> set (ready_encoded_links d')"
      proof (cases "g = f")
        case True
        with g e'len e'data old(3) show ?thesis by (simp add: d'_def ready_def)
      next
        case False
        with g old(2) show ?thesis by (auto simp: d'_def ready_def)
      qed
    qed
  qed (use shape' bits inv in \<open>auto simp: dec_inv_def d'_def\<close>)
  with ret show ?thesis by (auto simp: d'_def)
qed

text \<open>The loop over one word of the mask table resolves the links of that word that contain the block.\<close>

lemma propagate_word_inv:
  assumes ok: "code_ok n bs orig pss" and inv: "dec_inv n bs orig pss got out u d"
    and i: "i < n" "decoded_block_mask d ! i" and w: "w < num_u32_masks_per_output d"
    and mw: "mw = output_to_fec_mask d ! (i * num_u32_masks_per_output d + w)"
  shows "\<exists>d'. propagate_word i w mw d = Some d'
    \<and> dec_inv n bs orig pss got out (\<lambda>f. if f div 32 = w then remove1 i (u f) else u f) d'
    \<and> decoded_block_mask d' = decoded_block_mask d
    \<and> num_u32_masks_per_output d' = num_u32_masks_per_output d"
  using inv i(2) w mw
proof (induction "unat mw" arbitrary: mw u d rule: less_induct)
  case less
  note inv = less.prems(1) and dec = less.prems(2) and w = less.prems(3) and mw = less.prems(4)
  let ?nm = "num_u32_masks_per_output d"
  let ?c = "i * ?nm + w"
  let ?u = "\<lambda>f. if f div 32 = w then remove1 i (u f) else u f"
  have bits: "f < length pss \<and> i \<in> set (u f) \<longleftrightarrow> bit mw (f mod 32)" if "f div 32 = w" for f
  proof -
    from that w have "f < 32 * ?nm" by auto
    with inv i(1) have "fec_bit d i f \<longleftrightarrow> f < length pss \<and> i \<in> set (u f)" by (simp add: dec_inv_def)
    with that mw show ?thesis by (simp add: fec_bit_def)
  qed
  show ?case
  proof (cases "mw = 0")
    case True
    have "remove1 i (u f) = u f" if "f < length pss" "f div 32 = w" for f
      using bits[OF that(2)] that(1) True by (auto simp: remove1_idem)
    then have "dec_inv n bs orig pss got out ?u d = dec_inv n bs orig pss got out u d"
      by (intro dec_inv_cong) simp
    with True inv show ?thesis by (simp add: propagate_word.simps)
  next
    case False
    define b where "b = find_lsb mw"
    have b: "b < 32" "bit mw b" using find_lsb_bit[OF False] by (simp_all add: b_def)
    define f where "f = w * 32 + b"
    have fd: "f div 32 = w" "f mod 32 = b" using b(1) by (auto simp: f_def)
    have f: "f < length pss" "i \<in> set (u f)" using bits[OF fd(1)] fd b by auto
    define mw' where "mw' = mw AND NOT (push_bit b 1)"
    have shape: "dec_shape n bs pss d" using inv by (simp add: dec_inv_def)
    then have lt: "?c < length (output_to_fec_mask d)"
      using table_index_less[OF i(1) w] by (simp add: dec_shape_def mult.commute)
    from resolve_step[OF ok inv f(1) f_def b(1) i(1) f(2) dec] obtain d1 where
      d1: "resolve_link f i (d\<lparr>output_to_fec_mask := (output_to_fec_mask d)[?c := mw']\<rparr>) = Some d1"
        "dec_inv n bs orig pss got out (u(f := remove1 i (u f))) d1"
        "output_to_fec_mask d1 = (output_to_fec_mask d)[?c := mw']"
        "decoded_block_mask d1 = decoded_block_mask d" "num_u32_masks_per_output d1 = ?nm"
      by (auto simp: mw'_def mw)
    have smaller: "unat mw' < unat mw" using clear_bit_less[OF b(2)] by (simp add: mw'_def)
    have "mw' = output_to_fec_mask d1 ! (i * num_u32_masks_per_output d1 + w)" using d1(3,5) lt by simp
    from less.hyps[OF smaller d1(2) _ _ this] dec w d1(4,5) obtain d' where
      d': "propagate_word i w mw' d1 = Some d'"
        "dec_inv n bs orig pss got out
           (\<lambda>g. if g div 32 = w then remove1 i ((u(f := remove1 i (u f))) g) else (u(f := remove1 i (u f))) g) d'"
        "decoded_block_mask d' = decoded_block_mask d" "num_u32_masks_per_output d' = ?nm"
      by auto
    have "distinct (u f)" using inv f(1) by (auto simp: dec_inv_def link_ok_def)
    then have "remove1 i (remove1 i (u f)) = remove1 i (u f)" by (simp add: remove1_idem)
    then have "dec_inv n bs orig pss got out ?u d'"
      by (intro iffD1[OF dec_inv_cong d'(2)]) (use fd(1) in auto)
    moreover have "propagate_word i w mw d = Some d'"
      using False lt d1(1) d'(1) by (subst propagate_word.simps) (simp add: Let_def b_def mw'_def f_def)
    ultimately show ?thesis using d'(3,4) by blast
  qed
qed

lemma propagate_decoded_block_inv:
  assumes ok: "code_ok n bs orig pss" and inv: "dec_inv n bs orig pss got out u d"
    and i: "i < n" "decoded_block_mask d ! i"
  shows "\<exists>d'. propagate_decoded_block i d = Some d'
    \<and> dec_inv n bs orig pss got out (\<lambda>f. remove1 i (u f)) d'
    \<and> decoded_block_mask d' = decoded_block_mask d"
proof -
  let ?nm = "num_u32_masks_per_output d"
  let ?I = "\<lambda>done t. dec_inv n bs orig pss got out (\<lambda>f. if f div 32 \<in> set done then remove1 i (u f) else u f) t
    \<and> decoded_block_mask t = decoded_block_mask d \<and> num_u32_masks_per_output t = ?nm"
  have "\<exists>t. propagate_decoded_block i d = Some t \<and> ?I [0..<?nm] t"
    unfolding propagate_decoded_block_def
  proof (rule for_list_invariant[where I = ?I])
    show "?I [] d" using inv by simp
  next
    fix "done" w rest t
    assume split: "[0..<?nm] = done @ w # rest" and I: "?I done t"
    then have "w \<in> set [0..<?nm]" "distinct (done @ w # rest)" by (metis in_set_conv_decomp, metis distinct_upt)
    then have w: "w < num_u32_masks_per_output t" "w \<notin> set done" using I by auto
    have "dec_shape n bs pss t" using I by (simp add: dec_inv_def)
    then have lt: "i * num_u32_masks_per_output t + w < length (output_to_fec_mask t)"
      using table_index_less[OF i(1) w(1)] by (simp add: dec_shape_def mult.commute)
    from propagate_word_inv[OF ok conjunct1[OF I] i(1) _ w(1) refl] I i(2) obtain t' where
      t': "propagate_word i w (output_to_fec_mask t ! (i * num_u32_masks_per_output t + w)) t = Some t'"
        "dec_inv n bs orig pss got out (\<lambda>f. if f div 32 = w
           then remove1 i (if f div 32 \<in> set done then remove1 i (u f) else u f)
           else if f div 32 \<in> set done then remove1 i (u f) else u f) t'"
        "decoded_block_mask t' = decoded_block_mask t"
        "num_u32_masks_per_output t' = num_u32_masks_per_output t"
      by auto
    have "dec_inv n bs orig pss got out
        (\<lambda>f. if f div 32 \<in> set (done @ [w]) then remove1 i (u f) else u f) t'"
      by (rule iffD1[OF dec_inv_cong t'(2)]) (use w(2) in auto)
    with t' lt I show "\<exists>t'. (load (output_to_fec_mask t) (i * num_u32_masks_per_output t + w) \<bind>
            (\<lambda>mw. propagate_word i w mw t)) = Some t' \<and> ?I (done @ [w]) t'"
      by auto
  qed
  then obtain t where t: "propagate_decoded_block i d = Some t" "?I [0..<?nm] t" by blast
  have "\<And>f. f < length pss \<Longrightarrow> f div 32 < ?nm" using inv by (auto simp: dec_inv_def dec_shape_def)
  then have "dec_inv n bs orig pss got out (\<lambda>f. remove1 i (u f)) t"
    by (intro iffD1[OF dec_inv_cong conjunct1[OF t(2)]]) auto
  with t show ?thesis by blast
qed

section \<open>Marking, draining and pushing\<close>

lemma count_True_update:
  "i < length xs \<Longrightarrow> \<not> xs ! i \<Longrightarrow> count_list (xs[i := True]) True = Suc (count_list xs True)"
proof (induction xs arbitrary: i)
  case Nil
  then show ?case by simp
next
  case (Cons x xs)
  then show ?case by (cases i) auto
qed

lemma count_True_all: "count_list xs True = length xs \<longleftrightarrow> (\<forall>i < length xs. xs ! i)"
proof (induction xs)
  case Nil
  then show ?case by simp
next
  case (Cons x xs)
  have "count_list xs True \<le> length xs" by (induction xs) auto
  with Cons show ?case by (cases x) (auto simp: nth_Cons split: nat.splits)
qed

text \<open>The data block \<open>i\<close> is in place: it is marked and every link that contains it absorbs it.\<close>

definition marked :: "nat \<Rightarrow> decoder \<Rightarrow> decoder" where
  "marked i d = d\<lparr>decoded_block_mask := (decoded_block_mask d)[i := True], decoded_blocks := decoded_blocks d + 1\<rparr>"

lemma mark_decoded_block_eq:
  "i < length (decoded_block_mask d) \<Longrightarrow>
   mark_decoded_block i d = Some (if decoded_block_mask d ! i then (False, d) else (True, marked i d))"
  by (simp add: mark_decoded_block_def marked_def)

lemma mark_propagate:
  assumes ok: "code_ok n bs orig pss"
    and inv: "dec_inv n bs orig pss got out (\<lambda>f. undecoded d (pss ! f)) d"
    and i: "i < n" "\<not> decoded_block_mask d ! i"
    and mem: "length mem = bs * n"
      "\<And>j. j < n \<Longrightarrow> j = i \<or> decoded_block_mask d ! j \<Longrightarrow> out_block (d\<lparr>output_data := mem\<rparr>) j = orig j"
  shows "\<exists>d'. propagate_decoded_block i (marked i d\<lparr>output_data := mem\<rparr>) = Some d'
    \<and> dec_inv n bs orig pss got out (\<lambda>f. undecoded d' (pss ! f)) d'
    \<and> decoded_block_mask d' = (decoded_block_mask d)[i := True]"
proof -
  let ?d = "marked i d\<lparr>output_data := mem\<rparr>"
  have len: "length (decoded_block_mask d) = n" using inv by (simp add: dec_inv_def dec_shape_def)
  have ob: "out_block ?d j = out_block (d\<lparr>output_data := mem\<rparr>) j" for j by (simp add: out_block_def marked_def)
  have "dec_inv n bs orig pss got out (\<lambda>f. undecoded d (pss ! f)) ?d"
    unfolding dec_inv_def
  proof (intro conjI)
    show "dec_shape n bs pss ?d" using inv mem(1) by (simp add: dec_inv_def dec_shape_def marked_def)
    show "\<forall>j < n. decoded_block_mask ?d ! j \<longrightarrow> out_block ?d j = orig j"
      unfolding ob by (simp add: marked_def) (metis mem(2) nth_list_update_neq)
    show "decoded_blocks ?d = count_list (decoded_block_mask ?d) True"
      using inv i len by (simp add: marked_def count_True_update dec_inv_def)
    show "\<forall>j < n. \<forall>f < 32 * num_u32_masks_per_output ?d.
        fec_bit ?d j f \<longleftrightarrow> f < length pss \<and> j \<in> set (undecoded d (pss ! f))"
      using inv by (simp add: dec_inv_def fec_bit_def marked_def)
  qed (use inv in \<open>auto simp: dec_inv_def marked_def\<close>)
  from propagate_decoded_block_inv[OF ok this i(1)] len i(1) obtain d' where
    d': "propagate_decoded_block i ?d = Some d'"
      "dec_inv n bs orig pss got out (\<lambda>f. remove1 i (undecoded d (pss ! f))) d'"
      "decoded_block_mask d' = (decoded_block_mask d)[i := True]"
    by (auto simp: marked_def)
  have "remove1 i (undecoded d (pss ! f)) = undecoded d' (pss ! f)" if "f < length pss" for f
  proof -
    have "distinct (pss ! f)" "set (pss ! f) \<subseteq> {..<n}" using ok that by (auto simp: code_ok_def)
    then show ?thesis
      using i len by (auto simp: undecoded_def remove1_filter_distinct d'(3) nth_list_update intro!: filter_cong)
  qed
  then have "dec_inv n bs orig pss got out (\<lambda>f. undecoded d' (pss ! f)) d'"
    by (intro iffD1[OF dec_inv_cong d'(2)]) auto
  with d' show ?thesis by blast
qed

lemma dec_inv_exempt:
  "dec_inv n bs orig pss got {f} u d \<Longrightarrow> length (u f) \<noteq> 1 \<Longrightarrow> dec_inv n bs orig pss got {} u d"
  by (auto simp: dec_inv_def)

lemma undecoded_marked:
  "distinct ps \<Longrightarrow> undecoded d ps = [i] \<Longrightarrow> decoded_block_mask d' = (decoded_block_mask d)[i := True]
   \<Longrightarrow> i < length (decoded_block_mask d) \<Longrightarrow> undecoded d' ps = []"
  by (auto simp: undecoded_def filter_empty_conv nth_list_update dest!: arg_cong[where f = set])

text \<open>
  Taking one link off the ready list: either it has nothing left, or its last block is decoded.
\<close>

lemma drain_ready_block_stable:
  assumes ok: "code_ok n bs orig pss" and st: "dec_stable n bs orig pss got d"
    and ready: "ready_encoded_links d \<noteq> []"
  defines "f \<equiv> last (ready_encoded_links d)"
  shows "\<exists>d'. drain_ready_block f (d\<lparr>ready_encoded_links := butlast (ready_encoded_links d)\<rparr>) = Some d'
    \<and> dec_stable n bs orig pss got d' \<and> known n d \<subseteq> known n d'
    \<and> (\<forall>K. peel_closed pss got K \<longrightarrow> known n d \<subseteq> K \<longrightarrow> known n d' \<subseteq> K)"
proof -
  let ?d = "d\<lparr>ready_encoded_links := butlast (ready_encoded_links d)\<rparr>"
  let ?u = "\<lambda>f. undecoded d (pss ! f)" and ?e = "encoded_blocks d ! f"
  have inv: "dec_inv n bs orig pss got {} ?u d" using st by (simp add: dec_stable_def)
  have "f \<in> set (ready_encoded_links d)" using ready by (simp add: f_def)
  with inv have f: "f < length pss" "f \<in> got" "length (?u f) \<le> 1" by (auto simp: dec_inv_def)
  have link: "link_ok n bs orig (pss ! f) (?u f) ?e" and have_data: "link_data ?e \<noteq> None"
    and fe: "f < length (encoded_blocks d)" and dbs: "dec_block_size d = bs" "output_blocks d = n"
    and len: "length (decoded_block_mask d) = n"
    using inv f by (auto simp: dec_inv_def dec_shape_def)
  have uu: "undecoded (d\<lparr>ready_encoded_links := l\<rparr>) ps = undecoded d ps" for l ps by (simp add: undecoded_def)
  obtain r where r: "ready_encoded_links d = r @ [f]"
    using ready unfolding f_def by (metis append_butlast_last_id)
  have inv': "dec_inv n bs orig pss got {f} (\<lambda>g. undecoded ?d (pss ! g)) ?d"
    using inv by (auto simp: r uu dec_inv_def dec_shape_def fec_bit_def out_block_def)
  show ?thesis
  proof (cases "?u f")
    case Nil
    then have "num_unresolved_indices ?e = 0" using link by (simp add: link_ok_def)
    then have "drain_ready_block f ?d = Some ?d" using fe by (simp add: drain_ready_block_def)
    moreover have "dec_stable n bs orig pss got ?d"
      unfolding dec_stable_def by (rule dec_inv_exempt[OF inv']) (simp add: uu Nil)
    ultimately show ?thesis by (auto simp: known_def)
  next
    case (Cons i us)
    with f(3) have ui: "?u f = [i]" by simp
    then have "i \<in> set (?u f)" by simp
    moreover have "set (pss ! f) \<subseteq> {..<n}" "distinct (pss ! f)" using ok f(1) by (auto simp: code_ok_def)
    ultimately have i: "i < n" "\<not> decoded_block_mask d ! i" and dps: "distinct (pss ! f)"
      by (auto simp: undecoded_def)
    have lo: "length (orig i) = bs" "0 < bs" using ok i(1) by (auto simp: code_ok_def)
    have e: "num_unresolved_indices ?e = 1" "link_output_index ?e = i" "link_data ?e = Some (orig i)"
      using link ui have_data lo by (auto simp: link_ok_def)
    have sz: "length (output_data d) = bs * n" and shape: "dec_shape n bs pss d"
      using inv by (auto simp: dec_inv_def dec_shape_def)
    have "bs * i + length (orig i) \<le> length (output_data d)"
      using mult_le_mono2[of "Suc i" n bs] i(1) lo sz by simp
    then obtain mem where mem: "write_bytes (output_data d) (bs * i) (orig i) = Some mem"
      by (auto simp: write_bytes_def)
    have ob: "out_block (?d\<lparr>output_data := mem\<rparr>) j = (if j = i then orig i else out_block d j)" if "j < n" for j
      using out_block_write[OF shape i(1) that lo(1) mem] by (simp add: out_block_def)
    have "length mem = bs * n" using length_write_bytes[OF mem] sz by simp
    moreover have "out_block (?d\<lparr>output_data := mem\<rparr>) j = orig j"
      if "j < n" "j = i \<or> decoded_block_mask ?d ! j" for j
      using ob[OF that(1)] that inv by (auto simp: dec_inv_def)
    ultimately obtain d' where
      d': "propagate_decoded_block i (marked i ?d\<lparr>output_data := mem\<rparr>) = Some d'"
        "dec_inv n bs orig pss got {f} (\<lambda>f. undecoded d' (pss ! f)) d'"
        "decoded_block_mask d' = (decoded_block_mask d)[i := True]"
      using mark_propagate[OF ok inv' i(1), of mem] i(2) by auto
    have "drain_ready_block f ?d = Some d'"
      using fe e i len mem d'(1) dbs lo
      by (simp add: drain_ready_block_def mark_decoded_block_eq read_bytes_def) (simp add: marked_def)
    moreover have "dec_stable n bs orig pss got d'"
      unfolding dec_stable_def
      by (rule dec_inv_exempt[OF d'(2)]) (use undecoded_marked[OF dps ui d'(3)] i len in simp)
    moreover have kn: "known n d' = insert i (known n d)" using d'(3) len i(1) by (auto simp: known_def nth_list_update)
    moreover have "i \<in> K" if "peel_closed pss got K" "known n d \<subseteq> K" for K
    proof -
      have "set (?u f) = {i}" using ui by simp
      then have "i \<in> set (pss ! f)" "set (pss ! f) - {i} \<subseteq> known n d"
        using code_ok_index(2)[OF ok f(1)] by (auto simp: undecoded_def known_def)
      with that f(1,2) show ?thesis unfolding peel_closed_def by blast
    qed
    ultimately show ?thesis by auto
  qed
qed

text \<open>The loop of \<open>drain_ready_blocks\<close> returns, and nothing is left to drain.\<close>

lemma drain_ready_blocks_stable:
  assumes ok: "code_ok n bs orig pss" and st: "dec_stable n bs orig pss got d"
  shows "\<exists>d'. drain_ready_blocks d = Some d' \<and> dec_stable n bs orig pss got d' \<and> ready_encoded_links d' = []
    \<and> known n d \<subseteq> known n d' \<and> (\<forall>K. peel_closed pss got K \<longrightarrow> known n d \<subseteq> K \<longrightarrow> known n d' \<subseteq> K)"
  using st
proof (induction d rule: drain_ready_blocks.induct)
  case (1 d)
  show ?case
  proof (cases "ready_encoded_links d = []")
    case True
    with 1(2) show ?thesis by (auto simp: drain_ready_blocks.simps)
  next
    case False
    from drain_ready_block_stable[OF ok 1(2) False] obtain d1 where
      d1: "drain_ready_block (last (ready_encoded_links d))
             (d\<lparr>ready_encoded_links := butlast (ready_encoded_links d)\<rparr>) = Some d1"
        "dec_stable n bs orig pss got d1" "known n d \<subseteq> known n d1"
        "\<forall>K. peel_closed pss got K \<longrightarrow> known n d \<subseteq> K \<longrightarrow> known n d1 \<subseteq> K"
      by blast
    from 1(1)[OF False d1(1,2)] obtain d' where
      d': "drain_ready_blocks d1 = Some d'" "dec_stable n bs orig pss got d'" "ready_encoded_links d' = []"
        "known n d1 \<subseteq> known n d'" "\<forall>K. peel_closed pss got K \<longrightarrow> known n d1 \<subseteq> K \<longrightarrow> known n d' \<subseteq> K"
      by blast
    have "drain_ready_blocks d = Some d'"
      using False d1(1) d'(1) by (subst drain_ready_blocks.simps) simp
    with d'(2-5) d1(3,4) show ?thesis by blast
  qed
qed

text \<open>What a call returns once draining is over.\<close>

lemma stable_return:
  assumes ok: "code_ok n bs orig pss" and st: "dec_stable n bs orig pss got d"
  shows "decoded_blocks d = output_blocks d \<longleftrightarrow> known n d = {..<n}"
    and "decoded_blocks d = output_blocks d \<Longrightarrow> all_resolved d"
proof -
  have inv: "decoded_blocks d = count_list (decoded_block_mask d) True" "length (decoded_block_mask d) = n"
    "output_blocks d = n" "length (encoded_blocks d) = length pss"
    "\<And>f. f < length pss \<Longrightarrow> num_unresolved_indices (encoded_blocks d ! f) = length (undecoded d (pss ! f))"
    using st by (auto simp: dec_stable_def dec_inv_def dec_shape_def link_ok_def)
  show ret: "decoded_blocks d = output_blocks d \<longleftrightarrow> known n d = {..<n}"
    using count_True_all[of "decoded_block_mask d"] inv by (auto simp: known_def)
  assume "decoded_blocks d = output_blocks d"
  with ret have all: "\<forall>i < n. decoded_block_mask d ! i" by (auto simp: known_def)
  have "num_unresolved_indices (encoded_blocks d ! f) = 0" if "f < length pss" for f
  proof -
    have "set (pss ! f) \<subseteq> {..<n}" using ok that by (auto simp: code_ok_def)
    with all inv(5)[OF that] show ?thesis by (auto simp: undecoded_def filter_empty_conv)
  qed
  then show "all_resolved d" using inv(4) by (simp add: all_resolved_def list_all_length)
qed

lemma push_raw_block_stable:
  assumes ok: "code_ok n bs orig pss" and st: "dec_stable n bs orig pss got d"
    and i: "i < n" "out_block d i = orig i"
  shows "\<exists>d'. push_raw_block i d = Some (known n d' = {..<n}, d')
    \<and> dec_stable n bs orig pss got d' \<and> ready_encoded_links d' = []
    \<and> insert i (known n d) \<subseteq> known n d'
    \<and> (\<forall>K. peel_closed pss got K \<longrightarrow> insert i (known n d) \<subseteq> K \<longrightarrow> known n d' \<subseteq> K)"
proof -
  have inv: "dec_inv n bs orig pss got {} (\<lambda>f. undecoded d (pss ! f)) d" using st by (simp add: dec_stable_def)
  then have len: "length (decoded_block_mask d) = n" "length (output_data d) = bs * n"
    and good: "\<And>j. j < n \<Longrightarrow> j = i \<or> decoded_block_mask d ! j \<Longrightarrow> out_block d j = orig j"
    using i(2) by (auto simp: dec_inv_def dec_shape_def)
  obtain fresh d1 d2 where d2: "mark_decoded_block i d = Some (fresh, d1)"
      "(if fresh then propagate_decoded_block i d1 else Some d1) = Some d2"
      "dec_stable n bs orig pss got d2" "decoded_block_mask d2 = (decoded_block_mask d)[i := True]"
  proof (cases "decoded_block_mask d ! i")
    case True
    with that[of False d d] st i(1) len show thesis
      by (metis list_update_id mark_decoded_block_eq)
  next
    case False
    from mark_propagate[OF ok inv i(1) False, of "output_data d"] len good obtain d2 where
      "propagate_decoded_block i (marked i d) = Some d2" "dec_stable n bs orig pss got d2"
      "decoded_block_mask d2 = (decoded_block_mask d)[i := True]"
      by (auto simp: dec_stable_def marked_def)
    with that[of True "marked i d" d2] False i(1) len show thesis by (simp add: mark_decoded_block_eq)
  qed
  from drain_ready_blocks_stable[OF ok d2(3)] obtain d' where
    d': "drain_ready_blocks d2 = Some d'" "dec_stable n bs orig pss got d'" "ready_encoded_links d' = []"
      "known n d2 \<subseteq> known n d'" "\<forall>K. peel_closed pss got K \<longrightarrow> known n d2 \<subseteq> K \<longrightarrow> known n d' \<subseteq> K"
    by blast
  have "push_raw_block i d = Some (decoded_blocks d' = output_blocks d', d')"
    using d2(1,2) d'(1) stable_return(2)[OF ok d'(2)] by (simp add: push_raw_block_def Let_def)
  moreover have "known n d2 = insert i (known n d)" using d2(4) len i(1) by (auto simp: known_def nth_list_update)
  ultimately show ?thesis using stable_return(1)[OF ok d'(2)] d' by auto
qed

text \<open>A FEC block that arrives late first absorbs the data blocks that were decoded before it.\<close>

lemma absorb_resolved:
  assumes ok: "code_ok n bs orig pss" and f: "f < length pss"
    and rs: "distinct rs" "set rs \<subseteq> set (pss ! f)" "length rs \<le> length cells"
      "take (length rs) cells = map Some rs"
    and blk: "\<And>i. i \<in> set rs \<Longrightarrow> take bs (drop (bs * i) mem) = orig i \<and> bs \<le> length (drop (bs * i) mem)"
  shows "for_list (\<lambda>i x. do { o_idx \<leftarrow> load_cell cells i; xor_block x (drop (bs * o_idx) mem) bs })
      [0..<length rs] (xor_blocks bs orig (pss ! f))
    = Some (xor_blocks bs orig (filter (\<lambda>i. i \<notin> set rs) (pss ! f)))"
proof -
  let ?ps = "pss ! f"
  let ?I = "\<lambda>done x. x = xor_blocks bs orig (filter (\<lambda>i. i \<notin> set (take (length done) rs)) ?ps)"
  note ps = code_ok_index[OF ok f]
  have "\<exists>x. for_list (\<lambda>i x. do { o_idx \<leftarrow> load_cell cells i; xor_block x (drop (bs * o_idx) mem) bs })
      [0..<length rs] (xor_blocks bs orig ?ps) = Some x \<and> ?I [0..<length rs] x"
  proof (rule for_list_invariant[where I = ?I])
    show "?I [] (xor_blocks bs orig ?ps)" by simp
  next
    fix "done" k rest x
    assume split: "[0..<length rs] = done @ k # rest" and I: "?I done x"
    have k: "k = length done" "k < length rs"
      using upt_split[OF split] by auto
    have c: "load_cell cells k = Some (rs ! k)"
    proof -
      have "cells ! k = take (length rs) cells ! k" using k(2) by simp
      then show ?thesis using k(2) rs(3,4) by (simp add: load_cell_def)
    qed
    have rk: "rs ! k \<in> set rs" "rs ! k \<in> set ?ps" using k(2) rs(2) by (auto dest: nth_mem)
    let ?us = "filter (\<lambda>i. i \<notin> set (take k rs)) ?ps"
    have notin: "rs ! k \<notin> set (take k rs)" using rs(1) k(2)
      by (auto simp: in_set_conv_nth nth_eq_iff_index_eq)
    have lx: "length (xor_blocks bs orig ?us) = bs" using ps(3) by (intro length_xor_blocks) auto
    have "xor_bytes (xor_blocks bs orig ?us) (orig (rs ! k)) = xor_blocks bs orig (remove1 (rs ! k) ?us)"
      by (rule xor_blocks_remove1) (use ps(1,3) rk notin in auto)
    also have "remove1 (rs ! k) ?us = filter (\<lambda>i. i \<notin> set (take (Suc k) rs)) ?ps"
      using ps(1) k(2) by (auto simp: remove1_filter_distinct take_Suc_conv_app_nth intro!: filter_cong)
    finally show "\<exists>x'. do { o_idx \<leftarrow> load_cell cells k; xor_block x (drop (bs * o_idx) mem) bs } = Some x'
        \<and> ?I (done @ [k]) x'"
      using c I k(1) lx blk[OF rk(1)] by (simp add: xor_block_def)
  qed
  then show ?thesis by simp
qed

lemma push_fec_block_stable:
  assumes ok: "code_ok n bs orig pss" and st: "dec_stable n bs orig pss got d"
    and f: "f < length pss" "f \<notin> got"
  shows "\<exists>d'. push_fec_block f (xor_blocks bs orig (pss ! f)) d = Some (known n d' = {..<n}, d')
    \<and> dec_stable n bs orig pss (insert f got) d' \<and> ready_encoded_links d' = []
    \<and> known n d \<subseteq> known n d'
    \<and> (\<forall>K. peel_closed pss (insert f got) K \<longrightarrow> known n d \<subseteq> K \<longrightarrow> known n d' \<subseteq> K)"
proof -
  let ?e = "encoded_blocks d ! f" and ?us = "undecoded d (pss ! f)"
  have inv: "dec_inv n bs orig pss got {} (\<lambda>f. undecoded d (pss ! f)) d" using st by (simp add: dec_stable_def)
  then have shape: "dec_shape n bs pss d" by (simp add: dec_inv_def)
  then have fe: "f < length (encoded_blocks d)" and dbs: "dec_block_size d = bs"
    and len: "length (output_data d) = bs * n"
    using f(1) by (simp_all add: dec_shape_def)
  have link: "link_ok n bs orig (pss ! f) ?us ?e" using inv f(1) by (simp add: dec_inv_def)
  have "link_data ?e \<noteq> None \<longleftrightarrow> f \<in> got" using inv f(1) unfolding dec_inv_def by blast
  with f(2) have nodata: "link_data ?e = None" by simp
  from link nodata obtain rs where rs: "num_resolved_indices ?e = length rs" "distinct rs"
    "set rs = set (pss ! f) - set ?us" "take (length rs) (resolved_indices ?e) = map Some rs"
    "length (resolved_indices ?e) = n"
    by (auto simp: link_ok_def)
  note ps = code_ok_index[OF ok f(1)]
  have sub: "set rs \<subseteq> {..<n}" using rs(3) ps(2) by auto
  have room: "length rs \<le> n" using card_mono[OF _ sub] rs(2) by (simp add: distinct_card)
  have blk: "take bs (drop (bs * i) (output_data d)) = orig i \<and> bs \<le> length (drop (bs * i) (output_data d))"
    if "i \<in> set rs" for i
  proof -
    have i: "i < n" "decoded_block_mask d ! i" using that rs(3) sub by (auto simp: undecoded_def)
    then have "out_block d i = orig i" using inv by (simp add: dec_inv_def)
    with mult_le_mono2[of "Suc i" n bs] i(1) len dbs show ?thesis by (simp add: out_block_def)
  qed
  define e' where "e' = ?e\<lparr>link_data := Some (xor_blocks bs orig ?us), num_resolved_indices := 0\<rparr>"
  define rd where "rd = (if num_unresolved_indices ?e = 1 then ready_encoded_links d @ [f] else ready_encoded_links d)"
  define d1 where "d1 = d\<lparr>encoded_blocks := (encoded_blocks d)[f := e'], ready_encoded_links := rd\<rparr>"
  have "filter (\<lambda>i. i \<notin> set rs) (pss ! f) = ?us"
    unfolding undecoded_def rs(3) by (rule filter_cong) (auto simp: undecoded_def)
  then have x: "for_list (\<lambda>i x. do { o_idx \<leftarrow> load_cell (resolved_indices ?e) i;
        xor_block x (drop (bs * o_idx) (output_data d)) bs })
      [0..<num_resolved_indices ?e] (xor_blocks bs orig (pss ! f)) = Some (xor_blocks bs orig ?us)"
    using absorb_resolved[OF ok f(1) rs(2) _ _ rs(4) blk] rs room by simp
  have u1: "undecoded d1 ps = undecoded d ps" for ps by (simp add: undecoded_def d1_def)
  have n1: "num_unresolved_indices ?e = length ?us" using link by (simp add: link_ok_def)
  have "dec_inv n bs orig pss (insert f got) {} (\<lambda>f. undecoded d1 (pss ! f)) d1"
    unfolding dec_inv_def u1
  proof (intro conjI)
    show "dec_shape n bs pss d1" using inv by (simp add: dec_inv_def dec_shape_def d1_def)
    show "\<forall>g < length pss. link_ok n bs orig (pss ! g) (undecoded d (pss ! g)) (encoded_blocks d1 ! g)"
      using inv link fe by (auto simp: dec_inv_def d1_def nth_list_update e'_def link_ok_def)
    show "\<forall>g < length pss. link_data (encoded_blocks d1 ! g) \<noteq> None \<longleftrightarrow> g \<in> insert f got"
      using inv fe by (auto simp: dec_inv_def d1_def nth_list_update e'_def)
    show "\<forall>i < n. \<forall>g < 32 * num_u32_masks_per_output d1.
        fec_bit d1 i g \<longleftrightarrow> g < length pss \<and> i \<in> set (undecoded d (pss ! g))"
      using inv by (simp add: dec_inv_def d1_def fec_bit_def)
    show "\<forall>i < n. decoded_block_mask d1 ! i \<longrightarrow> out_block d1 i = orig i"
      using inv by (simp add: dec_inv_def d1_def out_block_def)
    show "decoded_blocks d1 = count_list (decoded_block_mask d1) True"
      using inv by (simp add: dec_inv_def d1_def)
    show "\<forall>g \<in> set (ready_encoded_links d1). g < length pss \<and> g \<in> insert f got
        \<and> length (undecoded d (pss ! g)) \<le> 1"
      using inv f(1) n1 by (auto simp: dec_inv_def d1_def rd_def)
    show "\<forall>g < length pss. g \<in> insert f got \<and> g \<notin> {} \<and> length (undecoded d (pss ! g)) = 1
        \<longrightarrow> g \<in> set (ready_encoded_links d1)"
      using inv n1 by (auto simp: dec_inv_def d1_def rd_def)
  qed
  then have st1: "dec_stable n bs orig pss (insert f got) d1" by (simp add: dec_stable_def)
  from drain_ready_blocks_stable[OF ok st1] obtain d' where
    d': "drain_ready_blocks d1 = Some d'" "dec_stable n bs orig pss (insert f got) d'"
      "ready_encoded_links d' = []" "known n d1 \<subseteq> known n d'"
      "\<forall>K. peel_closed pss (insert f got) K \<longrightarrow> known n d1 \<subseteq> K \<longrightarrow> known n d' \<subseteq> K"
    by blast
  have "push_fec_block f (xor_blocks bs orig (pss ! f)) d = Some (decoded_blocks d' = output_blocks d', d')"
    using fe x d'(1) stable_return(2)[OF ok d'(2)]
    by (simp add: push_fec_block_def Let_def dbs d1_def e'_def rd_def)
  moreover have "known n d1 = known n d" by (simp add: known_def d1_def)
  ultimately show ?thesis using stable_return(1)[OF ok d'(2)] d' by auto
qed

text \<open>The caller may write into the output buffer between calls as long as decoded blocks stay as they are.\<close>

lemma dec_stable_output:
  assumes "dec_stable n bs orig pss got d" "length mem = bs * n"
    "\<And>j. j < n \<Longrightarrow> decoded_block_mask d ! j \<Longrightarrow> out_block (d\<lparr>output_data := mem\<rparr>) j = orig j"
  shows "dec_stable n bs orig pss got (d\<lparr>output_data := mem\<rparr>)"
proof -
  have "undecoded (d\<lparr>output_data := mem\<rparr>) ps = undecoded d ps" for ps by (simp add: undecoded_def)
  moreover have "fec_bit (d\<lparr>output_data := mem\<rparr>) i f = fec_bit d i f" for i f by (simp add: fec_bit_def)
  ultimately show ?thesis using assms by (simp add: dec_stable_def dec_inv_def dec_shape_def)
qed

text \<open>Once nothing is left to drain, no FEC block that has arrived would yield another data block.\<close>

lemma drained_peel_closed:
  assumes ok: "code_ok n bs orig pss" and st: "dec_stable n bs orig pss got d"
    and ready: "ready_encoded_links d = []"
  shows "peel_closed pss got (known n d)"
  unfolding peel_closed_def
proof (intro ballI impI)
  fix f i assume f: "f \<in> got" "f < length pss" and i: "i \<in> set (pss ! f)" "set (pss ! f) - {i} \<subseteq> known n d"
  show "i \<in> known n d"
  proof (rule ccontr)
    assume "i \<notin> known n d"
    then have nd: "\<not> decoded_block_mask d ! i" using code_ok_index(2)[OF ok f(2) i(1)] by (simp add: known_def)
    have "set (undecoded d (pss ! f)) = {i}" using i nd by (auto simp: undecoded_def known_def)
    moreover have "distinct (undecoded d (pss ! f))"
      using code_ok_index(1)[OF ok f(2)] by (simp add: undecoded_def)
    ultimately have "length (undecoded d (pss ! f)) = 1" by (metis card_1_singleton_iff distinct_card One_nat_def)
    with st f have "f \<in> set (ready_encoded_links d)" by (simp add: dec_stable_def dec_inv_def)
    with ready show False by simp
  qed
qed

end
