(* ===== verification/LT_Codec.thy ===== *)
theory LT_Codec
  imports LT_Correct
begin

text \<open>
  Encoder and decoder together.  Seeding the decoder rebuilds the index lists from which the encoder
  computed its FEC blocks; from there the decoder is run on an arbitrary sequence of arrivals.
\<close>

section \<open>Seeding the decoder\<close>

text \<open>The number of data blocks that FEC block \<open>f\<close> combines alternates between two values.\<close>

definition xor_counts :: "nat \<Rightarrow> nat \<Rightarrow> nat \<Rightarrow> nat list" where
  "xor_counts k_even k_odd m = map (\<lambda>f. if odd f then k_odd else k_even) [0..<m]"

text \<open>The index lists of \<open>m\<close> FEC blocks over \<open>n\<close> data blocks.\<close>

definition fec_indices :: "nat \<Rightarrow> nat \<Rightarrow> nat \<Rightarrow> nat \<Rightarrow> nat \<Rightarrow> nat list list" where
  "fec_indices s n k_even k_odd m =
     fst (pool_groups n (xor_counts k_even k_odd m) (minstd_seed s, []))"

definition mask_bit :: "nat \<Rightarrow> u32 list \<Rightarrow> nat \<Rightarrow> nat \<Rightarrow> bool" where
  "mask_bit nm masks i f = bit (masks ! (i * nm + f div 32)) (f mod 32)"

lemma fec_bit_mask_bit: "fec_bit d = mask_bit (num_u32_masks_per_output d) (output_to_fec_mask d)"
  by (intro ext) (simp add: fec_bit_def mask_bit_def)

lemma length_xor_counts [simp]: "length (xor_counts a b m) = m"
  by (simp add: xor_counts_def)

lemma xor_counts_le: "a \<le> n \<Longrightarrow> b \<le> n \<Longrightarrow> \<forall>k \<in> set (xor_counts a b m). k \<le> n"
  by (auto simp: xor_counts_def)

lemma xor_counts_Suc: "xor_counts a b (Suc m) = xor_counts a b m @ [if odd m then b else a]"
  by (simp add: xor_counts_def)

lemma mask_bit_set:
  assumes "i < n" "f < 32 * nm" "j < n" "g < 32 * nm" "length masks = nm * n"
  shows "i * nm + f div 32 < length masks"
    and "mask_bit nm (masks[i * nm + f div 32 := masks ! (i * nm + f div 32) OR push_bit (f mod 32) 1]) j g
      \<longleftrightarrow> mask_bit nm masks j g \<or> (j = i \<and> g = f)"
proof -
  have fw: "f div 32 < nm" and gw: "g div 32 < nm" using assms by auto
  show lt: "i * nm + f div 32 < length masks"
    using table_index_less[OF assms(1) fw] assms(5) by (simp add: mult.commute)
  have same: "j * nm + g div 32 = i * nm + f div 32 \<longleftrightarrow> j = i \<and> g div 32 = f div 32"
    using table_index_inj[of j nm "g div 32" i "f div 32"] fw gw by auto
  have "g = f \<longleftrightarrow> g div 32 = f div 32 \<and> g mod 32 = f mod 32" by (metis div_mult_mod_eq)
  with same lt show "mask_bit nm (masks[i * nm + f div 32 := masks ! (i * nm + f div 32) OR push_bit (f mod 32) 1]) j g
      \<longleftrightarrow> mask_bit nm masks j g \<or> (j = i \<and> g = f)"
    by (auto simp: mask_bit_def nth_list_update bit_simps)
qed

lemma seed_indices:
  assumes "set xs \<subseteq> {..<n}" "f < 32 * nm" "length masks = nm * n" "length is = length xs"
  shows "\<exists>masks'. for_list (\<lambda>(i, x). seed_index nm f i x) (zip is xs) (acc, masks)
      = Some (acc XOR xor_nats xs, masks') \<and> length masks' = nm * n
    \<and> (\<forall>j < n. \<forall>g < 32 * nm. mask_bit nm masks' j g \<longleftrightarrow> mask_bit nm masks j g \<or> (g = f \<and> j \<in> set xs))"
  using assms
proof (induction xs arbitrary: acc masks "is")
  case Nil
  then show ?case by simp
next
  case (Cons x xs)
  then obtain i js where "is": "is = i # js" by (cases "is") auto
  have x: "x < n" using Cons.prems(1) by simp
  let ?masks = "masks[x * nm + f div 32 := masks ! (x * nm + f div 32) OR push_bit (f mod 32) 1]"
  have step: "seed_index nm f i x (acc, masks) = Some (acc XOR x, ?masks)"
    using mask_bit_set(1)[OF x Cons.prems(2) x Cons.prems(2,3)] by (simp add: seed_index_def)
  from Cons.IH[of ?masks js "acc XOR x"] Cons.prems "is" obtain masks' where
    m': "for_list (\<lambda>(i, x). seed_index nm f i x) (zip js xs) (acc XOR x, ?masks)
        = Some ((acc XOR x) XOR xor_nats xs, masks')" "length masks' = nm * n"
      "\<forall>j < n. \<forall>g < 32 * nm. mask_bit nm masks' j g \<longleftrightarrow> mask_bit nm ?masks j g \<or> (g = f \<and> j \<in> set xs)"
    by auto
  have "mask_bit nm masks' j g \<longleftrightarrow> mask_bit nm masks j g \<or> (g = f \<and> j \<in> set (x # xs))"
    if "j < n" "g < 32 * nm" for j g
    using m'(3) that mask_bit_set(2)[OF x Cons.prems(2) that Cons.prems(3)] by auto
  with m'(1,2) step show ?case by (auto simp: "is" xor.assoc)
qed

text \<open>The state of the decoder after the first \<open>f\<close> of \<open>m\<close> FEC blocks have been seeded.\<close>

definition seed_inv :: "nat \<Rightarrow> nat \<Rightarrow> nat \<Rightarrow> nat \<Rightarrow> nat \<Rightarrow> nat \<Rightarrow> nat \<Rightarrow> decoder \<Rightarrow> nat \<Rightarrow> decoder \<Rightarrow> bool" where
  "seed_inv s n ke ko m nm cap d0 f d \<longleftrightarrow>
     d = d0\<lparr>dec_shuffler := dec_shuffler d, output_to_fec_mask := output_to_fec_mask d,
            index_buffer_offset := nm * n + f * n, encoded_blocks := encoded_blocks d\<rparr>
     \<and> shuffler_inv (dec_shuffler d)
     \<and> shuffler_pool (dec_shuffler d) = snd (pool_groups n (xor_counts ke ko f) (minstd_seed s, []))
     \<and> length (output_to_fec_mask d) = nm * n
     \<and> (\<forall>i < n. \<forall>g < 32 * nm. mask_bit nm (output_to_fec_mask d) i g
          \<longleftrightarrow> g < f \<and> i \<in> set (fec_indices s n ke ko f ! g))
     \<and> length (encoded_blocks d) = m
     \<and> (\<forall>g < m. encoded_blocks d ! g = (if g < f then
            \<lparr>link_data = None, link_output_index = xor_nats (fec_indices s n ke ko f ! g),
             num_unresolved_indices = length (fec_indices s n ke ko f ! g),
             resolved_indices = replicate n None, num_resolved_indices = 0\<rparr> else link_new))"

lemma fec_indices_props:
  assumes "ke \<le> n" "ko \<le> n"
  shows "length (fec_indices s n ke ko m) = m"
    and "f < m \<Longrightarrow> distinct (fec_indices s n ke ko m ! f)"
    and "f < m \<Longrightarrow> length (fec_indices s n ke ko m ! f) = (if odd f then ko else ke)"
    and "f < m \<Longrightarrow> set (fec_indices s n ke ko m ! f) \<subseteq> {..<n}"
    and "pool_wf n (snd (pool_groups n (xor_counts ke ko m) (minstd_seed s, [])))"
proof -
  have "pool_wf n (minstd_seed s, [])" by (simp add: pool_wf_def)
  note p = pool_groups_props[OF this xor_counts_le[OF assms, of m]]
  then show "length (fec_indices s n ke ko m) = m"
    and "f < m \<Longrightarrow> distinct (fec_indices s n ke ko m ! f)"
    and "f < m \<Longrightarrow> set (fec_indices s n ke ko m ! f) \<subseteq> {..<n}"
    and "pool_wf n (snd (pool_groups n (xor_counts ke ko m) (minstd_seed s, [])))"
    by (auto simp: fec_indices_def)
  show "f < m \<Longrightarrow> length (fec_indices s n ke ko m ! f) = (if odd f then ko else ke)"
    using p by (simp add: fec_indices_def) (simp add: xor_counts_def)
qed

lemma fec_indices_Suc:
  "fec_indices s n ke ko (Suc f) = fec_indices s n ke ko f
    @ [fst (pool_draws (if odd f then ko else ke) (pool_begin n (if odd f then ko else ke)
         (snd (pool_groups n (xor_counts ke ko f) (minstd_seed s, [])))))]"
  by (simp add: fec_indices_def xor_counts_Suc pool_groups_snoc Let_def split: prod.split)

lemma seed_block_inv:
  assumes k: "ke \<le> n" "ko \<le> n" and n: "n \<le> 2 ^ 31" and f: "f < m"
    and nm: "nm = (m + 31) div 32" and cap: "nm * n + m * n \<le> cap"
    and d0: "output_blocks d0 = n" "num_xor_blocks_even d0 = ke" "num_xor_blocks_odd d0 = ko"
      "num_u32_masks_per_output d0 = nm" "index_buffer_capacity d0 = cap"
    and I: "seed_inv s n ke ko m nm cap d0 f d"
  shows "\<exists>d'. seed_block f d = Some d' \<and> seed_inv s n ke ko m nm cap d0 (Suc f) d'"
proof -
  define k where "k = (if odd f then ko else ke)"
  have kn: "k \<le> n" using assms(1,2) by (simp add: k_def)
  define p where "p = pool_begin n k (shuffler_pool (dec_shuffler d))"
  have pool: "shuffler_pool (dec_shuffler d) = snd (pool_groups n (xor_counts ke ko f) (minstd_seed s, []))"
    and sinv: "shuffler_inv (dec_shuffler d)" and lm: "length (output_to_fec_mask d) = nm * n"
    and le: "length (encoded_blocks d) = m"
    and eb: "\<And>g. g < m \<Longrightarrow> encoded_blocks d ! g = (if g < f then
            \<lparr>link_data = None, link_output_index = xor_nats (fec_indices s n ke ko f ! g),
             num_unresolved_indices = length (fec_indices s n ke ko f ! g),
             resolved_indices = replicate n None, num_resolved_indices = 0\<rparr> else link_new)"
    and mb: "\<And>i g. i < n \<Longrightarrow> g < 32 * nm \<Longrightarrow> mask_bit nm (output_to_fec_mask d) i g
          \<longleftrightarrow> g < f \<and> i \<in> set (fec_indices s n ke ko f ! g)"
    using I by (simp_all add: seed_inv_def)
  have dd: "d = d0\<lparr>dec_shuffler := dec_shuffler d, output_to_fec_mask := output_to_fec_mask d,
            index_buffer_offset := nm * n + f * n, encoded_blocks := encoded_blocks d\<rparr>"
    using I by (simp add: seed_inv_def)
  have fields: "output_blocks d = n" "num_xor_blocks_even d = ke" "num_xor_blocks_odd d = ko"
    "num_u32_masks_per_output d = nm" "index_buffer_capacity d = cap" "index_buffer_offset d = nm * n + f * n"
    using d0 by (subst dd, simp)+
  have wf: "pool_wf n p" "k \<le> length (snd p)"
    using pool_begin_wf[OF _ kn] fec_indices_props(5)[OF assms(1,2)] pool by (auto simp: p_def)
  define xs where "xs = fst (pool_draws k p)"
  have xs: "length xs = k" "set xs \<subseteq> {..<n}"
    using pool_draws_props[OF wf(2)] wf(1) by (auto simp: xs_def pool_wf_def)
  have fi: "fec_indices s n ke ko (Suc f) = fec_indices s n ke ko f @ [xs]"
    by (simp only: fec_indices_Suc k_def[symmetric] pool[symmetric] p_def[symmetric] xs_def[symmetric])
  have lf: "length (fec_indices s n ke ko f) = f" using fec_indices_props(1)[OF assms(1,2)] .
  from begin_pick_refines[OF sinv kn n] obtain sh0 where
    sh0: "begin_pick n k (dec_shuffler d) = Some sh0" "shuffler_inv sh0" "shuffler_pool sh0 = p"
    by (auto simp: p_def)
  have f32: "f < 32 * nm" using f nm by auto
  from seed_indices[OF xs(2) f32 lm, of "[0..<k]" 0] xs(1) obtain masks where
    masks: "for_list (\<lambda>(i, x). seed_index nm f i x) (zip [0..<k] xs) (0, output_to_fec_mask d)
        = Some (xor_nats xs, masks)" "length masks = nm * n"
      "\<forall>j < n. \<forall>g < 32 * nm. mask_bit nm masks j g \<longleftrightarrow>
         mask_bit nm (output_to_fec_mask d) j g \<or> (g = f \<and> j \<in> set xs)"
    by auto
  from sampler.draw_loop[OF sh0(2), of k 0 "seed_index nm f" "(0, output_to_fec_mask d)"] wf(2) sh0(3) masks(1)
  obtain sh where sh: "shuffler_inv sh" "shuffler_pool sh = snd (pool_draws k p)"
    "for_list (\<lambda>i (sh, st). do { (x, sh) \<leftarrow> pick sh; st \<leftarrow> seed_index nm f i x st; Some (sh, st) })
       [0..<k] (sh0, 0, output_to_fec_mask d) = Some (sh, xor_nats xs, masks)"
    by (auto simp: xs_def)
  define e' where "e' = link_new\<lparr>resolved_indices := replicate n None, link_output_index := xor_nats xs,
      num_unresolved_indices := k\<rparr>"
  define d' where "d' = d\<lparr>dec_shuffler := sh, output_to_fec_mask := masks,
      index_buffer_offset := nm * n + f * n + n, encoded_blocks := (encoded_blocks d)[f := e']\<rparr>"
  have "Suc f * n \<le> m * n" using f by (intro mult_le_mono1) simp
  then have room: "nm * n + f * n + n \<le> cap" using cap by simp
  have "seed_block f d = Some d'"
    using sh0(1) sh(3) room f le eb[OF f]
    by (cases "odd f") (simp_all add: seed_block_def fields k_def Let_def d'_def e'_def)
  moreover have "seed_inv s n ke ko m nm cap d0 (Suc f) d'"
    unfolding seed_inv_def
  proof (intro conjI)
    show "d' = d0\<lparr>dec_shuffler := dec_shuffler d', output_to_fec_mask := output_to_fec_mask d',
            index_buffer_offset := nm * n + Suc f * n, encoded_blocks := encoded_blocks d'\<rparr>"
      unfolding d'_def by (subst (1) dd) simp
    show "shuffler_pool (dec_shuffler d') = snd (pool_groups n (xor_counts ke ko (Suc f)) (minstd_seed s, []))"
      using pool by (simp add: d'_def sh(2) p_def xor_counts_Suc pool_groups_snoc k_def Let_def split: prod.split)
    show "\<forall>i < n. \<forall>g < 32 * nm. mask_bit nm (output_to_fec_mask d') i g
          \<longleftrightarrow> g < Suc f \<and> i \<in> set (fec_indices s n ke ko (Suc f) ! g)"
      using masks(3) mb by (auto simp: d'_def fi nth_append lf less_Suc_eq)
    show "\<forall>g < m. encoded_blocks d' ! g = (if g < Suc f then
            \<lparr>link_data = None, link_output_index = xor_nats (fec_indices s n ke ko (Suc f) ! g),
             num_unresolved_indices = length (fec_indices s n ke ko (Suc f) ! g),
             resolved_indices = replicate n None, num_resolved_indices = 0\<rparr> else link_new)"
      using eb le xs(1) by (auto simp: d'_def fi nth_append lf nth_list_update e'_def link_new_def)
  qed (use sh(1) masks(2) le in \<open>auto simp: d'_def\<close>)
  ultimately show ?thesis by blast
qed

lemma reserve_indices_returns:
  assumes "pow2_capacity (index_buffer_capacity d)" "need \<le> 2 ^ 63"
  shows "\<exists>cap. reserve_indices need d = Some (d\<lparr>index_buffer_capacity := cap, index_buffer_offset := 0\<rparr>)
    \<and> need \<le> cap \<and> pow2_capacity cap"
proof (cases "index_buffer_capacity d < need")
  case True
  define c where "c = (if index_buffer_capacity d = 0 then 1 else index_buffer_capacity d)"
  from assms(1) obtain k where k: "k \<le> 63" "c = 2 ^ k"
    by (auto simp: pow2_capacity_def c_def split: if_splits intro: that[of 0])
  from grow_pow2_power[of k "63 - k" 63 need] k(1) assms(2) obtain j where
    j: "j \<le> 63" "grow_pow2 64 c need = Some (2 ^ j)" "need \<le> 2 ^ j"
    by (auto simp: k(2))
  with True have "reserve_indices need d = Some (d\<lparr>index_buffer_capacity := 2 ^ j, index_buffer_offset := 0\<rparr>)"
    by (simp add: reserve_indices_def c_def)
  with j show ?thesis by (auto simp: pow2_capacity_def)
next
  case False
  with assms(1) show ?thesis by (intro exI[of _ "index_buffer_capacity d"]) (simp add: reserve_indices_def)
qed

lemma begin_decode_stable:
  fixes s :: nat
  assumes bs: "dec_block_size d = bs" "0 < bs" and re: "decoder_reusable d"
    and data: "length data = bs * n" "sz = bs * n"
    and k: "ke \<le> n" "ko \<le> n"
    and fits: "m * n + (m + 31) div 32 * n < 2 ^ 32" "m + 31 < 2 ^ 32" "n \<le> 2 ^ 31"
    and orig: "\<And>i. i < n \<Longrightarrow> length (orig i) = bs"
  defines "pss \<equiv> fec_indices s n ke ko m"
  shows "code_ok n bs orig pss"
    and "\<exists>d'. begin_decode s data sz m ke ko d = Some d' \<and> dec_stable n bs orig pss {} d'
      \<and> ready_encoded_links d' = [] \<and> output_data d' = data \<and> (\<forall>i < n. \<not> decoded_block_mask d' ! i)"
proof -
  note fp = fec_indices_props[OF k, where s = s and m = m, folded pss_def]
  have "\<forall>ps \<in> set pss. distinct ps \<and> set ps \<subseteq> {..<n}" using fp(1,2,4) by (metis in_set_conv_nth)
  then show "code_ok n bs orig pss" using bs(2) orig by (simp add: code_ok_def)
  define nm where "nm = (m + 31) div 32"
  define d1 where "d1 = d\<lparr>output_data := data, output_blocks := n, num_xor_blocks_even := ke,
           num_xor_blocks_odd := ko, decoded_blocks := 0,
           decoded_block_mask := replicate n False, ready_encoded_links := [],
           num_u32_masks_per_output := nm\<rparr>"
  have need: "(m * n + nm * n) mod 4294967296 = m * n + nm * n" "(nm * n) mod 4294967296 = nm * n"
    using fits(1) by (simp_all add: nm_def)
  have pc: "pow2_capacity (index_buffer_capacity d1)" using re by (simp add: d1_def decoder_reusable_def)
  have "m * n + nm * n \<le> 2 ^ 63" using fits(1) by (simp add: nm_def)
  from reserve_indices_returns[OF pc this] obtain cap where
    cap: "reserve_indices (m * n + nm * n) d1 = Some (d1\<lparr>index_buffer_capacity := cap, index_buffer_offset := 0\<rparr>)"
      "m * n + nm * n \<le> cap" "pow2_capacity cap"
    by blast
  define d2 where "d2 = d1\<lparr>index_buffer_capacity := cap, output_to_fec_mask := replicate (nm * n) 0,
      index_buffer_offset := nm * n, dec_shuffler := flush (seed s (dec_shuffler d)),
      encoded_blocks := replicate m link_new\<rparr>"
  have n32: "n mod 4294967296 = n" using fits(3) by simp
  have mm: "(m + 31) mod 4294967296 div 32 = nm" using fits(2) by (simp add: nm_def)
  have run: "begin_decode s data sz m ke ko d = for_list seed_block [0..<m] d2"
    using bs data(2) n32 cap(1,2)
    by (simp add: begin_decode_def Let_def mm need d1_def[symmetric] d2_def)
       (simp add: d1_def)
  let ?I = "\<lambda>done d'. seed_inv s n ke ko m nm cap d2 (length done) d'"
  have "\<exists>d'. for_list seed_block [0..<m] d2 = Some d' \<and> ?I [0..<m] d'"
  proof (rule for_list_invariant[where I = ?I])
    have "mask_bit nm (replicate (nm * n) 0) i g = False" if "i < n" "g < 32 * nm" for i g
    proof -
      from that have "i * nm + g div 32 < n * nm" by (intro table_index_less) auto
      then show ?thesis by (simp add: mask_bit_def mult.commute)
    qed
    then show "?I [] d2"
      using re by (simp add: seed_inv_def d2_def decoder_reusable_def xor_counts_def)
  next
    fix "done" f rest t
    assume split: "[0..<m] = done @ f # rest" and I: "?I done t"
    have f: "f = length done" "f < m"
      using upt_split[OF split] by auto
    have "\<exists>d'. seed_block f t = Some d' \<and> seed_inv s n ke ko m nm cap d2 (Suc f) d'"
      by (rule seed_block_inv[OF k fits(3) f(2) nm_def])
         (use cap(2) I f in \<open>simp_all add: d2_def d1_def\<close>)
    then show "\<exists>d'. seed_block f t = Some d' \<and> ?I (done @ [f]) d'" by (simp add: f)
  qed
  then obtain d' where d': "begin_decode s data sz m ke ko d = Some d'" and si: "seed_inv s n ke ko m nm cap d2 m d'"
    by (auto simp: run)
  have dd: "d' = d2\<lparr>dec_shuffler := dec_shuffler d', output_to_fec_mask := output_to_fec_mask d',
            index_buffer_offset := nm * n + m * n, encoded_blocks := encoded_blocks d'\<rparr>"
    using si by (simp add: seed_inv_def)
  have fields: "output_blocks d' = n" "dec_block_size d' = bs" "num_u32_masks_per_output d' = nm"
    "output_data d' = data" "decoded_block_mask d' = replicate n False" "decoded_blocks d' = 0"
    "ready_encoded_links d' = []" "index_buffer_capacity d' = cap"
    by (subst dd, simp add: d2_def d1_def bs)+
  have und: "undecoded d' ps = ps" if "set ps \<subseteq> {..<n}" for ps
    using that by (auto simp: undecoded_def fields filter_id_conv subset_iff)
  have up: "undecoded d' (pss ! f) = pss ! f" if "f < m" for f using fp(4)[OF that] by (rule und)
  have "dec_inv n bs orig pss {} {} (\<lambda>f. undecoded d' (pss ! f)) d'"
    unfolding dec_inv_def
  proof (intro conjI)
    show "dec_shape n bs pss d'"
      using si data cap(3) by (simp add: dec_shape_def fields fp(1) nm_def seed_inv_def)
    show "\<forall>f < length pss. link_ok n bs orig (pss ! f) (undecoded d' (pss ! f)) (encoded_blocks d' ! f)"
    proof (intro allI impI)
      fix f assume "f < length pss"
      then have f: "f < m" by (simp add: fp(1))
      then have "encoded_blocks d' ! f = \<lparr>link_data = None, link_output_index = xor_nats (pss ! f),
             num_unresolved_indices = length (pss ! f),
             resolved_indices = replicate n None, num_resolved_indices = 0\<rparr>"
        using si by (simp add: seed_inv_def pss_def)
      then show "link_ok n bs orig (pss ! f) (undecoded d' (pss ! f)) (encoded_blocks d' ! f)"
        using fp(2)[OF f] by (simp add: up[OF f] link_ok_def)
    qed
    show "\<forall>f < length pss. link_data (encoded_blocks d' ! f) \<noteq> None \<longleftrightarrow> f \<in> {}"
      using si fp(1) by (simp add: seed_inv_def)
    show "\<forall>i < n. \<forall>f < 32 * num_u32_masks_per_output d'.
        fec_bit d' i f \<longleftrightarrow> f < length pss \<and> i \<in> set (undecoded d' (pss ! f))"
      using si fp(1) up by (auto simp: seed_inv_def fec_bit_mask_bit fields pss_def)
  qed (simp_all add: fields count_list_0_iff)
  with d' fields show "\<exists>d'. begin_decode s data sz m ke ko d = Some d' \<and> dec_stable n bs orig pss {} d'
      \<and> ready_encoded_links d' = [] \<and> output_data d' = data \<and> (\<forall>i < n. \<not> decoded_block_mask d' ! i)"
    by (auto simp: dec_stable_def)
qed

section \<open>Running the decoder\<close>

text \<open>
  What arrives: a data block, which the caller copies to its place in the output buffer before it tells
  the decoder, or a FEC block.
\<close>

datatype arrival = Raw nat | Fec nat

fun arrive :: "nat \<Rightarrow> (nat \<Rightarrow> byte list) \<Rightarrow> (nat \<Rightarrow> byte list) \<Rightarrow> arrival \<Rightarrow> bool \<times> decoder \<Rightarrow> (bool \<times> decoder) outcome" where
  "arrive bs orig fec (Raw i) (_, d) = do {
     mem \<leftarrow> write_bytes (output_data d) (bs * i) (orig i);
     push_raw_block i (d\<lparr>output_data := mem\<rparr>) }"
| "arrive bs orig fec (Fec f) (_, d) = push_fec_block f (fec f) d"

definition raws :: "arrival list \<Rightarrow> nat set" where
  "raws evs = {i. Raw i \<in> set evs}"

definition fecs :: "arrival list \<Rightarrow> nat set" where
  "fecs evs = {f. Fec f \<in> set evs}"

text \<open>The data blocks that a set of data blocks and a set of FEC blocks determine by peeling.\<close>

inductive_set recoverable :: "nat list list \<Rightarrow> nat set \<Rightarrow> nat set \<Rightarrow> nat set"
  for pss raw got where
  direct: "i \<in> raw \<Longrightarrow> i \<in> recoverable pss raw got"
| peeled: "f \<in> got \<Longrightarrow> f < length pss \<Longrightarrow> i \<in> set (pss ! f) \<Longrightarrow>
    \<forall>j \<in> set (pss ! f) - {i}. j \<in> recoverable pss raw got \<Longrightarrow> i \<in> recoverable pss raw got"

lemma recoverable_closed: "peel_closed pss got (recoverable pss raw got)"
  unfolding peel_closed_def
proof (intro ballI impI)
  fix f i assume "f \<in> got" "f < length pss" "i \<in> set (pss ! f)" "set (pss ! f) - {i} \<subseteq> recoverable pss raw got"
  then show "i \<in> recoverable pss raw got" by (intro recoverable.peeled[of f]) auto
qed

lemma recoverable_least:
  assumes "raw \<subseteq> K" "peel_closed pss got K"
  shows "recoverable pss raw got \<subseteq> K"
proof
  fix i assume "i \<in> recoverable pss raw got"
  then show "i \<in> K"
  proof induction
    case (direct i)
    with assms(1) show ?case by auto
  next
    case (peeled f i)
    then have "set (pss ! f) - {i} \<subseteq> K" by auto
    with peeled(1-3) assms(2) show ?case unfolding peel_closed_def by blast
  qed
qed

lemma recoverable_mono:
  assumes "raw \<subseteq> raw'" "got \<subseteq> got'"
  shows "recoverable pss raw got \<subseteq> recoverable pss raw' got'"
proof (rule recoverable_least)
  show "raw \<subseteq> recoverable pss raw' got'" using assms(1) by (auto intro: recoverable.direct)
  show "peel_closed pss got (recoverable pss raw' got')"
    using recoverable_closed[of pss got' raw'] assms(2) unfolding peel_closed_def by blast
qed

text \<open>
  The loop invariant of a run: the decoder is stable, drained, and has exactly the data blocks that
  peeling determines; the last call told the caller whether these are all.
\<close>

definition run_inv ::
  "nat \<Rightarrow> nat \<Rightarrow> (nat \<Rightarrow> byte list) \<Rightarrow> nat list list \<Rightarrow> arrival list \<Rightarrow> bool \<times> decoder \<Rightarrow> bool" where
  "run_inv n bs orig pss evs s \<longleftrightarrow>
     dec_stable n bs orig pss (fecs evs) (snd s) \<and> ready_encoded_links (snd s) = []
     \<and> known n (snd s) = recoverable pss (raws evs) (fecs evs)
     \<and> (evs \<noteq> [] \<longrightarrow> (fst s \<longleftrightarrow> known n (snd s) = {..<n}))"

fun arrival_ok :: "nat \<Rightarrow> nat \<Rightarrow> arrival \<Rightarrow> bool" where
  "arrival_ok n m (Raw i) = (i < n)"
| "arrival_ok n m (Fec f) = (f < m)"

lemma raws_fecs_snoc [simp]:
  "raws (evs @ [Raw i]) = insert i (raws evs)" "raws (evs @ [Fec f]) = raws evs"
  "fecs (evs @ [Raw i]) = fecs evs" "fecs (evs @ [Fec f]) = insert f (fecs evs)"
  by (auto simp: raws_def fecs_def)

lemma recoverable_extend:
  assumes "peel_closed pss got' K" "K \<supseteq> recoverable pss raw got \<union> raw'"
    and "\<forall>L. peel_closed pss got' L \<longrightarrow> recoverable pss raw got \<union> raw' \<subseteq> L \<longrightarrow> K \<subseteq> L"
    and "got \<subseteq> got'"
  shows "K = recoverable pss (raw \<union> raw') got'"
proof
  have "recoverable pss raw got \<subseteq> recoverable pss (raw \<union> raw') got'"
    using assms(4) by (intro recoverable_mono) auto
  moreover have "raw' \<subseteq> recoverable pss (raw \<union> raw') got'" by (auto intro: recoverable.direct)
  ultimately show "K \<subseteq> recoverable pss (raw \<union> raw') got'"
    using assms(3) recoverable_closed[of pss got' "raw \<union> raw'"] by blast
  have "raw \<subseteq> recoverable pss raw got" by (auto intro: recoverable.direct)
  then show "recoverable pss (raw \<union> raw') got' \<subseteq> K"
    using assms(1,2) by (intro recoverable_least) auto
qed

lemma arrive_raw_inv:
  assumes ok: "code_ok n bs orig pss" and I: "run_inv n bs orig pss evs s" and i: "i < n"
  shows "\<exists>s'. arrive bs orig fec (Raw i) s = Some s' \<and> run_inv n bs orig pss (evs @ [Raw i]) s'"
proof -
  obtain r d where s: "s = (r, d)" by (rule prod.exhaust)
  have st: "dec_stable n bs orig pss (fecs evs) d" and kn: "known n d = recoverable pss (raws evs) (fecs evs)"
    using I by (simp_all add: s run_inv_def)
  then have shape: "dec_shape n bs pss d" and good: "\<And>j. j < n \<Longrightarrow> decoded_block_mask d ! j \<Longrightarrow> out_block d j = orig j"
    by (simp_all add: dec_stable_def dec_inv_def)
  have lo: "length (orig i) = bs" using ok i by (simp add: code_ok_def)
  have sz: "length (output_data d) = bs * n" using shape by (simp add: dec_shape_def)
  have "bs * i + length (orig i) \<le> length (output_data d)"
    using mult_le_mono2[of "Suc i" n bs] i lo sz by simp
  then obtain mem where mem: "write_bytes (output_data d) (bs * i) (orig i) = Some mem"
    by (auto simp: write_bytes_def)
  note ob = out_block_write[OF shape i _ lo mem]
  have st': "dec_stable n bs orig pss (fecs evs) (d\<lparr>output_data := mem\<rparr>)"
    using st length_write_bytes[OF mem] sz by (intro dec_stable_output) (auto simp: ob good)
  have kn': "known n (d\<lparr>output_data := mem\<rparr>) = known n d" by (simp add: known_def)
  from push_raw_block_stable[OF ok st' i] ob[OF i] obtain d' where
    d': "push_raw_block i (d\<lparr>output_data := mem\<rparr>) = Some (known n d' = {..<n}, d')"
      "dec_stable n bs orig pss (fecs evs) d'" "ready_encoded_links d' = []"
      "insert i (known n d) \<subseteq> known n d'"
      "\<forall>K. peel_closed pss (fecs evs) K \<longrightarrow> insert i (known n d) \<subseteq> K \<longrightarrow> known n d' \<subseteq> K"
    by (auto simp: kn')
  have "known n d' = recoverable pss (raws evs \<union> {i}) (fecs evs)"
    using d'(4,5) drained_peel_closed[OF ok d'(2,3)] by (intro recoverable_extend) (auto simp: kn)
  with d' mem show ?thesis by (simp add: s run_inv_def)
qed

lemma arrive_fec_inv:
  assumes ok: "code_ok n bs orig pss" and I: "run_inv n bs orig pss evs s"
    and f: "f < length pss" "Fec f \<notin> set evs" "fec f = xor_blocks bs orig (pss ! f)"
  shows "\<exists>s'. arrive bs orig fec (Fec f) s = Some s' \<and> run_inv n bs orig pss (evs @ [Fec f]) s'"
proof -
  obtain r d where s: "s = (r, d)" by (rule prod.exhaust)
  have st: "dec_stable n bs orig pss (fecs evs) d" and kn: "known n d = recoverable pss (raws evs) (fecs evs)"
    using I by (simp_all add: s run_inv_def)
  have "f \<notin> fecs evs" using f(2) by (simp add: fecs_def)
  from push_fec_block_stable[OF ok st f(1) this] obtain d' where
    d': "push_fec_block f (xor_blocks bs orig (pss ! f)) d = Some (known n d' = {..<n}, d')"
      "dec_stable n bs orig pss (insert f (fecs evs)) d'" "ready_encoded_links d' = []"
      "known n d \<subseteq> known n d'"
      "\<forall>K. peel_closed pss (insert f (fecs evs)) K \<longrightarrow> known n d \<subseteq> K \<longrightarrow> known n d' \<subseteq> K"
    by blast
  have "known n d' = recoverable pss (raws evs \<union> {}) (insert f (fecs evs))"
    using d'(4,5) drained_peel_closed[OF ok d'(2,3)] by (intro recoverable_extend) (auto simp: kn)
  with d' f(3) show ?thesis by (simp add: s run_inv_def)
qed

definition fec_once :: "arrival list \<Rightarrow> bool" where
  "fec_once evs \<longleftrightarrow> distinct (filter (\<lambda>e. case e of Fec _ \<Rightarrow> True | Raw _ \<Rightarrow> False) evs)"

lemma run_arrivals:
  assumes ok: "code_ok n bs orig pss" and I: "run_inv n bs orig pss [] s"
    and evs: "\<forall>e \<in> set evs. arrival_ok n (length pss) e" "fec_once evs"
    and fec: "\<And>f. f < length pss \<Longrightarrow> fec f = xor_blocks bs orig (pss ! f)"
  shows "\<exists>s'. for_list (arrive bs orig fec) evs s = Some s' \<and> run_inv n bs orig pss evs s'"
proof (rule for_list_invariant[where I = "run_inv n bs orig pss"])
  fix "done" e rest t
  assume split: "evs = done @ e # rest" and I: "run_inv n bs orig pss done t"
  show "\<exists>t'. arrive bs orig fec e t = Some t' \<and> run_inv n bs orig pss (done @ [e]) t'"
  proof (cases e)
    case (Raw i)
    with evs(1) split have "i < n" by simp
    from arrive_raw_inv[OF ok I this] Raw show ?thesis by simp
  next
    case (Fec f)
    with evs split have "f < length pss" "Fec f \<notin> set done" by (auto simp: fec_once_def)
    with arrive_fec_inv[OF ok I this, of fec] Fec fec show ?thesis by simp
  qed
qed (rule I)

lemma run_inv_start:
  assumes "dec_stable n bs orig pss {} d" "ready_encoded_links d = []" "\<forall>i < n. \<not> decoded_block_mask d ! i"
  shows "run_inv n bs orig pss [] (False, d)"
proof -
  have "recoverable pss {} {} \<subseteq> {}" by (rule recoverable_least) (auto simp: peel_closed_def)
  with assms show ?thesis by (auto simp: run_inv_def raws_def fecs_def known_def)
qed

section \<open>The encoder's side\<close>

text \<open>
  The sender's use of the encoder for one payload: \<open>m\<close> blocks from one seeded and flushed shuffler, with
  the alternating block counts.
\<close>

definition encode_step :: "byte list \<Rightarrow> nat \<Rightarrow> nat \<Rightarrow> nat \<Rightarrow> encoder \<times> byte list list \<Rightarrow> (encoder \<times> byte list list) outcome" where
  "encode_step payload ke ko f s = do {
     (enc, x) \<leftarrow> generate (replicate (enc_block_size (fst s)) 0) payload (length payload)
                  (if odd f then ko else ke) (fst s);
     Some (enc, snd s @ [x]) }"

definition encode_all :: "nat \<Rightarrow> byte list \<Rightarrow> nat \<Rightarrow> nat \<Rightarrow> nat \<Rightarrow> encoder \<Rightarrow> (encoder \<times> byte list list) outcome" where
  "encode_all s payload ke ko m enc =
     for_list (encode_step payload ke ko) [0..<m] (enc_flush (enc_seed s enc), [])"

text \<open>The encoder's shuffler after \<open>f\<close> blocks of a payload that takes \<open>n\<close> data blocks.\<close>

definition encoder_at :: "nat \<Rightarrow> nat \<Rightarrow> nat \<Rightarrow> nat \<Rightarrow> nat \<Rightarrow> encoder \<Rightarrow> bool" where
  "encoder_at s n ke ko f enc \<longleftrightarrow> shuffler_inv (enc_shuffler enc)
     \<and> shuffler_pool (enc_shuffler enc) = snd (pool_groups n (xor_counts ke ko f) (minstd_seed s, []))"

lemma encoder_at_start:
  "shuffler_inv (enc_shuffler enc) \<Longrightarrow> encoder_at s n ke ko 0 (enc_flush (enc_seed s enc))"
  by (simp add: encoder_at_def enc_flush_def enc_seed_def xor_counts_def)

lemma generate_next:
  assumes enc: "encoder_at s n ke ko f enc" "enc_block_size enc = bs" "0 < bs"
    and n: "n = num_blocks bs (length payload)" "n \<le> 2 ^ 31"
    and k: "0 < ke" "ke \<le> n" "0 < ko" "ko \<le> n" and x: "length x = bs"
  shows "\<exists>enc'. generate x payload (length payload) (if odd f then ko else ke) enc
      = Some (enc', xor_blocks bs (data_block bs payload) (fec_indices s n ke ko (Suc f) ! f))
    \<and> encoder_at s n ke ko (Suc f) enc' \<and> enc_block_size enc' = bs"
proof -
  define kk where "kk = (if odd f then ko else ke)"
  have kk: "0 < kk" "kk \<le> n" using k by (simp_all add: kk_def)
  have wf: "pool_wf n (shuffler_pool (enc_shuffler enc))"
    using enc(1) fec_indices_props(5)[OF k(2,4), of f s] by (simp add: encoder_at_def)
  have lf: "length (fec_indices s n ke ko f) = f" using fec_indices_props(1)[OF k(2,4)] .
  define q where "q = pool_begin n kk (shuffler_pool (enc_shuffler enc))"
  have pool: "shuffler_pool (enc_shuffler enc) = snd (pool_groups n (xor_counts ke ko f) (minstd_seed s, []))"
    and sinv: "shuffler_inv (enc_shuffler enc)"
    using enc(1) by (simp_all add: encoder_at_def)
  from generate_spec[OF sinv wf _ n(2) kk, of payload x] n(1) enc(2,3) x obtain sh where
    sh: "generate x payload (length payload) kk enc
        = Some (enc\<lparr>enc_shuffler := sh\<rparr>, xor_blocks bs (data_block bs payload) (fst (pool_draws kk q)))"
      "shuffler_inv sh" "shuffler_pool sh = snd (pool_draws kk q)"
    by (auto simp: q_def)
  have "fec_indices s n ke ko (Suc f) ! f = fst (pool_draws kk q)"
    by (simp only: fec_indices_Suc kk_def[symmetric] pool[symmetric] q_def[symmetric]) (simp add: nth_append lf)
  moreover have "encoder_at s n ke ko (Suc f) (enc\<lparr>enc_shuffler := sh\<rparr>)"
    using sh(2,3) pool
    by (simp add: encoder_at_def q_def xor_counts_Suc pool_groups_snoc kk_def Let_def split: prod.split)
  ultimately show ?thesis using sh(1) enc(2) by (auto simp: kk_def)
qed

lemma fec_indices_prefix:
  "f < m \<Longrightarrow> ke \<le> n \<Longrightarrow> ko \<le> n \<Longrightarrow> fec_indices s n ke ko m ! f = fec_indices s n ke ko (Suc f) ! f"
proof (induction m)
  case 0
  then show ?case by simp
next
  case (Suc m)
  have lm: "length (fec_indices s n ke ko m) = m" using fec_indices_props(1)[OF Suc.prems(2,3)] .
  show ?case
  proof (cases "f = m")
    case False
    with Suc.prems(1) have "f < m" by simp
    with Suc lm show ?thesis by (subst fec_indices_Suc) (simp add: nth_append)
  qed simp
qed

lemma encode_all_spec:
  assumes inv: "shuffler_inv (enc_shuffler enc)" and bs: "enc_block_size enc = bs" "0 < bs"
    and n: "n = num_blocks bs (length payload)" "n \<le> 2 ^ 31"
    and k: "0 < ke" "ke \<le> n" "0 < ko" "ko \<le> n"
  shows "\<exists>enc'. encode_all s payload ke ko m enc = Some (enc',
      map (\<lambda>f. xor_blocks bs (data_block bs payload) (fec_indices s n ke ko m ! f)) [0..<m])"
proof -
  let ?blk = "\<lambda>f. xor_blocks bs (data_block bs payload) (fec_indices s n ke ko m ! f)"
  let ?I = "\<lambda>done st. encoder_at s n ke ko (length done) (fst st) \<and> enc_block_size (fst st) = bs
    \<and> snd st = map ?blk [0..<length done]"
  have "\<exists>st. encode_all s payload ke ko m enc = Some st \<and> ?I [0..<m] st"
    unfolding encode_all_def
  proof (rule for_list_invariant[where I = ?I])
    show "?I [] (enc_flush (enc_seed s enc), [])"
      using encoder_at_start[OF inv] bs by (simp add: enc_flush_def enc_seed_def)
  next
    fix "done" f rest st
    assume split: "[0..<m] = done @ f # rest" and I: "?I done st"
    have f: "f = length done" "f < m" using upt_split[OF split] by auto
    from generate_next[OF _ _ bs(2) n k, of s f "fst st" "replicate bs 0"] I f obtain enc' where
      "generate (replicate bs 0) payload (length payload) (if odd f then ko else ke) (fst st)
        = Some (enc', ?blk f)" "encoder_at s n ke ko (Suc f) enc'" "enc_block_size enc' = bs"
      unfolding fec_indices_prefix[OF f(2) k(2,4)] by auto
    with I f show "\<exists>st'. encode_step payload ke ko f st = Some st' \<and> ?I (done @ [f]) st'"
      by (cases "odd f") (auto simp: encode_step_def)
  qed
  then show ?thesis by auto
qed

section \<open>The output buffer\<close>

lemma length_concat_blocks:
  "(\<And>i. i < n \<Longrightarrow> length (blk i) = bs) \<Longrightarrow> length (concat (map blk [0..<n])) = bs * n"
  by (induction n) auto

lemma concat_blocks:
  assumes "length m = bs * n" "\<And>i. i < n \<Longrightarrow> take bs (drop (bs * i) m) = blk i"
  shows "m = concat (map blk [0..<n])"
  using assms
proof (induction n arbitrary: m)
  case 0
  then show ?case by simp
next
  case (Suc n)
  have "take bs (drop (bs * i) (take (bs * n) m)) = blk i" if "i < n" for i
  proof -
    have "bs * i + bs \<le> bs * n" using mult_le_mono2[of "Suc i" n bs] that by simp
    with Suc.prems(2)[of i] that show ?thesis by (simp add: drop_take take_take min_absorb1)
  qed
  then have "take (bs * n) m = concat (map blk [0..<n])" using Suc.prems(1) by (intro Suc.IH) auto
  moreover have "drop (bs * n) m = blk n" using Suc.prems(1) Suc.prems(2)[of n] by simp
  moreover have "m = take (bs * n) m @ drop (bs * n) m" by simp
  ultimately have "m = concat (map blk [0..<n]) @ blk n" by metis
  then show ?case by simp
qed

lemma data_blocks_concat:
  assumes "0 < bs" "n = num_blocks bs (length payload)"
  shows "concat (map (data_block bs payload) [0..<n]) = payload @ replicate (bs * n - length payload) 0"
proof (rule sym, rule concat_blocks)
  have "length payload \<le> bs * n"
  proof -
    have "length payload + bs - 1 < bs + n * bs" using assms dividend_less_div_times[of bs "length payload + bs - 1"]
      by (simp add: num_blocks_def add.commute)
    then show ?thesis using assms(1) by (simp add: mult.commute)
  qed
  then show "length (payload @ replicate (bs * n - length payload) 0) = bs * n" by simp
next
  fix i assume i: "i < n"
  have "bs * i \<le> length payload" using num_blocks_bounds(1)[OF assms(1)] i assms(2) by (simp add: less_imp_le)
  moreover have "bs + bs * i - length payload \<le> bs * n - length payload"
    using mult_le_mono2[of "Suc i" n bs] i by (intro diff_le_mono) simp
  ultimately show "take bs (drop (bs * i) (payload @ replicate (bs * n - length payload) 0)) = data_block bs payload i"
    by (simp add: data_block_def Let_def min_def)
qed

text \<open>When every data block is known the output buffer holds the payload, extended with zeros.\<close>

lemma known_all_output:
  assumes "dec_stable n bs orig pss got d" "known n d = {..<n}"
  shows "output_data d = concat (map orig [0..<n])"
proof (rule concat_blocks)
  show "length (output_data d) = bs * n" using assms(1) by (simp add: dec_stable_def dec_inv_def dec_shape_def)
next
  fix i assume i: "i < n"
  then have "i \<in> known n d" using assms(2) by simp
  then show "take bs (drop (bs * i) (output_data d)) = orig i"
    using assms(1) i by (auto simp: dec_stable_def dec_inv_def dec_shape_def out_block_def known_def)
qed

section \<open>What the codec promises\<close>

lemma decode_run:
  fixes s :: nat
  assumes bs: "0 < bs" and n: "n = num_blocks bs (length payload)" "n \<le> 2 ^ 31"
    and dec: "decoder_reusable d" "dec_block_size d = bs" and buf: "length buf = bs * n"
    and k: "0 < ke" "ke \<le> n" "0 < ko" "ko \<le> n"
    and fits: "m * n + (m + 31) div 32 * n < 2 ^ 32" "m + 31 < 2 ^ 32"
    and evs: "\<forall>e \<in> set evs. arrival_ok n m e" "fec_once evs"
  defines "pss \<equiv> fec_indices s n ke ko m"
  assumes fec: "\<And>f. f < m \<Longrightarrow> fec f = xor_blocks bs (data_block bs payload) (pss ! f)"
  shows "\<exists>d1 d2 r. begin_decode s buf (bs * n) m ke ko d = Some d1
    \<and> for_list (arrive bs (data_block bs payload) fec) evs (False, d1) = Some (r, d2)
    \<and> known n d2 = recoverable pss (raws evs) (fecs evs)
    \<and> (evs \<noteq> [] \<longrightarrow> r = (known n d2 = {..<n}))
    \<and> (known n d2 = {..<n} \<longrightarrow> output_data d2 = payload @ replicate (bs * n - length payload) 0)"
proof -
  note beg = begin_decode_stable[where orig = "data_block bs payload" and s = s,
      OF dec(2) bs dec(1) buf refl k(2,4) fits n(2) length_data_block, folded pss_def]
  from beg(2) obtain d1 where
    d1: "begin_decode s buf (bs * n) m ke ko d = Some d1" "dec_stable n bs (data_block bs payload) pss {} d1"
      "ready_encoded_links d1 = []" "\<forall>i < n. \<not> decoded_block_mask d1 ! i"
    by blast
  have lp: "length pss = m" unfolding pss_def by (rule fec_indices_props(1)[OF k(2,4)])
  from run_arrivals[OF beg(1) run_inv_start[OF d1(2-4)], of evs fec] evs fec obtain s' where
    "for_list (arrive bs (data_block bs payload) fec) evs (False, d1) = Some s'"
    "run_inv n bs (data_block bs payload) pss evs s'"
    by (auto simp: lp)
  with d1(1) known_all_output[of n bs "data_block bs payload" pss "fecs evs" "snd s'"]
    data_blocks_concat[OF bs n(1)]
  show ?thesis by (cases s') (auto simp: run_inv_def)
qed

text \<open>
  C3.  The FEC codec is exact.  The sender encodes a payload, the receiver is started with the same seed
  and block counts, and data and FEC blocks then arrive in any order, with any losses and with any
  duplication of data blocks, each FEC block at most once.  Nothing faults; the receiver ends up with
  exactly the data blocks that peeling determines from what arrived, whatever the order; its last answer
  is whether these are all; and when they are, its buffer is the payload followed by zeros.
\<close>

theorem fec_decode_exact:
  assumes "0 < bs" "n = num_blocks bs (length payload)" "n \<le> 2 ^ 31"
    and "shuffler_inv (enc_shuffler enc)" "decoder_reusable d" "length buf = bs * n"
    and "0 < ke" "ke \<le> n" "0 < ko" "ko \<le> n"
    and "m * n + (m + 31) div 32 * n < 2 ^ 32" "m + 31 < 2 ^ 32"
    and "\<forall>e \<in> set evs. arrival_ok n m e" "fec_once evs"
  shows "\<exists>enc' fec d1 d2 r.
    encode_all s payload ke ko m (enc_set_block_size bs enc) = Some (enc', fec)
    \<and> begin_decode s buf (bs * n) m ke ko (dec_set_block_size bs d) = Some d1
    \<and> for_list (arrive bs (data_block bs payload) (\<lambda>f. fec ! f)) evs (False, d1) = Some (r, d2)
    \<and> known n d2 = recoverable (fec_indices s n ke ko m) (raws evs) (fecs evs)
    \<and> (evs \<noteq> [] \<longrightarrow> r = (known n d2 = {..<n}))
    \<and> (known n d2 = {..<n} \<longrightarrow> output_data d2 = payload @ replicate (bs * n - length payload) 0)"
proof -
  let ?fec = "map (\<lambda>f. xor_blocks bs (data_block bs payload) (fec_indices s n ke ko m ! f)) [0..<m]"
  from encode_all_spec[of "enc_set_block_size bs enc" bs n payload ke ko s m] assms obtain enc' where
    "encode_all s payload ke ko m (enc_set_block_size bs enc) = Some (enc', ?fec)"
    by (auto simp: enc_set_block_size_def)
  moreover from assms(5) have "decoder_reusable (dec_set_block_size bs d)" "dec_block_size (dec_set_block_size bs d) = bs"
    by (simp_all add: decoder_reusable_def dec_set_block_size_def)
  from decode_run[OF assms(1-3) this assms(6-14), of "\<lambda>f. ?fec ! f" s]
  have "\<exists>d1 d2 r. begin_decode s buf (bs * n) m ke ko (dec_set_block_size bs d) = Some d1
    \<and> for_list (arrive bs (data_block bs payload) (\<lambda>f. ?fec ! f)) evs (False, d1) = Some (r, d2)
    \<and> known n d2 = recoverable (fec_indices s n ke ko m) (raws evs) (fecs evs)
    \<and> (evs \<noteq> [] \<longrightarrow> r = (known n d2 = {..<n}))
    \<and> (known n d2 = {..<n} \<longrightarrow> output_data d2 = payload @ replicate (bs * n - length payload) 0)"
    by simp
  ultimately show ?thesis by blast
qed

theorem fec_decode_exact_witness:
  "\<exists>enc' fec d1 d2 r.
    encode_all 7 [1, 2, 3, 4, 5] 3 3 1 (enc_set_block_size 2 encoder_new) = Some (enc', fec)
    \<and> begin_decode 7 [0, 0, 0, 0, 0, 0] (2 * 3) 1 3 3 (dec_set_block_size 2 decoder_new) = Some d1
    \<and> for_list (arrive 2 (data_block 2 [1, 2, 3, 4, 5]) (\<lambda>f. fec ! f)) [Fec 0, Raw 2, Raw 0, Raw 2] (False, d1)
       = Some (r, d2)
    \<and> known 3 d2 = recoverable (fec_indices 7 3 3 3 1) (raws [Fec 0, Raw 2, Raw 0, Raw 2]) (fecs [Fec 0, Raw 2, Raw 0, Raw 2])
    \<and> ([Fec 0, Raw 2, Raw 0, Raw 2] \<noteq> [] \<longrightarrow> r = (known 3 d2 = {..<3}))
    \<and> (known 3 d2 = {..<3} \<longrightarrow> output_data d2 = [1, 2, 3, 4, 5] @ replicate (2 * 3 - length [1, 2, 3, 4, 5 :: byte]) 0)"
  by (rule fec_decode_exact)
    (simp_all add: num_blocks_def encoder_new_def decoder_new_def decoder_reusable_def pow2_capacity_def fec_once_def)

lemma full_group_set:
  assumes "0 < m" "ko \<le> n"
  shows "set (fec_indices s n n ko m ! 0) = {..<n}"
proof -
  note p = fec_indices_props(2,3,4)[OF order_refl assms(2), of 0 m s, OF assms(1)]
  have "card (set (fec_indices s n n ko m ! 0)) = card {..<n}" using p by (simp add: distinct_card)
  with p(3) show ?thesis by (intro card_subset_eq) auto
qed

text \<open>Any data block that some arrived FEC block contains is recovered when it is the only one missing.\<close>

lemma recover_single:
  assumes "f \<in> got" "f < length pss" "i \<in> set (pss ! f)" "set (pss ! f) \<subseteq> {..<n}" "{..<n} - {i} \<subseteq> raw" "i < n"
  shows "{..<n} \<subseteq> recoverable pss raw got"
proof -
  have others: "j \<in> recoverable pss raw got" if "j < n" "j \<noteq> i" for j
    using that assms(5) by (auto intro: recoverable.direct)
  have "i \<in> recoverable pss raw got"
    by (rule recoverable.peeled[OF assms(1-3)]) (use assms(4) others in auto)
  with others show ?thesis by auto
qed

text \<open>Two consecutive FEC blocks whose sizes add up to \<open>n\<close> contain every data block between them.\<close>

lemma two_groups_cover:
  assumes "ke + ko = n" "0 < ke" "0 < ko" "2 \<le> m"
  shows "set (fec_indices s n ke ko m ! 0) \<union> set (fec_indices s n ke ko m ! 1) = {..<n}"
    and "set (fec_indices s n ke ko m ! 0) \<inter> set (fec_indices s n ke ko m ! 1) = {}"
proof -
  have k: "ke \<le> n" "ko \<le> n" using assms(1) by auto
  have x2: "xor_counts ke ko (Suc (Suc 0)) = [ke, ko]" by (simp add: xor_counts_def)
  have e: "fec_indices s n ke ko m ! 0 = fst (pool_groups n [ke, ko] (minstd_seed s, [])) ! 0"
    "fec_indices s n ke ko m ! 1 = fst (pool_groups n [ke, ko] (minstd_seed s, [])) ! 1"
    using fec_indices_prefix[of 1 m ke n ko s] fec_indices_prefix[of 0 m ke n ko s]
      fec_indices_prefix[of 0 "Suc (Suc 0)" ke n ko s] assms(4) k
    by (simp_all add: fec_indices_def x2)
  show dis: "set (fec_indices s n ke ko m ! 0) \<inter> set (fec_indices s n ke ko m ! 1) = {}"
    unfolding e using assms(1-3) by (intro two_groups_disjoint) auto
  note p0 = fec_indices_props(2,3,4)[OF k, of 0 m s] and p1 = fec_indices_props(2,3,4)[OF k, of 1 m s]
  have "card (set (fec_indices s n ke ko m ! 0) \<union> set (fec_indices s n ke ko m ! 1)) = card {..<n}"
    using p0 p1 assms dis by (subst card_Un_disjoint) (auto simp: distinct_card)
  with p0(3) p1(3) assms(4) show "set (fec_indices s n ke ko m ! 0) \<union> set (fec_indices s n ke ko m ! 1) = {..<n}"
    by (intro card_subset_eq) auto
qed

section \<open>A FEC block that arrives twice\<close>

lemma xor_bytes_assoc: "xor_bytes (xor_bytes a b) c = xor_bytes a (xor_bytes b c)"
  by (rule nth_equalityI) (auto simp: xor.assoc)

lemma xor_bytes_same_iff:
  assumes "length z = length a"
  shows "xor_bytes a z = a \<longleftrightarrow> z = zero_block (length a)"
proof
  assume "xor_bytes a z = a"
  then have "xor_bytes a (xor_bytes a z) = xor_bytes a (xor_bytes a (zero_block (length a)))" by simp
  then show "z = zero_block (length a)" using assms by (simp only: xor_bytes_cancel length_zero_block)
qed simp

text \<open>Adding a block to one of the data blocks adds it to every combination that has this data block.\<close>

lemma xor_blocks_cong: "(\<And>j. j \<in> set js \<Longrightarrow> blk j = blk' j) \<Longrightarrow> xor_blocks bs blk js = xor_blocks bs blk' js"
  by (induction js) auto

lemma xor_blocks_update:
  assumes "distinct js" "i \<in> set js"
  shows "xor_blocks bs (blk(i := xor_bytes (blk i) z)) js = xor_bytes z (xor_blocks bs blk js)"
  using assms
proof (induction js)
  case (Cons j js)
  show ?case
  proof (cases "j = i")
    case True
    then have "xor_blocks bs (blk(i := xor_bytes (blk i) z)) js = xor_blocks bs blk js"
      using Cons.prems(1) by (intro xor_blocks_cong) auto
    then have "xor_blocks bs (blk(i := xor_bytes (blk i) z)) (j # js) = xor_bytes (xor_bytes (blk i) z) (xor_blocks bs blk js)"
      by (simp only: xor_blocks.simps True fun_upd_same)
    also have "\<dots> = xor_bytes z (xor_bytes (blk i) (xor_blocks bs blk js))" by (metis xor_bytes_assoc xor_bytes_commute)
    finally show ?thesis by (simp only: True xor_blocks.simps)
  next
    case False
    then have IH: "xor_blocks bs (blk(i := xor_bytes (blk i) z)) js = xor_bytes z (xor_blocks bs blk js)"
      using Cons.prems by (intro Cons.IH) auto
    have "xor_blocks bs (blk(i := xor_bytes (blk i) z)) (j # js) = xor_bytes (blk j) (xor_bytes z (xor_blocks bs blk js))"
      by (simp only: xor_blocks.simps IH fun_upd_other[OF False])
    also have "\<dots> = xor_bytes z (xor_bytes (blk j) (xor_blocks bs blk js))" by (metis xor_bytes_assoc xor_bytes_commute)
    finally show ?thesis by (simp only: xor_blocks.simps)
  qed
qed simp

lemma xor_blocks_partition:
  assumes "\<And>j. j \<in> set js \<Longrightarrow> length (blk j) = bs"
  shows "xor_blocks bs blk js = xor_bytes (xor_blocks bs blk (filter P js)) (xor_blocks bs blk (filter (\<lambda>j. \<not> P j) js))"
  using assms
proof (induction js)
  case (Cons j js)
  let ?a = "xor_blocks bs blk (filter P js)" and ?b = "xor_blocks bs blk (filter (\<lambda>j. \<not> P j) js)"
  have "xor_blocks bs blk js = xor_bytes ?a ?b" using Cons by simp
  then show ?case
    by (simp add: xor_bytes_assoc[symmetric] xor_bytes_commute[of ?a "blk j"])
qed simp

text \<open>
  The second copy of the FEC block \<open>f\<close> replaces the first one, with what had been taken out of it: the decoder is then in the state of a
  receiver whose missing data block \<open>i\<close> had the data blocks received so far added to it.
\<close>

definition spoilt :: "nat \<Rightarrow> (nat \<Rightarrow> byte list) \<Rightarrow> nat list \<Rightarrow> nat \<Rightarrow> nat \<Rightarrow> byte list" where
  "spoilt bs orig js i = orig(i := xor_bytes (orig i) (xor_blocks bs orig js))"

lemma push_fec_again:
  assumes ok: "code_ok n bs orig pss" and st: "dec_stable n bs orig pss {f} d" and ready: "ready_encoded_links d = []"
    and f: "f < length pss" and i: "i \<in> set (pss ! f)" "i \<notin> known n d"
    and j: "j \<in> set (pss ! f)" "j \<notin> known n d" "j \<noteq> i"
  shows "\<exists>d'. push_fec_block f (xor_blocks bs orig (pss ! f)) d = Some (False, d') \<and> ready_encoded_links d' = []
    \<and> known n d' = known n d \<and> dec_stable n bs (spoilt bs orig (filter (\<lambda>k. k \<in> known n d) (pss ! f)) i) pss {f} d'"
proof -
  let ?e = "encoded_blocks d ! f" and ?us = "undecoded d (pss ! f)" and ?rs = "filter (\<lambda>k. k \<in> known n d) (pss ! f)"
  let ?x = "xor_blocks bs orig (pss ! f)"
  define orig' where "orig' = spoilt bs orig ?rs i"
  define e' where "e' = ?e\<lparr>link_data := Some ?x, num_resolved_indices := 0\<rparr>"
  define d' where "d' = d\<lparr>encoded_blocks := (encoded_blocks d)[f := e']\<rparr>"
  have inv: "dec_inv n bs orig pss {f} {} (\<lambda>f. undecoded d (pss ! f)) d" using st by (simp add: dec_stable_def)
  then have shape: "dec_shape n bs pss d" and link: "link_ok n bs orig (pss ! f) ?us ?e"
    and got: "\<And>g. g < length pss \<Longrightarrow> (\<exists>y. link_data (encoded_blocks d ! g) = Some y) = (g = f)"
    using f by (auto simp: dec_inv_def)
  have fe: "f < length (encoded_blocks d)" using shape f by (simp add: dec_shape_def)
  note ps = code_ok_index[OF ok f]
  have us: "?us = filter (\<lambda>k. k \<notin> known n d) (pss ! f)"
    unfolding undecoded_def by (rule filter_cong) (use ps(2) in \<open>auto simp: known_def\<close>)
  have du: "distinct ?us" "i \<in> set ?us" "j \<in> set ?us" using ps(1) i j by (auto simp: us)
  then have u2: "2 \<le> length ?us" using card_mono[of "set ?us" "{i, j}"] j(3) distinct_card[of ?us] by auto
  have lens: "\<And>k. k \<in> set (pss ! f) \<Longrightarrow> length (orig k) = bs" using ps(3) by blast
  have x: "?x = xor_blocks bs orig' ?us"
    unfolding orig'_def spoilt_def xor_blocks_update[OF du(1,2)]
    using xor_blocks_partition[of "pss ! f" orig bs "\<lambda>k. k \<in> known n d"] lens by (simp add: us)
  have nr: "num_resolved_indices ?e = 0" using link got[OF f] by (auto simp: link_ok_def)
  have nu: "num_unresolved_indices ?e = length ?us" using link by (simp add: link_ok_def)
  have nf: "\<not> decoded_blocks d = output_blocks d" using stable_return(1)[OF ok st] i(2) ps(2)[OF i(1)] by auto
  have dr: "drain_ready_blocks d' = Some d'" by (subst drain_ready_blocks.simps) (simp add: d'_def ready)
  have "push_fec_block f ?x d = Some (False, d')"
    using fe nr nu u2 dr nf by (simp add: push_fec_block_def Let_def) (simp add: d'_def e'_def ready)
  moreover have "dec_inv n bs orig' pss {f} {} (\<lambda>f. undecoded d (pss ! f)) d'"
    unfolding dec_inv_def
  proof (intro conjI)
    show "dec_shape n bs pss d'" using shape by (simp add: dec_shape_def d'_def)
    show "\<forall>g < length pss. link_ok n bs orig' (pss ! g) (undecoded d (pss ! g)) (encoded_blocks d' ! g)"
    proof (intro allI impI)
      fix g assume g: "g < length pss"
      have lg: "link_ok n bs orig (pss ! g) (undecoded d (pss ! g)) (encoded_blocks d ! g)" using inv g by (simp add: dec_inv_def)
      show "link_ok n bs orig' (pss ! g) (undecoded d (pss ! g)) (encoded_blocks d' ! g)"
      proof (cases "g = f")
        case True
        with lg fe x show ?thesis by (simp add: link_ok_def d'_def e'_def)
      next
        case False
        with got[OF g] have "link_data (encoded_blocks d ! g) = None" by auto
        with lg False show ?thesis by (simp add: link_ok_def d'_def)
      qed
    qed
    show "\<forall>g < length pss. link_data (encoded_blocks d' ! g) \<noteq> None \<longleftrightarrow> g \<in> {f}"
      using got fe by (auto simp: d'_def e'_def nth_list_update)
    show "\<forall>k < n. \<forall>g < 32 * num_u32_masks_per_output d'. fec_bit d' k g \<longleftrightarrow> g < length pss \<and> k \<in> set (undecoded d (pss ! g))"
      using inv by (simp add: dec_inv_def d'_def fec_bit_def)
    show "\<forall>k < n. decoded_block_mask d' ! k \<longrightarrow> out_block d' k = orig' k"
      using inv i(2) by (auto simp: dec_inv_def d'_def out_block_def orig'_def spoilt_def known_def)
    show "decoded_blocks d' = count_list (decoded_block_mask d') True" using inv by (simp add: dec_inv_def d'_def)
  qed (use u2 ready in \<open>auto simp: d'_def\<close>)
  then have "dec_stable n bs orig' pss {f} d'" by (simp add: dec_stable_def undecoded_def d'_def)
  moreover have "known n d' = known n d" "ready_encoded_links d' = []" by (simp_all add: known_def d'_def ready)
  ultimately show ?thesis unfolding orig'_def by blast
qed

lemma raw_arrivals_spoilt:
  assumes ok: "code_ok n bs orig' pss" and I: "run_inv n bs orig' pss evs s"
    and after: "\<forall>e \<in> set after. \<exists>k < n. e = Raw k \<and> orig' k = orig k"
  shows "\<exists>s'. for_list (arrive bs orig fec) after s = Some s' \<and> run_inv n bs orig' pss (evs @ after) s'"
proof (rule for_list_invariant[where I = "\<lambda>done. run_inv n bs orig' pss (evs @ done)"])
  fix "done" e rest t
  assume split: "after = done @ e # rest" and I: "run_inv n bs orig' pss (evs @ done) t"
  obtain k where k: "k < n" "e = Raw k" "orig' k = orig k" using after split by auto
  then have "arrive bs orig fec e t = arrive bs orig' fec e t" by (cases t) simp
  with arrive_raw_inv[OF ok I k(1), of fec] k(2) show "\<exists>t'. arrive bs orig fec e t = Some t' \<and> run_inv n bs orig' pss (evs @ done @ [e]) t'"
    by simp
qed (use I in simp)

lemma duplicate_run:
  assumes ok: "code_ok n bs orig pss" and start: "run_inv n bs orig pss [] s"
    and fec: "\<And>f. f < length pss \<Longrightarrow> fec f = xor_blocks bs orig (pss ! f)"
    and before: "\<forall>e \<in> set before. arrival_ok n (length pss) e" "fec_once before" "fecs before = {f}" "f < length pss"
    and i: "i \<in> set (pss ! f)" "raws before \<union> raws after = {..<n} - {i}"
    and j: "j \<in> set (pss ! f)" "j \<noteq> i" "j \<notin> raws before" and after: "\<forall>e \<in> set after. \<exists>k < n. e = Raw k"
  shows "\<exists>d'. for_list (arrive bs orig fec) (before @ Fec f # after) s = Some (True, d')
    \<and> output_data d' = concat (map (spoilt bs orig (filter (\<lambda>k. k \<in> raws before) (pss ! f)) i) [0..<n])"
proof -
  from run_arrivals[OF ok start before(1,2) fec] obtain r d where
    b: "for_list (arrive bs orig fec) before s = Some (r, d)" "run_inv n bs orig pss before (r, d)" by auto
  note ps = code_ok_index[OF ok before(4)]
  have "peel_closed pss {f} (raws before)" using i j unfolding peel_closed_def by blast
  then have "recoverable pss (raws before) {f} = raws before"
    using recoverable_least[of "raws before" "raws before" pss "{f}"] by (auto intro: recoverable.direct)
  then have kn: "known n d = raws before" and st: "dec_stable n bs orig pss {f} d" "ready_encoded_links d = []"
    using b(2) by (simp_all add: run_inv_def before(3))
  define orig' where "orig' = spoilt bs orig (filter (\<lambda>k. k \<in> raws before) (pss ! f)) i"
  have inb: "i \<notin> raws before" "i \<notin> raws after" using i(2) by blast+
  from push_fec_again[OF ok st before(4) i(1) _ j(1) _ j(2)] inb j(3) fec[OF before(4)] obtain d1 where
    d1: "push_fec_block f (fec f) d = Some (False, d1)" "dec_stable n bs orig' pss {f} d1" "ready_encoded_links d1 = []" "known n d1 = known n d"
    by (auto simp: kn orig'_def)
  have il: "i < n" by (rule ps(2)[OF i(1)])
  have "length (xor_blocks bs orig (filter (\<lambda>k. k \<in> raws before) (pss ! f))) = bs" by (intro length_xor_blocks) (use ps(3) in auto)
  then have "length (orig' k) = bs" if "k < n" for k using that ok by (simp add: orig'_def spoilt_def code_ok_def)
  then have ok': "code_ok n bs orig' pss" using ok by (auto simp: code_ok_def)
  have "run_inv n bs orig' pss (before @ [Fec f]) (False, d1)"
    using d1(2-4) \<open>recoverable pss (raws before) {f} = raws before\<close> kn inb(1) il by (auto simp: run_inv_def before(3))
  moreover have "\<forall>e \<in> set after. \<exists>k < n. e = Raw k \<and> orig' k = orig k"
  proof
    fix e assume "e \<in> set after"
    with after obtain k where k: "k < n" "e = Raw k" by blast
    with \<open>e \<in> set after\<close> inb(2) have "k \<noteq> i" by (auto simp: raws_def)
    with k show "\<exists>k < n. e = Raw k \<and> orig' k = orig k" by (auto simp: orig'_def spoilt_def)
  qed
  ultimately obtain t where
    t: "for_list (arrive bs orig fec) after (False, d1) = Some t" "run_inv n bs orig' pss (before @ Fec f # after) t"
    using raw_arrivals_spoilt[OF ok', of "before @ [Fec f]" "(False, d1)" after orig fec] by auto
  have rw: "raws (before @ Fec f # after) = {..<n} - {i}" "f \<in> fecs (before @ Fec f # after)"
    using i(2) by (auto simp: raws_def fecs_def)
  have "{..<n} \<subseteq> recoverable pss ({..<n} - {i}) (fecs (before @ Fec f # after))"
    using rw(2) before(4) i(1) ps(2) il by (intro recover_single[of f _ _ i]) auto
  then have all: "known n (snd t) = {..<n}" using t(2) by (auto simp: run_inv_def rw(1) known_def)
  then have "fst t" "output_data (snd t) = concat (map orig' [0..<n])"
    using t(2) known_all_output[of n bs orig' pss _ "snd t"] by (auto simp: run_inv_def)
  with b(1) d1(1) t(1) show ?thesis by (cases t) (auto simp: for_list_append orig'_def)
qed

text \<open>
  C4.  A FEC block that arrives twice corrupts the output.  \<open>push_fec_block\<close> points the link at the new copy of the block, and the data
  blocks that had been taken out of the old copy are not on record any more.  For every payload, seed and FEC block \<open>f\<close>:
  when \<open>f\<close> arrives, is the only FEC block, and arrives again while two of its data blocks are missing, and of the data blocks all but \<open>i\<close> (one of
  \<open>f\<close>'s) arrive, some before and some after, then the decoder reports a complete packet in which block \<open>i\<close> is its true content plus (exclusive or) the
  blocks of \<open>f\<close> that came before the second copy; it is right only if these add up to zero.
\<close>

theorem duplicate_fec_corrupts:
  assumes "0 < bs" "n = num_blocks bs (length payload)" "n \<le> 2 ^ 31"
    and "shuffler_inv (enc_shuffler enc)" "decoder_reusable d" "length buf = bs * n"
    and "0 < ke" "ke \<le> n" "0 < ko" "ko \<le> n"
    and "m * n + (m + 31) div 32 * n < 2 ^ 32" "m + 31 < 2 ^ 32"
    and "\<forall>e \<in> set before. arrival_ok n m e" "fec_once before" "fecs before = {f}" "f < m" "\<forall>e \<in> set after. \<exists>k < n. e = Raw k"
    and "raws before \<union> raws after = {..<n} - {i}" "i \<in> set (fec_indices s n ke ko m ! f)"
    and "j \<in> set (fec_indices s n ke ko m ! f)" "j \<noteq> i" "j \<notin> raws before"
  shows "\<exists>enc' fec d1 d2.
    encode_all s payload ke ko m (enc_set_block_size bs enc) = Some (enc', fec)
    \<and> begin_decode s buf (bs * n) m ke ko (dec_set_block_size bs d) = Some d1
    \<and> for_list (arrive bs (data_block bs payload) (\<lambda>f. fec ! f)) (before @ Fec f # after) (False, d1) = Some (True, d2)
    \<and> (output_data d2 = payload @ replicate (bs * n - length payload) 0 \<longleftrightarrow>
        xor_blocks bs (data_block bs payload) (filter (\<lambda>k. k \<in> raws before) (fec_indices s n ke ko m ! f)) = zero_block bs)"
proof -
  let ?blk = "data_block bs payload" and ?pss = "fec_indices s n ke ko m"
  let ?fec = "map (\<lambda>f. xor_blocks bs ?blk (?pss ! f)) [0..<m]" and ?z = "xor_blocks bs ?blk (filter (\<lambda>k. k \<in> raws before) (?pss ! f))"
  from encode_all_spec[of "enc_set_block_size bs enc" bs n payload ke ko s m] assms(1-4,7-10) obtain enc' where
    e: "encode_all s payload ke ko m (enc_set_block_size bs enc) = Some (enc', ?fec)" by (auto simp: enc_set_block_size_def)
  have dec: "decoder_reusable (dec_set_block_size bs d)" "dec_block_size (dec_set_block_size bs d) = bs"
    using assms(5) by (simp_all add: decoder_reusable_def dec_set_block_size_def)
  note beg = begin_decode_stable[where orig = ?blk and s = s,
      OF dec(2) assms(1) dec(1) assms(6) refl assms(8,10-12) assms(3) length_data_block]
  from beg(2) obtain d1 where
    d1: "begin_decode s buf (bs * n) m ke ko (dec_set_block_size bs d) = Some d1" "dec_stable n bs ?blk ?pss {} d1"
      "ready_encoded_links d1 = []" "\<forall>i < n. \<not> decoded_block_mask d1 ! i"
    by blast
  have lp: "length ?pss = m" by (rule fec_indices_props(1)[OF assms(8,10)])
  from duplicate_run[OF beg(1) run_inv_start[OF d1(2-4)], of "\<lambda>f. ?fec ! f" before f i after j] assms(13-22) obtain d2 where
    d2: "for_list (arrive bs ?blk (\<lambda>f. ?fec ! f)) (before @ Fec f # after) (False, d1) = Some (True, d2)"
      "output_data d2 = concat (map (spoilt bs ?blk (filter (\<lambda>k. k \<in> raws before) (?pss ! f)) i) [0..<n])"
    by (auto simp: lp)
  have il: "i < n" using code_ok_index(2)[OF beg(1), of f i] assms(16,19) lp by simp
  have lz: "length ?z = bs" by (intro length_xor_blocks) simp
  have "concat (map (spoilt bs ?blk (filter (\<lambda>k. k \<in> raws before) (?pss ! f)) i) [0..<n]) = concat (map ?blk [0..<n])
      \<longleftrightarrow> map (spoilt bs ?blk (filter (\<lambda>k. k \<in> raws before) (?pss ! f)) i) [0..<n] = map ?blk [0..<n]"
    by (rule concat_eq_concat_iff) (auto simp: set_zip spoilt_def lz)
  also have "\<dots> \<longleftrightarrow> xor_bytes (?blk i) ?z = ?blk i" using il by (auto simp: spoilt_def)
  also have "\<dots> \<longleftrightarrow> ?z = zero_block bs" using xor_bytes_same_iff[of ?z "?blk i"] lz by simp
  finally show ?thesis using e d1(1) d2 unfolding data_blocks_concat[OF assms(1,2)] by auto
qed

text \<open>The payload 1 2 3 4 5 in blocks of two bytes, with one FEC block over all of them.\<close>

theorem duplicate_fec_corrupts_witness:
  "\<exists>enc' fec d1 d2.
    encode_all 7 [1, 2, 3, 4, 5] 3 3 1 (enc_set_block_size 2 encoder_new) = Some (enc', fec)
    \<and> begin_decode 7 [0, 0, 0, 0, 0, 0] (2 * 3) 1 3 3 (dec_set_block_size 2 decoder_new) = Some d1
    \<and> for_list (arrive 2 (data_block 2 [1, 2, 3, 4, 5]) (\<lambda>f. fec ! f)) ([Fec 0, Raw 0] @ Fec 0 # [Raw 2]) (False, d1) = Some (True, d2)
    \<and> output_data d2 \<noteq> [1, 2, 3, 4, 5, 0]"
proof -
  have g: "set (fec_indices 7 3 3 3 1 ! 0) = {..<3}" by (rule full_group_set) simp_all
  have w: "raws [Fec 0, Raw 0] = {0}" "raws [Raw 2] = {2}" "fecs [Fec 0, Raw 0] = {0}" by (auto simp: raws_def fecs_def)
  have "filter (\<lambda>k. k \<in> {0}) (fec_indices 7 3 3 3 1 ! 0) = [0]" by code_simp
  then have z: "xor_blocks 2 (data_block 2 [1, 2, 3, 4, 5]) (filter (\<lambda>k. k \<in> {0}) (fec_indices 7 3 3 3 1 ! 0)) \<noteq> zero_block 2"
    by (simp add: data_block_def xor_bytes_def zero_block_def Let_def numeral_2_eq_2)
  have "{0} \<union> {2} = {..<3} - {1 :: nat}" by auto
  from duplicate_fec_corrupts[where bs = 2 and n = 3 and payload = "[1, 2, 3, 4, 5]" and enc = encoder_new and d = decoder_new
      and buf = "[0, 0, 0, 0, 0, 0]" and ke = 3 and ko = 3 and m = 1 and before = "[Fec 0, Raw 0]" and f = 0 and after = "[Raw 2]"
      and i = 1 and s = 7 and j = 2, unfolded w g, OF _ _ _ _ _ _ _ _ _ _ _ _ _ _ _ _ _ this] z
  show ?thesis
    by (auto simp: num_blocks_def encoder_new_def decoder_new_def decoder_reusable_def pow2_capacity_def fec_once_def)
qed

end
