(* ===== verification/Packetiser.thy ===== *)
theory Packetiser
  imports Stream_Server LT_Codec
begin

text \<open>
  What the packetiser of the server puts on the wire for one video packet with FEC: the data datagrams in
  order, then the FEC datagrams, each a header and at most \<open>PYRO_MAX_PAYLOAD_SIZE\<close> bytes.
\<close>

section \<open>Headers\<close>

definition seq_ok :: "u32 \<Rightarrow> bool" where
  "seq_ok q \<longleftrightarrow> q AND 0x3fff = q"

lemma seq_ok_mask [simp]: "seq_ok (q AND 0x3fff)"
  by (simp add: seq_ok_def and.assoc)

lemma seq_ok_0 [simp]: "seq_ok 0"
  by (simp add: seq_ok_def)

lemma seq_ok_uint: "seq_ok q \<longleftrightarrow> uint q < 16384"
proof -
  have "seq_ok q \<longleftrightarrow> uint (q AND 0x3fff) = uint q" by (metis seq_ok_def word_uint_eqI)
  moreover have "uint q mod 16384 = uint q \<longleftrightarrow> uint q < 16384"
    using pos_mod_bound[of 16384 "uint q"] by auto
  ultimately show ?thesis by (simp add: uint_and_mask_14)
qed

lemma seq_ok_of_nat: "i < 16384 \<Longrightarrow> seq_ok (word_of_nat i)"
  by (simp add: seq_ok_uint uint_nat unat_of_nat)

lemma seq_ok_ucast_mask: "seq_ok (ucast ((c :: u64) AND 0x3fff))"
proof -
  define x where "x = c AND 0x3fff"
  have "x \<le> 0x3fff" unfolding x_def by (rule word_and_le1)
  then have x: "uint x < 16384" by (simp add: word_le_def)
  have "uint (ucast x :: u32) = take_bit 32 (uint x)" by (simp add: unsigned_ucast_eq)
  also have "\<dots> = uint x" using x by (simp add: take_bit_int_eq_self_iff)
  finally show ?thesis unfolding x_def[symmetric] seq_ok_uint using x by simp
qed

text \<open>Clearing and setting the variable part of the flags.\<close>

lemma payload_flags_set_sub:
  assumes "seq_ok seq" "seq_ok sub" "seq_ok sub'"
  shows "(payload_flags key audio fec beg seq sub
      AND NOT (push_bit PYRO_PAYLOAD_SUBPACKET_SEQ_OFFSET PYRO_PAYLOAD_SUBPACKET_SEQ_MASK))
      OR push_bit PYRO_PAYLOAD_SUBPACKET_SEQ_OFFSET sub' = payload_flags key audio fec beg seq sub'"
proof (rule bit_word_eqI)
  fix k :: nat assume k: "k < LENGTH(32)"
  define M where "M = push_bit PYRO_PAYLOAD_SUBPACKET_SEQ_OFFSET PYRO_PAYLOAD_SUBPACKET_SEQ_MASK"
  have m: "bit M k \<longleftrightarrow> 18 \<le> k"
    using k unfolding M_def PYRO_PAYLOAD_SUBPACKET_SEQ_OFFSET_def PYRO_PAYLOAD_SUBPACKET_SEQ_MASK_def
      mask_14 bit_push_bit_iff bit_mask_iff by auto
  show "bit ((payload_flags key audio fec beg seq sub
      AND NOT (push_bit PYRO_PAYLOAD_SUBPACKET_SEQ_OFFSET PYRO_PAYLOAD_SUBPACKET_SEQ_MASK))
      OR push_bit PYRO_PAYLOAD_SUBPACKET_SEQ_OFFSET sub') k \<longleftrightarrow> bit (payload_flags key audio fec beg seq sub') k"
    unfolding M_def[symmetric] using k m assms
    by (auto simp: seq_ok_def bit_or_iff bit_and_iff bit_not_iff bit_payload_flags bit_push_bit_iff
        PYRO_PAYLOAD_SUBPACKET_SEQ_OFFSET_def)
qed

lemma payload_flags_clear_begin:
  assumes "seq_ok seq" "seq_ok sub"
  shows "payload_flags key audio fec beg seq sub AND NOT PYRO_PAYLOAD_PACKET_BEGIN_BIT
    = payload_flags key audio fec False seq sub"
proof (rule bit_word_eqI)
  fix k :: nat assume k: "k < LENGTH(32)"
  then show "bit (payload_flags key audio fec beg seq sub AND NOT PYRO_PAYLOAD_PACKET_BEGIN_BIT) k
      \<longleftrightarrow> bit (payload_flags key audio fec False seq sub) k"
    using assms by (auto simp: seq_ok_def bit_and_iff bit_not_iff bit_payload_flags bit_flags)
qed

lemma payload_flags_set:
  assumes "seq_ok seq" "seq_ok sub"
  shows "payload_flags key audio fec False seq sub OR PYRO_PAYLOAD_PACKET_BEGIN_BIT
      = payload_flags key audio fec True seq sub"
    and "payload_flags key audio False beg seq sub OR PYRO_PAYLOAD_PACKET_FEC_BIT
      = payload_flags key audio True beg seq sub"
proof -
  show "payload_flags key audio fec False seq sub OR PYRO_PAYLOAD_PACKET_BEGIN_BIT
      = payload_flags key audio fec True seq sub"
  proof (rule bit_word_eqI)
    fix k :: nat assume "k < LENGTH(32)"
    then show "bit (payload_flags key audio fec False seq sub OR PYRO_PAYLOAD_PACKET_BEGIN_BIT) k
        \<longleftrightarrow> bit (payload_flags key audio fec True seq sub) k"
      using assms by (auto simp: seq_ok_def bit_or_iff bit_payload_flags bit_flags)
  qed
  show "payload_flags key audio False beg seq sub OR PYRO_PAYLOAD_PACKET_FEC_BIT
      = payload_flags key audio True beg seq sub"
  proof (rule bit_word_eqI)
    fix k :: nat assume "k < LENGTH(32)"
    then show "bit (payload_flags key audio False beg seq sub OR PYRO_PAYLOAD_PACKET_FEC_BIT) k
        \<longleftrightarrow> bit (payload_flags key audio True beg seq sub) k"
      using assms by (auto simp: seq_ok_def bit_or_iff bit_payload_flags bit_flags)
  qed
qed

lemma subpacket_header_eq:
  assumes "seq_ok seq" "seq_ok sub" "seq_ok sub'" "encoded h = payload_flags key audio fec beg seq sub"
  shows "subpacket_header h first sub' = h\<lparr>encoded := payload_flags key audio fec first seq sub'\<rparr>"
  using assms
  by (cases first)
     (simp_all add: subpacket_header_def Let_def payload_flags_clear_begin payload_flags_set payload_flags_set_sub)

section \<open>The data datagrams\<close>

definition sub_seq :: "nat \<Rightarrow> u32" where
  "sub_seq i = word_of_nat (i mod 16384)"

lemma seq_ok_sub_seq [simp]: "seq_ok (sub_seq i)"
  by (simp add: sub_seq_def seq_ok_of_nat)

lemma sub_seq_Suc: "(sub_seq i + 1) AND PYRO_PAYLOAD_SUBPACKET_SEQ_MASK = sub_seq (Suc i)"
proof -
  have s: "uint (sub_seq j) = int j mod 16384" for j
    by (simp add: sub_seq_def uint_nat unat_of_nat zmod_int)
  have "uint ((sub_seq i + 1) AND 0x3fff) = uint (sub_seq (Suc i))"
    unfolding uint_and_mask_14
    by (simp add: uint_word_ariths s mod_mod_cancel) (simp add: mod_simps add.commute)
  then show ?thesis unfolding PYRO_PAYLOAD_SUBPACKET_SEQ_MASK_def by (rule word_uint_eqI)
qed

definition data_datagram :: "pyro_payload_header \<Rightarrow> bool \<Rightarrow> bool \<Rightarrow> u32 \<Rightarrow> byte list \<Rightarrow> nat \<Rightarrow> byte list" where
  "data_datagram h key audio seq data i =
     put_header (h\<lparr>encoded := payload_flags key audio False (i = 0) seq (sub_seq i)\<rparr>)
     @ take PYRO_MAX_PAYLOAD_SIZE (drop (PYRO_MAX_PAYLOAD_SIZE * i) data)"

lemma num_blocks_less: "0 < bs \<Longrightarrow> j < num_blocks bs len \<longleftrightarrow> bs * j < len"
proof
  assume "0 < bs" "j < num_blocks bs len"
  then show "bs * j < len" using num_blocks_bounds(1) by blast
next
  assume bs: "0 < bs" and j: "bs * j < len"
  have "(bs * Suc j) div bs \<le> (len + bs - 1) div bs" using j bs by (intro div_le_mono) simp
  with bs show "j < num_blocks bs len" by (simp add: num_blocks_def)
qed

lemma emit_subpackets_eq:
  assumes "seq_ok seq" "seq_ok sub" "encoded h = payload_flags key audio False beg seq sub"
    and "length data < 2 ^ 32" "n = num_blocks PYRO_MAX_PAYLOAD_SIZE (length data)"
  shows "\<exists>h'. emit_subpackets h (sub_seq j) (PYRO_MAX_PAYLOAD_SIZE * j) data
      = (map (data_datagram h key audio seq data) [j..<n], h')
    \<and> (\<exists>beg' sub'. seq_ok sub' \<and> h' = h\<lparr>encoded := payload_flags key audio False beg' seq sub'\<rparr>)"
  using assms(2,3)
proof (induction "n - j" arbitrary: j h beg sub)
  case 0
  have "0 < PYRO_MAX_PAYLOAD_SIZE" by (simp add: PYRO_MAX_PAYLOAD_SIZE_def)
  note lt = num_blocks_less[OF this, of j "length data", folded assms(5)]
  from 0 lt have "emit_subpackets h (sub_seq j) (PYRO_MAX_PAYLOAD_SIZE * j) data = ([], h)"
    by (subst emit_subpackets.simps) simp
  moreover have "h = h\<lparr>encoded := payload_flags key audio False beg seq sub\<rparr>" using 0(3) by simp
  moreover have "[j..<n] = []" using 0(1) by simp
  ultimately show ?case using 0(2) by (metis list.map(1))
next
  case (Suc k)
  then have jn: "j < n" by simp
  have "0 < PYRO_MAX_PAYLOAD_SIZE" by (simp add: PYRO_MAX_PAYLOAD_SIZE_def)
  note lt = num_blocks_less[OF this, of j "length data", folded assms(5)]
  with jn have lj: "PYRO_MAX_PAYLOAD_SIZE * j < length data" by simp
  let ?h = "h\<lparr>encoded := payload_flags key audio False (j = 0) seq (sub_seq j)\<rparr>"
  have hd: "subpacket_header h (PYRO_MAX_PAYLOAD_SIZE * j = 0) (sub_seq j) = ?h"
    using subpacket_header_eq[OF assms(1) Suc.prems(1) seq_ok_sub_seq Suc.prems(2)]
    by (simp add: PYRO_MAX_PAYLOAD_SIZE_def)
  have k: "k = n - Suc j" using Suc.hyps(2) by simp
  have "encoded ?h = payload_flags key audio False (j = 0) seq (sub_seq j)" by simp
  from Suc.hyps(1)[OF k seq_ok_sub_seq this] obtain h' beg' sub' where
    rest: "emit_subpackets ?h (sub_seq (Suc j)) (PYRO_MAX_PAYLOAD_SIZE * Suc j) data
      = (map (data_datagram ?h key audio seq data) [Suc j..<n], h')"
    and h': "seq_ok sub'" "h' = ?h\<lparr>encoded := payload_flags key audio False beg' seq sub'\<rparr>"
    by blast
  have same: "data_datagram ?h key audio seq data = data_datagram h key audio seq data"
    by (intro ext) (simp add: data_datagram_def)
  have chunk: "take (min PYRO_MAX_PAYLOAD_SIZE ((length data - PYRO_MAX_PAYLOAD_SIZE * j) mod 2 ^ 32))
      (drop (PYRO_MAX_PAYLOAD_SIZE * j) data) = take PYRO_MAX_PAYLOAD_SIZE (drop (PYRO_MAX_PAYLOAD_SIZE * j) data)"
  proof -
    have "(length data - PYRO_MAX_PAYLOAD_SIZE * j) mod 2 ^ 32 = length (drop (PYRO_MAX_PAYLOAD_SIZE * j) data)"
      using assms(4) by simp
    then show ?thesis by (simp add: min_def)
  qed
  have "emit_subpackets h (sub_seq j) (PYRO_MAX_PAYLOAD_SIZE * j) data
      = (data_datagram h key audio seq data j # map (data_datagram h key audio seq data) [Suc j..<n], h')"
    using lj rest
    by (subst emit_subpackets.simps)
       (simp only: hd sub_seq_Suc chunk Let_def if_True mult_Suc_right[symmetric] add.commute[of _ PYRO_MAX_PAYLOAD_SIZE]
          rest prod.case same, simp add: data_datagram_def)
  with jn h' show ?case by (intro exI[of _ h']) (auto simp: upt_conv_Cons)
qed

section \<open>The FEC datagrams\<close>

definition fec_datagram ::
  "pyro_payload_header \<Rightarrow> bool \<Rightarrow> u32 \<Rightarrow> byte list \<Rightarrow> nat list list \<Rightarrow> nat \<Rightarrow> byte list" where
  "fec_datagram h key seq data pss f =
     put_header (h\<lparr>encoded := payload_flags key False True False seq (word_of_nat f)\<rparr>)
     @ xor_blocks PYRO_MAX_PAYLOAD_SIZE (data_block PYRO_MAX_PAYLOAD_SIZE data) (pss ! f)"

lemma payload_size_pos [simp]: "0 < PYRO_MAX_PAYLOAD_SIZE"
  by (simp add: PYRO_MAX_PAYLOAD_SIZE_def)

lemma emit_fec_run:
  fixes s :: nat
  assumes enc: "encoder_at s n ke ko 0 enc" "enc_block_size enc = PYRO_MAX_PAYLOAD_SIZE"
    and n: "n = num_blocks PYRO_MAX_PAYLOAD_SIZE (length data)" "n \<le> 2 ^ 31"
    and k: "0 < ke" "ke \<le> n" "0 < ko" "ko \<le> n" and m: "m \<le> 16384"
    and x: "length stack = PYRO_MAX_PAYLOAD_SIZE"
    and h: "seq_ok seq" "seq_ok sub" "encoded h = payload_flags key False True False seq sub"
  defines "pss \<equiv> fec_indices s n ke ko m"
  shows "\<exists>enc' x' h'. for_list (emit_fec data ke ko) [0..<m] (enc, stack, h, [])
      = Some (enc', x', h', map (fec_datagram h key seq data pss) [0..<m]) \<and> shuffler_inv (enc_shuffler enc')"
proof -
  let ?I = "\<lambda>done (e, x, h', out). encoder_at s n ke ko (length done) e \<and> enc_block_size e = PYRO_MAX_PAYLOAD_SIZE
    \<and> length x = PYRO_MAX_PAYLOAD_SIZE
    \<and> (\<exists>sub. seq_ok sub \<and> h' = h\<lparr>encoded := payload_flags key False True False seq sub\<rparr>)
    \<and> out = map (fec_datagram h key seq data pss) [0..<length done]"
  have "\<exists>st. for_list (emit_fec data ke ko) [0..<m] (enc, stack, h, []) = Some st \<and> ?I [0..<m] st"
  proof (rule for_list_invariant[where I = ?I])
    have "h = h\<lparr>encoded := payload_flags key False True False seq sub\<rparr>" using h(3) by simp
    with enc x h(2) show "?I [] (enc, stack, h, [])" by auto
  next
    fix "done" f rest and st :: "encoder \<times> byte list \<times> pyro_payload_header \<times> byte list list"
    assume split: "[0..<m] = done @ f # rest" and I: "?I done st"
    have f: "f = length done" "f < m" using upt_split[OF split] by auto
    obtain e x h' out where st: "st = (e, x, h', out)" by (rule prod_cases4)
    from I obtain sub where e: "encoder_at s n ke ko f e" "enc_block_size e = PYRO_MAX_PAYLOAD_SIZE"
        "length x = PYRO_MAX_PAYLOAD_SIZE" "seq_ok sub"
        "h' = h\<lparr>encoded := payload_flags key False True False seq sub\<rparr>"
        "out = map (fec_datagram h key seq data pss) [0..<f]"
      by (auto simp: st f)
    let ?x = "xor_blocks PYRO_MAX_PAYLOAD_SIZE (data_block PYRO_MAX_PAYLOAD_SIZE data) (pss ! f)"
    from generate_next[OF e(1,2) payload_size_pos n k e(3)] obtain enc' where
      g: "generate x data (length data) (if odd f then ko else ke) e = Some (enc', ?x)"
        "encoder_at s n ke ko (Suc f) enc'" "enc_block_size enc' = PYRO_MAX_PAYLOAD_SIZE"
      unfolding pss_def fec_indices_prefix[OF f(2) k(2,4)] by blast
    have fo: "seq_ok (word_of_nat f)" using f(2) m by (intro seq_ok_of_nat) simp
    have fh: "fec_header h' f = h\<lparr>encoded := payload_flags key False True False seq (word_of_nat f)\<rparr>"
      using payload_flags_set_sub[OF h(1) e(4) fo, of key False True False] by (simp add: fec_header_def e(5))
    have lx: "length ?x = PYRO_MAX_PAYLOAD_SIZE" by simp
    have "emit_fec data ke ko f st
        = Some (enc', ?x, fec_header h' f, out @ [put_header (fec_header h' f) @ ?x])"
      using g(1) by (simp add: emit_fec_def st Let_def del: length_xor_blocks)
    then show "\<exists>st'. emit_fec data ke ko f st = Some st' \<and> ?I (done @ [f]) st'"
      using g(2,3) lx fo by (auto simp: f(1)[symmetric] fh e(6) fec_datagram_def)
  qed
  then show ?thesis by (auto simp: encoder_at_def)
qed

section \<open>A whole packet\<close>

lemma fec_parameters_props:
  assumes "0 < n" "fec_parameters n = (m, ke, ko)"
  shows "0 < ke" "ke \<le> n" "0 < ko" "ko \<le> n" "0 < m" "m \<le> n div 4 + 1" "ke \<le> 64" "ko \<le> 64"
  using assms by (auto simp: fec_parameters_def split: if_splits)

lemma packet_header_encoded:
  "encoded (packet_header pts dts sz audio key fec seq) = payload_flags key audio False False seq 0"
  by (simp add: packet_header_def payload_flags_def Let_def or.assoc or.left_commute split: prod.split)

definition video_datagrams ::
  "u64 \<Rightarrow> u64 \<Rightarrow> byte list \<Rightarrow> bool \<Rightarrow> u32 \<Rightarrow> byte list list" where
  "video_datagrams pts dts data key seq =
     (let n = num_blocks PYRO_MAX_PAYLOAD_SIZE (length data);
          (m, ke, ko) = fec_parameters n;
          h = packet_header pts dts (length data) False key True seq
      in map (data_datagram h key False seq data) [0..<n]
         @ map (fec_datagram h key seq data (fec_indices (unat (pts_lo h)) n ke ko m)) [0..<m])"

text \<open>The bound keeps every FEC block's number in the 14 bits of its header field.\<close>

definition packet_fits :: "byte list \<Rightarrow> bool" where
  "packet_fits data \<longleftrightarrow> 0 < length data \<and> length data \<le> 65532 * PYRO_MAX_PAYLOAD_SIZE"

lemma packet_fits_blocks:
  assumes "packet_fits data" "n = num_blocks PYRO_MAX_PAYLOAD_SIZE (length data)"
  shows "0 < n" "n \<le> 65532" "length data < 2 ^ 32"
    "((length data + PYRO_MAX_PAYLOAD_SIZE - Suc 0) div PYRO_MAX_PAYLOAD_SIZE) mod 4294967296 = n"
proof -
  have len: "0 < length data" "length data \<le> 65532 * 1024"
    using assms(1) by (simp_all add: packet_fits_def PYRO_MAX_PAYLOAD_SIZE_def)
  have n: "n = (length data + 1023) div 1024" using assms(2) by (simp add: num_blocks_def PYRO_MAX_PAYLOAD_SIZE_def)
  have "(length data + 1023) div 1024 \<le> (65532 * 1024 + 1023) div 1024" using len by (intro div_le_mono) simp
  then show "n \<le> 65532" by (simp add: n)
  then show "((length data + PYRO_MAX_PAYLOAD_SIZE - Suc 0) div PYRO_MAX_PAYLOAD_SIZE) mod 4294967296 = n"
    by (simp add: n PYRO_MAX_PAYLOAD_SIZE_def)
  have "1024 div 1024 \<le> (length data + 1023) div 1024" using len(1) by (intro div_le_mono) linarith
  then show "0 < n" by (simp add: n)
  show "length data < 2 ^ 32" using len by simp
qed

definition pts_ok :: "u64 \<Rightarrow> u64 \<Rightarrow> bool" where
  "pts_ok pts dts \<longleftrightarrow> - (2 ^ 63) \<le> sint pts - sint dts \<and> sint pts - sint dts < 2 ^ 63"

definition video_ready :: "stream_connection \<Rightarrow> bool" where
  "video_ready c \<longleftrightarrow> remote_valid (udp_remote c) \<and> kicked c \<and> kick_flags c AND PYRO_KICK_STATE_VIDEO_BIT \<noteq> 0"

lemma write_video_fec:
  assumes ready: "video_ready c" "conn_fec c" and pts: "pts_ok pts dts"
    and data: "packet_fits data" and seq: "seq_ok (packet_seq_video c)"
    and enc: "shuffler_inv (enc_shuffler (conn_encoder c))" and stack: "length stack = PYRO_MAX_PAYLOAD_SIZE"
  shows "\<exists>enc'. shuffler_inv (enc_shuffler enc') \<and>
    write_packet stack pts dts data False key c
    = Some (c\<lparr>conn_encoder := enc',
         udp_out := udp_out c @ map (\<lambda>d. (udp_remote c, d)) (video_datagrams pts dts data key (packet_seq_video c)),
         packet_seq_video := (packet_seq_video c + 1) AND PYRO_PAYLOAD_PACKET_SEQ_MASK\<rparr>)"
proof -
  define n where "n = num_blocks PYRO_MAX_PAYLOAD_SIZE (length data)"
  note nb = packet_fits_blocks[OF data n_def]
  define seq where "seq = packet_seq_video c"
  have sq: "seq_ok seq" using assms(5) by (simp add: seq_def)
  obtain m ke ko where fp: "fec_parameters n = (m, ke, ko)" by (rule prod_cases3)
  note fpp = fec_parameters_props[OF nb(1) fp]
  have "n div 4 \<le> 65532 div 4" using nb(2) by (rule div_le_mono)
  then have m: "m \<le> 16384" using fpp(6) by simp
  define h where "h = packet_header pts dts (length data) False key True seq"
  have he: "encoded h = payload_flags key False False False seq 0" by (simp add: h_def packet_header_encoded)
  from emit_subpackets_eq[OF sq seq_ok_0 he nb(3) n_def, of 0] obtain h' beg' sub' where
    em: "emit_subpackets h 0 0 data = (map (data_datagram h key False seq data) [0..<n], h')"
    and h': "seq_ok sub'" "h' = h\<lparr>encoded := payload_flags key False False beg' seq sub'\<rparr>"
    by (auto simp: sub_seq_def)
  define hf where "hf = h'\<lparr>encoded := (encoded h' AND NOT PYRO_PAYLOAD_PACKET_BEGIN_BIT) OR PYRO_PAYLOAD_PACKET_FEC_BIT\<rparr>"
  have hf: "hf = h\<lparr>encoded := payload_flags key False True False seq sub'\<rparr>"
    by (simp add: hf_def h' payload_flags_clear_begin[OF sq h'(1)] payload_flags_set[OF sq h'(1)])
  define enc0 where "enc0 = enc_set_block_size PYRO_MAX_PAYLOAD_SIZE (enc_seed (unat (pts_lo h')) (enc_flush (conn_encoder c)))"
  have e0: "encoder_at (unat (pts_lo h)) n ke ko 0 enc0" "enc_block_size enc0 = PYRO_MAX_PAYLOAD_SIZE"
    using enc by (simp_all add: enc0_def h'(2) encoder_at_def enc_set_block_size_def enc_seed_def enc_flush_def xor_counts_def)
  let ?pss = "fec_indices (unat (pts_lo h)) n ke ko m"
  have "encoded hf = payload_flags key False True False seq sub'" by (simp add: hf)
  from emit_fec_run[OF e0 n_def _ fpp(1-4) m stack sq h'(1) this] nb(2) obtain enc' x' h'' where
    run: "for_list (emit_fec data ke ko) [0..<m] (enc0, stack, hf, [])
      = Some (enc', x', h'', map (fec_datagram hf key seq data ?pss) [0..<m])" "shuffler_inv (enc_shuffler enc')"
    by (auto simp: hf)
  have fd: "fec_datagram hf key seq data ?pss = fec_datagram h key seq data ?pss"
    by (intro ext) (simp add: fec_datagram_def hf)
  have vd: "video_datagrams pts dts data key seq = map (data_datagram h key False seq data) [0..<n]
      @ map (fec_datagram h key seq data ?pss) [0..<m]"
    by (simp add: video_datagrams_def n_def[symmetric] fp h_def[symmetric] Let_def)
  have "write_packet stack pts dts data False key c
      = Some (c\<lparr>conn_encoder := enc', udp_out := udp_out c @ map (\<lambda>d. (udp_remote c, d)) (video_datagrams pts dts data key seq),
         packet_seq_video := (seq + 1) AND PYRO_PAYLOAD_PACKET_SEQ_MASK\<rparr>)"
    using ready pts run(1)
    by (simp add: write_packet_def video_ready_def pts_ok_def nb(4) fp Let_def seq_def[symmetric] h_def[symmetric]
        em hf_def[symmetric] enc0_def[symmetric] vd fd)
  with run(2) show ?thesis by (auto simp: seq_def)
qed

end
