(* ===== verification/Reassembly.thy ===== *)
theory Reassembly
  imports Packetiser Stream_Client
begin

text \<open>
  One packet on its way from the packetiser to the reassembly: the datagrams that arrive for a packet drive
  the packet's decoder as the arrivals of \<open>LT_Codec\<close> do.
\<close>

section \<open>The size of the buffer\<close>

lemma and_not_low_10: "(x :: u32) AND NOT 0x3ff = push_bit 10 (drop_bit 10 x)"
proof (rule bit_word_eqI)
  fix k :: nat assume k: "k < LENGTH(32)"
  define M :: u32 where "M = 0x3ff"
  have "M = mask 10" by (simp add: M_def mask_eq_exp_minus_1)
  then have m: "bit M k \<longleftrightarrow> k < 10" using k by (simp only: bit_mask_iff) simp
  show "bit (x AND NOT 0x3ff) k \<longleftrightarrow> bit (push_bit 10 (drop_bit 10 x)) k"
    unfolding M_def[symmetric] using k m
    by (auto simp: bit_and_iff bit_not_iff bit_push_bit_iff bit_drop_bit_eq)
qed

lemma buffer_size_for_eq:
  assumes "packet_fits data" "payload_size h = word_of_nat (length data)"
  shows "buffer_size_for h = PYRO_MAX_PAYLOAD_SIZE * num_blocks PYRO_MAX_PAYLOAD_SIZE (length data)"
proof -
  define n where "n = num_blocks PYRO_MAX_PAYLOAD_SIZE (length data)"
  note nb = packet_fits_blocks[OF assms(1) n_def]
  have len: "length data \<le> 65532 * 1024" using assms(1) by (simp add: packet_fits_def PYRO_MAX_PAYLOAD_SIZE_def)
  define x :: u32 where "x = word_of_nat (length data + 1023)"
  have x: "unat x = length data + 1023" unfolding x_def unat_of_nat using len by simp
  have n: "n = (length data + 1023) div 1024" by (simp add: n_def num_blocks_def PYRO_MAX_PAYLOAD_SIZE_def)
  have e: "payload_size h + word_of_nat PYRO_MAX_PAYLOAD_SIZE - 1 = x"
    by (simp add: assms(2) x_def PYRO_MAX_PAYLOAD_SIZE_def)
  have "unat (push_bit 10 (drop_bit 10 x)) = take_bit 32 (push_bit 10 (drop_bit 10 (take_bit 32 (unat x))))"
    by (simp add: unsigned_push_bit_eq unsigned_drop_bit_eq)
  also have "\<dots> = n * 1024 mod 2 ^ 32"
    using x len by (simp add: take_bit_eq_mod push_bit_eq_mult drop_bit_eq_div n)
  also have "\<dots> = 1024 * n" using nb(2) by simp
  finally have "unat (x AND NOT 0x3ff) = 1024 * n" by (simp only: and_not_low_10)
  moreover have "word_of_nat PYRO_MAX_PAYLOAD_SIZE - 1 = (0x3ff :: u32)" by (simp add: PYRO_MAX_PAYLOAD_SIZE_def)
  ultimately show ?thesis
    using nb(2) unfolding buffer_size_for_def e n_def[symmetric] by (simp add: PYRO_MAX_PAYLOAD_SIZE_def)
qed

section \<open>The packet invariant\<close>

text \<open>
  A packet of \<open>n\<close> blocks after the arrivals \<open>evs\<close>.  The accumulated subsequence number is that of the last
  data datagram, and the decoder is in the state that \<open>LT_Codec.run_inv\<close> describes.
\<close>

definition rp_inv ::
  "pyro_payload_header \<Rightarrow> u32 \<Rightarrow> byte list \<Rightarrow> nat \<Rightarrow> nat list list \<Rightarrow> arrival list \<Rightarrow> reconstructed_packet \<Rightarrow> bool" where
  "rp_inv h seq data n pss evs p \<longleftrightarrow>
     rp_seq p = seq \<and> buffer p = output_data (rp_decoder p)
     \<and> fec_buffer_size p = length pss * PYRO_MAX_PAYLOAD_SIZE
     \<and> run_inv n PYRO_MAX_PAYLOAD_SIZE (data_block PYRO_MAX_PAYLOAD_SIZE data) pss evs (is_done p, rp_decoder p)
     \<and> (evs = [] \<longrightarrow> \<not> is_done p) \<and> \<not> is_error p
     \<and> (\<exists>j < n. subpacket_seq_accum p = int j \<and> last_subpacket_raw_seq p = sub_seq j)
     \<and> pts_lo (current_header p) = pts_lo h \<and> pts_hi (current_header p) = pts_hi h
     \<and> dts_delta (current_header p) = dts_delta h \<and> payload_size (current_header p) = payload_size h"

text \<open>The headers of one packet's datagrams differ in their flags only.\<close>

definition same_packet :: "pyro_payload_header \<Rightarrow> pyro_payload_header \<Rightarrow> bool" where
  "same_packet h g \<longleftrightarrow> (\<exists>e. g = h\<lparr>encoded := e\<rparr>)"

definition video_header_for :: "byte list \<Rightarrow> pyro_payload_header \<Rightarrow> bool" where
  "video_header_for data h \<longleftrightarrow>
     (case fec_parameters (num_blocks PYRO_MAX_PAYLOAD_SIZE (length data)) of (m, ke, ko) \<Rightarrow>
        payload_size h = word_of_nat (length data) \<and> unat (num_fec_blocks h) = m
        \<and> unat (hdr_xor_blocks_even h) = ke \<and> unat (hdr_xor_blocks_odd h) = ko)"

definition packet_indices :: "byte list \<Rightarrow> pyro_payload_header \<Rightarrow> nat list list" where
  "packet_indices data h =
     (case fec_parameters (num_blocks PYRO_MAX_PAYLOAD_SIZE (length data)) of (m, ke, ko) \<Rightarrow>
        fec_indices (unat (pts_lo h)) (num_blocks PYRO_MAX_PAYLOAD_SIZE (length data)) ke ko m)"

text \<open>The bound on the packet also keeps the subsequence numbers of its datagrams within one window.\<close>

definition window_fits :: "byte list \<Rightarrow> bool" where
  "window_fits data \<longleftrightarrow> 0 < length data \<and> length data \<le> 8192 * PYRO_MAX_PAYLOAD_SIZE"

lemma window_fits_packet: "window_fits data \<Longrightarrow> packet_fits data"
  by (simp add: window_fits_def packet_fits_def)

lemma window_blocks:
  assumes "window_fits data" "n = num_blocks PYRO_MAX_PAYLOAD_SIZE (length data)"
  shows "0 < n" "n \<le> 8192"
proof -
  show "0 < n" using packet_fits_blocks(1)[OF window_fits_packet[OF assms(1)] assms(2)] .
  have "(length data + 1023) div 1024 \<le> (8192 * 1024 + 1023) div 1024"
    using assms(1) by (intro div_le_mono) (simp add: window_fits_def PYRO_MAX_PAYLOAD_SIZE_def)
  then show "n \<le> 8192" by (simp add: assms(2) num_blocks_def PYRO_MAX_PAYLOAD_SIZE_def)
qed

lemma packet_indices_ok:
  assumes "window_fits data" "n = num_blocks PYRO_MAX_PAYLOAD_SIZE (length data)"
    "fec_parameters n = (m, ke, ko)"
  shows "packet_indices data h = fec_indices (unat (pts_lo h)) n ke ko m" "length (packet_indices data h) = m"
    "code_ok n PYRO_MAX_PAYLOAD_SIZE (data_block PYRO_MAX_PAYLOAD_SIZE data) (packet_indices data h)"
    "m \<le> 2049"
proof -
  note fp = fec_parameters_props[OF window_blocks(1)[OF assms(1,2)] assms(3)]
  show pi: "packet_indices data h = fec_indices (unat (pts_lo h)) n ke ko m"
    using assms(2,3) by (simp add: packet_indices_def)
  show len: "length (packet_indices data h) = m" unfolding pi by (rule fec_indices_props(1)[OF fp(2,4)])
  show "code_ok n PYRO_MAX_PAYLOAD_SIZE (data_block PYRO_MAX_PAYLOAD_SIZE data) (packet_indices data h)"
    unfolding code_ok_def pi
    using fec_indices_props(1,2,4)[OF fp(2,4), where m = m] by (auto simp: in_set_conv_nth) (metis lessThan_iff nth_mem subset_iff)
  have "n div 4 \<le> 8192 div 4" using window_blocks(2)[OF assms(1,2)] by (rule div_le_mono)
  then show "m \<le> 2049" using fp(6) by simp
qed

lemma start_packet_inv:
  assumes fits: "window_fits data" and n: "n = num_blocks PYRO_MAX_PAYLOAD_SIZE (length data)"
    and h: "video_header_for data h" and p: "decoder_reusable (rp_decoder p)" "\<not> is_error p" "rp_seq p = seq"
  shows "\<exists>p'. start_packet h p = Some p' \<and> rp_inv h seq data n (packet_indices data h) [] p'"
proof -
  obtain m ke ko where fp: "fec_parameters n = (m, ke, ko)" by (rule prod_cases3)
  note fpp = fec_parameters_props[OF window_blocks(1)[OF fits n] fp]
  have hd: "payload_size h = word_of_nat (length data)" "unat (num_fec_blocks h) = m"
    "unat (hdr_xor_blocks_even h) = ke" "unat (hdr_xor_blocks_odd h) = ko"
    using h fp n by (auto simp: video_header_for_def)
  note pio = packet_indices_ok(1-3)[OF fits n fp, where h = h] packet_indices_ok(4)[OF fits n fp]
  let ?bs = PYRO_MAX_PAYLOAD_SIZE
  have sz: "buffer_size_for h = ?bs * n" using buffer_size_for_eq[OF window_fits_packet[OF fits] hd(1)] n by simp
  let ?d = "dec_set_block_size ?bs (rp_decoder p)"
  have d: "dec_block_size ?d = ?bs" "decoder_reusable ?d"
    using p(1) by (simp_all add: decoder_reusable_def dec_set_block_size_def)
  have n8: "n \<le> 8192" using window_blocks(2)[OF fits n] .
  have "m * n \<le> 2049 * 8192" using pio(4) n8 by (rule mult_le_mono)
  moreover have "(m + 31) div 32 * n \<le> 65 * 8192" using pio(4) n8 by (intro mult_le_mono) auto
  ultimately have fits32: "m * n + (m + 31) div 32 * n < 2 ^ 32" "m + 31 < 2 ^ 32" "n \<le> 2 ^ 31"
    using pio(4) n8 by auto
  from begin_decode_stable(2)[where orig = "data_block ?bs data" and s = "unat (pts_lo h)",
      OF d(1) payload_size_pos d(2) _ refl fpp(2,4) fits32 length_data_block, of "replicate (?bs * n) 0"]
  obtain d' where
    d': "begin_decode (unat (pts_lo h)) (replicate (?bs * n) 0) (?bs * n) m ke ko ?d = Some d'"
      "dec_stable n ?bs (data_block ?bs data) (fec_indices (unat (pts_lo h)) n ke ko m) {} d'"
      "ready_encoded_links d' = []" "\<forall>i < n. \<not> decoded_block_mask d' ! i"
    by auto
  have run: "run_inv n ?bs (data_block ?bs data) (packet_indices data h) [] (False, d')"
    unfolding pio(1) by (rule run_inv_start[OF d'(2-4)])
  have "start_packet h p = Some (p\<lparr>current_header := h, is_done := False, buffer := output_data d',
             fec_buffer_size := m * ?bs, rp_decoder := d',
             subpacket_seq_accum := 0, last_subpacket_raw_seq := 0, fec_recovered := False\<rparr>)"
    using d'(1) by (simp add: start_packet_def sz hd)
  moreover have "sub_seq 0 = 0" by (simp add: sub_seq_def)
  ultimately show ?thesis
    using run pio(2) p(2,3) window_blocks(1)[OF fits n] by (auto simp: rp_inv_def intro!: exI[of _ 0])
qed

section \<open>One datagram\<close>

lemma track_subpacket_inv:
  assumes n: "n \<le> 8192" and I: "rp_inv h seq data n pss evs p" and i: "i < n"
    and g: "g = h'\<lparr>encoded := payload_flags key False False (i = 0) q (sub_seq i)\<rparr>" "seq_ok q"
  shows "track_subpacket g p = p\<lparr>subpacket_seq_accum := int i, last_subpacket_raw_seq := sub_seq i\<rparr>"
proof -
  note fl = payload_flags_fields[OF g(2)[unfolded seq_ok_def] seq_ok_sub_seq[of i, unfolded seq_ok_def], of key False False "i = 0"]
  from I obtain j where j: "j < n" "subpacket_seq_accum p = int j" "last_subpacket_raw_seq p = sub_seq j"
    by (auto simp: rp_inv_def)
  have us: "uint (sub_seq k) = int k mod 16384" for k
    by (simp add: sub_seq_def uint_nat unat_of_nat zmod_int)
  have "pyro_payload_get_subpacket_seq_delta (sub_seq i) (sub_seq j) = int i - int j"
    unfolding subpacket_seq_delta_eq using i j(1) n by (intro seq_delta_window us) auto
  moreover have "\<not> is_error p" using I by (simp add: rp_inv_def)
  moreover have "signed_take_bit 31 (int i) = int i" using i n by (intro signed_take_bit_int_eq_self) auto
  ultimately show ?thesis
    using fl(2,6) by (auto simp: track_subpacket_def Let_def g(1) j(2,3) simp del: signed_take_bit_negative_iff)
qed

text \<open>What the client does with one datagram for a packet that has been started.\<close>

definition rp_receive :: "pyro_payload_header \<Rightarrow> byte list \<Rightarrow> reconstructed_packet \<Rightarrow> reconstructed_packet outcome" where
  "rp_receive g payload p = do {
     p \<leftarrow> prepare_decode g p;
     if encoded g AND PYRO_PAYLOAD_PACKET_FEC_BIT \<noteq> 0
     then add_fec_data (pyro_payload_get_subpacket_seq (encoded g)) payload p
     else add_payload_data payload p }"

lemma store_subpacket_eq:
  assumes "length mem = PYRO_MAX_PAYLOAD_SIZE * n" "i < n"
    "chunk = take PYRO_MAX_PAYLOAD_SIZE (drop (PYRO_MAX_PAYLOAD_SIZE * i) data)"
  shows "store_subpacket (i * PYRO_MAX_PAYLOAD_SIZE) chunk mem
    = write_bytes mem (PYRO_MAX_PAYLOAD_SIZE * i) (data_block PYRO_MAX_PAYLOAD_SIZE data i)"
proof -
  define bs where "bs = PYRO_MAX_PAYLOAD_SIZE"
  define off where "off = i * bs"
  have b: "data_block bs data i = chunk @ replicate (bs - length chunk) 0"
    by (simp add: data_block_def assms(3) Let_def bs_def)
  have lc: "length chunk \<le> bs" by (simp add: assms(3) bs_def)
  have room: "off + bs \<le> length mem"
    using mult_le_mono2[of "Suc i" n bs] assms(1,2) by (simp add: off_def mult.commute bs_def)
  let ?r = "take off mem @ chunk @ replicate (bs - length chunk) 0 @ drop (off + bs) mem"
  have "write_bytes mem off (data_block bs data i) = Some ?r"
    using room lc by (simp add: write_bytes_def b)
  moreover have "store_subpacket off chunk mem = Some ?r"
  proof (cases "length chunk = bs")
    case True
    with room show ?thesis by (simp add: store_subpacket_def write_bytes_def bs_def[symmetric])
  next
    case False
    have "drop (bs - length chunk) (drop (off + length chunk) mem) = drop (off + bs) mem"
      using lc by (simp add: add.commute)
    with False room lc show ?thesis
      by (simp add: store_subpacket_def write_bytes_def bs_def[symmetric])
  qed
  ultimately show ?thesis by (simp add: off_def bs_def mult.commute)
qed

lemma rp_receive_data:
  assumes ok: "code_ok n PYRO_MAX_PAYLOAD_SIZE (data_block PYRO_MAX_PAYLOAD_SIZE data) pss" and n: "n \<le> 8192"
    and I: "rp_inv h seq data n pss evs p" and nd: "\<not> is_done p" and i: "i < n"
    and g: "g = h'\<lparr>encoded := payload_flags key False False (i = 0) q (sub_seq i)\<rparr>" "seq_ok q"
  shows "\<exists>p'. rp_receive g (take PYRO_MAX_PAYLOAD_SIZE (drop (PYRO_MAX_PAYLOAD_SIZE * i) data)) p = Some p'
    \<and> rp_inv h seq data n pss (evs @ [Raw i]) p' \<and> fec_recovered p' = fec_recovered p"
proof -
  let ?bs = PYRO_MAX_PAYLOAD_SIZE and ?blk = "data_block PYRO_MAX_PAYLOAD_SIZE data"
  let ?chunk = "take ?bs (drop (?bs * i) data)"
  note fl = payload_flags_fields[OF g(2)[unfolded seq_ok_def] seq_ok_sub_seq[of i, unfolded seq_ok_def], of key False False "i = 0"]
  have run: "run_inv n ?bs ?blk pss evs (is_done p, rp_decoder p)" and buf: "buffer p = output_data (rp_decoder p)"
    and ne: "\<not> is_error p" using I by (simp_all add: rp_inv_def)
  have shape: "dec_shape n ?bs pss (rp_decoder p)" using run by (simp add: run_inv_def dec_stable_def dec_inv_def)
  then have len: "length (buffer p) = ?bs * n" by (simp add: buf dec_shape_def)
  have bne: "buffer p \<noteq> []" using len i by (auto simp: PYRO_MAX_PAYLOAD_SIZE_def)
  let ?p = "p\<lparr>subpacket_seq_accum := int i, last_subpacket_raw_seq := sub_seq i\<rparr>"
  have prep: "prepare_decode g p = Some ?p"
    using bne fl(5) track_subpacket_inv[OF n I i g] by (simp add: prepare_decode_def g(1))
  from arrive_raw_inv[OF ok run i, of "\<lambda>_. []"] obtain s' where
    s': "arrive ?bs ?blk (\<lambda>_. []) (Raw i) (is_done p, rp_decoder p) = Some s'"
      "run_inv n ?bs ?blk pss (evs @ [Raw i]) s'" by blast
  from s'(1) obtain mem where mem: "write_bytes (buffer p) (?bs * i) (?blk i) = Some mem"
      and push: "push_raw_block i ((rp_decoder p)\<lparr>output_data := mem\<rparr>) = Some s'"
    by (auto simp: buf Option.bind_eq_Some_conv)
  have lt: "i * ?bs < length (buffer p)" using len i by (simp add: mult.commute)
  have "int i * int ?bs < 2 ^ 31" using i n by (simp add: PYRO_MAX_PAYLOAD_SIZE_def)
  then have add: "add_payload_data ?chunk ?p = Some (?p\<lparr>buffer := output_data (snd s'), rp_decoder := snd s', is_done := fst s'\<rparr>)"
    using nd ne lt mem push store_subpacket_eq[OF len i refl, of data]
    by (cases s') (simp add: add_payload_data_def)
  have "rp_receive g ?chunk p = Some (?p\<lparr>buffer := output_data (snd s'), rp_decoder := snd s', is_done := fst s'\<rparr>)"
    using prep add fl(5) by (simp add: rp_receive_def g(1))
  with I s'(2) i show ?thesis by (auto simp: rp_inv_def)
qed

lemma rp_receive_fec:
  assumes ok: "code_ok n PYRO_MAX_PAYLOAD_SIZE (data_block PYRO_MAX_PAYLOAD_SIZE data) pss" and n: "0 < n"
    and I: "rp_inv h seq data n pss evs p" and nd: "\<not> is_done p"
    and f: "f < length pss" "Fec f \<notin> set evs" "length pss \<le> 16384"
    and g: "g = h'\<lparr>encoded := payload_flags key False True False q (word_of_nat f)\<rparr>" "seq_ok q"
  shows "\<exists>p'. rp_receive g (xor_blocks PYRO_MAX_PAYLOAD_SIZE (data_block PYRO_MAX_PAYLOAD_SIZE data) (pss ! f)) p = Some p'
    \<and> rp_inv h seq data n pss (evs @ [Fec f]) p'"
proof -
  let ?bs = PYRO_MAX_PAYLOAD_SIZE and ?blk = "data_block PYRO_MAX_PAYLOAD_SIZE data"
  let ?x = "xor_blocks ?bs ?blk (pss ! f)"
  have fo: "seq_ok (word_of_nat f)" using f(1,3) by (intro seq_ok_of_nat) simp
  note fl = payload_flags_fields[OF g(2)[unfolded seq_ok_def] fo[unfolded seq_ok_def], of key False True False]
  have uf: "unat (word_of_nat f :: u32) = f" unfolding unat_of_nat using f(1,3) by simp
  have run: "run_inv n ?bs ?blk pss evs (is_done p, rp_decoder p)" and buf: "buffer p = output_data (rp_decoder p)"
    and ne: "\<not> is_error p" and fs: "fec_buffer_size p = length pss * ?bs" using I by (simp_all add: rp_inv_def)
  have "dec_shape n ?bs pss (rp_decoder p)" using run by (simp add: run_inv_def dec_stable_def dec_inv_def)
  then have len: "length (buffer p) = ?bs * n" by (simp add: buf dec_shape_def)
  then have bne: "buffer p \<noteq> []" using n by (auto simp: PYRO_MAX_PAYLOAD_SIZE_def)
  have prep: "prepare_decode g p = Some p" using bne fl(5) by (simp add: prepare_decode_def g(1))
  from arrive_fec_inv[OF ok run f(1,2), of "\<lambda>_. ?x"] obtain s' where
    s': "push_fec_block f ?x (rp_decoder p) = Some s'" "run_inv n ?bs ?blk pss (evs @ [Fec f]) s'" by auto
  have lx: "length ?x = ?bs" by simp
  have room: "f * ?bs + ?bs \<le> fec_buffer_size p" "f * ?bs < fec_buffer_size p"
    using mult_le_mono1[of "Suc f" "length pss" ?bs] f(1) by (simp_all add: fs)
  have "add_fec_data (word_of_nat f) ?x p = Some (p\<lparr>buffer := output_data (snd s'), rp_decoder := snd s',
      is_done := fst s', fec_recovered := (fec_recovered p \<or> fst s')\<rparr>)"
    using nd ne room s'(1) lx by (cases s') (simp add: add_fec_data_def uf buf del: length_xor_blocks)
  then have "rp_receive g ?x p = Some (p\<lparr>buffer := output_data (snd s'), rp_decoder := snd s',
      is_done := fst s', fec_recovered := (fec_recovered p \<or> fst s')\<rparr>)"
    using prep fl(2,5) by (simp add: rp_receive_def g(1))
  with I s'(2) show ?thesis by (auto simp: rp_inv_def)
qed

end
