(* ===== verification/Stream_Transfer.thy ===== *)
theory Stream_Transfer
  imports Reassembly
begin

text \<open>
  A whole video packet from the server's packetiser through a lossy, reordering network to the client's
  \<open>wait_next_packet\<close>.
\<close>

section \<open>Datagrams as arrivals\<close>

fun dgram :: "pyro_payload_header \<Rightarrow> bool \<Rightarrow> u32 \<Rightarrow> byte list \<Rightarrow> nat list list \<Rightarrow> arrival \<Rightarrow> byte list" where
  "dgram h key seq data pss (Raw i) = data_datagram h key False seq data i"
| "dgram h key seq data pss (Fec f) = fec_datagram h key seq data pss f"

fun dgram_flags :: "bool \<Rightarrow> u32 \<Rightarrow> arrival \<Rightarrow> u32" where
  "dgram_flags key seq (Raw i) = payload_flags key False False (i = 0) seq (sub_seq i)"
| "dgram_flags key seq (Fec f) = payload_flags key False True False seq (word_of_nat f)"

fun dgram_payload :: "byte list \<Rightarrow> nat list list \<Rightarrow> arrival \<Rightarrow> byte list" where
  "dgram_payload data pss (Raw i) = take PYRO_MAX_PAYLOAD_SIZE (drop (PYRO_MAX_PAYLOAD_SIZE * i) data)"
| "dgram_payload data pss (Fec f) = xor_blocks PYRO_MAX_PAYLOAD_SIZE (data_block PYRO_MAX_PAYLOAD_SIZE data) (pss ! f)"

lemma dgram_split:
  "dgram h key seq data pss e = put_header (h\<lparr>encoded := dgram_flags key seq e\<rparr>) @ dgram_payload data pss e"
  by (cases e) (simp_all add: data_datagram_def fec_datagram_def)

lemma dgram_payload_length:
  "length (dgram_payload data pss e) \<le> PYRO_MAX_PAYLOAD_SIZE"
  "length (dgram_payload data pss (Fec f)) = PYRO_MAX_PAYLOAD_SIZE"
  by (cases e) simp_all

lemma dgram_parse:
  "get_header (dgram h key seq data pss e) = h\<lparr>encoded := dgram_flags key seq e\<rparr>"
  "drop sizeof_payload_header (dgram h key seq data pss e) = dgram_payload data pss e"
  "\<not> length (dgram h key seq data pss e) < sizeof_payload_header"
  "\<not> PYRO_MAX_UDP_DATAGRAM_SIZE < length (dgram h key seq data pss e)"
  using dgram_payload_length(1)[of data pss e]
  by (simp_all add: dgram_split header_format.get_put header_format.put_length PYRO_MAX_UDP_DATAGRAM_SIZE_def)

lemma dgram_flags_fields:
  assumes "seq_ok seq" "m \<le> 16384" "arrival_ok n m e"
  shows "pyro_payload_get_packet_seq (dgram_flags key seq e) = seq"
    "dgram_flags key seq e AND PYRO_PAYLOAD_STREAM_TYPE_BIT = 0"
    "dgram_flags key seq e AND PYRO_PAYLOAD_PACKET_FEC_BIT = 0 \<longleftrightarrow> (\<exists>i. e = Raw i)"
    "dgram_flags key seq e AND (PYRO_PAYLOAD_KEY_FRAME_BIT OR PYRO_PAYLOAD_STREAM_TYPE_BIT)
       \<noteq> PYRO_PAYLOAD_KEY_FRAME_BIT OR PYRO_PAYLOAD_STREAM_TYPE_BIT"
    "dgram_flags key seq e AND PYRO_PAYLOAD_KEY_FRAME_BIT \<noteq> 0 \<longleftrightarrow> key"
proof -
  obtain sub fec beg where e: "dgram_flags key seq e = payload_flags key False fec beg seq sub" "seq_ok sub"
    "fec \<longleftrightarrow> \<not> (\<exists>i. e = Raw i)"
  proof (cases e)
    case (Raw i)
    with that[of False "i = 0" "sub_seq i"] show thesis by simp
  next
    case (Fec f)
    with assms have "seq_ok (word_of_nat f)" by (intro seq_ok_of_nat) simp
    with that[of True False "word_of_nat f"] Fec show thesis by simp
  qed
  note fl = payload_flags_fields[OF assms(1)[unfolded seq_ok_def] e(2)[unfolded seq_ok_def], of key False fec beg]
  show "pyro_payload_get_packet_seq (dgram_flags key seq e) = seq"
    "dgram_flags key seq e AND PYRO_PAYLOAD_STREAM_TYPE_BIT = 0"
    "dgram_flags key seq e AND PYRO_PAYLOAD_PACKET_FEC_BIT = 0 \<longleftrightarrow> (\<exists>i. e = Raw i)"
    "dgram_flags key seq e AND PYRO_PAYLOAD_KEY_FRAME_BIT \<noteq> 0 \<longleftrightarrow> key"
    using fl e by auto
  have "\<not> bit (dgram_flags key seq e AND (PYRO_PAYLOAD_KEY_FRAME_BIT OR PYRO_PAYLOAD_STREAM_TYPE_BIT)) 1"
    using fl(4) unfolding e(1) and_flag_nonzero by (simp add: bit_and_iff)
  moreover have "bit (PYRO_PAYLOAD_KEY_FRAME_BIT OR PYRO_PAYLOAD_STREAM_TYPE_BIT) 1"
    by (simp add: bit_or_iff bit_flags)
  ultimately show "dgram_flags key seq e AND (PYRO_PAYLOAD_KEY_FRAME_BIT OR PYRO_PAYLOAD_STREAM_TYPE_BIT)
       \<noteq> PYRO_PAYLOAD_KEY_FRAME_BIT OR PYRO_PAYLOAD_STREAM_TYPE_BIT"
    by metis
qed

section \<open>The client while it receives one packet\<close>

lemma set_slot_simps [simp]:
  "set_slot i p (set_slot i q ps) = set_slot i p ps" "slot (set_slot 0 p ps) 0 = p"
  "fst (set_slot 0 p ps) = p" "snd (set_slot 0 p ps) = snd ps"
  by (simp_all add: set_slot_def slot_def)

lemma slots_simps [simp]:
  "stream_slots a (set_stream_slots a ps c) = ps"
  "set_stream_slots a ps (set_stream_slots a qs c) = set_stream_slots a ps c"
  by (simp_all add: stream_slots_def set_stream_slots_def)

lemma receive_subpacket_eq:
  assumes "encoded g AND PYRO_PAYLOAD_PACKET_FEC_BIT = 0 \<or> length payload = PYRO_MAX_PAYLOAD_SIZE"
  shows "receive_subpacket now a g payload i c = do {
     p \<leftarrow> rp_receive g payload (slot (stream_slots a c) i);
     let c = set_stream_slots a (set_slot i p (stream_slots a c)) c;
     Some (if is_complete p then complete_packet now a (encoded g) i c else (True, c)) }"
  using assms
  by (cases "prepare_decode g (slot (stream_slots a c) i)") (auto simp: receive_subpacket_def rp_receive_def Let_def)

definition fresh_seq :: "u32 \<Rightarrow> stream_client \<Rightarrow> bool" where
  "fresh_seq seq c \<longleftrightarrow> last_completed_video_seq c = -1
     \<or> 0 < pyro_payload_get_packet_seq_delta seq (last_completed_video_seq c)"

text \<open>Nothing of the packet has arrived, or a part of it that is not enough.\<close>

definition idle_video :: "stream_client \<Rightarrow> bool" where
  "idle_video c \<longleftrightarrow> is_reset (fst (video c)) \<and> is_reset (snd (video c)) \<and> \<not> is_error (fst (video c))
     \<and> decoder_reusable (rp_decoder (fst (video c)))"

definition receiving ::
  "pyro_payload_header \<Rightarrow> u32 \<Rightarrow> byte list \<Rightarrow> nat \<Rightarrow> nat list list \<Rightarrow> arrival list \<Rightarrow> stream_client \<Rightarrow> bool" where
  "receiving h seq data n pss evs c \<longleftrightarrow>
     current c = None \<and> write_script c = [] \<and> fresh_seq seq c
     \<and> (if evs = [] then idle_video c
        else is_reset (snd (video c)) \<and> rp_inv h seq data n pss evs (fst (video c)) \<and> \<not> is_done (fst (video c)))"

definition received ::
  "pyro_payload_header \<Rightarrow> u32 \<Rightarrow> byte list \<Rightarrow> nat \<Rightarrow> nat list list \<Rightarrow> arrival list \<Rightarrow> stream_client \<Rightarrow> bool" where
  "received h seq data n pss evs c \<longleftrightarrow>
     current c = Some False \<and> last_completed_video_seq c = seq
     \<and> rp_inv h seq data n pss evs (fst (video c)) \<and> is_done (fst (video c))"

lemma check_send_progress_ok:
  assumes "write_script c = []"
  shows "\<exists>c'. check_send_progress now c = (True, c') \<and> video c' = video c
    \<and> last_completed_video_seq c' = last_completed_video_seq c"
  using assms by (auto simp: check_send_progress_def tcp_write_def next_write_def Let_def)

lemma complete_video:
  assumes "write_script c = []" "fresh_seq (rp_seq (fst (video c))) c"
  shows "\<exists>c'. complete_packet now False flags 0 c = (True, c') \<and> video c' = video c
    \<and> current c' = Some False \<and> last_completed_video_seq c' = rp_seq (fst (video c))"
proof -
  define p where "p = fst (video c)"
  define c1 where "c1 = (if last_completed_video_seq c \<noteq> -1
      then count_drops False (pyro_payload_get_packet_seq_delta (rp_seq p) (last_completed_video_seq c)) c else c)"
  define c2 where "c2 = count_complete (is_fec_recovered p) (flags AND PYRO_PAYLOAD_KEY_FRAME_BIT \<noteq> 0)
      (set_last_completed_seq False (rp_seq p) c1)"
  have c2: "write_script c2 = []" "video c2 = video c" "last_completed_video_seq c2 = rp_seq p"
    using assms(1) by (simp_all add: c2_def c1_def count_complete_def count_drops_def set_last_completed_seq_def Let_def)
  from check_send_progress_ok[OF c2(1), of now] obtain c' where
    c': "check_send_progress now c2 = (True, c')" "video c' = video c2"
      "last_completed_video_seq c' = last_completed_video_seq c2" by blast
  have same: "set_stream_slots False (video c) c = c" by (simp add: set_stream_slots_def)
  have "\<not> (last_completed_video_seq c \<noteq> -1
      \<and> pyro_payload_get_packet_seq_delta (rp_seq p) (last_completed_video_seq c) < 1)"
    using assms(2) by (auto simp: fresh_seq_def p_def)
  then have "complete_packet now False flags 0 c = (True, c'\<lparr>current := Some False\<rparr>)"
    using c'(1)
    by (cases "last_completed_video_seq c = -1")
       (simp_all add: complete_packet_def Let_def same last_completed_seq_def slot_def stream_slots_def
        p_def[symmetric] c1_def c2_def)
  with c' c2 show ?thesis by (auto simp: p_def)
qed

text \<open>The slot for a datagram of the packet, and what it holds before the datagram is added.\<close>

lemma get_video_slot:
  assumes fits: "window_fits data" and n: "n = num_blocks PYRO_MAX_PAYLOAD_SIZE (length data)"
    and h: "video_header_for data h" and R: "receiving h seq data n (packet_indices data h) evs c"
  shows "\<exists>ps p. get_stream_packet (video c) seq = Some (Some 0, ps) \<and> is_reset (snd ps)
    \<and> rp_inv h seq data n (packet_indices data h) evs p \<and> \<not> is_done p
    \<and> rp_receive (h\<lparr>encoded := e\<rparr>) payload (fst ps) = rp_receive (h\<lparr>encoded := e\<rparr>) payload p"
proof (cases "evs = []")
  case True
  then have idle: "idle_video c" using R by (simp add: receiving_def)
  define p0 where "p0 = (rp_reset (fst (video c)))\<lparr>rp_seq := seq\<rparr>"
  have gs: "get_stream_packet (video c) seq = Some (Some 0, p0, snd (video c))"
    using idle by (simp add: get_stream_packet_def num_active_packets_def idle_video_def new_in_slot_def
        p0_def set_slot_def slot_def)
  have h': "video_header_for data (h\<lparr>encoded := e\<rparr>)" "packet_indices data (h\<lparr>encoded := e\<rparr>) = packet_indices data h"
    using h by (simp_all add: video_header_for_def packet_indices_def)
  from start_packet_inv[OF fits n h'(1), of p0 seq] idle obtain p where
    p: "start_packet (h\<lparr>encoded := e\<rparr>) p0 = Some p"
      "rp_inv (h\<lparr>encoded := e\<rparr>) seq data n (packet_indices data h) [] p"
    by (auto simp: p0_def idle_video_def rp_reset_def h'(2))
  have "rp_inv (h\<lparr>encoded := e\<rparr>) = rp_inv h" by (intro ext) (simp add: rp_inv_def)
  with p(2) have inv: "rp_inv h seq data n (packet_indices data h) [] p" by simp
  have "length (buffer p) = PYRO_MAX_PAYLOAD_SIZE * n" using inv
    by (simp add: rp_inv_def run_inv_def dec_stable_def dec_inv_def dec_shape_def)
  then have ne: "buffer p \<noteq> []" using window_blocks(1)[OF fits n] by (auto simp: PYRO_MAX_PAYLOAD_SIZE_def)
  have "prepare_decode (h\<lparr>encoded := e\<rparr>) p0 = prepare_decode (h\<lparr>encoded := e\<rparr>) p"
    using p(1) ne by (simp add: prepare_decode_def p0_def rp_reset_def)
  then have "rp_receive (h\<lparr>encoded := e\<rparr>) payload p0 = rp_receive (h\<lparr>encoded := e\<rparr>) payload p"
    by (simp add: rp_receive_def)
  moreover have "\<not> is_done p" using inv by (simp add: rp_inv_def)
  ultimately show ?thesis using gs inv idle True by (auto simp: idle_video_def)
next
  case False
  then have R': "is_reset (snd (video c))" "rp_inv h seq data n (packet_indices data h) evs (fst (video c))"
    "\<not> is_done (fst (video c))"
    using R by (simp_all add: receiving_def)
  have "length (buffer (fst (video c))) = PYRO_MAX_PAYLOAD_SIZE * n" using R'(2)
    by (simp add: rp_inv_def run_inv_def dec_stable_def dec_inv_def dec_shape_def)
  then have ne: "\<not> is_reset (fst (video c))"
    using window_blocks(1)[OF fits n] by (auto simp: is_reset_def PYRO_MAX_PAYLOAD_SIZE_def)
  have "get_stream_packet (video c) seq = Some (Some 0, video c)"
    using R'(1,2) ne by (simp add: get_stream_packet_def num_active_packets_def rp_inv_def slot_def)
  with R' show ?thesis by auto
qed

lemma rp_receive_arrival:
  assumes fits: "window_fits data" and n: "n = num_blocks PYRO_MAX_PAYLOAD_SIZE (length data)"
    and seq: "seq_ok seq" and I: "rp_inv h seq data n (packet_indices data h) evs p" and nd: "\<not> is_done p"
    and e: "arrival_ok n (length (packet_indices data h)) e" "fec_once (evs @ [e])"
  shows "\<exists>p'. rp_receive (h\<lparr>encoded := dgram_flags key seq e\<rparr>) (dgram_payload data (packet_indices data h) e) p = Some p'
    \<and> rp_inv h seq data n (packet_indices data h) (evs @ [e]) p'"
proof -
  obtain m ke ko where fp: "fec_parameters n = (m, ke, ko)" by (rule prod_cases3)
  note pio = packet_indices_ok(1-3)[OF fits n fp, where h = h] packet_indices_ok(4)[OF fits n fp]
  show ?thesis
  proof (cases e)
    case (Raw i)
    then have i: "i < n" using e(1) by simp
    from rp_receive_data[OF pio(3) window_blocks(2)[OF fits n] I nd i _ seq, where g = "h\<lparr>encoded := dgram_flags key seq e\<rparr>" and h' = h and key = key] Raw show ?thesis by auto
  next
    case (Fec f)
    then have f: "f < length (packet_indices data h)" "Fec f \<notin> set evs" using e by (auto simp: fec_once_def)
    have "length (packet_indices data h) \<le> 16384" using pio(2,4) by simp
    from rp_receive_fec[OF pio(3) window_blocks(1)[OF fits n] I nd f this _ seq, where g = "h\<lparr>encoded := dgram_flags key seq e\<rparr>" and h' = h and key = key] Fec show ?thesis by auto
  qed
qed

lemma rp_inv_done: "rp_inv h seq data n pss evs p \<Longrightarrow> is_complete p \<longleftrightarrow> is_done p"
  by (simp add: rp_inv_def is_complete_def)

text \<open>One datagram of the packet: the packet is complete, or the client goes on receiving.\<close>

lemma iterate_arrival:
  assumes fits: "window_fits data" and n: "n = num_blocks PYRO_MAX_PAYLOAD_SIZE (length data)"
    and h: "video_header_for data h" and seq: "seq_ok seq"
    and R: "receiving h seq data n (packet_indices data h) evs c"
    and e: "arrival_ok n (length (packet_indices data h)) e" "fec_once (evs @ [e])"
  shows "\<exists>c'. iterate now (dgram h key seq data (packet_indices data h) e) c = Some (True, c')
    \<and> (received h seq data n (packet_indices data h) (evs @ [e]) c'
       \<or> receiving h seq data n (packet_indices data h) (evs @ [e]) c')"
proof -
  let ?pss = "packet_indices data h" and ?fl = "dgram_flags key seq e"
  let ?g = "h\<lparr>encoded := ?fl\<rparr>" and ?pl = "dgram_payload data (packet_indices data h) e"
  obtain m ke ko where fp: "fec_parameters n = (m, ke, ko)" by (rule prod_cases3)
  have lp: "length ?pss \<le> 16384"
    using packet_indices_ok(2)[OF fits n fp, of h] packet_indices_ok(4)[OF fits n fp] by simp
  note fl = dgram_flags_fields[OF seq lp e(1), of key]
  define c1 where "c1 = register_received_packet_size now (length (dgram h key seq data ?pss e)) c"
  have R1: "receiving h seq data n ?pss evs c1"
    using R by (simp add: c1_def register_received_packet_size_def receiving_def fresh_seq_def idle_video_def split: if_splits)
  from get_video_slot[OF fits n h R1, of ?fl ?pl] obtain ps p where
    g: "get_stream_packet (video c1) seq = Some (Some 0, ps)" "is_reset (snd ps)"
      "rp_inv h seq data n ?pss evs p" "\<not> is_done p" "rp_receive ?g ?pl (fst ps) = rp_receive ?g ?pl p"
    by blast
  from rp_receive_arrival[OF fits n seq g(3,4) e, of key] obtain p' where
    p': "rp_receive ?g ?pl (fst ps) = Some p'" "rp_inv h seq data n ?pss (evs @ [e]) p'"
    unfolding g(5) by blast
  define c2 where "c2 = c1\<lparr>video := (p', snd ps)\<rparr>"
  have fr: "fresh_seq seq c1" using R1 by (simp add: receiving_def)
  then have notold: "\<not> (last_completed_video_seq c1 \<noteq> -1
      \<and> pyro_payload_get_packet_seq_delta seq (last_completed_video_seq c1) \<le> 0)"
    by (auto simp: fresh_seq_def)
  have sz: "?fl AND PYRO_PAYLOAD_PACKET_FEC_BIT = 0 \<or> length ?pl = PYRO_MAX_PAYLOAD_SIZE"
    using fl(3) dgram_payload_length(2) by (cases e) auto
  have sub: "receive_subpacket now False ?g ?pl 0 (set_stream_slots False ps c1)
      = Some (if is_complete p' then complete_packet now False ?fl 0 c2 else (True, c2))"
    using p'(1) receive_subpacket_eq[of ?g ?pl now False 0 "set_stream_slots False ps c1"] sz
    by (simp add: slot_def c2_def set_stream_slots_def set_slot_def stream_slots_def Let_def)
  have it: "iterate now (dgram h key seq data ?pss e) c
      = Some (if is_complete p' then complete_packet now False ?fl 0 c2 else (True, c2))"
    using dgram_parse[of h key seq data ?pss e] fl g(1) notold sub
    by (simp add: iterate_def c1_def[symmetric] Let_def last_completed_seq_def stream_slots_def) (use notold in blast)
  show ?thesis
  proof (cases "is_done p'")
    case True
    have "rp_seq p' = seq" using p'(2) by (simp add: rp_inv_def)
    then have "fresh_seq (rp_seq (fst (video c2))) c2" "write_script c2 = []"
      using R1 fr by (simp_all add: c2_def receiving_def fresh_seq_def)
    from complete_video[OF this(2,1), of now ?fl] obtain c' where
      "complete_packet now False ?fl 0 c2 = (True, c')" "video c' = video c2" "current c' = Some False"
      "last_completed_video_seq c' = rp_seq (fst (video c2))" by blast
    with it True p'(2) rp_inv_done[OF p'(2)] \<open>rp_seq p' = seq\<close> show ?thesis
      by (auto simp: received_def c2_def)
  next
    case False
    with it p'(2) rp_inv_done[OF p'(2)] R1 g(2) show ?thesis
      by (auto simp: receiving_def c2_def fresh_seq_def)
  qed
qed

section \<open>Waiting for a packet\<close>

lemma receiving_not_all:
  assumes "receiving h seq data n pss evs c" "0 < n"
  shows "recoverable pss (raws evs) (fecs evs) \<noteq> {..<n}"
proof (cases "evs = []")
  case True
  have "recoverable pss {} {} \<subseteq> {}" by (rule recoverable_least) (auto simp: peel_closed_def)
  with True assms(2) show ?thesis by (auto simp: raws_def fecs_def)
next
  case False
  with assms(1) show ?thesis by (auto simp: receiving_def rp_inv_def run_inv_def)
qed

lemma wait_loop_arrivals:
  assumes fits: "window_fits data" and n: "n = num_blocks PYRO_MAX_PAYLOAD_SIZE (length data)"
    and h: "video_header_for data h" and seq: "seq_ok seq"
    and R: "receiving h seq data n (packet_indices data h) pre c"
    and evs: "\<forall>e \<in> set evs. arrival_ok n (length (packet_indices data h)) e" "fec_once (pre @ evs)"
    and all: "recoverable (packet_indices data h) (raws (pre @ evs)) (fecs (pre @ evs)) = {..<n}"
    and len: "length instants = length evs"
  shows "\<exists>c' rest seen. wait_loop t_end (zip instants (map (dgram h key seq data (packet_indices data h)) evs)) c
      = Some (True, c', rest) \<and> received h seq data n (packet_indices data h) seen c'"
  using R evs all len
proof (induction evs arbitrary: pre c instants)
  case Nil
  with receiving_not_all[OF Nil.prems(1) window_blocks(1)[OF fits n]] show ?case by simp
next
  case (Cons e evs)
  then obtain t ts where t: "instants = t # ts" "length ts = length evs" by (cases instants) auto
  have once: "fec_once (pre @ [e])" "fec_once ((pre @ [e]) @ evs)"
    using Cons.prems(3) by (auto simp: fec_once_def)
  from iterate_arrival[OF fits n h seq Cons.prems(1) _ once(1), of t key] Cons.prems(2) obtain c1 where
    it: "iterate t (dgram h key seq data (packet_indices data h) e) c = Some (True, c1)"
    and alt: "received h seq data n (packet_indices data h) (pre @ [e]) c1
       \<or> receiving h seq data n (packet_indices data h) (pre @ [e]) c1"
    by auto
  have cur: "current c = None" using Cons.prems(1) by (simp add: receiving_def)
  from alt show ?case
  proof
    assume r: "received h seq data n (packet_indices data h) (pre @ [e]) c1"
    then have "current c1 \<noteq> None" by (simp add: received_def)
    then have "wait_loop t_end xs c1 = Some (True, c1, xs)" for xs by (cases xs) auto
    with it cur r t(1) show ?thesis by auto
  next
    assume r: "receiving h seq data n (packet_indices data h) (pre @ [e]) c1"
    from Cons.IH[OF r _ once(2) _ t(2)] Cons.prems(2,4) obtain c' rest seen where
      "wait_loop t_end (zip ts (map (dgram h key seq data (packet_indices data h)) evs)) c1 = Some (True, c', rest)"
      "received h seq data n (packet_indices data h) seen c'"
      by auto
    with it cur t(1) show ?thesis by auto
  qed
qed

text \<open>What the application then reads.\<close>

lemma received_data:
  assumes fits: "window_fits data" and n: "n = num_blocks PYRO_MAX_PAYLOAD_SIZE (length data)"
    and R: "received h seq data n pss evs c" and sz: "payload_size h = word_of_nat (length data)"
  shows "get_packet_size c = length data"
    and "map_option (take (get_packet_size c)) (get_packet_data c) = Some data"
    and "map_option pts_lo (get_payload_header c) = Some (pts_lo h)"
    and "map_option pts_hi (get_payload_header c) = Some (pts_hi h)"
proof -
  let ?p = "fst (video c)" and ?bs = PYRO_MAX_PAYLOAD_SIZE
  have cur: "current c = Some False" and inv: "rp_inv h seq data n pss evs ?p" and fin: "is_done ?p"
    using R by (simp_all add: received_def)
  have "evs \<noteq> []" using inv fin by (auto simp: rp_inv_def)
  then have "dec_stable n ?bs (data_block ?bs data) pss (fecs evs) (rp_decoder ?p)" "known n (rp_decoder ?p) = {..<n}"
    "buffer ?p = output_data (rp_decoder ?p)"
    using inv fin by (auto simp: rp_inv_def run_inv_def)
  then have buf: "buffer ?p = data @ replicate (?bs * n - length data) 0"
    using known_all_output data_blocks_concat[OF payload_size_pos n] by simp
  have "length data < 2 ^ 32" using packet_fits_blocks(3)[OF window_fits_packet[OF fits] n] .
  then show size: "get_packet_size c = length data"
    using inv cur sz by (simp add: get_packet_size_def rp_packet_size_def slot_def stream_slots_def rp_inv_def unat_of_nat)
  show "map_option (take (get_packet_size c)) (get_packet_data c) = Some data"
    by (simp add: size get_packet_data_def cur slot_def stream_slots_def buf)
  show "map_option pts_lo (get_payload_header c) = Some (pts_lo h)"
    and "map_option pts_hi (get_payload_header c) = Some (pts_hi h)"
    using inv by (simp_all add: get_payload_header_def cur slot_def stream_slots_def rp_inv_def)
qed

section \<open>From the server to the client\<close>

lemma packet_header_video:
  assumes "window_fits data"
  shows "video_header_for data (packet_header pts dts (length data) False key True seq)"
proof -
  define n where "n = num_blocks PYRO_MAX_PAYLOAD_SIZE (length data)"
  obtain m ke ko where fp: "fec_parameters n = (m, ke, ko)" by (rule prod_cases3)
  note fpp = fec_parameters_props[OF window_blocks(1)[OF assms n_def] fp]
  have "m \<le> 2049" using packet_indices_ok(4)[OF assms n_def fp] .
  then have "unat (word_of_nat m :: u16) = m" "unat (word_of_nat ke :: u8) = ke" "unat (word_of_nat ko :: u8) = ko"
    using fpp(7,8) unfolding unat_of_nat by simp_all
  then show ?thesis
    using packet_fits_blocks(4)[OF window_fits_packet[OF assms] n_def]
    by (simp add: video_header_for_def packet_header_def n_def[symmetric] fp Let_def)
qed

definition arrival_of :: "nat \<Rightarrow> nat \<Rightarrow> arrival" where
  "arrival_of n j = (if j < n then Raw j else Fec (j - n))"

definition packet_blocks :: "byte list \<Rightarrow> nat" where
  "packet_blocks data = num_blocks PYRO_MAX_PAYLOAD_SIZE (length data)"

definition packet_fec_blocks :: "byte list \<Rightarrow> nat" where
  "packet_fec_blocks data = fst (fec_parameters (packet_blocks data))"

text \<open>
  The numbers of the datagrams that the network delivers, in the order in which it does: any selection and
  order, with any repetition of data datagrams but none of FEC datagrams.
\<close>

definition delivery :: "byte list \<Rightarrow> nat list \<Rightarrow> bool" where
  "delivery data js \<longleftrightarrow> (\<forall>j \<in> set js. j < packet_blocks data + packet_fec_blocks data)
     \<and> distinct (filter (\<lambda>j. packet_blocks data \<le> j) js)"

definition delivered_data :: "byte list \<Rightarrow> nat list \<Rightarrow> nat set" where
  "delivered_data data js = {j \<in> set js. j < packet_blocks data}"

definition delivered_fec :: "byte list \<Rightarrow> nat list \<Rightarrow> nat set" where
  "delivered_fec data js = {f. packet_blocks data + f \<in> set js}"

text \<open>The index lists of a packet depend on its payload size and on the low half of its time stamp.\<close>

definition stream_indices :: "u64 \<Rightarrow> byte list \<Rightarrow> nat list list" where
  "stream_indices pts data = packet_indices data (packet_header pts 0 (length data) False False True 0)"

lemma stream_indices_eq:
  "packet_indices data (packet_header pts dts (length data) False key True seq) = stream_indices pts data"
  by (simp add: stream_indices_def packet_indices_def packet_header_def Let_def split: prod.split)

lemma delivery_arrivals:
  assumes d: "delivery data js" and fits: "window_fits data"
  defines "n \<equiv> packet_blocks data"
  shows "\<forall>e \<in> set (map (arrival_of n) js). arrival_ok n (packet_fec_blocks data) e"
    "fec_once (map (arrival_of n) js)"
    "raws (map (arrival_of n) js) = delivered_data data js" "fecs (map (arrival_of n) js) = delivered_fec data js"
proof -
  show "\<forall>e \<in> set (map (arrival_of n) js). arrival_ok n (packet_fec_blocks data) e"
    using d by (auto simp: arrival_of_def delivery_def n_def)
  have "filter (\<lambda>e. case e of Fec _ \<Rightarrow> True | Raw _ \<Rightarrow> False) (map (arrival_of n) js)
      = map (arrival_of n) (filter (\<lambda>j. n \<le> j) js)"
    by (induction js) (auto simp: arrival_of_def)
  moreover have "distinct (map (arrival_of n) (filter (\<lambda>j. n \<le> j) js))"
  proof -
    have "inj_on (arrival_of n) (set (filter (\<lambda>j. n \<le> j) js))" by (auto simp: inj_on_def arrival_of_def)
    moreover have "distinct (filter (\<lambda>j. n \<le> j) js)" using d by (simp add: delivery_def n_def)
    ultimately show ?thesis by (simp only: distinct_map)
  qed
  ultimately show "fec_once (map (arrival_of n) js)" by (simp only: fec_once_def)
  show "raws (map (arrival_of n) js) = delivered_data data js"
    by (auto simp: raws_def delivered_data_def arrival_of_def n_def split: if_splits)
  show "fecs (map (arrival_of n) js) = delivered_fec data js"
    unfolding fecs_def delivered_fec_def n_def[symmetric]
  proof (intro Collect_cong iffI)
    fix f assume "Fec f \<in> set (map (arrival_of n) js)"
    then show "n + f \<in> set js" by (auto simp: arrival_of_def split: if_splits)
  next
    fix f assume "n + f \<in> set js"
    then have "arrival_of n (n + f) \<in> set (map (arrival_of n) js)" by simp
    then show "Fec f \<in> set (map (arrival_of n) js)" by (simp add: arrival_of_def)
  qed
qed

lemma video_datagrams_dgram:
  fixes pts dts :: u64 and key :: bool and seq :: u32
  assumes fits: "window_fits data"
  defines "h \<equiv> packet_header pts dts (length data) False key True seq"
  shows "length (video_datagrams pts dts data key seq) = packet_blocks data + packet_fec_blocks data"
    "j < packet_blocks data + packet_fec_blocks data \<Longrightarrow>
     video_datagrams pts dts data key seq ! j = dgram h key seq data (packet_indices data h) (arrival_of (packet_blocks data) j)"
proof -
  obtain m ke ko where fp: "fec_parameters (packet_blocks data) = (m, ke, ko)" by (rule prod_cases3)
  note vd = video_datagrams_def[of pts dts data key seq]
  have "video_datagrams pts dts data key seq = map (data_datagram h key False seq data) [0..<packet_blocks data]
      @ map (fec_datagram h key seq data (packet_indices data h)) [0..<m]"
    using fp by (simp add: vd h_def packet_blocks_def packet_indices_def Let_def)
  moreover have "packet_fec_blocks data = m" by (simp add: packet_fec_blocks_def fp)
  ultimately show "length (video_datagrams pts dts data key seq) = packet_blocks data + packet_fec_blocks data"
    "j < packet_blocks data + packet_fec_blocks data \<Longrightarrow>
     video_datagrams pts dts data key seq ! j = dgram h key seq data (packet_indices data h) (arrival_of (packet_blocks data) j)"
    by (auto simp: nth_append arrival_of_def)
qed

text \<open>What the client's application obtains, as one predicate: the packet, its size and its time stamp.\<close>

definition client_gets :: "u64 \<Rightarrow> byte list \<Rightarrow> stream_client \<Rightarrow> bool" where
  "client_gets pts data cl \<longleftrightarrow>
     get_packet_size cl = length data
     \<and> map_option (take (get_packet_size cl)) (get_packet_data cl) = Some data
     \<and> map_option pts_lo (get_payload_header cl) = Some (ucast pts)
     \<and> map_option pts_hi (get_payload_header cl) = Some (ucast (drop_bit 32 pts))"

definition client_ready :: "u32 \<Rightarrow> stream_client \<Rightarrow> bool" where
  "client_ready seq cl \<longleftrightarrow> current cl = None \<and> write_script cl = [] \<and> idle_video cl \<and> fresh_seq seq cl"

definition server_ready :: "byte list \<Rightarrow> stream_connection \<Rightarrow> bool" where
  "server_ready stack c \<longleftrightarrow> video_ready c \<and> conn_fec c \<and> seq_ok (packet_seq_video c)
     \<and> shuffler_inv (enc_shuffler (conn_encoder c)) \<and> length stack = PYRO_MAX_PAYLOAD_SIZE"

lemma transfer_recoverable:
  assumes srv: "server_ready stack c" and pts: "pts_ok pts dts" and fits: "window_fits data"
    and cl: "client_ready (packet_seq_video c) cl" and js: "delivery data js"
    and enough: "{..<packet_blocks data} \<subseteq> recoverable (stream_indices pts data) (delivered_data data js) (delivered_fec data js)"
    and len: "length instants = length js"
  shows "\<exists>c' out cl' rest. conn_write_video_packet stack pts dts data key c = Some c'
    \<and> udp_out c' = udp_out c @ map (Pair (udp_remote c)) out
    \<and> wait_next_packet t_end (zip instants (map (\<lambda>j. out ! j) js)) cl = Some (True, cl', rest)
    \<and> client_gets pts data cl'"
proof -
  let ?seq = "packet_seq_video c" and ?out = "video_datagrams pts dts data key (packet_seq_video c)"
  define n where "n = packet_blocks data"
  have n: "n = num_blocks PYRO_MAX_PAYLOAD_SIZE (length data)" by (simp add: n_def packet_blocks_def)
  define h where "h = packet_header pts dts (length data) False key True ?seq"
  have seq: "seq_ok ?seq" using srv by (simp add: server_ready_def)
  from write_video_fec[of c pts dts data stack key] srv pts window_fits_packet[OF fits] obtain c' where
    c': "conn_write_video_packet stack pts dts data key c = Some c'" "udp_out c' = udp_out c @ map (Pair (udp_remote c)) ?out"
    by (auto simp: server_ready_def conn_write_video_packet_def)
  have pi: "packet_indices data h = stream_indices pts data" unfolding h_def by (rule stream_indices_eq)
  have vh: "video_header_for data h" unfolding h_def by (rule packet_header_video[OF fits])
  have lp: "length (packet_indices data h) = packet_fec_blocks data"
    using packet_indices_ok(2)[OF fits n, where h = h]
    by (cases "fec_parameters n") (auto simp: packet_fec_blocks_def n_def)
  note ar = delivery_arrivals[OF js fits, folded n_def]
  have eq: "map (\<lambda>j. ?out ! j) js = map (dgram h key ?seq data (packet_indices data h)) (map (arrival_of n) js)"
    using js by (auto simp: delivery_def h_def n_def video_datagrams_dgram(2)[OF fits])
  have sub: "recoverable (stream_indices pts data) (delivered_data data js) (delivered_fec data js) \<subseteq> {..<n}"
  proof (rule recoverable_least)
    show "delivered_data data js \<subseteq> {..<n}" by (auto simp: delivered_data_def n_def)
    obtain m ke ko where "fec_parameters n = (m, ke, ko)" by (rule prod_cases3)
    note ok = packet_indices_ok(3)[OF fits n this, of h]
    show "peel_closed (stream_indices pts data) (delivered_fec data js) {..<n}"
      using code_ok_index(2)[OF ok] unfolding pi peel_closed_def by auto
  qed
  have all: "recoverable (packet_indices data h) (raws ([] @ map (arrival_of n) js)) (fecs ([] @ map (arrival_of n) js)) = {..<n}"
    using enough sub ar(3,4) by (auto simp: pi n_def)
  have R: "receiving h ?seq data n (packet_indices data h) [] cl"
    using cl by (simp add: client_ready_def receiving_def)
  have "release_current cl = cl" using cl by (simp add: release_current_def client_ready_def)
  moreover from wait_loop_arrivals[OF fits n vh seq R _ _ all, of instants t_end key] ar(1,2) lp len obtain cl' rest seen where
    w: "wait_loop t_end (zip instants (map (dgram h key ?seq data (packet_indices data h)) (map (arrival_of n) js))) cl
      = Some (True, cl', rest)" "received h ?seq data n (packet_indices data h) seen cl'"
    by auto
  ultimately have "wait_next_packet t_end (zip instants (map (\<lambda>j. ?out ! j) js)) cl = Some (True, cl', rest)"
    unfolding eq by (simp add: wait_next_packet_def)
  moreover have "client_gets pts data cl'"
  proof -
    have hs: "payload_size h = word_of_nat (length data)" "pts_lo h = ucast pts" "pts_hi h = ucast (drop_bit 32 pts)"
      by (simp_all add: h_def packet_header_def Let_def split: prod.split)
    show ?thesis using received_data[OF fits n w(2) hs(1)] by (simp add: client_gets_def hs(2,3))
  qed
  ultimately show ?thesis using c' by blast
qed

text \<open>Which single losses the FEC blocks of a packet cover.\<close>

lemma single_loss_recoverable:
  assumes fits: "window_fits data" and small: "packet_blocks data \<le> 128" and lost: "lost < packet_blocks data"
    and raw: "{..<packet_blocks data} - {lost} \<subseteq> raw" and fec: "{..<packet_fec_blocks data} \<subseteq> got"
  shows "{..<packet_blocks data} \<subseteq> recoverable (stream_indices pts data) raw got"
proof -
  define n where "n = packet_blocks data"
  have n: "n = num_blocks PYRO_MAX_PAYLOAD_SIZE (length data)" by (simp add: n_def packet_blocks_def)
  obtain m ke ko where fp: "fec_parameters n = (m, ke, ko)" by (rule prod_cases3)
  define h where "h = packet_header pts 0 (length data) False False True 0"
  have pi: "stream_indices pts data = packet_indices data h" by (simp add: stream_indices_def h_def)
  note pio = packet_indices_ok(1-3)[OF fits n fp, where h = h]
  note fpp = fec_parameters_props[OF window_blocks(1)[OF fits n] fp]
  have m: "packet_fec_blocks data = m" by (simp add: packet_fec_blocks_def n_def[symmetric] fp)
  have "\<exists>f < m. lost \<in> set (packet_indices data h ! f)"
  proof (cases "n \<le> 8")
    case True
    with fp have "m = 1" "ke = n" "ko = n" by (auto simp: fec_parameters_def)
    with full_group_set[of 1 n n "unat (pts_lo h)"] lost show ?thesis by (auto simp: pio(1) n_def)
  next
    case False
    with fp small have k: "ke + ko = n" "2 \<le> m" by (auto simp: fec_parameters_def n_def)
    have "lost \<in> set (packet_indices data h ! 0) \<union> set (packet_indices data h ! 1)"
      unfolding pio(1) two_groups_cover(1)[OF k(1) fpp(1,3) k(2)] using lost by (simp add: n_def)
    with k(2) show ?thesis by (auto intro: exI[of _ 0] exI[of _ 1])
  qed
  then obtain f where f: "f < m" "lost \<in> set (packet_indices data h ! f)" by blast
  have "set (packet_indices data h ! f) \<subseteq> {..<n}" using code_ok_index(2)[OF pio(3)] f(1) pio(2) by auto
  then show ?thesis
    using recover_single[of f got "packet_indices data h" lost n raw] f fec raw lost
    by (auto simp: pi pio(2) m n_def)
qed

section \<open>What the stream promises\<close>

text \<open>
  C1.  A video packet survives the network.  The server packetises a payload with FEC; the network delivers
  any selection of its datagrams in any order, with repeated data datagrams but no repeated FEC datagram.
  Whenever the data blocks can be determined by peeling from what was delivered, the waiting client returns
  a packet, and it is the payload with its size and time stamp.
\<close>

theorem video_packet_transfer:
  assumes "server_ready stack c" "pts_ok pts dts" "window_fits data"
    and "client_ready (packet_seq_video c) cl" "delivery data js" "length instants = length js"
    and "{..<packet_blocks data} \<subseteq> recoverable (stream_indices pts data) (delivered_data data js) (delivered_fec data js)"
  shows "\<exists>c' out cl' rest. conn_write_video_packet stack pts dts data key c = Some c'
    \<and> udp_out c' = udp_out c @ map (Pair (udp_remote c)) out
    \<and> wait_next_packet t_end (zip instants (map (\<lambda>j. out ! j) js)) cl = Some (True, cl', rest)
    \<and> client_gets pts data cl'"
  using transfer_recoverable[OF assms(1-5,7,6)] .

text \<open>
  C2.  One lost datagram is repaired.  For a packet of at most 128 data blocks, when all its datagrams but
  one data datagram arrive, in any order, the client obtains the packet.
\<close>

theorem single_loss_transfer:
  assumes "server_ready stack c" "pts_ok pts dts" "window_fits data" "packet_blocks data \<le> 128"
    and "client_ready (packet_seq_video c) cl" "delivery data js" "length instants = length js"
    and "lost < packet_blocks data"
    and "{..<packet_blocks data + packet_fec_blocks data} - {lost} \<subseteq> set js"
  shows "\<exists>c' out cl' rest. conn_write_video_packet stack pts dts data key c = Some c'
    \<and> udp_out c' = udp_out c @ map (Pair (udp_remote c)) out
    \<and> wait_next_packet t_end (zip instants (map (\<lambda>j. out ! j) js)) cl = Some (True, cl', rest)
    \<and> client_gets pts data cl'"
proof (rule transfer_recoverable[OF assms(1-3,5,6) _ assms(7)])
  show "{..<packet_blocks data} \<subseteq> recoverable (stream_indices pts data) (delivered_data data js) (delivered_fec data js)"
    using assms(3,4,8)
  proof (rule single_loss_recoverable)
    show "{..<packet_blocks data} - {lost} \<subseteq> delivered_data data js"
      using assms(9) by (auto simp: delivered_data_def)
    show "{..<packet_fec_blocks data} \<subseteq> delivered_fec data js"
      using assms(8,9) by (auto simp: delivered_fec_def)
  qed
qed

text \<open>A connection and a client on which the theorems are applied.\<close>

definition sample_remote :: remote_address where
  "sample_remote = \<lparr>addr = [127, 0, 0, 1], addr_size = 4\<rparr>"

definition sample_connection :: stream_connection where
  "sample_connection = (connection_new sample_remote 1001)\<lparr>udp_remote := sample_remote, kicked := True,
     kick_flags := PYRO_KICK_STATE_VIDEO_BIT, conn_fec := True\<rparr>"

lemma sample_ready:
  "server_ready (replicate 1024 0) sample_connection" "pts_ok 100 100"
  "client_ready (packet_seq_video sample_connection) (client_new 0 [])"
proof -
  have "seq_ok (packet_seq_video sample_connection)"
    unfolding sample_connection_def connection_new_def by (simp add: seq_ok_def)
  then show "server_ready (replicate 1024 0) sample_connection"
    by (simp add: server_ready_def video_ready_def sample_connection_def connection_new_def remote_valid_def
        sample_remote_def PYRO_KICK_STATE_VIDEO_BIT_def PYRO_MAX_PAYLOAD_SIZE_def encoder_new_def)
  show "pts_ok 100 100" by (simp add: pts_ok_def)
  show "client_ready (packet_seq_video sample_connection) (client_new 0 [])"
    by (simp add: client_ready_def client_new_def idle_video_def is_reset_def packet_new_def fresh_seq_def
        decoder_reusable_def decoder_new_def pow2_capacity_def)
qed

lemma sample_data:
  "window_fits [1, 2, 3]" "packet_blocks [1, 2, 3] = 1" "packet_fec_blocks [1, 2, 3] = 1"
  by (simp_all add: window_fits_def packet_blocks_def packet_fec_blocks_def num_blocks_def fec_parameters_def
      PYRO_MAX_PAYLOAD_SIZE_def)

theorem video_packet_transfer_witness:
  "\<exists>c' out cl' rest. conn_write_video_packet (replicate 1024 0) 100 100 [1, 2, 3] True sample_connection = Some c'
    \<and> udp_out c' = udp_out sample_connection @ map (Pair (udp_remote sample_connection)) out
    \<and> wait_next_packet 9 (zip [5, 6] (map (\<lambda>j. out ! j) [0, 1])) (client_new 0 []) = Some (True, cl', rest)
    \<and> client_gets 100 [1, 2, 3] cl'"
proof (rule video_packet_transfer[OF sample_ready(1,2) sample_data(1) sample_ready(3)])
  show "delivery [1, 2, 3] [0, 1]" by (simp add: delivery_def sample_data)
  have "delivered_data [1, 2, 3] [0, 1] = {..<1}" by (auto simp: delivered_data_def sample_data)
  then show "{..<packet_blocks [1, 2, 3]} \<subseteq> recoverable (stream_indices 100 [1, 2, 3])
      (delivered_data [1, 2, 3] [0, 1]) (delivered_fec [1, 2, 3] [0, 1])"
    by (auto simp: sample_data intro: recoverable.direct)
qed simp

theorem single_loss_transfer_witness:
  "\<exists>c' out cl' rest. conn_write_video_packet (replicate 1024 0) 100 100 [1, 2, 3] True sample_connection = Some c'
    \<and> udp_out c' = udp_out sample_connection @ map (Pair (udp_remote sample_connection)) out
    \<and> wait_next_packet 9 (zip [5] (map (\<lambda>j. out ! j) [1])) (client_new 0 []) = Some (True, cl', rest)
    \<and> client_gets 100 [1, 2, 3] cl'"
proof (rule single_loss_transfer[OF sample_ready(1,2) sample_data(1) _ sample_ready(3)])
  show "delivery [1, 2, 3] [1]" by (simp add: delivery_def sample_data)
  show "{..<packet_blocks [1, 2, 3] + packet_fec_blocks [1, 2, 3]} - {0} \<subseteq> set [1]" by (auto simp: sample_data)
qed (simp_all add: sample_data)

end
