(* ===== verification/Client_Slots.thy ===== *)
theory Client_Slots
  imports Stream_Transfer
begin

text \<open>
  The packet slots of the stream client under any sequence of datagrams: their well-formedness, which is what the
  assertion of \<open>get_stream_packet\<close> and the accessors of \<open>pyro_client.cpp\<close> rely on, and what an inconsistent datagram
  does to a slot.
\<close>

section \<open>The size of the output\<close>

lemma write_bytes_length: "write_bytes mem off b = Some mem' \<Longrightarrow> length mem' = length mem"
  by (auto simp: write_bytes_def split: if_splits)

lemma mark_decoded_output: "mark_decoded_block i d = Some (f, d') \<Longrightarrow> output_data d' = output_data d"
  by (auto simp: mark_decoded_block_def Option.bind_eq_Some_conv split: if_splits)

lemma drain_ready_block_output:
  assumes "drain_ready_block f d = Some d'"
  shows "length (output_data d') = length (output_data d)"
  using assms
  by (auto simp: drain_ready_block_def Let_def Option.bind_eq_Some_conv split: if_splits
      dest!: mark_decoded_output propagate_decoded_block_frame write_bytes_length)

lemma drain_ready_blocks_output:
  "drain_ready_blocks d = Some d' \<Longrightarrow> length (output_data d') = length (output_data d)"
proof (induction d arbitrary: d' rule: drain_ready_blocks.induct)
  case (1 d)
  show ?case
  proof (cases "ready_encoded_links d = []")
    case True
    with "1.prems" show ?thesis by (simp add: drain_ready_blocks.simps)
  next
    case False
    with "1.prems" obtain d1 where
      d1: "drain_ready_block (last (ready_encoded_links d)) (d\<lparr>ready_encoded_links := butlast (ready_encoded_links d)\<rparr>) = Some d1"
        "drain_ready_blocks d1 = Some d'"
      by (subst (asm) drain_ready_blocks.simps) (auto simp: Option.bind_eq_Some_conv)
    from "1.IH"[OF False d1] drain_ready_block_output[OF d1(1)] show ?thesis by simp
  qed
qed

lemma push_output:
  "push_raw_block i d = Some (fin, d') \<Longrightarrow> length (output_data d') = length (output_data d)"
  "push_fec_block i data d = Some (fin, d') \<Longrightarrow> length (output_data d') = length (output_data d)"
  by (auto simp: push_raw_block_def push_fec_block_def Let_def Option.bind_eq_Some_conv split: if_splits
      dest!: mark_decoded_output propagate_decoded_block_frame drain_ready_blocks_output)

lemma seed_block_output: "seed_block f d = Some d' \<Longrightarrow> output_data d' = output_data d"
  by (auto simp: seed_block_def Let_def Option.bind_eq_Some_conv)

lemma reserve_indices_output: "reserve_indices n d = Some d' \<Longrightarrow> output_data d' = output_data d"
  by (auto simp: reserve_indices_def Option.bind_eq_Some_conv)

lemma begin_decode_output:
  assumes "begin_decode sd data sz m ke ko d = Some d'"
  shows "output_data d' = data"
proof -
  from assms obtain d1 where d1: "for_list seed_block [0..<m] d1 = Some d'" "output_data d1 = data"
    by (auto simp: begin_decode_def Let_def Option.bind_eq_Some_conv dest!: reserve_indices_output)
  have "output_data d' = data"
    by (rule for_list_preserves[where P = "\<lambda>d. output_data d = data", OF d1(1)]) (auto simp: d1(2) dest: seed_block_output)
  then show ?thesis .
qed

section \<open>Well-formed packets and slots\<close>

text \<open>A header of a packet that is not empty and that the buffer can hold.\<close>

definition sane :: "pyro_payload_header \<Rightarrow> bool" where
  "sane h \<longleftrightarrow> 0 < unat (payload_size h) \<and> unat (payload_size h) \<le> 65532 * PYRO_MAX_PAYLOAD_SIZE"

lemma sane_buffer:
  assumes "sane h"
  shows "0 < buffer_size_for h" "unat (payload_size h) \<le> buffer_size_for h"
proof -
  let ?d = "replicate (unat (payload_size h)) (0 :: byte)"
  have "packet_fits ?d" using assms by (simp add: sane_def packet_fits_def)
  from buffer_size_for_eq[OF this] have b: "buffer_size_for h = 1024 * ((unat (payload_size h) + 1023) div 1024)"
    by (simp add: num_blocks_def PYRO_MAX_PAYLOAD_SIZE_def)
  have "unat (payload_size h) \<le> 1024 * ((unat (payload_size h) + 1023) div 1024)"
    using div_mult_mod_eq[of "unat (payload_size h) + 1023" 1024] mod_less_divisor[of 1024 "unat (payload_size h) + 1023"] by linarith
  with b assms show "unat (payload_size h) \<le> buffer_size_for h" "0 < buffer_size_for h"
    by (simp_all add: sane_def)
qed

definition packet_wf :: "reconstructed_packet \<Rightarrow> bool" where
  "packet_wf p \<longleftrightarrow> is_reset p \<or> rp_packet_size p \<le> length (buffer p) \<and> 0 < rp_packet_size p"

definition slots_wf :: "slots \<Rightarrow> bool" where
  "slots_wf ps \<longleftrightarrow> packet_wf (fst ps) \<and> packet_wf (snd ps) \<and> (is_reset (fst ps) \<longrightarrow> is_reset (snd ps))"

lemma rp_reset_wf [simp]: "is_reset (rp_reset p)" "packet_wf (rp_reset p)"
  by (simp_all add: is_reset_def rp_reset_def packet_wf_def)

lemma prepare_decode_wf:
  assumes "prepare_decode h p = Some p'" "sane h" "packet_wf p"
  shows "packet_wf p'" "\<not> is_reset p'"
proof -
  have t: "buffer (track_subpacket h q) = buffer q" "current_header (track_subpacket h q) = current_header q" for q
    by (simp_all add: track_subpacket_def Let_def)
  have "packet_wf q \<and> \<not> is_reset q" if "(if buffer p = [] then start_packet h p else Some p) = Some q" for q
  proof (cases "buffer p = []")
    case True
    with that obtain d where "begin_decode (unat (pts_lo h)) (replicate (buffer_size_for h) 0) (buffer_size_for h)
        (unat (num_fec_blocks h)) (unat (hdr_xor_blocks_even h)) (unat (hdr_xor_blocks_odd h))
        (dec_set_block_size PYRO_MAX_PAYLOAD_SIZE (rp_decoder p)) = Some d" "buffer q = output_data d" "current_header q = h"
      by (auto simp: start_packet_def Let_def Option.bind_eq_Some_conv)
    then have "buffer q = replicate (buffer_size_for h) 0" "current_header q = h" using begin_decode_output by auto
    with sane_buffer[OF assms(2)] assms(2) show ?thesis
      by (simp add: packet_wf_def is_reset_def rp_packet_size_def sane_def)
  next
    case False
    with that assms(3) show ?thesis by (auto simp: is_reset_def)
  qed
  moreover from assms(1) obtain q where "(if buffer p = [] then start_packet h p else Some p) = Some q"
      "buffer p' = buffer q" "current_header p' = current_header q"
    unfolding prepare_decode_def Option.bind_eq_Some_conv by (auto simp: t)
  ultimately show "packet_wf p'" "\<not> is_reset p'" by (auto simp: packet_wf_def is_reset_def rp_packet_size_def)
qed

lemma store_subpacket_length: "store_subpacket off data mem = Some mem' \<Longrightarrow> length mem' = length mem"
  by (auto simp: store_subpacket_def Option.bind_eq_Some_conv split: if_splits dest!: write_bytes_length)

lemma add_data_keeps:
  "add_payload_data data p = Some p' \<Longrightarrow> length (buffer p') = length (buffer p) \<and> current_header p' = current_header p"
  "add_fec_data sub data p = Some p' \<Longrightarrow> length (buffer p') = length (buffer p) \<and> current_header p' = current_header p"
  by (auto simp: add_payload_data_def add_fec_data_def Let_def Option.bind_eq_Some_conv split: if_splits
      dest!: push_output store_subpacket_length)

lemma add_data_wf:
  assumes "add_payload_data data p = Some p' \<or> add_fec_data sub data p = Some p'" "packet_wf p" "\<not> is_reset p"
  shows "packet_wf p'" "\<not> is_reset p'"
proof -
  have "length (buffer p') = length (buffer p) \<and> current_header p' = current_header p"
    using assms(1) add_data_keeps by blast
  with assms(2,3) show "packet_wf p'" "\<not> is_reset p'"
    by (auto simp: packet_wf_def is_reset_def rp_packet_size_def)
qed

section \<open>The client\<close>

definition client_wf :: "stream_client \<Rightarrow> bool" where
  "client_wf c \<longleftrightarrow> slots_wf (video c) \<and> slots_wf (audio c)
     \<and> (\<forall>a. current c = Some a \<longrightarrow> \<not> is_reset (fst (stream_slots a c)) \<and> is_complete (fst (stream_slots a c)))"

definition slot_view :: "stream_client \<Rightarrow> slots \<times> slots \<times> bool option" where
  "slot_view c = (video c, audio c, current c)"

lemma client_wf_view: "slot_view c' = slot_view c \<Longrightarrow> client_wf c' = client_wf c"
  by (simp add: client_wf_def slot_view_def stream_slots_def)

lemma slot_view_frame [simp]:
  "slot_view (register_received_packet_size now n c) = slot_view c" "slot_view (receive_ping now h b c) = slot_view c"
  "slot_view (count_drops a d c) = slot_view c" "slot_view (count_complete r k c) = slot_view c"
  "slot_view (set_last_completed_seq a q c) = slot_view c"
  by (simp_all add: slot_view_def register_received_packet_size_def receive_ping_def count_drops_def count_complete_def
      set_last_completed_seq_def Let_def)

lemma tcp_write_view: "tcp_write m c = (ok, c') \<Longrightarrow> slot_view c' = slot_view c"
  by (auto simp: tcp_write_def next_write_def slot_view_def split: list.splits)

lemma slot_view_update [simp]:
  "slot_view (c\<lparr>last_progress_time := t\<rparr>) = slot_view c" "slot_view (c\<lparr>request_immediate_feedback := b\<rparr>) = slot_view c"
  by (simp_all add: slot_view_def)

lemma check_send_progress_view: "check_send_progress now c = (ok, c') \<Longrightarrow> slot_view c' = slot_view c"
  by (auto simp: check_send_progress_def Let_def split: if_splits prod.splits dest!: tcp_write_view)

lemma stream_slots_view: "slot_view c' = slot_view c \<Longrightarrow> stream_slots a c' = stream_slots a c"
  by (simp add: slot_view_def stream_slots_def)

lemma stream_slots_set [simp]:
  "stream_slots a (set_stream_slots b ps c) = (if a = b then ps else stream_slots a c)"
  "current (set_stream_slots b ps c) = current c"
  by (auto simp: stream_slots_def set_stream_slots_def)

lemma client_wf_streams:
  "client_wf c \<longleftrightarrow> (\<forall>a. slots_wf (stream_slots a c)) \<and>
     (\<forall>a. current c = Some a \<longrightarrow> \<not> is_reset (fst (stream_slots a c)) \<and> is_complete (fst (stream_slots a c)))"
  by (auto simp: client_wf_def stream_slots_def)

lemma get_stream_packet_wf:
  assumes "slots_wf ps"
  shows "\<exists>found ps'. get_stream_packet ps seq = Some (found, ps') \<and> packet_wf (fst ps') \<and> packet_wf (snd ps')
    \<and> (case found of None \<Rightarrow> ps' = ps | Some i \<Rightarrow> i = 0 \<or> i = 1 \<and> \<not> is_reset (fst ps'))"
proof -
  have g: "is_reset (fst ps) \<longrightarrow> is_reset (snd ps)" and wf: "packet_wf (fst ps)" "packet_wf (snd ps)"
    using assms by (auto simp: slots_wf_def)
  have n: "packet_wf ((rp_reset p)\<lparr>rp_seq := q\<rparr>)" for p q by (simp add: packet_wf_def is_reset_def rp_reset_def)
  have ins: "insert_position ps k seq \<le> k" for k
    unfolding insert_position_def by (metis length_takeWhile_le length_upt minus_nat.diff_0)
  note defs = get_stream_packet_def new_in_slot_def set_slot_def slot_def swap_slots_def num_active_packets_def Let_def
  have two: "i = 0 \<or> i = Suc 0" if "List.find P [0..<2] = Some i" for i P
    using that by (auto simp: find_Some_iff less_2_cases_iff)
  have one: "i = 0" if "List.find P [0..<Suc 0] = Some i" for i and P :: "nat \<Rightarrow> bool"
    using that unfolding find_Some_iff by auto
  consider "is_reset (fst ps)" "is_reset (snd ps)" | "\<not> is_reset (fst ps)" "is_reset (snd ps)"
    | "\<not> is_reset (fst ps)" "\<not> is_reset (snd ps)" using g by blast
  then show ?thesis
  proof cases
    case 1
    with wf n show ?thesis by (simp add: defs)
  next
    case 2
    with wf n ins[of 1] show ?thesis by (cases ps) (auto simp: defs le_Suc_eq dest: one split: option.splits)
  next
    case 3
    with wf n ins[of 2] show ?thesis by (cases ps) (auto simp: defs le_Suc_eq dest: two split: option.splits)
  qed
qed

lemma set_slot_wf:
  assumes "packet_wf (fst ps)" "packet_wf (snd ps)" "i = 0 \<or> i = 1 \<and> \<not> is_reset (fst ps)" "packet_wf p" "\<not> is_reset p"
  shows "slots_wf (set_slot i p ps)"
  using assms by (auto simp: slots_wf_def set_slot_def)

lemma complete_packet_wf:
  assumes "complete_packet now a flags i c = (ok, c')" "client_wf c" "current c = None" "i \<le> 1"
    "is_complete (slot (stream_slots a c) i)" "\<not> is_reset (slot (stream_slots a c) i)"
  shows "client_wf c'"
proof -
  define ps where "ps = (if i = 1 then swap_slots (set_slot 0 (rp_reset (slot (stream_slots a c) 0)) (stream_slots a c)) else stream_slots a c)"
  define c1 where "c1 = set_stream_slots a ps c"
  have wf: "slots_wf (stream_slots b c)" for b using assms(2) by (simp add: client_wf_streams)
  have ps: "slots_wf ps" "is_complete (fst ps)" "\<not> is_reset (fst ps)"
    using wf[of a] assms(4-6) by (auto simp: ps_def slots_wf_def swap_slots_def set_slot_def slot_def le_Suc_eq)
  have ok: "client_wf x" if "slot_view x = slot_view c1 \<or> slot_view x = slot_view (c1\<lparr>current := Some a\<rparr>)" for x
  proof -
    have "client_wf c1" "client_wf (c1\<lparr>current := Some a\<rparr>)"
      using ps wf[of True] wf[of False] assms(3) by (auto simp: client_wf_streams c1_def stream_slots_def set_stream_slots_def)
    with that show ?thesis using client_wf_view by blast
  qed
  have cur: "slot_view (x\<lparr>current := Some a\<rparr>) = slot_view (c1\<lparr>current := Some a\<rparr>)" if "slot_view x = slot_view c1" for x
    using that by (simp add: slot_view_def)
  have "slot_view c' = slot_view c1 \<or> slot_view c' = slot_view (c1\<lparr>current := Some a\<rparr>)"
    using assms(1) unfolding complete_packet_def Let_def ps_def[symmetric] c1_def[symmetric]
    by (auto split: if_splits prod.splits dest!: check_send_progress_view intro: cur)
  then show ?thesis by (rule ok)
qed

lemma receive_subpacket_wf:
  assumes "receive_subpacket now a h payload i c = Some (ok, c')" "sane h" "current c = None"
    "packet_wf (fst (stream_slots a c))" "packet_wf (snd (stream_slots a c))" "\<And>b. b \<noteq> a \<Longrightarrow> slots_wf (stream_slots b c)"
    "i = 0 \<or> i = 1 \<and> \<not> is_reset (fst (stream_slots a c))"
  shows "client_wf c'"
proof -
  let ?ps = "stream_slots a c"
  have "packet_wf (slot ?ps i)" using assms(4,5) by (simp add: slot_def)
  moreover obtain p where p: "prepare_decode h (slot ?ps i) = Some p" using assms(1) by (auto simp: receive_subpacket_def Option.bind_eq_Some_conv)
  ultimately have pw: "packet_wf p" "\<not> is_reset p" using prepare_decode_wf[OF _ assms(2)] by blast+
  have wf: "client_wf (set_stream_slots a (set_slot i q ?ps) c)" if "packet_wf q" "\<not> is_reset q" for q
    using set_slot_wf[OF assms(4,5,7) that] assms(3,6) by (auto simp: client_wf_streams)
  have twice: "set_stream_slots a (set_slot i q (set_slot i p ?ps)) (set_stream_slots a (set_slot i p ?ps) c)
      = set_stream_slots a (set_slot i q ?ps) c" for q
    by (simp add: set_stream_slots_def set_slot_def)
  show ?thesis
  proof (cases "encoded h AND PYRO_PAYLOAD_PACKET_FEC_BIT \<noteq> 0 \<and> length payload \<noteq> PYRO_MAX_PAYLOAD_SIZE")
    case True
    with assms(1) p wf pw show ?thesis by (auto simp: receive_subpacket_def Let_def)
  next
    case False
    have "\<exists>q. (if encoded h AND PYRO_PAYLOAD_PACKET_FEC_BIT \<noteq> 0
          then add_fec_data (pyro_payload_get_subpacket_seq (encoded h)) payload p else add_payload_data payload p) = Some q
        \<and> (if is_complete q then complete_packet now a (encoded h) i (set_stream_slots a (set_slot i q ?ps) c)
           else (True, set_stream_slots a (set_slot i q ?ps) c)) = (ok, c')"
      using assms(1) unfolding receive_subpacket_def p Let_def Option.bind.simps(2) if_not_P[OF False] Option.bind_eq_Some_conv
      by (simp only: stream_slots_set(1) simp_thms if_True twice option.inject)
    then obtain q where q0: "add_payload_data payload p = Some q \<or> add_fec_data (pyro_payload_get_subpacket_seq (encoded h)) payload p = Some q"
      and r: "(if is_complete q then complete_packet now a (encoded h) i (set_stream_slots a (set_slot i q ?ps) c)
           else (True, set_stream_slots a (set_slot i q ?ps) c)) = (ok, c')" by metis
    from add_data_wf[OF q0 pw] have q: "packet_wf q" "\<not> is_reset q" by simp_all
    have "i \<le> 1" "slot (set_slot i q ?ps) i = q" using assms(7) by (auto simp: slot_def set_slot_def)
    with r wf[OF q] q(2) complete_packet_wf[of now a "encoded h" i "set_stream_slots a (set_slot i q ?ps) c" ok c'] assms(3)
    show ?thesis by (auto split: if_splits)
  qed
qed

lemma iterate_wf:
  assumes "iterate now pkt c = Some (ok, c')" "client_wf c" "current c = None" "length pkt < sizeof_payload_header \<or> sane (get_header pkt)"
  shows "client_wf c'"
proof -
  define c0 where "c0 = register_received_packet_size now (length pkt) c"
  have v: "slot_view c0 = slot_view c" by (simp add: c0_def)
  then have c0: "client_wf c0" "current c0 = None" using assms(2,3) client_wf_view[OF v] by (simp_all add: slot_view_def)
  define a where "a = (encoded (get_header pkt) AND PYRO_PAYLOAD_STREAM_TYPE_BIT \<noteq> 0)"
  note body = assms(1)[unfolded iterate_def Let_def, folded c0_def a_def]
  show ?thesis
  proof (cases "length pkt < sizeof_payload_header \<or> PYRO_MAX_UDP_DATAGRAM_SIZE < length pkt
      \<or> encoded (get_header pkt) AND (PYRO_PAYLOAD_KEY_FRAME_BIT OR PYRO_PAYLOAD_STREAM_TYPE_BIT)
          = PYRO_PAYLOAD_KEY_FRAME_BIT OR PYRO_PAYLOAD_STREAM_TYPE_BIT")
    case True
    with body c0(1) show ?thesis by (auto split: if_splits simp: client_wf_view[of "receive_ping _ _ _ c0" c0])
  next
    case False
    let ?seq = "pyro_payload_get_packet_seq (encoded (get_header pkt))"
    have sw: "slots_wf (stream_slots b c0)" for b using c0(1) by (simp add: client_wf_streams)
    from get_stream_packet_wf[OF sw[of a], of ?seq] obtain found ps where
      g: "get_stream_packet (stream_slots a c0) ?seq = Some (found, ps)" "packet_wf (fst ps)" "packet_wf (snd ps)"
        "case found of None \<Rightarrow> ps = stream_slots a c0 | Some i \<Rightarrow> i = 0 \<or> i = 1 \<and> \<not> is_reset (fst ps)" by blast
    from False body have "c' = c0 \<or> (case found of None \<Rightarrow> Some (True, set_stream_slots a ps c0)
        | Some i \<Rightarrow> receive_subpacket now a (get_header pkt) (drop sizeof_payload_header pkt) i (set_stream_slots a ps c0)) = Some (ok, c')"
      by (auto simp: g(1) split: if_splits)
    then show ?thesis
    proof
      assume r: "(case found of None \<Rightarrow> Some (True, set_stream_slots a ps c0)
        | Some i \<Rightarrow> receive_subpacket now a (get_header pkt) (drop sizeof_payload_header pkt) i (set_stream_slots a ps c0)) = Some (ok, c')"
      show ?thesis
      proof (cases found)
        case None
        with r g(4) c0 show ?thesis by (auto simp: client_wf_streams)
      next
        case (Some i)
        with r g sw c0(2) assms(4) False show ?thesis by (intro receive_subpacket_wf[of now a _ _ i "set_stream_slots a ps c0"]) auto
      qed
    qed (use c0 in simp)
  qed
qed

definition sane_datagram :: "byte list \<Rightarrow> bool" where
  "sane_datagram pkt \<longleftrightarrow> length pkt < sizeof_payload_header \<or> sane (get_header pkt)"

lemma release_current_wf: "client_wf c \<Longrightarrow> client_wf (release_current c)" "current (release_current c) = None"
  by (auto simp: client_wf_def release_current_def slots_wf_def swap_slots_def set_slot_def slot_def stream_slots_def
      set_stream_slots_def split: option.splits)

lemma wait_loop_wf:
  "wait_loop t_end pkts c = Some (ok, c', rest) \<Longrightarrow> client_wf c \<Longrightarrow> list_all (sane_datagram \<circ> snd) pkts
    \<Longrightarrow> client_wf c' \<and> (ok \<longrightarrow> current c' \<noteq> None)"
proof (induction t_end pkts c rule: wait_loop.induct)
  case (1 t_end c)
  show ?case
  proof (cases "current c = None")
    case True
    from 1 True iterate_wf[of t_end "[]" c] have "client_wf c'"
      by (auto simp: Option.bind_eq_Some_conv layout_simps)
    moreover have "iterate t_end [] c = Some (False, register_received_packet_size t_end 0 c)"
      by (simp add: iterate_def Let_def layout_simps)
    with 1 True have "\<not> ok" by simp
    ultimately show ?thesis by simp
  qed (use 1 in auto)
next
  case (2 t_end now pkt rest0 c)
  show ?case
  proof (cases "current c = None")
    case True
    with "2.prems"(1) obtain r c1 where i: "iterate now pkt c = Some (r, c1)"
      "(if r then wait_loop t_end rest0 c1 else Some (False, c1, rest0)) = Some (ok, c', rest)"
      by (auto simp: Option.bind_eq_Some_conv)
    have w: "client_wf c1" using iterate_wf[OF i(1) "2.prems"(2) True] "2.prems"(3) by (simp add: sane_datagram_def)
    show ?thesis
    proof (cases r)
      case True
      with i(2) "2.IH"[OF _ i(1) refl, of] w "2.prems"(3) \<open>current c = None\<close> show ?thesis by simp
    next
      case False
      with i(2) w show ?thesis by auto
    qed
  qed (use 2 in auto)
qed

text \<open>
  C16. The packet slots of the client are well-typed and stay so: whatever datagrams arrive, as long as none
  announces an empty packet or one beyond the FEC limit, a call of \<open>wait_next_packet\<close> that ends leaves slots on which
  the assertion of \<open>get_stream_packet\<close> holds; and when it reports a packet, there is one, it is complete, and the
  size that is reported for it is positive and lies within its buffer.
\<close>

theorem client_well_typed:
  assumes "client_wf c" "list_all (sane_datagram \<circ> snd) pkts" "wait_next_packet t_end pkts c = Some (ok, c', rest)"
  shows "client_wf c' \<and> get_stream_packet (stream_slots a c') seq \<noteq> None
    \<and> (ok \<longrightarrow> (\<exists>data. get_packet_data c' = Some data \<and> 0 < get_packet_size c' \<and> get_packet_size c' \<le> length data))"
proof -
  from wait_loop_wf[OF assms(3)[unfolded wait_next_packet_def] release_current_wf(1)[OF assms(1)] assms(2)]
  have w: "client_wf c'" "ok \<Longrightarrow> current c' \<noteq> None" by simp_all
  then have "slots_wf (stream_slots a c')" by (simp add: client_wf_streams)
  from get_stream_packet_wf[OF this, of seq] have "get_stream_packet (stream_slots a c') seq \<noteq> None" by auto
  moreover have "\<exists>data. get_packet_data c' = Some data \<and> 0 < get_packet_size c' \<and> get_packet_size c' \<le> length data" if "ok"
  proof -
    from w(2)[OF that] obtain b where b: "current c' = Some b" by auto
    with w(1) have "packet_wf (fst (stream_slots b c'))" "\<not> is_reset (fst (stream_slots b c'))"
      by (auto simp: client_wf_streams slots_wf_def)
    with b show ?thesis by (simp add: get_packet_data_def get_packet_size_def packet_wf_def slot_def)
  qed
  ultimately show ?thesis using w(1) by blast
qed

text \<open>A packet of one block that arrives as a whole.\<close>

lemma client_well_typed_witness:
  "\<exists>pkt c' rest data. sane_datagram pkt \<and> wait_next_packet 9 [(5, pkt)] (client_new 0 []) = Some (True, c', rest)
    \<and> client_wf c' \<and> get_packet_data c' = Some data \<and> 0 < get_packet_size c' \<and> get_packet_size c' \<le> length data"
proof -
  let ?data = "[1, 2, 3] :: byte list"
  define h where "h = packet_header 100 100 (length ?data) False True True 9"
  define pss where "pss = packet_indices ?data h"
  define pkt where "pkt = dgram h True 9 ?data pss (Raw 0)"
  have n: "1 = num_blocks PYRO_MAX_PAYLOAD_SIZE (length ?data)" by (simp add: num_blocks_def PYRO_MAX_PAYLOAD_SIZE_def)
  have vh: "video_header_for ?data h" unfolding h_def by (rule packet_header_video[OF sample_data(1)])
  have seq: "seq_ok 9" by (simp add: seq_ok_def)
  have R: "receiving h 9 ?data 1 pss [] (client_new 0 [])"
    by (simp add: receiving_def client_new_def idle_video_def is_reset_def packet_new_def fresh_seq_def
        decoder_reusable_def decoder_new_def pow2_capacity_def)
  obtain m ke ko where fp: "fec_parameters 1 = (m, ke, ko)" by (rule prod_cases3)
  have "recoverable pss {0} {} \<subseteq> {..<1}" by (rule recoverable_least) (auto simp: peel_closed_def)
  then have all: "recoverable pss (raws ([] @ [Raw 0])) (fecs ([] @ [Raw 0])) = {..<1}"
    by (auto simp: raws_def fecs_def intro: recoverable.direct)
  from wait_loop_arrivals[OF sample_data(1) n vh seq R[unfolded pss_def] _ _ all[unfolded pss_def], of "[5]" 9 True]
  obtain c' rest where w: "wait_loop 9 [(5, pkt)] (client_new 0 []) = Some (True, c', rest)"
    by (auto simp: pkt_def pss_def fec_once_def)
  have rel: "release_current (client_new 0 []) = client_new 0 []" by (simp add: release_current_def client_new_def)
  have run: "wait_next_packet 9 [(5, pkt)] (client_new 0 []) = Some (True, c', rest)" by (simp only: wait_next_packet_def rel w)
  have "payload_size h = 3" by (simp add: h_def packet_header_def Let_def split: prod.split)
  moreover have "get_header pkt = h\<lparr>encoded := dgram_flags True 9 (Raw 0)\<rparr>" unfolding pkt_def by (rule dgram_parse(1))
  ultimately have sd: "sane_datagram pkt" by (simp add: sane_datagram_def sane_def PYRO_MAX_PAYLOAD_SIZE_def)
  have "client_wf (client_new 0 [])"
    by (simp add: client_wf_def client_new_def slots_wf_def packet_wf_def is_reset_def packet_new_def)
  from client_well_typed[OF this _ run] sd run show ?thesis by auto
qed

section \<open>Inconsistent datagrams\<close>

text \<open>Nothing clears the error of a slot.\<close>

definition spoiled :: "slots \<Rightarrow> bool" where
  "spoiled ps \<longleftrightarrow> is_error (fst ps) \<and> is_error (snd ps)"

lemma prepare_decode_error: "prepare_decode h p = Some p' \<Longrightarrow> is_error p \<Longrightarrow> is_error p'"
  by (auto simp: prepare_decode_def start_packet_def track_subpacket_def Let_def Option.bind_eq_Some_conv split: if_splits)

lemma add_data_error:
  "is_error p \<Longrightarrow> add_payload_data data p = Some p" "is_error p \<Longrightarrow> add_fec_data sub data p = Some p"
  by (simp_all add: add_payload_data_def add_fec_data_def)

lemma spoiled_slots [simp]:
  "spoiled ps \<Longrightarrow> is_error p \<Longrightarrow> spoiled (set_slot i p ps)" "spoiled ps \<Longrightarrow> is_error (slot ps i)"
  "spoiled ps \<Longrightarrow> spoiled (swap_slots ps)" "is_error (rp_reset p) = is_error p"
  by (simp_all add: spoiled_def set_slot_def slot_def swap_slots_def rp_reset_def)

lemma get_stream_packet_spoiled:
  assumes "get_stream_packet ps seq = Some (found, ps')" "spoiled ps"
  shows "spoiled ps'"
  using assms by (auto simp: get_stream_packet_def new_in_slot_def Let_def Option.bind_eq_Some_conv split: if_splits option.splits)

lemma receive_subpacket_spoiled:
  assumes "receive_subpacket now False h payload i c = Some (ok, c')" "spoiled (video c)"
  shows "spoiled (video c')" "current c' = current c"
proof -
  from assms obtain p where p: "prepare_decode h (slot (video c) i) = Some p"
    by (auto simp: receive_subpacket_def stream_slots_def Option.bind_eq_Some_conv)
  with prepare_decode_error spoiled_slots(2)[OF assms(2)] have e: "is_error p" by blast
  have "(if b then add_fec_data sub payload p else add_payload_data payload p) = Some p" for b sub
    using e by (simp add: add_data_error)
  then have "receive_subpacket now False h payload i c = Some (r, set_stream_slots False (set_slot i p (video c)) c)" 
    if "r = (\<not> (encoded h AND PYRO_PAYLOAD_PACKET_FEC_BIT \<noteq> 0 \<and> length payload \<noteq> PYRO_MAX_PAYLOAD_SIZE))" for r
    using p e that by (simp add: receive_subpacket_def stream_slots_def Let_def is_complete_def set_stream_slots_def set_slot_def)
  with assms e show "spoiled (video c')" "current c' = current c" by (auto simp: set_stream_slots_def)
qed

lemma complete_audio_video:
  assumes "complete_packet now True flags i c = (ok, c')"
  shows "video c' = video c" "current c' \<noteq> Some False \<or> current c' = current c"
proof -
  define ps where "ps = (if i = 1 then swap_slots (set_slot 0 (rp_reset (slot (stream_slots True c) 0)) (stream_slots True c)) else stream_slots True c)"
  define c1 where "c1 = set_stream_slots True ps c"
  have c1: "video c1 = video c" "current c1 = current c" by (simp_all add: c1_def set_stream_slots_def)
  have "slot_view c' = slot_view c1 \<or> (\<exists>x. c' = x\<lparr>current := Some True\<rparr> \<and> slot_view x = slot_view c1)"
    using assms unfolding complete_packet_def Let_def ps_def[symmetric] c1_def[symmetric]
    by (auto split: if_splits prod.splits dest!: check_send_progress_view)
  then show "video c' = video c" "current c' \<noteq> Some False \<or> current c' = current c"
    using c1 by (auto simp: slot_view_def)
qed

lemma receive_audio_video:
  assumes "receive_subpacket now True h payload i c = Some (ok, c')"
  shows "video c' = video c \<and> (current c' \<noteq> Some False \<or> current c' = current c)"
proof -
  have v: "video (set_stream_slots True ps x) = video x" for ps x by (simp add: set_stream_slots_def)
  show ?thesis
    using assms by (auto simp: receive_subpacket_def Let_def Option.bind_eq_Some_conv v split: if_splits
        dest: complete_audio_video[of now "encoded h" i])
qed

lemma iterate_spoiled:
  assumes "iterate now pkt c = Some (ok, c')" "spoiled (video c)" "current c \<noteq> Some False"
  shows "spoiled (video c') \<and> current c' \<noteq> Some False"
proof -
  define c0 where "c0 = register_received_packet_size now (length pkt) c"
  define a where "a = (encoded (get_header pkt) AND PYRO_PAYLOAD_STREAM_TYPE_BIT \<noteq> 0)"
  let ?seq = "pyro_payload_get_packet_seq (encoded (get_header pkt))"
  have "slot_view c0 = slot_view c" by (simp add: c0_def)
  then have c0: "spoiled (video c0)" "current c0 \<noteq> Some False" using assms(2,3) by (simp_all add: slot_view_def)
  have ping: "video (receive_ping now h b c0) = video c0" "current (receive_ping now h b c0) = current c0" for h b
    using slot_view_frame(2)[of now h b c0] by (simp_all only: slot_view_def prod.inject)
  note body = assms(1)[unfolded iterate_def Let_def, folded c0_def a_def]
  show ?thesis
  proof (cases "\<exists>found ps. get_stream_packet (stream_slots a c0) ?seq = Some (found, ps)
      \<and> (case found of None \<Rightarrow> Some (True, set_stream_slots a ps c0)
        | Some i \<Rightarrow> receive_subpacket now a (get_header pkt) (drop sizeof_payload_header pkt) i (set_stream_slots a ps c0)) = Some (ok, c')")
    case False
    then have "c' = c0 \<or> (\<exists>h b. c' = receive_ping now h b c0)"
      using body by (auto simp: Option.bind_eq_Some_conv split: if_splits)
    with c0 ping show ?thesis by auto
  next
    case True
    then obtain found ps where g: "get_stream_packet (stream_slots a c0) ?seq = Some (found, ps)"
      and r: "(case found of None \<Rightarrow> Some (True, set_stream_slots a ps c0)
        | Some i \<Rightarrow> receive_subpacket now a (get_header pkt) (drop sizeof_payload_header pkt) i (set_stream_slots a ps c0)) = Some (ok, c')" by blast
    define c1 where "c1 = set_stream_slots a ps c0"
    have c1: "spoiled (video c1)" "current c1 \<noteq> Some False"
      using c0 get_stream_packet_spoiled[OF g] by (cases a; simp add: c1_def set_stream_slots_def stream_slots_def)+
    show ?thesis
      using r c1 receive_subpacket_spoiled[of now "get_header pkt" "drop sizeof_payload_header pkt" _ c1 ok c']
        receive_audio_video[of now "get_header pkt" "drop sizeof_payload_header pkt" _ c1 ok c']
      unfolding c1_def[symmetric] by (cases a) (auto split: option.splits)
  qed
qed

lemma wait_loop_spoiled:
  "wait_loop t_end pkts c = Some (ok, c', rest) \<Longrightarrow> spoiled (video c) \<Longrightarrow> current c \<noteq> Some False
    \<Longrightarrow> spoiled (video c') \<and> current c' \<noteq> Some False"
proof (induction t_end pkts c rule: wait_loop.induct)
  case (1 t_end c)
  then show ?case by (auto simp: Option.bind_eq_Some_conv split: if_splits dest: iterate_spoiled)
next
  case (2 t_end now pkt rest0 c)
  show ?case
  proof (cases "current c = None")
    case True
    with "2.prems"(1) obtain r c1 where i: "iterate now pkt c = Some (r, c1)"
      "(if r then wait_loop t_end rest0 c1 else Some (False, c1, rest0)) = Some (ok, c', rest)"
      by (auto simp: Option.bind_eq_Some_conv)
    from iterate_spoiled[OF i(1) "2.prems"(2,3)] i(2) "2.IH"[OF _ i(1) refl] True show ?thesis
      by (cases r) auto
  qed (use 2 in auto)
qed

text \<open>
  C32. An inconsistent datagram spoils its slot for ever: once both video slots have seen one, no sequence of
  datagrams, however correct, makes the client return a video packet again.
\<close>

theorem spoiled_slots_stay_dead:
  assumes "spoiled (video c)" "wait_next_packet t_end pkts c = Some (ok, c', rest)"
  shows "spoiled (video c') \<and> current c' \<noteq> Some False"
proof -
  have "spoiled (video (release_current c))"
    using assms(1) by (auto simp: release_current_def stream_slots_def set_stream_slots_def spoiled_def swap_slots_def
        set_slot_def slot_def rp_reset_def split: option.splits)
  moreover have "current (release_current c) \<noteq> Some False" by (simp add: release_current_wf(2))
  ultimately show ?thesis using wait_loop_spoiled assms(2) unfolding wait_next_packet_def by blast
qed

text \<open>Two datagrams that claim to be the first of their packet and are not marked so spoil a new client.\<close>

definition stray_datagram :: "u32 \<Rightarrow> byte list" where
  "stray_datagram seq = put_header ((packet_header 100 100 3 False False True 0)
     \<lparr>encoded := payload_flags False False False False seq 0\<rparr>) @ [1]"

lemma stray_prepare:
  assumes "buffer p = []" "decoder_reusable (rp_decoder p)" "\<not> is_error p" "rp_seq p = seq" "seq_ok seq"
  shows "\<exists>p'. prepare_decode (get_header (stray_datagram seq)) p = Some p' \<and> is_error p' \<and> \<not> is_reset p' \<and> rp_seq p' = seq"
proof -
  let ?e = "payload_flags False False False False seq 0" and ?data = "[1, 2, 3] :: byte list"
  define g where "g = get_header (stray_datagram seq)"
  have g: "g = (packet_header 100 100 3 False False True 0)\<lparr>encoded := ?e\<rparr>"
    by (simp add: g_def stray_datagram_def header_format.get_put)
  have vh: "video_header_for ?data g"
    using packet_header_video[OF sample_data(1), of 100 100 False 0] by (simp add: g video_header_for_def eval_nat_numeral)
  have n: "1 = num_blocks PYRO_MAX_PAYLOAD_SIZE (length ?data)" by (simp add: num_blocks_def PYRO_MAX_PAYLOAD_SIZE_def)
  note fl = payload_flags_fields[of seq 0 False False False False, OF assms(5)[unfolded seq_ok_def]]
  from start_packet_inv[OF sample_data(1) n vh assms(2-4)] obtain q where
    q: "start_packet g p = Some q" "rp_inv g seq ?data 1 (packet_indices ?data g) [] q" by blast
  have "length (buffer q) = PYRO_MAX_PAYLOAD_SIZE * 1" using q(2)
    by (simp add: rp_inv_def run_inv_def dec_stable_def dec_inv_def dec_shape_def)
  then have b: "buffer q \<noteq> []" by (auto simp: PYRO_MAX_PAYLOAD_SIZE_def)
  have "is_error (track_subpacket g q)"
  proof -
    have "subpacket_seq_accum q = 0" "last_subpacket_raw_seq q = 0" using q(2) by (auto simp: rp_inv_def sub_seq_def)
    then show ?thesis
      using fl by (simp add: track_subpacket_def g subpacket_seq_delta_eq packet_seq_delta_eq Let_def)
  qed
  moreover have "prepare_decode g p = Some (track_subpacket g q)"
    using assms(1) q(1) fl by (simp add: prepare_decode_def g)
  moreover have "rp_seq (track_subpacket g q) = seq" "\<not> is_reset (track_subpacket g q)"
    using q(2) b by (simp_all add: track_subpacket_def rp_inv_def is_reset_def Let_def)
  ultimately show ?thesis unfolding g_def by blast
qed

lemma stray_iterate:
  assumes "get_stream_packet (video c) seq = Some (Some i, ps)" "prepare_decode (get_header (stray_datagram seq)) (slot ps i) = Some p'"
    "is_error p'" "seq_ok seq" "last_completed_video_seq c = -1"
  shows "\<exists>c'. iterate now (stray_datagram seq) c = Some (True, c') \<and> video c' = set_slot i p' ps
    \<and> last_completed_video_seq c' = -1 \<and> current c' = current c"
proof -
  let ?e = "payload_flags False False False False seq 0"
  define c0 where "c0 = register_received_packet_size now (length (stray_datagram seq)) c"
  have c0: "video c0 = video c" "last_completed_video_seq c0 = -1" "current c0 = current c"
    using assms(5) by (simp_all add: c0_def register_received_packet_size_def)
  note fl = payload_flags_fields[of seq 0 False False False False, OF assms(4)[unfolded seq_ok_def]]
  have h: "get_header (stray_datagram seq) = (packet_header 100 100 3 False False True 0)\<lparr>encoded := ?e\<rparr>"
    by (simp add: stray_datagram_def header_format.get_put)
  have l: "length (stray_datagram seq) = sizeof_payload_header + 1" by (simp add: stray_datagram_def header_format.put_length)
  have "\<not> bit (?e AND (PYRO_PAYLOAD_KEY_FRAME_BIT OR PYRO_PAYLOAD_STREAM_TYPE_BIT)) 1"
    using fl(4) unfolding and_flag_nonzero by (simp add: bit_and_iff)
  moreover have "bit (PYRO_PAYLOAD_KEY_FRAME_BIT OR PYRO_PAYLOAD_STREAM_TYPE_BIT) 1" by (simp add: bit_or_iff bit_flags)
  ultimately have sp: "?e AND (PYRO_PAYLOAD_KEY_FRAME_BIT OR PYRO_PAYLOAD_STREAM_TYPE_BIT)
      \<noteq> PYRO_PAYLOAD_KEY_FRAME_BIT OR PYRO_PAYLOAD_STREAM_TYPE_BIT" by metis
  have "receive_subpacket now False (get_header (stray_datagram seq)) (drop sizeof_payload_header (stray_datagram seq)) i
      (set_stream_slots False ps c0) = Some (True, c0\<lparr>video := set_slot i p' ps\<rparr>)"
    using assms(2,3) fl by (simp add: receive_subpacket_def h set_stream_slots_def stream_slots_def add_data_error is_complete_def
        set_slot_def)
  then have "iterate now (stray_datagram seq) c = Some (True, c0\<lparr>video := set_slot i p' ps\<rparr>)"
    using assms(1) fl sp l c0 unfolding iterate_def Let_def c0_def[symmetric]
    by (simp add: h PYRO_MAX_UDP_DATAGRAM_SIZE_def PYRO_MAX_PAYLOAD_SIZE_def last_completed_seq_def stream_slots_def)
  with c0 show ?thesis by simp
qed

lemma spoiled_slots_stay_dead_witness:
  "\<exists>c c'. wait_next_packet 9 [(1, stray_datagram 1), (2, stray_datagram 2)] (client_new 0 []) = Some (False, c, [])
    \<and> spoiled (video c) \<and> wait_next_packet 10 [] c = Some (False, c', []) \<and> spoiled (video c') \<and> current c' \<noteq> Some False"
proof -
  let ?c = "client_new 0 []"
  define p1 where "p1 = packet_new\<lparr>rp_seq := 1\<rparr>"
  define p2 where "p2 = packet_new\<lparr>rp_seq := 2\<rparr>"
  have seq: "seq_ok 1" "seq_ok 2" by (simp_all add: seq_ok_def)
  have reset: "rp_reset packet_new = packet_new" by (simp add: rp_reset_def packet_new_def)
  have cl: "current ?c = None" "video ?c = (packet_new, packet_new)" "last_completed_video_seq ?c = -1"
    by (simp_all add: client_new_def)
  have new: "buffer p1 = []" "decoder_reusable (rp_decoder p1)" "\<not> is_error p1" "rp_seq p1 = 1"
    "buffer p2 = []" "decoder_reusable (rp_decoder p2)" "\<not> is_error p2" "rp_seq p2 = 2"
    by (simp_all add: p1_def p2_def packet_new_def decoder_reusable_def decoder_new_def pow2_capacity_def)
  obtain q1 where q1: "prepare_decode (get_header (stray_datagram 1)) p1 = Some q1" "is_error q1" "\<not> is_reset q1" "rp_seq q1 = 1"
    using stray_prepare[OF new(1-4) seq(1)] by blast
  obtain q2 where q2: "prepare_decode (get_header (stray_datagram 2)) p2 = Some q2" "is_error q2"
    using stray_prepare[OF new(5-8) seq(2)] by blast
  have r: "is_reset packet_new" by (simp add: is_reset_def packet_new_def)
  have g1: "get_stream_packet (video ?c) 1 = Some (Some 0, (p1, packet_new))"
    by (simp add: cl get_stream_packet_def num_active_packets_def r new_in_slot_def set_slot_def slot_def reset p1_def)
  from stray_iterate[OF g1 _ q1(2) seq(1) cl(3), of 1] q1(1) obtain c1 where
    c1: "iterate 1 (stray_datagram 1) ?c = Some (True, c1)" "video c1 = (q1, packet_new)" "last_completed_video_seq c1 = -1" "current c1 = None"
    by (auto simp: slot_def set_slot_def cl)
  have ins: "insert_position (video c1) (Suc 0) 2 = Suc 0"
    by (simp add: insert_position_def c1(2) slot_def q1(4) packet_seq_delta_eq)
  have g2: "get_stream_packet (video c1) 2 = Some (Some 1, (q1, p2))"
    using ins by (simp add: c1(2) get_stream_packet_def num_active_packets_def r q1 new_in_slot_def set_slot_def slot_def reset p2_def Let_def)
  from stray_iterate[OF g2 _ q2(2) seq(2) c1(3), of 2] q2(1) obtain c2 where
    c2: "iterate 2 (stray_datagram 2) c1 = Some (True, c2)" "video c2 = (q1, q2)" "current c2 = None"
    by (auto simp: slot_def set_slot_def c1)
  have fin: "iterate t [] c = Some (False, register_received_packet_size t 0 c)" for t c
    by (simp add: iterate_def Let_def layout_simps)
  define c3 where "c3 = register_received_packet_size 9 0 c2"
  have c3: "video c3 = (q1, q2)" "current c3 = None" using c2 by (simp_all add: c3_def register_received_packet_size_def)
  have idle: "release_current c = c" if "current c = None" for c using that by (simp add: release_current_def)
  have "wait_next_packet 9 [(1, stray_datagram 1), (2, stray_datagram 2)] ?c = Some (False, c3, [])"
    using c1 c2 cl by (simp add: wait_next_packet_def idle fin c3_def)
  moreover have sp: "spoiled (video c3)" using q1(2) q2(2) by (simp add: c3 spoiled_def)
  moreover have run: "wait_next_packet 10 [] c3 = Some (False, register_received_packet_size 10 0 c3, [])"
    using c3 by (simp add: wait_next_packet_def idle fin)
  ultimately show ?thesis using spoiled_slots_stay_dead[OF sp run] by blast
qed

section \<open>Headers that are not checked\<close>

lemma begin_decode_overdrawn:
  assumes "0 < m" "(sz div dec_block_size d) mod 2 ^ 32 < ke"
  shows "begin_decode sd data sz m ke ko d = None"
proof (rule ccontr)
  assume "begin_decode sd data sz m ke ko d \<noteq> None"
  then obtain d1 d' where d1: "for_list seed_block [0..<m] d1 = Some d'"
      "output_blocks d1 = (sz div dec_block_size d) mod 2 ^ 32" "num_xor_blocks_even d1 = ke"
    by (auto simp: begin_decode_def reserve_indices_def Let_def Option.bind_eq_Some_conv)
  have "[0..<m] = 0 # [Suc 0..<m]" using assms(1) by (simp add: upt_conv_Cons)
  with d1(1) obtain d2 where "seed_block 0 d1 = Some d2" by (auto simp: Option.bind_eq_Some_conv)
  with d1(2,3) assms(2) show False by (auto simp: seed_block_def begin_pick_def Let_def Option.bind_eq_Some_conv)
qed

text \<open>
  C33. The client trusts the header of a packet: a datagram for a new video packet whose header asks for a FEC
  block over more data blocks than the packet has leaves the defined behaviour of the program, in the selection of the
  blocks (a failed assertion, and a selection from an exhausted array without it).
\<close>

theorem unchecked_header_faults:
  assumes "sizeof_payload_header \<le> length pkt" "length pkt \<le> PYRO_MAX_UDP_DATAGRAM_SIZE" "h = get_header pkt"
    and "encoded h AND PYRO_PAYLOAD_STREAM_TYPE_BIT = 0"
    and "is_reset (fst (video c))" "is_reset (snd (video c))" "last_completed_video_seq c = -1"
    and "0 < num_fec_blocks h" "buffer_size_for h div PYRO_MAX_PAYLOAD_SIZE < unat (hdr_xor_blocks_even h)"
  shows "iterate now pkt c = None"
proof -
  define c0 where "c0 = register_received_packet_size now (length pkt) c"
  have c0: "video c0 = video c" "last_completed_video_seq c0 = -1"
    using assms(7) by (simp_all add: c0_def register_received_packet_size_def)
  have "\<not> bit (encoded h AND (PYRO_PAYLOAD_KEY_FRAME_BIT OR PYRO_PAYLOAD_STREAM_TYPE_BIT)) 1"
    using assms(4) and_flag_nonzero(2)[of "encoded h"] by (simp add: bit_and_iff)
  moreover have "bit (PYRO_PAYLOAD_KEY_FRAME_BIT OR PYRO_PAYLOAD_STREAM_TYPE_BIT) 1" by (simp add: bit_or_iff bit_flags)
  ultimately have sp: "encoded h AND (PYRO_PAYLOAD_KEY_FRAME_BIT OR PYRO_PAYLOAD_STREAM_TYPE_BIT)
      \<noteq> PYRO_PAYLOAD_KEY_FRAME_BIT OR PYRO_PAYLOAD_STREAM_TYPE_BIT" by metis
  define seq where "seq = pyro_payload_get_packet_seq (encoded h)"
  define ps where "ps = new_in_slot 0 seq (video c)"
  have g: "get_stream_packet (video c) seq = Some (Some 0, ps)"
    using assms(5,6) by (simp add: get_stream_packet_def num_active_packets_def ps_def)
  have b: "buffer (slot ps 0) = []" by (simp add: ps_def new_in_slot_def set_slot_def slot_def rp_reset_def)
  have small: "buffer_size_for h div PYRO_MAX_PAYLOAD_SIZE < 2 ^ 32"
    using div_le_mono[of "buffer_size_for h" "128 * 1024 * PYRO_MAX_PAYLOAD_SIZE" PYRO_MAX_PAYLOAD_SIZE]
    by (simp add: buffer_size_for_def PYRO_MAX_PAYLOAD_SIZE_def)
  have m: "0 < unat (num_fec_blocks h)" using assms(8) by (simp add: word_less_nat_alt)
  have "start_packet h (slot ps 0) = None"
    using assms(9) small m by (simp add: start_packet_def begin_decode_overdrawn dec_set_block_size_def)
  then have "prepare_decode h (slot ps 0) = None" using b by (simp add: prepare_decode_def)
  then have "receive_subpacket now False h (drop sizeof_payload_header pkt) 0 (set_stream_slots False ps c0) = None"
    by (simp add: receive_subpacket_def)
  then show ?thesis
    using assms(1,2,4) sp g c0 unfolding iterate_def Let_def c0_def[symmetric] assms(3)[symmetric]
    by (simp add: last_completed_seq_def stream_slots_def seq_def[symmetric])
qed

text \<open>A packet of three bytes, one block, with a FEC block over two.\<close>

lemma unchecked_header_faults_witness:
  "iterate 0 (put_header (header_zero\<lparr>payload_size := 3, num_fec_blocks := 1, hdr_xor_blocks_even := 2\<rparr>) @ [1, 2, 3]) (client_new 0 []) = None"
proof (rule unchecked_header_faults)
  let ?h = "header_zero\<lparr>payload_size := 3, num_fec_blocks := 1, hdr_xor_blocks_even := 2\<rparr>"
  show "?h = get_header (put_header ?h @ [1, 2, 3])" by (simp add: header_format.get_put)
  show "buffer_size_for ?h div PYRO_MAX_PAYLOAD_SIZE < unat (hdr_xor_blocks_even ?h)"
    by (simp add: buffer_size_for_def PYRO_MAX_PAYLOAD_SIZE_def)
qed (simp_all add: header_format.put_length layout_simps PYRO_MAX_UDP_DATAGRAM_SIZE_def PYRO_MAX_PAYLOAD_SIZE_def
    header_zero_def client_new_def packet_new_def is_reset_def)

end
