(* ===== verification/File_Handle.thy ===== *)
theory File_Handle
  imports Pyro_Prelude
begin

text \<open>
  The owning descriptor wrapper (\<open>ipc/file_handle.hpp\<close>, \<open>ipc/file_handle.cpp\<close>).

  A \<open>FileHandle\<close> object holds a descriptor number or -1.  The world keeps the objects that exist and the
  descriptors the kernel has open for the process.  Closing a descriptor that is not open is the undefined
  outcome: between the first and the second close the number may name somebody else's file.

  The step relation \<open>fh_step\<close> collects the operations with what their callers owe: a raw descriptor that is
  wrapped is open and has no other owner, and \<open>dup\<close> delivers a number that was not open, or -1.
\<close>

section \<open>Objects and operations\<close>

record handle_world =
  fh_objects :: "int list"
  fh_open :: "int list"

definition fh_close :: "int \<Rightarrow> handle_world \<Rightarrow> handle_world outcome" where
  "fh_close fd w =
     (if fd \<in> set (fh_open w) then Some (w\<lparr>fh_open := filter (\<lambda>x. x \<noteq> fd) (fh_open w)\<rparr>) else None)"

definition fh_valid :: "int \<Rightarrow> bool" where
  "fh_valid fd \<longleftrightarrow> 0 \<le> fd"

text \<open>Constructors: the default one, the one from a number, and the move constructor.\<close>

definition fh_default :: "handle_world \<Rightarrow> handle_world" where
  "fh_default w = w\<lparr>fh_objects := fh_objects w @ [-1]\<rparr>"

definition fh_from_fd :: "int \<Rightarrow> handle_world \<Rightarrow> handle_world" where
  "fh_from_fd fd w = w\<lparr>fh_objects := fh_objects w @ [fd]\<rparr>"

definition get_native_handle :: "nat \<Rightarrow> handle_world \<Rightarrow> int outcome" where
  "get_native_handle i w = load (fh_objects w) i"

definition fh_move_assign :: "nat \<Rightarrow> nat \<Rightarrow> handle_world \<Rightarrow> handle_world outcome" where
  "fh_move_assign this other w = do {
     a \<leftarrow> load (fh_objects w) this;
     b \<leftarrow> load (fh_objects w) other;
     if this \<noteq> other then do {
       w \<leftarrow> (if a \<ge> 0 then fh_close a w else Some w);
       Some (w\<lparr>fh_objects := (fh_objects w)[this := b, other := -1]\<rparr>)
     } else Some w }"

definition fh_move_construct :: "nat \<Rightarrow> handle_world \<Rightarrow> handle_world outcome" where
  "fh_move_construct other w = fh_move_assign (length (fh_objects w)) other (fh_default w)"

definition fh_release :: "nat \<Rightarrow> handle_world \<Rightarrow> handle_world outcome" where
  "fh_release i w = do {
     objs \<leftarrow> store (fh_objects w) i (-1);
     Some (w\<lparr>fh_objects := objs\<rparr>) }"

text \<open>\<open>newfd\<close> is what the system call \<open>dup\<close> delivers; it opens that descriptor.\<close>

definition fh_dup :: "nat \<Rightarrow> int \<Rightarrow> handle_world \<Rightarrow> handle_world outcome" where
  "fh_dup i newfd w = do {
     a \<leftarrow> load (fh_objects w) i;
     if a < 0 then Some (fh_default w)
     else Some (fh_from_fd newfd (w\<lparr>fh_open := (if newfd \<ge> 0 then newfd # fh_open w else fh_open w)\<rparr>)) }"

text \<open>The destructor.  The object is gone afterwards; its place in the list stays, empty.\<close>

definition fh_destroy :: "nat \<Rightarrow> handle_world \<Rightarrow> handle_world outcome" where
  "fh_destroy i w = do {
     a \<leftarrow> load (fh_objects w) i;
     w \<leftarrow> (if a \<ge> 0 then fh_close a w else Some w);
     Some (w\<lparr>fh_objects := (fh_objects w)[i := -1]\<rparr>) }"

section \<open>Ownership\<close>

definition fh_owned :: "handle_world \<Rightarrow> int list" where
  "fh_owned w = filter fh_valid (fh_objects w)"

definition fh_inv :: "handle_world \<Rightarrow> bool" where
  "fh_inv w \<longleftrightarrow> distinct (fh_owned w) \<and> set (fh_owned w) \<subseteq> set (fh_open w)"

datatype handle_event =
    FhDefault | FhFromFd int | FhMoveAssign nat nat | FhMoveConstruct nat | FhRelease nat
  | FhDup nat int | FhDestroy nat

fun fh_apply :: "handle_event \<Rightarrow> handle_world \<Rightarrow> handle_world outcome" where
  "fh_apply FhDefault w = Some (fh_default w)"
| "fh_apply (FhFromFd fd) w = Some (fh_from_fd fd w)"
| "fh_apply (FhMoveAssign i j) w = fh_move_assign i j w"
| "fh_apply (FhMoveConstruct i) w = fh_move_construct i w"
| "fh_apply (FhRelease i) w = fh_release i w"
| "fh_apply (FhDup i fd) w = fh_dup i fd w"
| "fh_apply (FhDestroy i) w = fh_destroy i w"

text \<open>What the caller of an operation, or the kernel, guarantees.\<close>

fun fh_allowed :: "handle_event \<Rightarrow> handle_world \<Rightarrow> bool" where
  "fh_allowed FhDefault w \<longleftrightarrow> True"
| "fh_allowed (FhFromFd fd) w \<longleftrightarrow> fd < 0 \<or> fd \<in> set (fh_open w) \<and> fd \<notin> set (fh_owned w)"
| "fh_allowed (FhMoveAssign i j) w \<longleftrightarrow> i < length (fh_objects w) \<and> j < length (fh_objects w)"
| "fh_allowed (FhMoveConstruct i) w \<longleftrightarrow> i < length (fh_objects w)"
| "fh_allowed (FhRelease i) w \<longleftrightarrow> i < length (fh_objects w)"
| "fh_allowed (FhDup i fd) w \<longleftrightarrow> i < length (fh_objects w) \<and> fd \<notin> set (fh_open w)"
| "fh_allowed (FhDestroy i) w \<longleftrightarrow> i < length (fh_objects w)"

text \<open>The descriptors a call hands to somebody else: only \<open>release\<close> does.\<close>

fun fh_given_up :: "handle_event \<Rightarrow> handle_world \<Rightarrow> int set" where
  "fh_given_up (FhRelease i) w = {fd. fd = fh_objects w ! i \<and> fh_valid fd}"
| "fh_given_up _ w = {}"

section \<open>Lemmas\<close>

text \<open>
  Ownership is exact when no two objects hold the same descriptor; a descriptor of one object is then held
  by no other.
\<close>

lemma distinct_filter_nth:
  "distinct (filter P xs) \<Longrightarrow> i < length xs \<Longrightarrow> j < length xs \<Longrightarrow> P (xs ! i) \<Longrightarrow> xs ! i = xs ! j \<Longrightarrow> i = j"
proof (induction xs arbitrary: i j)
  case Nil
  then show ?case by simp
next
  case (Cons x xs)
  have notin: "P x \<Longrightarrow> k < length xs \<Longrightarrow> xs ! k \<noteq> x" for k
    using Cons.prems(1) by (auto split: if_splits)
  have d: "distinct (filter P xs)" using Cons.prems(1) by (simp split: if_splits)
  show ?case
  proof (cases i)
    case 0
    with Cons.prems notin[of "j - 1"] show ?thesis by (cases j) auto
  next
    case (Suc i')
    with Cons.prems notin[of i'] Cons.IH[OF d, of i' "j - 1"] show ?thesis by (cases j) auto
  qed
qed

lemma distinct_filter_iff:
  "distinct (filter P xs) \<longleftrightarrow>
   (\<forall>i < length xs. \<forall>j < length xs. P (xs ! i) \<longrightarrow> xs ! i = xs ! j \<longrightarrow> i = j)"
proof
  show "distinct (filter P xs) \<Longrightarrow>
    \<forall>i < length xs. \<forall>j < length xs. P (xs ! i) \<longrightarrow> xs ! i = xs ! j \<longrightarrow> i = j"
    using distinct_filter_nth by blast
next
  assume "\<forall>i < length xs. \<forall>j < length xs. P (xs ! i) \<longrightarrow> xs ! i = xs ! j \<longrightarrow> i = j"
  then show "distinct (filter P xs)"
  proof (induction xs)
    case Nil
    then show ?case by simp
  next
    case (Cons x xs)
    have "distinct (filter P xs)"
    proof (rule Cons.IH, intro allI impI)
      fix i j assume "i < length xs" "j < length xs" "P (xs ! i)" "xs ! i = xs ! j"
      then show "i = j" using Cons.prems[rule_format, of "Suc i" "Suc j"] by simp
    qed
    moreover have "x \<notin> set xs" if "P x"
    proof
      assume "x \<in> set xs"
      then obtain k where "k < length xs" "xs ! k = x" by (auto simp: in_set_conv_nth)
      then show False using Cons.prems[rule_format, of 0 "Suc k"] that by simp
    qed
    ultimately show ?case by simp
  qed
qed

lemma fh_inv_iff:
  "fh_inv w \<longleftrightarrow>
   (\<forall>i < length (fh_objects w). 0 \<le> fh_objects w ! i \<longrightarrow>
      fh_objects w ! i \<in> set (fh_open w) \<and>
      (\<forall>j < length (fh_objects w). fh_objects w ! i = fh_objects w ! j \<longrightarrow> i = j))"
  unfolding fh_inv_def fh_owned_def distinct_filter_iff fh_valid_def
  by (auto simp: in_set_conv_nth)

lemma fh_owned_iff:
  "fd \<in> set (fh_owned w) \<longleftrightarrow> 0 \<le> fd \<and> (\<exists>i < length (fh_objects w). fh_objects w ! i = fd)"
  by (auto simp: fh_owned_def fh_valid_def in_set_conv_nth)

lemma fh_append_inv:
  assumes "fh_inv w" "fd < 0 \<or> fd \<in> set (fh_open w) \<and> fd \<notin> set (fh_owned w)"
  shows "fh_inv (fh_from_fd fd w)"
  using assms by (auto simp: fh_inv_def fh_owned_def fh_from_fd_def fh_valid_def)

lemma fh_default_from_fd: "fh_default w = fh_from_fd (-1) w"
  by (simp add: fh_default_def fh_from_fd_def)

lemma fh_default_inv: "fh_inv w \<Longrightarrow> fh_inv (fh_default w)"
  by (simp add: fh_default_from_fd fh_append_inv)

text \<open>Closing the descriptor of one object and emptying that object.\<close>

lemma fh_destroy_ok:
  assumes inv: "fh_inv w" and i: "i < length (fh_objects w)"
  shows "\<exists>w'. fh_destroy i w = Some w' \<and> fh_inv w' \<and> length (fh_objects w') = length (fh_objects w)
    \<and> fh_objects w' = (fh_objects w)[i := -1]
    \<and> set (fh_open w') = set (fh_open w) - {fd. fd = fh_objects w ! i \<and> 0 \<le> fd}"
proof (cases "0 \<le> fh_objects w ! i")
  case True
  then have op: "fh_objects w ! i \<in> set (fh_open w)" using inv i by (auto simp: fh_inv_iff)
  define w' where "w' = w\<lparr>fh_objects := (fh_objects w)[i := -1],
    fh_open := filter (\<lambda>x. x \<noteq> fh_objects w ! i) (fh_open w)\<rparr>"
  have "fh_destroy i w = Some w'" using op i True by (simp add: fh_destroy_def fh_close_def w'_def)
  moreover have "fh_inv w'"
    using inv i True unfolding fh_inv_iff w'_def by (auto simp: nth_list_update)
  ultimately show ?thesis using True by (auto simp: w'_def)
next
  case False
  then have e: "fh_destroy i w = Some (w\<lparr>fh_objects := (fh_objects w)[i := -1]\<rparr>)"
    using i by (simp add: fh_destroy_def)
  have "fh_inv (w\<lparr>fh_objects := (fh_objects w)[i := -1]\<rparr>)"
    using inv i unfolding fh_inv_iff by (auto simp: nth_list_update)
  with e False show ?thesis by auto
qed

lemma fh_move_assign_destroy:
  assumes "this < length (fh_objects w)" "other < length (fh_objects w)" "this \<noteq> other"
  shows "fh_move_assign this other w =
    map_option (\<lambda>w'. w'\<lparr>fh_objects := (fh_objects w')[this := fh_objects w ! other, other := -1]\<rparr>) (fh_destroy this w)"
  using assms by (auto simp: fh_move_assign_def fh_destroy_def fh_close_def list_update_swap)

lemma fh_move_assign_ok:
  assumes inv: "fh_inv w" and l: "this < length (fh_objects w)" "other < length (fh_objects w)" "this \<noteq> other"
  shows "\<exists>w'. fh_move_assign this other w = Some w' \<and> fh_inv w'
    \<and> fh_objects w' = (fh_objects w)[this := fh_objects w ! other, other := -1]
    \<and> set (fh_open w') = set (fh_open w) - {fd. fd = fh_objects w ! this \<and> 0 \<le> fd}"
proof -
  obtain v where v: "fh_destroy this w = Some v" "fh_inv v" "fh_objects v = (fh_objects w)[this := -1]"
    "set (fh_open v) = set (fh_open w) - {fd. fd = fh_objects w ! this \<and> 0 \<le> fd}"
    using fh_destroy_ok[OF inv l(1)] by blast
  define w' where "w' = v\<lparr>fh_objects := (fh_objects v)[this := fh_objects w ! other, other := -1]\<rparr>"
  have "fh_inv w'"
    unfolding fh_inv_iff
  proof (intro allI impI)
    fix k assume "k < length (fh_objects w')" "0 \<le> fh_objects w' ! k"
    then have k: "k < length (fh_objects w)" "k \<noteq> other" "0 \<le> fh_objects w' ! k"
      using l by (auto simp: w'_def v(3) nth_list_update split: if_splits)
    define k0 where "k0 = (if k = this then other else k)"
    have k0: "k0 < length (fh_objects w)" "k0 \<noteq> this" "fh_objects w' ! k = fh_objects w ! k0"
      using k l by (auto simp: w'_def v(3) nth_list_update k0_def)
    have w0: "fh_objects w ! k0 \<in> set (fh_open w)"
      "\<And>j. j < length (fh_objects w) \<Longrightarrow> fh_objects w ! k0 = fh_objects w ! j \<Longrightarrow> k0 = j"
      using inv k(3) k0 by (auto simp: fh_inv_iff)
    have "fh_objects w ! k0 \<noteq> fh_objects w ! this" using w0(2)[OF l(1)] k0(2) by blast
    then have "fh_objects w' ! k \<in> set (fh_open w')"
      using w0(1) k0(3) by (simp add: w'_def v(4))
    moreover have "k = j" if "j < length (fh_objects w')" "fh_objects w' ! k = fh_objects w' ! j" for j
    proof -
      have j: "j < length (fh_objects w)" "j \<noteq> other"
        using that k(3) l by (auto simp: w'_def v(3) nth_list_update split: if_splits)
      define j0 where "j0 = (if j = this then other else j)"
      have "j0 < length (fh_objects w)" "fh_objects w' ! j = fh_objects w ! j0"
        using j l by (auto simp: w'_def v(3) nth_list_update j0_def)
      then have "k0 = j0" using w0(2) that(2) k0(3) by simp
      then show ?thesis using j(2) k(2) by (auto simp: k0_def j0_def split: if_splits)
    qed
    ultimately show "fh_objects w' ! k \<in> set (fh_open w') \<and>
      (\<forall>j < length (fh_objects w'). fh_objects w' ! k = fh_objects w' ! j \<longrightarrow> k = j)" by blast
  qed
  with v l show ?thesis by (auto simp: fh_move_assign_destroy w'_def)
qed

lemma fh_move_assign_self:
  "this < length (fh_objects w) \<Longrightarrow> fh_move_assign this this w = Some w"
  by (simp add: fh_move_assign_def)

text \<open>An open descriptor that no object holds.\<close>

definition fh_unowned :: "handle_world \<Rightarrow> int set" where
  "fh_unowned w = set (fh_open w) - set (fh_owned w)"

lemma fh_default_ok:
  "fh_inv w \<Longrightarrow> fh_inv (fh_default w) \<and> fh_unowned (fh_default w) = fh_unowned w"
proof
  show "fh_inv w \<Longrightarrow> fh_inv (fh_default w)" by (rule fh_default_inv)
qed (simp add: fh_unowned_def fh_owned_def fh_default_def fh_valid_def)

lemma fh_destroy_unowned:
  assumes "fh_inv w" "i < length (fh_objects w)"
  shows "\<exists>w'. fh_destroy i w = Some w' \<and> fh_inv w' \<and> fh_unowned w' \<subseteq> fh_unowned w"
proof -
  obtain w' where w': "fh_destroy i w = Some w'" "fh_inv w'" "fh_objects w' = (fh_objects w)[i := -1]"
    "set (fh_open w') = set (fh_open w) - {fd. fd = fh_objects w ! i \<and> 0 \<le> fd}"
    using fh_destroy_ok[OF assms] by blast
  have "fd \<in> set (fh_owned w')" if "fd \<in> set (fh_owned w)" "fd \<in> set (fh_open w')" for fd
  proof -
    obtain k where k: "k < length (fh_objects w)" "fh_objects w ! k = fd" "0 \<le> fd"
      using \<open>fd \<in> set (fh_owned w)\<close> by (auto simp: fh_owned_iff)
    then have "k \<noteq> i" using that(2) by (auto simp: w'(4))
    with k show ?thesis by (auto simp: fh_owned_iff w'(3) nth_list_update intro!: exI[of _ k])
  qed
  with w' show ?thesis by (auto simp: fh_unowned_def)
qed

lemma fh_move_unowned:
  assumes "fh_inv w" "this < length (fh_objects w)" "other < length (fh_objects w)"
  shows "\<exists>w'. fh_move_assign this other w = Some w' \<and> fh_inv w' \<and> fh_unowned w' \<subseteq> fh_unowned w"
proof (cases "this = other")
  case True
  with assms show ?thesis by (auto simp: fh_move_assign_self)
next
  case False
  obtain w' where w': "fh_move_assign this other w = Some w'" "fh_inv w'"
    "fh_objects w' = (fh_objects w)[this := fh_objects w ! other, other := -1]"
    "set (fh_open w') = set (fh_open w) - {fd. fd = fh_objects w ! this \<and> 0 \<le> fd}"
    using fh_move_assign_ok[OF assms False] by blast
  have "fd \<in> set (fh_owned w')" if "fd \<in> set (fh_owned w)" "fd \<in> set (fh_open w')" for fd
  proof -
    obtain k where k: "k < length (fh_objects w)" "fh_objects w ! k = fd" "0 \<le> fd"
      using \<open>fd \<in> set (fh_owned w)\<close> by (auto simp: fh_owned_iff)
    then have "k \<noteq> this" using that(2) by (auto simp: w'(4))
    with k assms(2,3) False show ?thesis
      by (cases "k = other")
        (auto simp: fh_owned_iff w'(3) nth_list_update intro: exI[of _ k] exI[of _ this])
  qed
  with w' show ?thesis by (auto simp: fh_unowned_def)
qed

lemma fh_release_unowned:
  assumes "fh_inv w" "i < length (fh_objects w)"
  shows "\<exists>w'. fh_release i w = Some w' \<and> fh_inv w' \<and> fh_unowned w' \<subseteq> fh_unowned w \<union> fh_given_up (FhRelease i) w"
proof -
  define w' where "w' = w\<lparr>fh_objects := (fh_objects w)[i := -1]\<rparr>"
  have "fh_inv w'" using assms unfolding fh_inv_iff w'_def by (auto simp: nth_list_update)
  moreover have "fd \<in> set (fh_owned w')" if "fd \<in> set (fh_owned w)" "fd \<noteq> fh_objects w ! i" for fd
  proof -
    obtain k where k: "k < length (fh_objects w)" "fh_objects w ! k = fd" "0 \<le> fd"
      using \<open>fd \<in> set (fh_owned w)\<close> by (auto simp: fh_owned_iff)
    then have "k \<noteq> i" using that(2) by auto
    with k show ?thesis by (auto simp: fh_owned_iff w'_def nth_list_update intro!: exI[of _ k])
  qed
  moreover have "fh_release i w = Some w'" using assms(2) by (simp add: fh_release_def w'_def)
  moreover have "set (fh_open w') = set (fh_open w)" by (simp add: w'_def)
  ultimately have "fh_release i w = Some w' \<and> fh_inv w' \<and> fh_unowned w' \<subseteq> fh_unowned w \<union> fh_given_up (FhRelease i) w"
    by (auto simp: fh_unowned_def fh_owned_def)
  then show ?thesis by blast
qed

lemma fh_dup_unowned:
  assumes "fh_inv w" "i < length (fh_objects w)" "fd \<notin> set (fh_open w)"
  shows "\<exists>w'. fh_dup i fd w = Some w' \<and> fh_inv w' \<and> fh_unowned w' \<subseteq> fh_unowned w"
proof (cases "fh_objects w ! i < 0")
  case True
  with assms fh_default_ok[OF assms(1)] show ?thesis by (auto simp: fh_dup_def)
next
  case False
  have "fd \<notin> set (fh_owned w)" using assms(1,3) by (auto simp: fh_inv_def)
  then show ?thesis
    using assms False
    by (auto simp: fh_dup_def fh_inv_def fh_unowned_def fh_owned_def fh_from_fd_def fh_valid_def)
qed

text \<open>
  C26. Descriptor ownership: in a world where every descriptor has at most one owner and every owner's
  descriptor is open, each operation of a handle has a defined result (nothing is closed twice), keeps that
  property, and leaves no open descriptor without owner other than the one \<open>release\<close> hands out.
\<close>

theorem handle_ownership:
  assumes "fh_inv w" "fh_allowed e w"
  shows "\<exists>w'. fh_apply e w = Some w' \<and> fh_inv w' \<and> fh_unowned w' \<subseteq> fh_unowned w \<union> fh_given_up e w"
proof (cases e)
  case FhDefault
  with fh_default_ok[OF assms(1)] show ?thesis by simp
next
  case (FhFromFd fd)
  with assms fh_append_inv[OF assms(1), of fd] show ?thesis
    by (auto simp: fh_unowned_def fh_owned_def fh_from_fd_def)
next
  case (FhMoveAssign i j)
  with assms fh_move_unowned[OF assms(1), of i j] show ?thesis by auto
next
  case (FhMoveConstruct i)
  from fh_default_ok[OF assms(1)] have d: "fh_inv (fh_default w)" "fh_unowned (fh_default w) = fh_unowned w" by auto
  from FhMoveConstruct assms(2) fh_move_unowned[OF d(1), of "length (fh_objects w)" i] d(2)
  show ?thesis by (auto simp: fh_move_construct_def fh_default_def)
next
  case (FhRelease i)
  with assms fh_release_unowned[OF assms(1), of i] show ?thesis by simp
next
  case (FhDup i fd)
  with assms fh_dup_unowned[OF assms(1), of i fd] show ?thesis by auto
next
  case (FhDestroy i)
  with assms fh_destroy_unowned[OF assms(1), of i] show ?thesis by auto
qed

text \<open>Handle 0 owns descriptor 5, handle 1 descriptor 7; assigning handle 1 to handle 0 closes 5 only.\<close>

lemma handle_ownership_witness:
  "\<exists>w'. fh_apply (FhMoveAssign 0 1) \<lparr>fh_objects = [5, 7], fh_open = [5, 7, 9]\<rparr> = Some w' \<and> fh_inv w'
     \<and> fh_unowned w' \<subseteq> {9}"
  using handle_ownership[of "\<lparr>fh_objects = [5, 7], fh_open = [5, 7, 9]\<rparr>" "FhMoveAssign 0 1"]
  by (auto simp: fh_inv_def fh_owned_def fh_valid_def fh_unowned_def)

end
