(* ===== verification/Simple_Socket.thy ===== *)
theory Simple_Socket
  imports Pyro_Prelude
begin

text \<open>
  The socket of the viewer (\<open>simple_socket.hpp\<close>, \<open>simple_socket.cpp\<close>): blocking reads and writes with a
  time-out, and the ring of packets between the receiving thread and the reader.

  The ring is shared by two threads.  Each of them takes the lock to look at the counters and to advance its
  own, and works on its slot without the lock; the operations below are the parts between those points, and
  \<open>ring_step\<close> interleaves them.  The results of \<open>select\<close>, \<open>recv\<close> and \<open>send\<close> are arguments.
\<close>

section \<open>Connecting\<close>

text \<open>For every address, the results of \<open>socket\<close> and \<open>connect\<close>; the descriptor of the first that connects.\<close>

datatype proto = TCP | UDP

fun try_addresses :: "(int \<times> int) list \<Rightarrow> int option + int option" where
  "try_addresses [] = Inr None"
| "try_addresses ((fd, c) # as) =
     (if fd < 0 then Inl None else if c < 0 then try_addresses as else Inr (Some fd))"

definition sock_connect :: "proto \<Rightarrow> int \<Rightarrow> (int \<times> int) list \<Rightarrow> (int \<Rightarrow> int) \<Rightarrow> int \<Rightarrow> bool \<times> int" where
  "sock_connect p resolved addrs setsockopt fd =
     (if resolved < 0 then (False, fd)
      else case try_addresses addrs of
        Inl _ \<Rightarrow> (False, fd)
      | Inr r \<Rightarrow>
          let fd = (case r of None \<Rightarrow> fd | Some f \<Rightarrow> f) in
          if p = UDP \<and> setsockopt fd < 0 then (False, fd)
          else (r \<noteq> None, fd))"

section \<open>Blocking reads and writes\<close>

text \<open>
  One turn of waiting: the descriptor is not ready in time (or the sentinel was), or \<open>recv\<close> delivers some
  bytes, none meaning that it failed or that the connection is closed.
\<close>

datatype arrival = NotReady | Arrived "byte list"

text \<open>\<open>recv\<close> delivers at most as many bytes as it is asked for.\<close>

fun sock_read :: "arrival list \<Rightarrow> nat \<Rightarrow> (bool \<times> byte list) option" where
  "sock_read as n =
     (if n = 0 then Some (True, [])
      else case as of
        [] \<Rightarrow> None
      | NotReady # as' \<Rightarrow> Some (False, [])
      | Arrived b # as' \<Rightarrow>
          if b = [] then Some (False, [])
          else do {
            guard (length b \<le> n);
            (ok, rest) \<leftarrow> sock_read as' (n - length b);
            Some (ok, b @ rest) })"

declare sock_read.simps [simp del]

definition read_partial :: "arrival \<Rightarrow> byte list" where
  "read_partial a = (case a of NotReady \<Rightarrow> [] | Arrived b \<Rightarrow> b)"

fun sock_write :: "int list \<Rightarrow> byte list \<Rightarrow> (bool \<times> byte list) option" where
  "sock_write rs data =
     (if data = [] then Some (True, [])
      else case rs of
        [] \<Rightarrow> None
      | r # rs' \<Rightarrow>
          if r \<le> 0 then Some (False, [])
          else do {
            guard (nat r \<le> length data);
            (ok, sent) \<leftarrow> sock_write rs' (drop (nat r) data);
            Some (ok, take (nat r) data @ sent) })"

declare sock_write.simps [simp del]

definition write_message :: "(byte list \<Rightarrow> int) \<Rightarrow> byte list \<Rightarrow> byte list \<Rightarrow> bool" where
  "write_message sendmsg header data \<longleftrightarrow> sendmsg (header @ data) = int (length header + length data)"

text \<open>A read that succeeds has delivered exactly what was asked for; a write sends a prefix, all of it when it succeeds.\<close>

lemma sock_read_length: "sock_read as n = Some (ok, b) \<Longrightarrow> length b \<le> n \<and> (ok \<longrightarrow> length b = n)"
proof (induction as n arbitrary: ok b rule: sock_read.induct)
  case (1 as n)
  show ?case
  proof (cases "n = 0 \<or> as = [] \<or> hd as = NotReady \<or> hd as = Arrived []")
    case True
    with "1.prems" show ?thesis
      by (subst (asm) sock_read.simps) (auto split: list.splits arrival.splits if_splits)
  next
    case False
    then obtain x as' where a: "as = Arrived x # as'" "x \<noteq> []" "n \<noteq> 0" by (cases as; cases "hd as") auto
    with "1.prems" obtain rest where r: "length x \<le> n" "sock_read as' (n - length x) = Some (ok, rest)" "b = x @ rest"
      by (subst (asm) sock_read.simps) (auto simp: guard_def split: if_splits bind_splits)
    from "1.IH"[OF a(3) a(1) refl a(2) _ r(2)] r show ?thesis by (auto simp: guard_def)
  qed
qed

lemma sock_write_prefix: "sock_write rs data = Some (ok, sent) \<Longrightarrow> \<exists>rest. data = sent @ rest \<and> (ok \<longleftrightarrow> rest = [])"
proof (induction rs data arbitrary: ok sent rule: sock_write.induct)
  case (1 rs data)
  show ?case
  proof (cases "data = [] \<or> rs = [] \<or> hd rs \<le> 0")
    case True
    with "1.prems" show ?thesis by (subst (asm) sock_write.simps) (auto split: list.splits if_splits)
  next
    case False
    then obtain r rs' where a: "rs = r # rs'" "\<not> r \<le> 0" "data \<noteq> []" by (cases rs) auto
    with "1.prems" obtain s where r: "nat r \<le> length data" "sock_write rs' (drop (nat r) data) = Some (ok, s)"
        "sent = take (nat r) data @ s"
      by (subst (asm) sock_write.simps) (auto simp: guard_def split: if_splits bind_splits)
    from "1.IH"[OF a(3) a(1) a(2) _ r(2)] r show ?thesis
      by (auto simp: guard_def) (metis append_take_drop_id append.assoc)
  qed
qed

section \<open>The ring\<close>

record packet =
  pk_data :: "byte list"
  pk_size :: nat

record sock_ring =
  rg_max :: nat
  rg_write :: u32
  rg_read :: u32
  rg_dead :: bool
  rg_packets :: "packet list"

definition ring_empty :: sock_ring where
  "ring_empty = \<lparr>rg_max = 0, rg_write = 0, rg_read = 0, rg_dead = False, rg_packets = []\<rparr>"

text \<open>\<open>joinable\<close>: the thread exists already; \<open>thread\<close>: it can be created.\<close>

definition init_recv_thread :: "bool \<Rightarrow> bool \<Rightarrow> nat \<Rightarrow> u64 \<Rightarrow> sock_ring \<Rightarrow> bool \<times> sock_ring" where
  "init_recv_thread joinable thread sz n r =
     (if joinable then (False, r)
      else if n AND (n - 1) \<noteq> 0 then (False, r)
      else (thread, r\<lparr>rg_packets := replicate (unat n) \<lparr>pk_data = replicate sz 0, pk_size = 0\<rparr>, rg_max := sz\<rparr>))"

definition ring_mask :: "sock_ring \<Rightarrow> u32" where
  "ring_mask r = word_of_nat (length (rg_packets r)) - 1"

definition queued :: "sock_ring \<Rightarrow> u32" where
  "queued r = rg_write r - rg_read r"

definition write_slot :: "sock_ring \<Rightarrow> nat" where
  "write_slot r = unat (rg_write r AND ring_mask r)"

definition read_slot :: "sock_ring \<Rightarrow> nat" where
  "read_slot r = unat (rg_read r AND ring_mask r)"

text \<open>The condition the receiving thread waits for.\<close>

definition may_receive :: "sock_ring \<Rightarrow> bool" where
  "may_receive r \<longleftrightarrow> unat (queued r) < length (rg_packets r) \<or> rg_dead r"

text \<open>\<open>recv\<close> writes the packet into the slot, without the lock.\<close>

definition recv_store :: "byte list \<Rightarrow> sock_ring \<Rightarrow> sock_ring" where
  "recv_store b r =
     (let i = write_slot r; p = rg_packets r ! i in
      r\<lparr>rg_packets := (rg_packets r)[i := p\<lparr>pk_data := b @ drop (length b) (pk_data p), pk_size := length b\<rparr>]\<rparr>)"

definition recv_commit :: "sock_ring \<Rightarrow> sock_ring" where
  "recv_commit r = r\<lparr>rg_write := rg_write r + 1\<rparr>"

definition recv_end :: "sock_ring \<Rightarrow> sock_ring" where
  "recv_end r = r\<lparr>rg_dead := True\<rparr>"

text \<open>
  The reader: whether there is a packet, \<open>None\<close> while it has to wait.  \<open>wanted\<close>: a buffer was passed;
  \<open>expired\<close>: the five seconds are over.
\<close>

definition read_begin :: "bool \<Rightarrow> bool \<Rightarrow> sock_ring \<Rightarrow> bool option" where
  "read_begin wanted expired r =
     (if rg_write r = rg_read r \<and> \<not> wanted then Some False
      else if rg_dead r \<or> rg_write r \<noteq> rg_read r then Some (rg_write r \<noteq> rg_read r)
      else if expired then Some False
      else None)"

definition read_copy :: "bool \<Rightarrow> nat \<Rightarrow> sock_ring \<Rightarrow> nat \<times> byte list" where
  "read_copy wanted sz r =
     (let p = rg_packets r ! read_slot r; n = min sz (pk_size p) in (n, if wanted then take n (pk_data p) else []))"

definition read_commit :: "sock_ring \<Rightarrow> sock_ring" where
  "read_commit r = r\<lparr>rg_read := rg_read r + 1\<rparr>"

text \<open>The destructor empties the ring and stops the thread.\<close>

definition ring_stop :: "sock_ring \<Rightarrow> sock_ring" where
  "ring_stop r = r\<lparr>rg_read := rg_write r, rg_dead := True\<rparr>"

section \<open>Two threads\<close>

text \<open>
  Where the receiving thread is: about to wait for a free slot, about to receive into it, about to commit (with the
  datagram that \<open>recv\<close> has returned), or gone.  Where the reader is: outside, about to copy a packet, or about to commit.
\<close>

datatype receiver = RWait | RRecv | RStored "byte list" | RGone

datatype reader = Outside | Copying bool nat | Copied bool nat "nat \<times> byte list"

text \<open>
  The datagrams that \<open>recv\<close> has returned and the thread has committed, as they came from the network and not as they are
  in the ring, and the results of the reads with their arguments.
\<close>

record ring_system =
  rs_ring :: sock_ring
  rs_receiver :: receiver
  rs_reader :: reader
  rs_received :: "byte list list"
  rs_delivered :: "(bool \<times> nat \<times> nat \<times> byte list) list"

inductive ring_step :: "ring_system \<Rightarrow> ring_system \<Rightarrow> bool" where
  wait: "rs_receiver w = RWait \<Longrightarrow> may_receive (rs_ring w)
    \<Longrightarrow> ring_step w (if rg_dead (rs_ring w) then w\<lparr>rs_receiver := RGone, rs_ring := recv_end (rs_ring w)\<rparr>
          else w\<lparr>rs_receiver := RRecv\<rparr>)"
| recv: "rs_receiver w = RRecv \<Longrightarrow> length b \<le> rg_max (rs_ring w)
    \<Longrightarrow> ring_step w (if b = [] then w\<lparr>rs_receiver := RGone, rs_ring := recv_end (rs_ring w)\<rparr>
          else w\<lparr>rs_receiver := RStored b, rs_ring := recv_store b (rs_ring w)\<rparr>)"
| committed: "rs_receiver w = RStored b
    \<Longrightarrow> ring_step w (w\<lparr>rs_receiver := RWait, rs_received := rs_received w @ [b], rs_ring := recv_commit (rs_ring w)\<rparr>)"
| enter: "rs_reader w = Outside \<Longrightarrow> read_begin wanted expired (rs_ring w) = Some found
    \<Longrightarrow> ring_step w (if found then w\<lparr>rs_reader := Copying wanted n\<rparr> else w)"
| copy: "rs_reader w = Copying wanted n
    \<Longrightarrow> ring_step w (w\<lparr>rs_reader := Copied wanted n (read_copy wanted n (rs_ring w))\<rparr>)"
| leave: "rs_reader w = Copied wanted n res
    \<Longrightarrow> ring_step w (w\<lparr>rs_reader := Outside, rs_ring := read_commit (rs_ring w),
          rs_delivered := rs_delivered w @ [(wanted, n, res)]\<rparr>)"

text \<open>The thread has just been created with a ring of at least one packet.\<close>

definition ring_start :: "ring_system \<Rightarrow> bool" where
  "ring_start w \<longleftrightarrow> (\<exists>sz n. 0 < n \<and> unat n < 2 ^ 32 \<and> init_recv_thread False True sz n ring_empty = (True, rs_ring w))
     \<and> rs_receiver w = RWait \<and> rs_reader w = Outside \<and> rs_received w = [] \<and> rs_delivered w = []"

inductive ring_reachable :: "ring_system \<Rightarrow> bool" where
  start: "ring_start w \<Longrightarrow> ring_reachable w"
| step: "ring_reachable w \<Longrightarrow> ring_step w w' \<Longrightarrow> ring_reachable w'"

section \<open>A queue that is filled in two steps\<close>

text \<open>
  What the two threads need of the ring: storing in the free slot changes nothing that is queued, committing
  appends what was stored, releasing takes the first packet away and leaves the free slot alone.
\<close>

locale two_phase_fifo =
  fixes inv :: "'r \<Rightarrow> bool" and contents :: "'r \<Rightarrow> 'a list" and room :: "'r \<Rightarrow> bool"
    and fits :: "'a \<Rightarrow> 'r \<Rightarrow> bool" and slot :: "'r \<Rightarrow> 'a"
    and put_slot :: "'a \<Rightarrow> 'r \<Rightarrow> 'r" and commit :: "'r \<Rightarrow> 'r" and release :: "'r \<Rightarrow> 'r"
  assumes store_laws: "inv r \<Longrightarrow> room r \<Longrightarrow> fits x r \<Longrightarrow>
      inv (put_slot x r) \<and> room (put_slot x r) \<and> contents (put_slot x r) = contents r \<and> slot (put_slot x r) = x"
    and commit_laws: "inv r \<Longrightarrow> room r \<Longrightarrow> inv (commit r) \<and> contents (commit r) = contents r @ [slot r]"
    and release_laws: "inv r \<Longrightarrow> contents r \<noteq> [] \<Longrightarrow>
      inv (release r) \<and> room (release r) \<and> contents (release r) = tl (contents r) \<and> slot (release r) = slot r"
begin

text \<open>The history \<open>recd\<close> of what was committed, of which the first \<open>n\<close> elements have been taken.\<close>

lemma commit_history:
  assumes "inv r" "room r" "n \<le> length recd" "drop n recd = contents r"
  shows "n \<le> length (recd @ [slot r])" "drop n (recd @ [slot r]) = contents (commit r)"
  using assms commit_laws[OF assms(1,2)] by simp_all

lemma release_history:
  assumes "inv r" "contents r \<noteq> []" "n \<le> length recd" "drop n recd = contents r"
  shows "n < length recd" "recd ! n = hd (contents r)" "drop (Suc n) recd = contents (release r)"
proof -
  show n: "n < length recd" using assms(2-4) by (cases "n < length recd") auto
  show "recd ! n = hd (contents r)" using n assms(4) by (simp flip: hd_drop_conv_nth)
  show "drop (Suc n) recd = contents (release r)"
    using release_laws[OF assms(1,2)] assms(4) by (simp add: drop_Suc drop_tl)
qed

lemma put_then_commit:
  "inv r \<Longrightarrow> room r \<Longrightarrow> fits x r \<Longrightarrow> contents (commit (put_slot x r)) = contents r @ [x]"
  using store_laws commit_laws by metis

end

section \<open>The ring as such a queue\<close>

definition packet_bytes :: "packet \<Rightarrow> byte list" where
  "packet_bytes p = take (pk_size p) (pk_data p)"

definition ring_contents :: "sock_ring \<Rightarrow> byte list list" where
  "ring_contents r = map (\<lambda>k. packet_bytes (rg_packets r ! ((unat (rg_read r) + k) mod length (rg_packets r))))
     [0..<unat (queued r)]"

definition ring_room :: "sock_ring \<Rightarrow> bool" where
  "ring_room r \<longleftrightarrow> unat (queued r) < length (rg_packets r)"

definition ring_fits :: "byte list \<Rightarrow> sock_ring \<Rightarrow> bool" where
  "ring_fits b r \<longleftrightarrow> length b \<le> rg_max r"

definition ring_slot :: "sock_ring \<Rightarrow> byte list" where
  "ring_slot r = packet_bytes (rg_packets r ! write_slot r)"

definition ring_ok :: "sock_ring \<Rightarrow> bool" where
  "ring_ok r \<longleftrightarrow> (\<exists>k < 32. length (rg_packets r) = 2 ^ k)
     \<and> unat (queued r) \<le> length (rg_packets r)
     \<and> list_all (\<lambda>p. pk_size p \<le> length (pk_data p) \<and> length (pk_data p) = rg_max r) (rg_packets r)"

text \<open>The number of packets is a power of two, so masking is a remainder, also where the counters wrap around.\<close>

lemma mask_mod:
  assumes "k < 32" "n = 2 ^ k"
  shows "unat ((w :: u32) AND (word_of_nat n - 1)) = unat w mod n"
proof -
  have "(word_of_nat n - 1 :: u32) = mask k" by (simp add: assms(2) mask_eq_exp_minus_1)
  then have "w AND (word_of_nat n - 1) = take_bit k w" by (simp only: take_bit_eq_mask)
  moreover have "unat (take_bit k w) = take_bit k (unat w)" by (rule unsigned_take_bit_eq)
  ultimately show ?thesis by (simp only: assms(2) take_bit_eq_mod)
qed

lemma unat_mod_add:
  assumes "k < 32" "n = 2 ^ k"
  shows "unat ((a :: u32) + b) mod n = (unat a + unat b) mod n"
proof -
  have "n dvd 2 ^ 32" using assms by (simp only: assms(2)) (rule le_imp_power_dvd, simp)
  then show ?thesis by (simp add: unat_word_ariths mod_mod_cancel)
qed

lemma ring_okD:
  assumes "ring_ok r"
  obtains k where "k < 32" "length (rg_packets r) = 2 ^ k" "0 < length (rg_packets r)" "length (rg_packets r) < 2 ^ 32"
    "unat (queued r) \<le> length (rg_packets r)"
proof -
  obtain k where k: "k < 32" "length (rg_packets r) = 2 ^ k" using assms by (auto simp: ring_ok_def)
  then have "length (rg_packets r) < 2 ^ 32" by (simp only: power_strict_increasing_iff)
  with k assms that show ?thesis by (simp add: ring_ok_def)
qed

lemma ring_slots:
  assumes "ring_ok r"
  shows "write_slot r = (unat (rg_read r) + unat (queued r)) mod length (rg_packets r)"
    "read_slot r = unat (rg_read r) mod length (rg_packets r)" "write_slot r < length (rg_packets r)"
proof -
  obtain k where k: "k < 32" "length (rg_packets r) = 2 ^ k" "0 < length (rg_packets r)" by (rule ring_okD[OF assms])
  have "rg_write r = rg_read r + queued r" by (simp add: queued_def)
  then show w: "write_slot r = (unat (rg_read r) + unat (queued r)) mod length (rg_packets r)"
    unfolding write_slot_def ring_mask_def mask_mod[OF k(1,2)] by (simp only: unat_mod_add[OF k(1,2)])
  show "read_slot r = unat (rg_read r) mod length (rg_packets r)"
    unfolding read_slot_def ring_mask_def by (rule mask_mod[OF k(1,2)])
  show "write_slot r < length (rg_packets r)" unfolding w using k(3) by (rule mod_less_divisor)
qed

lemma mod_distinct: "(j :: nat) < q \<Longrightarrow> q < n \<Longrightarrow> (a + j) mod n \<noteq> (a + q) mod n"
proof
  assume "j < q" "q < n" "(a + j) mod n = (a + q) mod n"
  then have "n dvd (a + q) - (a + j)" by (metis mod_eq_dvd_iff_nat nat_add_left_cancel_le less_imp_le)
  with \<open>j < q\<close> have "n dvd q - j" by simp
  with \<open>j < q\<close> \<open>q < n\<close> show False by (auto dest: dvd_imp_le)
qed

interpretation ring: two_phase_fifo ring_ok ring_contents ring_room ring_fits ring_slot recv_store recv_commit read_commit
proof
  fix r :: sock_ring and b :: "byte list"
  assume ok: "ring_ok r" and rm: "ring_room r" and ft: "ring_fits b r"
  let ?n = "length (rg_packets r)" and ?q = "unat (queued r)" and ?a = "unat (rg_read r)"
  note W = ring_slots[OF ok]
  let ?r = "recv_store b r"
  have same: "length (rg_packets ?r) = ?n" "rg_read ?r = rg_read r" "rg_write ?r = rg_write r" "rg_max ?r = rg_max r"
    by (simp_all add: recv_store_def Let_def)
  have q: "queued ?r = queued r" by (simp add: queued_def same)
  have "rg_packets ?r ! ((?a + j) mod ?n) = rg_packets r ! ((?a + j) mod ?n)" if "j < ?q" for j
    using mod_distinct[OF that, of ?n ?a] rm W(1) by (simp add: recv_store_def Let_def ring_room_def)
  then have c: "ring_contents ?r = ring_contents r" by (simp add: ring_contents_def same q)
  have ws: "write_slot ?r = write_slot r" by (simp add: write_slot_def ring_mask_def same)
  have d: "length (pk_data (rg_packets r ! write_slot r)) = rg_max r" using ok W(3) by (simp add: ring_ok_def list_all_length)
  have "ring_ok ?r"
    using ok ft d W(3) unfolding ring_ok_def q same(1)
    by (auto simp: recv_store_def Let_def list_all_length nth_list_update ring_fits_def)
  moreover have "ring_slot ?r = b"
    unfolding ring_slot_def ws using W(3) by (simp add: recv_store_def Let_def packet_bytes_def)
  ultimately show "ring_ok ?r \<and> ring_room ?r \<and> ring_contents ?r = ring_contents r \<and> ring_slot ?r = b"
    using c rm by (simp add: ring_room_def q same)
next
  fix r assume ok: "ring_ok r" and rm: "ring_room r"
  let ?q = "unat (queued r)"
  obtain k where k: "length (rg_packets r) < 2 ^ 32" by (rule ring_okD[OF ok])
  have "queued (recv_commit r) = queued r + 1" by (simp add: queued_def recv_commit_def)
  moreover have "?q + 1 < 2 ^ 32" using rm k by (simp add: ring_room_def)
  then have "unat (queued r + 1) = Suc ?q" by (simp add: unat_word_ariths)
  ultimately have q: "unat (queued (recv_commit r)) = Suc ?q" by simp
  have "ring_contents (recv_commit r) = ring_contents r @ [ring_slot r]"
    using ring_slots(1)[OF ok] by (simp add: ring_contents_def q ring_slot_def) (simp add: recv_commit_def)
  moreover have "ring_ok (recv_commit r)"
    using ok rm unfolding ring_ok_def q by (auto simp: recv_commit_def ring_room_def)
  ultimately show "ring_ok (recv_commit r) \<and> ring_contents (recv_commit r) = ring_contents r @ [ring_slot r]" by blast
next
  fix r assume ok: "ring_ok r" and ne: "ring_contents r \<noteq> []"
  let ?q = "unat (queued r)" and ?n = "length (rg_packets r)" and ?a = "unat (rg_read r)"
  obtain k where k: "k < 32" "?n = 2 ^ k" by (rule ring_okD[OF ok])
  have q0: "0 < ?q" using ne by (simp add: ring_contents_def)
  have "queued (read_commit r) = queued r - 1" by (simp add: queued_def read_commit_def)
  moreover have "unat (queued r - 1) = ?q - 1" using q0 by (intro unat_minus_one) auto
  ultimately have q: "unat (queued (read_commit r)) = ?q - 1" by simp
  have "unat (rg_read r + 1) mod ?n = Suc ?a mod ?n" using unat_mod_add[OF k, of "rg_read r" 1] by simp
  then have "(unat (rg_read r + 1) + j) mod ?n = (Suc ?a + j) mod ?n" for j by (rule mod_add_cong) simp
  then have "ring_contents (read_commit r) = map (\<lambda>j. packet_bytes (rg_packets r ! ((?a + Suc j) mod ?n))) [0..<?q - 1]"
    by (simp add: ring_contents_def q) (simp add: read_commit_def)
  moreover have "[0..<?q] = 0 # map Suc [0..<?q - 1]" using q0 by (simp add: map_Suc_upt upt_conv_Cons)
  ultimately have "ring_contents (read_commit r) = tl (ring_contents r)" by (simp add: ring_contents_def)
  moreover have "ring_slot (read_commit r) = ring_slot r"
    by (simp add: ring_slot_def write_slot_def ring_mask_def) (simp add: read_commit_def)
  moreover have "ring_ok (read_commit r)" "ring_room (read_commit r)"
    using ok q0 unfolding ring_ok_def ring_room_def q by (auto simp: read_commit_def)
  ultimately show "ring_ok (read_commit r) \<and> ring_room (read_commit r) \<and> ring_contents (read_commit r) = tl (ring_contents r)
      \<and> ring_slot (read_commit r) = ring_slot r" by blast
qed

section \<open>What the reader gets\<close>

text \<open>The check in \<open>init_recv_thread\<close> lets exactly the powers of two through, and zero.\<close>

lemma and_pred_pow2: "0 < n \<Longrightarrow> n AND (n - 1) = 0 \<Longrightarrow> \<exists>k. n = 2 ^ k" for n :: nat
proof (induction n rule: less_induct)
  case (less n)
  show ?case
  proof (cases "even n")
    case False
    then obtain m where m: "n = 2 * m + 1" by (elim oddE)
    then have "n AND (n - 1) = 2 * m" by (simp add: and_nat_rec[of "Suc (2 * m)"])
    with less.prems m have "n = 2 ^ 0" by simp
    then show ?thesis by blast
  next
    case True
    then obtain m where m: "n = 2 * m" by (elim evenE)
    with less.prems have m0: "0 < m" "n - 1 = 2 * (m - 1) + 1" by auto
    then have "n AND (n - 1) = 2 * (m AND (m - 1))" by (simp add: m and_nat_rec[of "2 * m"])
    with less.prems less.IH[of m] m m0 obtain k where "m = 2 ^ k" by auto
    with m have "n = 2 ^ Suc k" by simp
    then show ?thesis by blast
  qed
qed

lemma init_ring_ok:
  assumes "init_recv_thread False True sz n ring_empty = (True, r)" "0 < n" "unat n < 2 ^ 32"
  shows "ring_ok r" "ring_contents r = []"
proof -
  have z: "n AND (n - 1) = 0" and r: "r = ring_empty\<lparr>rg_packets := replicate (unat n) \<lparr>pk_data = replicate sz 0, pk_size = 0\<rparr>, rg_max := sz\<rparr>"
    using assms(1) by (auto simp: init_recv_thread_def split: if_splits)
  have n0: "0 < unat n" using assms(2) by (simp add: word_less_nat_alt)
  then have "unat (n - 1) = unat n - 1" by (intro unat_minus_one) auto
  moreover have "unat (n AND (n - 1)) = unat n AND unat (n - 1)" by (rule unsigned_and_eq)
  ultimately have "unat n AND (unat n - 1) = 0" using z by simp
  from and_pred_pow2[OF n0 this] obtain k where k: "unat n = 2 ^ k" by blast
  have "k < 32" using assms(3) unfolding k by (simp only: power_strict_increasing_iff)
  with k show "ring_ok r" "ring_contents r = []"
    by (auto simp: ring_ok_def r ring_empty_def queued_def ring_contents_def list_all_length)
qed

text \<open>The result of a read of \<open>n\<close> bytes for the packet \<open>p\<close>.\<close>

definition read_result :: "bool \<times> nat \<times> nat \<times> byte list \<Rightarrow> byte list \<Rightarrow> bool" where
  "read_result res p \<longleftrightarrow> (case res of (wanted, n, len, b) \<Rightarrow>
     len = min n (length p) \<and> b = (if wanted then take n p else []))"

text \<open>The receiving thread owns the free slot.\<close>

definition receiver_writes :: "receiver \<Rightarrow> bool" where
  "receiver_writes pc = (case pc of RRecv \<Rightarrow> True | RStored b \<Rightarrow> True | _ \<Rightarrow> False)"

definition ring_inv :: "ring_system \<Rightarrow> bool" where
  "ring_inv w \<longleftrightarrow> (let r = rs_ring w; d = length (rs_delivered w) in
     ring_ok r \<and> d \<le> length (rs_received w) \<and> drop d (rs_received w) = ring_contents r
     \<and> list_all2 read_result (rs_delivered w) (take d (rs_received w))
     \<and> (case rs_receiver w of RRecv \<Rightarrow> ring_room r | RStored b \<Rightarrow> ring_room r \<and> ring_slot r = b | _ \<Rightarrow> True)
     \<and> (case rs_reader w of Outside \<Rightarrow> True
        | Copying wanted n \<Rightarrow> ring_contents r \<noteq> []
        | Copied wanted n res \<Rightarrow> ring_contents r \<noteq> [] \<and> read_result (wanted, n, res) (hd (ring_contents r))))"

lemma queued_zero: "ring_contents r = [] \<longleftrightarrow> rg_write r = rg_read r"
proof -
  have "ring_contents r = [] \<longleftrightarrow> queued r = 0" by (auto simp: ring_contents_def unat_eq_zero)
  then show ?thesis by (simp add: queued_def)
qed

lemma ring_contents_hd:
  assumes "ring_ok r" "ring_contents r \<noteq> []"
  shows "hd (ring_contents r) = packet_bytes (rg_packets r ! read_slot r)"
  using assms ring_slots(2)[OF assms(1)] by (simp add: ring_contents_def hd_map)

lemma read_copy_result:
  assumes "ring_ok r" "ring_contents r \<noteq> []"
  shows "read_result (wanted, n, read_copy wanted n r) (hd (ring_contents r))"
proof -
  obtain k where "0 < length (rg_packets r)" by (rule ring_okD[OF assms(1)])
  then have "read_slot r < length (rg_packets r)" unfolding ring_slots(2)[OF assms(1)] by (rule mod_less_divisor)
  then have "pk_size (rg_packets r ! read_slot r) \<le> length (pk_data (rg_packets r ! read_slot r))"
    using assms(1) unfolding ring_ok_def list_all_length by blast
  then show ?thesis
    unfolding ring_contents_hd[OF assms] by (simp add: read_result_def read_copy_def packet_bytes_def Let_def min_def)
qed

lemma recv_end_same [simp]:
  "ring_ok (recv_end r) = ring_ok r" "ring_contents (recv_end r) = ring_contents r" "ring_room (recv_end r) = ring_room r"
  by (simp_all add: recv_end_def ring_ok_def ring_contents_def ring_room_def queued_def)

lemma ring_step_inv: "ring_step w w' \<Longrightarrow> ring_inv w \<Longrightarrow> ring_inv w'"
proof (induction rule: ring_step.induct)
  case (wait w)
  then show ?case by (auto simp: ring_inv_def Let_def may_receive_def ring_room_def split: reader.splits)
next
  case (recv w b)
  have "ring_room (rs_ring w)" "ring_ok (rs_ring w)" "ring_fits b (rs_ring w)"
    using recv by (auto simp: ring_inv_def Let_def ring_fits_def)
  note s = ring.store_laws[OF this(2,1,3)]
  with recv show ?case by (auto simp: ring_inv_def Let_def split: reader.splits)
next
  case (committed w b)
  let ?r = "rs_ring w" and ?d = "length (rs_delivered w)"
  have r: "ring_ok ?r" "ring_room ?r" "?d \<le> length (rs_received w)" "drop ?d (rs_received w) = ring_contents ?r" and b: "ring_slot ?r = b"
    using committed by (auto simp: ring_inv_def Let_def)
  note h = ring.commit_history[OF r] and c = ring.commit_laws[OF r(1,2)]
  from committed h c r(3) b show ?case by (auto simp: ring_inv_def Let_def split: reader.splits)
next
  case (enter w wanted expired found n)
  then show ?case by (auto simp: ring_inv_def Let_def queued_zero read_begin_def split: if_splits receiver.splits)
next
  case (copy w wanted n)
  then show ?case using read_copy_result by (auto simp: ring_inv_def Let_def split: receiver.splits)
next
  case (leave w wanted n res)
  let ?r = "rs_ring w" and ?d = "length (rs_delivered w)"
  have r: "ring_ok ?r" "ring_contents ?r \<noteq> []" "?d \<le> length (rs_received w)" "drop ?d (rs_received w) = ring_contents ?r"
    "read_result (wanted, n, res) (hd (ring_contents ?r))" "list_all2 read_result (rs_delivered w) (take ?d (rs_received w))"
    using leave by (auto simp: ring_inv_def Let_def)
  note h = ring.release_history[OF r(1-4)] and c = ring.release_laws[OF r(1,2)]
  have "take (Suc ?d) (rs_received w) = take ?d (rs_received w) @ [hd (ring_contents ?r)]"
    using h(1,2) by (simp add: take_Suc_conv_app_nth)
  with leave h c r(5,6) show ?case by (auto simp: ring_inv_def Let_def list_all2_appendI split: receiver.splits)
qed

lemma ring_reachable_inv: "ring_reachable w \<Longrightarrow> ring_inv w"
proof (induction rule: ring_reachable.induct)
  case (start w)
  then obtain sz n where "0 < n" "unat n < 2 ^ 32" "init_recv_thread False True sz n ring_empty = (True, rs_ring w)"
    "rs_receiver w = RWait" "rs_reader w = Outside" "rs_received w = []" "rs_delivered w = []"
    by (auto simp: ring_start_def)
  with init_ring_ok show ?case by (auto simp: ring_inv_def Let_def)
qed (rule ring_step_inv)

text \<open>
  C12. The ring between the receiving thread and the reader is a queue: in every interleaving of the two threads,
  the counters wrapping around included, the reads have delivered exactly the first datagrams that \<open>recv\<close>
  returned, byte for byte and in order, each cut to the size that was asked for; the other committed datagrams are
  in the ring; and while one thread writes its slot and the other copies its own, the two slots are different.
\<close>

theorem ring_is_queue:
  assumes "ring_reachable w"
  shows "\<exists>taken. rs_received w = taken @ ring_contents (rs_ring w) \<and> list_all2 read_result (rs_delivered w) taken
    \<and> length (ring_contents (rs_ring w)) \<le> length (rg_packets (rs_ring w))
    \<and> (receiver_writes (rs_receiver w) \<and> rs_reader w \<noteq> Outside \<longrightarrow> write_slot (rs_ring w) \<noteq> read_slot (rs_ring w))"
proof -
  let ?r = "rs_ring w" and ?d = "length (rs_delivered w)"
  have inv: "ring_inv w" by (rule ring_reachable_inv[OF assms])
  then have ok: "ring_ok ?r" and d: "drop ?d (rs_received w) = ring_contents ?r"
      "list_all2 read_result (rs_delivered w) (take ?d (rs_received w))"
    by (auto simp: ring_inv_def Let_def)
  have "rs_received w = take ?d (rs_received w) @ ring_contents ?r" by (metis append_take_drop_id d(1))
  moreover have "length (ring_contents ?r) \<le> length (rg_packets ?r)" using ok by (simp add: ring_contents_def ring_ok_def)
  moreover have "write_slot ?r \<noteq> read_slot ?r" if "receiver_writes (rs_receiver w)" "rs_reader w \<noteq> Outside"
  proof -
    have "ring_room ?r" "ring_contents ?r \<noteq> []"
      using inv that by (auto simp: ring_inv_def Let_def receiver_writes_def split: reader.splits receiver.splits)
    then have "0 < unat (queued ?r)" "unat (queued ?r) < length (rg_packets ?r)"
      by (simp_all add: ring_contents_def ring_room_def)
    from mod_distinct[OF this, of "unat (rg_read ?r)"] show ?thesis
      unfolding ring_slots(1,2)[OF ok] by simp
  qed
  ultimately show ?thesis using d(2) by blast
qed

text \<open>A ring of two packets into which one packet has been received.\<close>

lemma one_packet_received: "\<exists>w. ring_reachable w \<and> rs_received w = [[1, 2]] \<and> rs_delivered w = []"
proof -
  define r where "r = snd (init_recv_thread False True 4 2 ring_empty)"
  define w0 where "w0 = \<lparr>rs_ring = r, rs_receiver = RWait, rs_reader = Outside, rs_received = [], rs_delivered = []\<rparr>"
  define w1 where "w1 = w0\<lparr>rs_receiver := RRecv\<rparr>"
  define w2 where "w2 = w1\<lparr>rs_receiver := RStored [1, 2], rs_ring := recv_store [1, 2] r\<rparr>"
  have r: "r = \<lparr>rg_max = 4, rg_write = 0, rg_read = 0, rg_dead = False,
      rg_packets = replicate 2 \<lparr>pk_data = replicate 4 0, pk_size = 0\<rparr>\<rparr>"
    by (simp add: r_def init_recv_thread_def ring_empty_def)
  have "ring_start w0"
    unfolding ring_start_def by (intro conjI exI[of _ 4] exI[of _ 2]) (simp_all add: w0_def r init_recv_thread_def ring_empty_def)
  then have s0: "ring_reachable w0" by (rule ring_reachable.start)
  have "ring_step w0 w1"
    using ring_step.wait[of w0] by (simp add: w1_def w0_def r may_receive_def queued_def)
  with s0 have s1: "ring_reachable w1" by (rule ring_reachable.step)
  have "ring_step w1 w2" using ring_step.recv[of w1 "[1, 2]"] by (simp add: w2_def w1_def w0_def r)
  with s1 have s2: "ring_reachable w2" by (rule ring_reachable.step)
  obtain w3 where "ring_step w2 w3" "rs_received w3 = [[1, 2]]" "rs_delivered w3 = []"
    using ring_step.committed[of w2 "[1, 2]"] by (simp add: w2_def w1_def w0_def)
  then show ?thesis using ring_reachable.step[OF s2] by auto
qed

lemma ring_is_queue_witness:
  "\<exists>w :: ring_system. \<exists>taken. rs_received w = [[1, 2]] \<and> rs_received w = taken @ ring_contents (rs_ring w)
    \<and> list_all2 read_result (rs_delivered w) taken"
proof -
  obtain w where w: "ring_reachable w" "rs_received w = [[1, 2]]" using one_packet_received by blast
  from ring_is_queue[OF w(1)] w(2) show ?thesis by blast
qed

end
