(* ===== verification/Ipc_Messages.thy ===== *)
theory Ipc_Messages
  imports Pyro_Protocol "HOL-Library.Multiset"
begin

text \<open>
  The messages between applications and the server on the local socket (\<open>ipc/messages.hpp\<close>,
  \<open>ipc/messages.cpp\<close>): their types, the layout of every structure, sending and parsing.

  Messages travel over a socket that keeps record boundaries and carries descriptors.  What \<open>sendmsg\<close> and
  \<open>recvmsg\<close> do is an argument: the result of the call, the bytes, the control messages and the truncation
  flag.  Parsing returns the message, if any, and the received descriptors that were closed on the way.

  The locale \<open>checked_format\<close> is the contract of a layout whose structure has arrays: it holds for values
  whose arrays have their declared length.
\<close>

section \<open>Message types\<close>

datatype ipc_type =
    MT_Void | MT_OK | MT_ErrorProtocol | MT_Error | MT_ErrorParameter
  | MT_EchoPayload | MT_Device | MT_ImageGroup | MT_PresentImage | MT_AcquireImage | MT_FrameComplete
  | MT_RetireImage | MT_ClientHello | MT_ServerHello

definition MessageEventFlag :: u32 where
  "MessageEventFlag = 0x80000000"

fun ipc_type_code :: "ipc_type \<Rightarrow> u32" where
  "ipc_type_code MT_Void = 0"
| "ipc_type_code MT_OK = 1"
| "ipc_type_code MT_ErrorProtocol = 2"
| "ipc_type_code MT_Error = 3"
| "ipc_type_code MT_ErrorParameter = 4"
| "ipc_type_code MT_EchoPayload = 100"
| "ipc_type_code MT_Device = 101"
| "ipc_type_code MT_ImageGroup = 102"
| "ipc_type_code MT_PresentImage = 103"
| "ipc_type_code MT_AcquireImage = 104 OR MessageEventFlag"
| "ipc_type_code MT_FrameComplete = 105 OR MessageEventFlag"
| "ipc_type_code MT_RetireImage = 106 OR MessageEventFlag"
| "ipc_type_code MT_ClientHello = 200"
| "ipc_type_code MT_ServerHello = 201"

definition all_ipc_types :: "ipc_type list" where
  "all_ipc_types = [MT_Void, MT_OK, MT_ErrorProtocol, MT_Error, MT_ErrorParameter, MT_EchoPayload, MT_Device,
     MT_ImageGroup, MT_PresentImage, MT_AcquireImage, MT_FrameComplete, MT_RetireImage, MT_ClientHello, MT_ServerHello]"

definition ipc_type_of_code :: "u32 \<Rightarrow> ipc_type option" where
  "ipc_type_of_code v = List.find (\<lambda>t. ipc_type_code t = v) all_ipc_types"

definition VulkanExternalStream :: u32 where "VulkanExternalStream = 1"
definition EchoStream :: u32 where "EchoStream = 2"

section \<open>Structures\<close>

definition put_array :: "nat \<Rightarrow> 'a::len word list \<Rightarrow> byte list" where
  "put_array n ws = concat (map (put_word n) ws)"

definition get_array :: "nat \<Rightarrow> nat \<Rightarrow> nat \<Rightarrow> byte list \<Rightarrow> 'a::len word list" where
  "get_array off n k b = map (\<lambda>i. get_word (off + n * i) n b) [0..<k]"

record raw_message_header =
  raw_magic :: u64
  raw_serial :: u64
  raw_type :: u32
  raw_payload_len :: u32
  raw_reserved :: u64

definition put_raw_header :: "raw_message_header \<Rightarrow> byte list" where
  "put_raw_header h = put_word 8 (raw_magic h) @ put_word 8 (raw_serial h) @ put_word 4 (raw_type h)
     @ put_word 4 (raw_payload_len h) @ put_word 8 (raw_reserved h)"

definition get_raw_header :: "byte list \<Rightarrow> raw_message_header" where
  "get_raw_header b = \<lparr>raw_magic = get_word 0 8 b, raw_serial = get_word 8 8 b, raw_type = get_word 16 4 b,
     raw_payload_len = get_word 20 4 b, raw_reserved = get_word 24 8 b\<rparr>"

record client_hello =
  intent :: u32
  hello_name :: "byte list"

definition put_client_hello :: "client_hello \<Rightarrow> byte list" where
  "put_client_hello h = put_word 4 (intent h) @ hello_name h"

definition get_client_hello :: "byte list \<Rightarrow> client_hello" where
  "get_client_hello b = \<lparr>intent = get_word 0 4 b, hello_name = take 252 (drop 4 b)\<rparr>"

record server_hello =
  hello_version :: u32
  capability :: "u32 list"

definition put_server_hello :: "server_hello \<Rightarrow> byte list" where
  "put_server_hello h = put_word 4 (hello_version h) @ put_array 4 (capability h)"

definition get_server_hello :: "byte list \<Rightarrow> server_hello" where
  "get_server_hello b = \<lparr>hello_version = get_word 0 4 b, capability = get_array 4 4 15 b\<rparr>"

record device_info =
  device_uuid :: "byte list"
  driver_uuid :: "byte list"
  luid :: "byte list"
  luid_valid :: u32

definition put_device :: "device_info \<Rightarrow> byte list" where
  "put_device d = device_uuid d @ driver_uuid d @ luid d @ put_word 4 (luid_valid d)"

definition get_device :: "byte list \<Rightarrow> device_info" where
  "get_device b = \<lparr>device_uuid = take 16 b, driver_uuid = take 16 (drop 16 b), luid = take 8 (drop 32 b),
     luid_valid = get_word 40 4 b\<rparr>"

record image_group =
  num_images :: u32
  ig_width :: u32
  ig_height :: u32
  vk_format :: u32
  vk_color_space :: u32
  vk_image_usage :: u32
  vk_image_flags :: u32
  vk_external_memory_type :: u32
  vk_num_view_formats :: u32
  vk_view_formats :: "u32 list"
  drm_modifier :: u64

definition put_image_group :: "image_group \<Rightarrow> byte list" where
  "put_image_group g = put_word 4 (num_images g) @ put_word 4 (ig_width g) @ put_word 4 (ig_height g)
     @ put_word 4 (vk_format g) @ put_word 4 (vk_color_space g) @ put_word 4 (vk_image_usage g)
     @ put_word 4 (vk_image_flags g) @ put_word 4 (vk_external_memory_type g) @ put_word 4 (vk_num_view_formats g)
     @ put_array 4 (vk_view_formats g) @ put_word 8 (drm_modifier g)"

definition get_image_group :: "byte list \<Rightarrow> image_group" where
  "get_image_group b = \<lparr>num_images = get_word 0 4 b, ig_width = get_word 4 4 b, ig_height = get_word 8 4 b,
     vk_format = get_word 12 4 b, vk_color_space = get_word 16 4 b, vk_image_usage = get_word 20 4 b,
     vk_image_flags = get_word 24 4 b, vk_external_memory_type = get_word 28 4 b,
     vk_num_view_formats = get_word 32 4 b, vk_view_formats = get_array 36 4 15 b, drm_modifier = get_word 96 8 b\<rparr>"

record present_image =
  pr_group_serial :: u64
  pr_period :: u16
  pr_index :: u16
  pr_semaphore_type :: u32
  pr_old_layout :: u32
  pr_new_layout :: u32
  pr_id :: u64

definition put_present_image :: "present_image \<Rightarrow> byte list" where
  "put_present_image p = put_word 8 (pr_group_serial p) @ put_word 2 (pr_period p) @ put_word 2 (pr_index p)
     @ put_word 4 (pr_semaphore_type p) @ put_word 4 (pr_old_layout p) @ put_word 4 (pr_new_layout p)
     @ put_word 8 (pr_id p)"

definition get_present_image :: "byte list \<Rightarrow> present_image" where
  "get_present_image b = \<lparr>pr_group_serial = get_word 0 8 b, pr_period = get_word 8 2 b, pr_index = get_word 10 2 b,
     pr_semaphore_type = get_word 12 4 b, pr_old_layout = get_word 16 4 b, pr_new_layout = get_word 20 4 b,
     pr_id = get_word 24 8 b\<rparr>"

record acquire_image =
  aq_group_serial :: u64
  aq_index :: u32
  aq_semaphore_type :: u32

definition put_acquire_image :: "acquire_image \<Rightarrow> byte list" where
  "put_acquire_image a = put_word 8 (aq_group_serial a) @ put_word 4 (aq_index a) @ put_word 4 (aq_semaphore_type a)"

definition get_acquire_image :: "byte list \<Rightarrow> acquire_image" where
  "get_acquire_image b = \<lparr>aq_group_serial = get_word 0 8 b, aq_index = get_word 8 4 b, aq_semaphore_type = get_word 12 4 b\<rparr>"

record retire_image =
  rt_group_serial :: u64
  rt_index :: u32
  rt_padding :: u32

definition put_retire_image :: "retire_image \<Rightarrow> byte list" where
  "put_retire_image r = put_word 8 (rt_group_serial r) @ put_word 4 (rt_index r) @ put_word 4 (rt_padding r)"

definition get_retire_image :: "byte list \<Rightarrow> retire_image" where
  "get_retire_image b = \<lparr>rt_group_serial = get_word 0 8 b, rt_index = get_word 8 4 b, rt_padding = get_word 12 4 b\<rparr>"

record frame_complete =
  fc_group_serial :: u64
  fc_timestamp :: u64
  fc_period_ns :: u64
  fc_presented_id :: u64
  fc_flags :: u32
  fc_delayed_count :: u32
  fc_headroom_ns :: u64

definition put_frame_complete :: "frame_complete \<Rightarrow> byte list" where
  "put_frame_complete f = put_word 8 (fc_group_serial f) @ put_word 8 (fc_timestamp f) @ put_word 8 (fc_period_ns f)
     @ put_word 8 (fc_presented_id f) @ put_word 4 (fc_flags f) @ put_word 4 (fc_delayed_count f)
     @ put_word 8 (fc_headroom_ns f)"

definition get_frame_complete :: "byte list \<Rightarrow> frame_complete" where
  "get_frame_complete b = \<lparr>fc_group_serial = get_word 0 8 b, fc_timestamp = get_word 8 8 b, fc_period_ns = get_word 16 8 b,
     fc_presented_id = get_word 24 8 b, fc_flags = get_word 32 4 b, fc_delayed_count = get_word 36 4 b,
     fc_headroom_ns = get_word 40 8 b\<rparr>"

text \<open>The sizes that the sources assert of the structures.\<close>

definition sizeof_raw_header :: nat where "sizeof_raw_header = 32"
definition sizeof_raw_data :: nat where "sizeof_raw_data = 1024 - sizeof_raw_header"
definition sizeof_client_hello :: nat where "sizeof_client_hello = 256"
definition sizeof_server_hello :: nat where "sizeof_server_hello = 16 * 4"
definition sizeof_device :: nat where "sizeof_device = 16 * 2 + 8 + 4"
definition sizeof_image_group :: nat where "sizeof_image_group = 44 + 15 * 4"
definition sizeof_present_image :: nat where "sizeof_present_image = 32"
definition sizeof_acquire_image :: nat where "sizeof_acquire_image = 16"
definition sizeof_retire_image :: nat where "sizeof_retire_image = 16"
definition sizeof_frame_complete :: nat where "sizeof_frame_complete = 48"

lemmas ipc_sizeof_defs [layout_simps] =
  sizeof_raw_header_def sizeof_raw_data_def sizeof_client_hello_def sizeof_server_hello_def sizeof_device_def
  sizeof_image_group_def sizeof_present_image_def sizeof_acquire_image_def sizeof_retire_image_def
  sizeof_frame_complete_def

definition client_hello_ok :: "client_hello \<Rightarrow> bool" where
  "client_hello_ok h \<longleftrightarrow> length (hello_name h) = 252"

definition server_hello_ok :: "server_hello \<Rightarrow> bool" where
  "server_hello_ok h \<longleftrightarrow> length (capability h) = 15"

definition device_ok :: "device_info \<Rightarrow> bool" where
  "device_ok d \<longleftrightarrow> length (device_uuid d) = 16 \<and> length (driver_uuid d) = 16 \<and> length (luid d) = 8"

definition image_group_ok :: "image_group \<Rightarrow> bool" where
  "image_group_ok g \<longleftrightarrow> length (vk_view_formats g) = 15"

section \<open>Messages\<close>

text \<open>
  The classes derived from \<open>Message\<close>.  A message owns the descriptors it carries; -1 stands for an empty
  handle.
\<close>

datatype ipc_message =
    PlainMessage ipc_type u64
  | EchoPayloadMessage u64 int
  | ClientHelloMessage u64 client_hello
  | ServerHelloMessage u64 server_hello
  | DeviceMessage u64 device_info
  | ImageGroupMessage u64 image_group "int list"
  | PresentImageMessage u64 present_image int
  | AcquireImageMessage u64 acquire_image int
  | RetireImageMessage u64 retire_image
  | FrameCompleteMessage u64 frame_complete

fun get_type :: "ipc_message \<Rightarrow> ipc_type" where
  "get_type (PlainMessage t s) = t"
| "get_type (EchoPayloadMessage s fd) = MT_EchoPayload"
| "get_type (ClientHelloMessage s w) = MT_ClientHello"
| "get_type (ServerHelloMessage s w) = MT_ServerHello"
| "get_type (DeviceMessage s w) = MT_Device"
| "get_type (ImageGroupMessage s w fds) = MT_ImageGroup"
| "get_type (PresentImageMessage s w fd) = MT_PresentImage"
| "get_type (AcquireImageMessage s w fd) = MT_AcquireImage"
| "get_type (RetireImageMessage s w) = MT_RetireImage"
| "get_type (FrameCompleteMessage s w) = MT_FrameComplete"

fun get_serial :: "ipc_message \<Rightarrow> u64" where
  "get_serial (PlainMessage t s) = s"
| "get_serial (EchoPayloadMessage s fd) = s"
| "get_serial (ClientHelloMessage s w) = s"
| "get_serial (ServerHelloMessage s w) = s"
| "get_serial (DeviceMessage s w) = s"
| "get_serial (ImageGroupMessage s w fds) = s"
| "get_serial (PresentImageMessage s w fd) = s"
| "get_serial (AcquireImageMessage s w fd) = s"
| "get_serial (RetireImageMessage s w) = s"
| "get_serial (FrameCompleteMessage s w) = s"

text \<open>The descriptors a message owns.\<close>

fun message_fds :: "ipc_message \<Rightarrow> int list" where
  "message_fds (EchoPayloadMessage s fd) = [fd]"
| "message_fds (ImageGroupMessage s w fds) = fds"
| "message_fds (PresentImageMessage s w fd) = (if fd < 0 then [] else [fd])"
| "message_fds (AcquireImageMessage s w fd) = (if fd < 0 then [] else [fd])"
| "message_fds _ = []"

text \<open>The payload bytes that \<open>send_wire_message\<close> passes for a message.\<close>

fun message_payload :: "ipc_message \<Rightarrow> byte list" where
  "message_payload (ClientHelloMessage s w) = put_client_hello w"
| "message_payload (ServerHelloMessage s w) = put_server_hello w"
| "message_payload (DeviceMessage s w) = put_device w"
| "message_payload (ImageGroupMessage s w fds) = put_image_group w"
| "message_payload (PresentImageMessage s w fd) = put_present_image w"
| "message_payload (AcquireImageMessage s w fd) = put_acquire_image w"
| "message_payload (RetireImageMessage s w) = put_retire_image w"
| "message_payload (FrameCompleteMessage s w) = put_frame_complete w"
| "message_payload _ = []"

section \<open>Sending\<close>

definition Magic :: u64 where
  "Magic = 0x7538244abd122f9f"

definition MaxSockets :: nat where
  "MaxSockets = 16"

record ipc_datagram =
  dg_bytes :: "byte list"
  dg_fds :: "int list"

text \<open>
  The record that \<open>send_message\<close> hands to \<open>sendmsg\<close>, if it gets that far, and its result given what
  \<open>sendmsg\<close> returns (-1, or the number of bytes).
\<close>

definition send_request :: "u32 \<Rightarrow> u64 \<Rightarrow> byte list \<Rightarrow> int list \<Rightarrow> ipc_datagram option" where
  "send_request typ serial payload fds =
     (if length fds > MaxSockets then None
      else if length payload > sizeof_raw_data then None
      else Some \<lparr>dg_bytes = put_raw_header \<lparr>raw_magic = Magic, raw_serial = serial, raw_type = typ,
                               raw_payload_len = word_of_nat (length payload), raw_reserved = 0\<rparr> @ payload,
                 dg_fds = fds\<rparr>)"

definition send_message :: "(ipc_datagram \<Rightarrow> int) \<Rightarrow> u32 \<Rightarrow> u64 \<Rightarrow> byte list \<Rightarrow> int list \<Rightarrow> bool" where
  "send_message sendmsg typ serial payload fds =
     (case send_request typ serial payload fds of
        None \<Rightarrow> False
      | Some dg \<Rightarrow> (word_of_int (sendmsg dg) :: u64) = word_of_nat (sizeof_raw_header + length payload))"

definition send_ipc :: "(ipc_datagram \<Rightarrow> int) \<Rightarrow> ipc_message \<Rightarrow> bool" where
  "send_ipc sendmsg m =
     send_message sendmsg (ipc_type_code (get_type m)) (get_serial m) (message_payload m) (message_fds m)"

definition ipc_request :: "ipc_message \<Rightarrow> ipc_datagram option" where
  "ipc_request m = send_request (ipc_type_code (get_type m)) (get_serial m) (message_payload m) (message_fds m)"

text \<open>
  \<open>send_stream_message\<close> calls \<open>send\<close> until everything is gone; \<open>send k d\<close> is the result of the \<open>k\<close>-th call,
  made with the data \<open>d\<close>.  The second component is what left the process.  A result that exceeds the size
  passed would make the remaining size wrap around.
\<close>

function send_stream_message :: "(nat \<Rightarrow> byte list \<Rightarrow> int) \<Rightarrow> nat \<Rightarrow> byte list \<Rightarrow> (bool \<times> byte list) outcome" where
  "send_stream_message send k data =
     (if data = [] then Some (True, [])
      else let r = send k data in
        if r \<le> 0 then Some (False, [])
        else if nat r > length data then None
        else do {
          (ok, sent) \<leftarrow> send_stream_message send (Suc k) (drop (nat r) data);
          Some (ok, take (nat r) data @ sent) })"
  by pat_completeness auto
termination by (relation "measure (\<lambda>(send, k, data). length data)") auto

declare send_stream_message.simps [simp del]

definition receive_stream_message :: "int \<Rightarrow> nat" where
  "receive_stream_message ret = (if ret \<le> 0 then 0 else nat ret)"

section \<open>Parsing\<close>

definition SOL_SOCKET :: nat where "SOL_SOCKET = 1"
definition SCM_RIGHTS :: nat where "SCM_RIGHTS = 1"

record control_message =
  cmsg_level :: nat
  cmsg_type :: nat
  cmsg_data :: "int list"

record recv_result =
  rv_ret :: int
  rv_bytes :: "byte list"
  rv_control :: "control_message list"
  rv_trunc :: bool

text \<open>The zero-initialised buffer of 1024 bytes with the received bytes at its start.\<close>

definition raw_buffer :: "byte list \<Rightarrow> byte list" where
  "raw_buffer b = take 1024 b @ replicate (1024 - length b) 0"

definition received_fds :: "control_message list \<Rightarrow> int list" where
  "received_fds cs = concat (map (\<lambda>c.
     if cmsg_level c = SOL_SOCKET \<and> cmsg_type c = SCM_RIGHTS \<and> cmsg_data c \<noteq> [] then cmsg_data c else []) cs)"

text \<open>
  The creators return the message and the handles that their vector still owns when it is destroyed.
\<close>

type_synonym parse_result = "ipc_message option \<times> int list"

definition create_single_file_handle_message :: "raw_message_header \<Rightarrow> int list \<Rightarrow> parse_result" where
  "create_single_file_handle_message h handles =
     (if raw_payload_len h \<noteq> 0 then (None, handles)
      else if length handles \<noteq> 1 then (None, handles)
      else (Some (EchoPayloadMessage (raw_serial h) (hd handles)), []))"

definition create_file_handles_wire_format_message ::
    "(u64 \<Rightarrow> int list \<Rightarrow> ipc_message) \<Rightarrow> raw_message_header \<Rightarrow> int list \<Rightarrow> parse_result" where
  "create_file_handles_wire_format_message mk h handles = (Some (mk (raw_serial h) handles), [])"

definition create_file_handle_wire_format_message ::
    "(u64 \<Rightarrow> int \<Rightarrow> ipc_message) \<Rightarrow> raw_message_header \<Rightarrow> int list \<Rightarrow> parse_result" where
  "create_file_handle_wire_format_message mk h handles =
     (if length handles > 1 then (None, handles)
      else (Some (mk (raw_serial h) (if length handles = 1 then hd handles else -1)), []))"

definition create_wire_format_message ::
    "(u64 \<Rightarrow> ipc_message) \<Rightarrow> nat \<Rightarrow> raw_message_header \<Rightarrow> ipc_message option" where
  "create_wire_format_message mk sz h =
     (if unat (raw_payload_len h) \<noteq> sz then None else Some (mk (raw_serial h)))"

definition decode_message :: "byte list \<Rightarrow> int list \<Rightarrow> parse_result" where
  "decode_message buf fds =
     (let h = get_raw_header buf; body = drop sizeof_raw_header buf in
      case ipc_type_of_code (raw_type h) of
        Some MT_EchoPayload \<Rightarrow> create_single_file_handle_message h fds
      | Some MT_OK \<Rightarrow> (Some (PlainMessage MT_OK (raw_serial h)), fds)
      | Some MT_ErrorProtocol \<Rightarrow> (Some (PlainMessage MT_ErrorProtocol (raw_serial h)), fds)
      | Some MT_Error \<Rightarrow> (Some (PlainMessage MT_Error (raw_serial h)), fds)
      | Some MT_ErrorParameter \<Rightarrow> (Some (PlainMessage MT_ErrorParameter (raw_serial h)), fds)
      | Some MT_ClientHello \<Rightarrow>
          (create_wire_format_message (\<lambda>s. ClientHelloMessage s (get_client_hello body)) sizeof_client_hello h, fds)
      | Some MT_ServerHello \<Rightarrow>
          (create_wire_format_message (\<lambda>s. ServerHelloMessage s (get_server_hello body)) sizeof_server_hello h, fds)
      | Some MT_Device \<Rightarrow>
          (create_wire_format_message (\<lambda>s. DeviceMessage s (get_device body)) sizeof_device h, fds)
      | Some MT_ImageGroup \<Rightarrow>
          create_file_handles_wire_format_message (\<lambda>s hs. ImageGroupMessage s (get_image_group body) hs) h fds
      | Some MT_PresentImage \<Rightarrow>
          create_file_handle_wire_format_message (\<lambda>s fd. PresentImageMessage s (get_present_image body) fd) h fds
      | Some MT_AcquireImage \<Rightarrow>
          create_file_handle_wire_format_message (\<lambda>s fd. AcquireImageMessage s (get_acquire_image body) fd) h fds
      | Some MT_FrameComplete \<Rightarrow>
          (create_wire_format_message (\<lambda>s. FrameCompleteMessage s (get_frame_complete body)) sizeof_frame_complete h, fds)
      | Some MT_RetireImage \<Rightarrow>
          (create_wire_format_message (\<lambda>s. RetireImageMessage s (get_retire_image body)) sizeof_retire_image h, fds)
      | _ \<Rightarrow> (None, fds))"

definition parse_message :: "recv_result \<Rightarrow> parse_result" where
  "parse_message r =
     (if rv_ret r \<le> 0 then (None, [])
      else
        let buf = raw_buffer (rv_bytes r); h = get_raw_header buf; fds = received_fds (rv_control r) in
        if raw_magic h \<noteq> Magic then (None, fds)
        else if nat (rv_ret r) \<noteq> sizeof_raw_header + unat (raw_payload_len h) then (None, fds)
        else if rv_trunc r then (None, fds)
        else decode_message buf fds)"

text \<open>A record delivered whole; the kernel gives the descriptors new numbers.\<close>

definition delivered :: "ipc_datagram \<Rightarrow> int list \<Rightarrow> recv_result" where
  "delivered dg fds = \<lparr>rv_ret = int (length (dg_bytes dg)), rv_bytes = dg_bytes dg,
     rv_control = (if fds = [] then [] else [\<lparr>cmsg_level = SOL_SOCKET, cmsg_type = SCM_RIGHTS, cmsg_data = fds\<rparr>]),
     rv_trunc = False\<rparr>"

section \<open>The contract of a layout with arrays\<close>

locale checked_format =
  fixes put :: "'a \<Rightarrow> byte list"
    and get :: "byte list \<Rightarrow> 'a"
    and sz :: nat
    and ok :: "'a \<Rightarrow> bool"
  assumes put_length: "ok x \<Longrightarrow> length (put x) = sz"
    and get_put: "ok x \<Longrightarrow> get (put x @ rest) = x"
    and get_ok: "sz \<le> length b \<Longrightarrow> ok (get b)"
    and put_get: "length b = sz \<Longrightarrow> put (get b) = b"
begin

text \<open>On records of the right length reading is a bijection onto the well-formed values.\<close>

lemma get_bij: "bij_betw get {b. length b = sz} {x. ok x}"
proof (rule bij_betw_byWitness[where f' = put])
  show "\<forall>b \<in> {b. length b = sz}. put (get b) = b" by (simp add: put_get)
  show "\<forall>x \<in> {x. ok x}. get (put x) = x" using get_put[of _ "[]"] by simp
  show "get ` {b. length b = sz} \<subseteq> {x. ok x}" using get_ok by auto
  show "put ` {x. ok x} \<subseteq> {b. length b = sz}" using put_length by auto
qed

end

text \<open>A layout without arrays is one whose every value is well-formed.\<close>

sublocale wire_format \<subseteq> plain: checked_format put get sz "\<lambda>_. True"
  by unfold_locales (auto simp: put_length get_put put_get)

section \<open>Every structure meets its contract\<close>

lemma length_put_array [simp, layout_simps]: "length (put_array n ws) = n * length ws"
  by (induction ws) (auto simp: put_array_def)

lemma get_array_shift:
  "length pre = off \<Longrightarrow> get_array off n k (pre @ b) = get_array 0 n k b"
  by (simp add: get_array_def get_word_def)

lemma get_put_array:
  fixes ws :: "'a::len word list"
  assumes "LENGTH('a) = 8 * n" "length ws = k"
  shows "get_array 0 n k (put_array n ws @ rest) = ws"
  using assms(2)
proof (induction ws arbitrary: k)
  case Nil
  then show ?case by (simp add: get_array_def)
next
  case (Cons w ws)
  then obtain m where k: "k = Suc m" "length ws = m" by auto
  have up: "[0..<Suc m] = 0 # map Suc [0..<m]" by (simp add: upt_conv_Cons map_Suc_upt del: upt_Suc)
  have hd: "get_word 0 n (put_word n w @ put_array n ws @ rest) = w"
    using get_put_word[OF assms(1), of "[]" 0 w] by simp
  have tl: "get_word (n * Suc i) n (put_word n w @ put_array n ws @ rest)
      = (get_word (n * i) n (put_array n ws @ rest) :: 'a word)" for i
    by (simp add: get_word_def)
  have "get_array 0 n k (put_array n (w # ws) @ rest)
      = get_word 0 n (put_word n w @ put_array n ws @ rest)
        # map (\<lambda>i. get_word (n * Suc i) n (put_word n w @ put_array n ws @ rest)) [0..<m]"
    unfolding get_array_def k up by (simp add: put_array_def comp_def)
  also have "\<dots> = w # get_array 0 n m (put_array n ws @ rest)"
    unfolding hd tl by (simp add: get_array_def)
  finally show ?case using Cons.IH[OF k(2)] by simp
qed

lemma take_drop_join:
  "off2 = off + n \<Longrightarrow> take n (drop off b) @ take m (drop off2 b) = take (n + m) (drop off b)"
  by (simp only: take_add drop_drop add.commute[of n off])

lemma take_join: "off2 = n \<Longrightarrow> take n b @ take m (drop off2 b) = take (n + m) b"
  by (simp add: take_add)

lemma take_drop_close: "off2 = off + n \<Longrightarrow> take n (drop off b) @ drop off2 b = drop off b"
  using append_take_drop_id[of n "drop off b"] by (simp add: add.commute)

lemmas take_joins = take_drop_join take_join take_drop_close

lemma put_get_array:
  assumes "LENGTH('a::len) = 8 * n" "off + n * k \<le> length b"
  shows "put_array n (get_array off n k b :: 'a word list) = take (n * k) (drop off b)"
  using assms(2)
proof (induction k)
  case 0
  then show ?case by (simp add: put_array_def get_array_def)
next
  case (Suc k)
  then have "put_array n (get_array off n k b :: 'a word list) = take (n * k) (drop off b)" by simp
  moreover have "put_word n (get_word (off + n * k) n b :: 'a word) = take n (drop (off + n * k) b)"
    using put_get_word[OF assms(1), of "off + n * k" b] Suc.prems by simp
  ultimately have "put_array n (get_array off n (Suc k) b :: 'a word list)
      = take (n * k) (drop off b) @ take n (drop (off + n * k) b)"
    by (simp add: put_array_def get_array_def)
  also have "\<dots> = take (n * k + n) (drop off b)" by (rule take_drop_join) simp
  finally show ?case by (simp add: add.commute)
qed

lemma length_get_array [simp]: "length (get_array off n k b) = k"
  by (simp add: get_array_def)

lemmas put_get_arrays = put_get_array[where 'a = 32 and n = 4]
lemmas get_put_arrays = get_put_array[where 'a = 32 and n = 4, simplified]

interpretation raw_header_format: wire_format put_raw_header get_raw_header sizeof_raw_header
proof
  show "length (put_raw_header h) = sizeof_raw_header" for h
    by (simp add: put_raw_header_def layout_simps)
  show "get_raw_header (put_raw_header h @ rest) = h" for h rest
    by (simp add: get_raw_header_def put_raw_header_def word_layout_simps del: le_nat_le_bytes)
  show "put_raw_header (get_raw_header b) = b" if "length b = sizeof_raw_header" for b
    using that by (simp add: put_raw_header_def get_raw_header_def put_get_words layout_simps take_joins)
qed

interpretation client_hello_format: checked_format put_client_hello get_client_hello sizeof_client_hello client_hello_ok
proof
  show "client_hello_ok h \<Longrightarrow> length (put_client_hello h) = sizeof_client_hello" for h
    by (simp add: put_client_hello_def client_hello_ok_def layout_simps)
  show "client_hello_ok h \<Longrightarrow> get_client_hello (put_client_hello h @ rest) = h" for h rest
    by (simp add: get_client_hello_def put_client_hello_def client_hello_ok_def word_layout_simps del: le_nat_le_bytes)
  show "client_hello_ok (get_client_hello b)" if "sizeof_client_hello \<le> length b" for b
    using that by (simp add: get_client_hello_def client_hello_ok_def layout_simps)
  show "put_client_hello (get_client_hello b) = b" if "length b = sizeof_client_hello" for b
    using that by (simp add: put_client_hello_def get_client_hello_def put_get_words layout_simps take_joins)
qed

interpretation server_hello_format: checked_format put_server_hello get_server_hello sizeof_server_hello server_hello_ok
proof
  show "server_hello_ok h \<Longrightarrow> length (put_server_hello h) = sizeof_server_hello" for h
    by (simp add: put_server_hello_def server_hello_ok_def layout_simps)
  show "server_hello_ok h \<Longrightarrow> get_server_hello (put_server_hello h @ rest) = h" for h rest
    by (simp add: get_server_hello_def put_server_hello_def server_hello_ok_def get_array_shift get_put_arrays
        word_layout_simps del: le_nat_le_bytes)
  show "server_hello_ok (get_server_hello b)" if "sizeof_server_hello \<le> length b" for b
    by (simp add: get_server_hello_def server_hello_ok_def)
  show "put_server_hello (get_server_hello b) = b" if "length b = sizeof_server_hello" for b
    using that by (simp add: put_server_hello_def get_server_hello_def put_get_words put_get_arrays layout_simps take_joins)
qed

interpretation device_format: checked_format put_device get_device sizeof_device device_ok
proof
  show "device_ok d \<Longrightarrow> length (put_device d) = sizeof_device" for d
    by (simp add: put_device_def device_ok_def layout_simps)
  show "device_ok d \<Longrightarrow> get_device (put_device d @ rest) = d" for d rest
    by (simp add: get_device_def put_device_def device_ok_def word_layout_simps del: le_nat_le_bytes)
  show "device_ok (get_device b)" if "sizeof_device \<le> length b" for b
    using that by (simp add: get_device_def device_ok_def layout_simps)
  show "put_device (get_device b) = b" if "length b = sizeof_device" for b
    using that by (simp add: put_device_def get_device_def put_get_words layout_simps take_joins)
qed

interpretation image_group_format: checked_format put_image_group get_image_group sizeof_image_group image_group_ok
proof
  show "image_group_ok g \<Longrightarrow> length (put_image_group g) = sizeof_image_group" for g
    by (simp add: put_image_group_def image_group_ok_def layout_simps)
  show "image_group_ok g \<Longrightarrow> get_image_group (put_image_group g @ rest) = g" for g rest
  proof -
    assume ok: "image_group_ok g"
    define pre where "pre = put_word 4 (num_images g) @ put_word 4 (ig_width g) @ put_word 4 (ig_height g)
     @ put_word 4 (vk_format g) @ put_word 4 (vk_color_space g) @ put_word 4 (vk_image_usage g)
     @ put_word 4 (vk_image_flags g) @ put_word 4 (vk_external_memory_type g) @ put_word 4 (vk_num_view_formats g)"
    have split: "put_image_group g @ rest
        = pre @ put_array 4 (vk_view_formats g) @ put_word 8 (drm_modifier g) @ rest"
      by (simp add: put_image_group_def pre_def)
    have "length pre = 36" by (simp add: pre_def)
    then have arr: "get_array 36 4 15 (put_image_group g @ rest) = vk_view_formats g"
      unfolding split using ok by (simp only: get_array_shift) (simp add: get_put_arrays image_group_ok_def)
    show "get_image_group (put_image_group g @ rest) = g"
      using ok arr
      by (simp add: get_image_group_def)
         (simp add: put_image_group_def word_layout_simps image_group_ok_def layout_simps del: le_nat_le_bytes)
  qed
  show "image_group_ok (get_image_group b)" if "sizeof_image_group \<le> length b" for b
    by (simp add: get_image_group_def image_group_ok_def)
  show "put_image_group (get_image_group b) = b" if "length b = sizeof_image_group" for b
    using that by (simp add: put_image_group_def get_image_group_def put_get_words put_get_arrays layout_simps take_joins)
qed

interpretation present_image_format: wire_format put_present_image get_present_image sizeof_present_image
proof
  show "length (put_present_image p) = sizeof_present_image" for p
    by (simp add: put_present_image_def layout_simps)
  show "get_present_image (put_present_image p @ rest) = p" for p rest
    by (simp add: get_present_image_def put_present_image_def word_layout_simps del: le_nat_le_bytes)
  show "put_present_image (get_present_image b) = b" if "length b = sizeof_present_image" for b
    using that by (simp add: put_present_image_def get_present_image_def put_get_words layout_simps take_joins)
qed

interpretation acquire_image_format: wire_format put_acquire_image get_acquire_image sizeof_acquire_image
proof
  show "length (put_acquire_image p) = sizeof_acquire_image" for p
    by (simp add: put_acquire_image_def layout_simps)
  show "get_acquire_image (put_acquire_image p @ rest) = p" for p rest
    by (simp add: get_acquire_image_def put_acquire_image_def word_layout_simps del: le_nat_le_bytes)
  show "put_acquire_image (get_acquire_image b) = b" if "length b = sizeof_acquire_image" for b
    using that by (simp add: put_acquire_image_def get_acquire_image_def put_get_words layout_simps take_joins)
qed

interpretation retire_image_format: wire_format put_retire_image get_retire_image sizeof_retire_image
proof
  show "length (put_retire_image p) = sizeof_retire_image" for p
    by (simp add: put_retire_image_def layout_simps)
  show "get_retire_image (put_retire_image p @ rest) = p" for p rest
    by (simp add: get_retire_image_def put_retire_image_def word_layout_simps del: le_nat_le_bytes)
  show "put_retire_image (get_retire_image b) = b" if "length b = sizeof_retire_image" for b
    using that by (simp add: put_retire_image_def get_retire_image_def put_get_words layout_simps take_joins)
qed

interpretation frame_complete_format: wire_format put_frame_complete get_frame_complete sizeof_frame_complete
proof
  show "length (put_frame_complete p) = sizeof_frame_complete" for p
    by (simp add: put_frame_complete_def layout_simps)
  show "get_frame_complete (put_frame_complete p @ rest) = p" for p rest
    by (simp add: get_frame_complete_def put_frame_complete_def word_layout_simps del: le_nat_le_bytes)
  show "put_frame_complete (get_frame_complete b) = b" if "length b = sizeof_frame_complete" for b
    using that by (simp add: put_frame_complete_def get_frame_complete_def put_get_words layout_simps take_joins)
qed

section \<open>Types\<close>

lemma event_codes:
  "104 OR MessageEventFlag = 0x80000068" "105 OR MessageEventFlag = 0x80000069" "106 OR MessageEventFlag = 0x8000006a"
  by (simp_all add: MessageEventFlag_def)

lemma ipc_type_of_code_code [simp]: "ipc_type_of_code (ipc_type_code t) = Some t"
  by (cases t) (simp_all add: ipc_type_of_code_def all_ipc_types_def event_codes)

declare ipc_type_code.simps [simp del]

text \<open>The event flag marks exactly the three messages that the server sends unasked.\<close>

lemma event_flag_iff:
  "ipc_type_code t AND MessageEventFlag \<noteq> 0 \<longleftrightarrow> t \<in> {MT_AcquireImage, MT_FrameComplete, MT_RetireImage}"
  by (cases t) (simp_all add: ipc_type_code.simps event_codes, simp_all add: MessageEventFlag_def)

section \<open>Sending and parsing\<close>

fun message_ok :: "ipc_message \<Rightarrow> bool" where
  "message_ok (PlainMessage t s) \<longleftrightarrow> t \<in> {MT_OK, MT_ErrorProtocol, MT_Error, MT_ErrorParameter}"
| "message_ok (ClientHelloMessage s w) \<longleftrightarrow> client_hello_ok w"
| "message_ok (ServerHelloMessage s w) \<longleftrightarrow> server_hello_ok w"
| "message_ok (DeviceMessage s w) \<longleftrightarrow> device_ok w"
| "message_ok (ImageGroupMessage s w fds) \<longleftrightarrow> image_group_ok w \<and> length fds \<le> MaxSockets"
| "message_ok _ \<longleftrightarrow> True"

text \<open>The same message with the descriptor numbers of the receiving process.\<close>

fun renumber :: "int list \<Rightarrow> ipc_message \<Rightarrow> ipc_message" where
  "renumber fds (EchoPayloadMessage s fd) = EchoPayloadMessage s (hd fds)"
| "renumber fds (ImageGroupMessage s w _) = ImageGroupMessage s w fds"
| "renumber fds (PresentImageMessage s w fd) = PresentImageMessage s w (if fds = [] then -1 else hd fds)"
| "renumber fds (AcquireImageMessage s w fd) = AcquireImageMessage s w (if fds = [] then -1 else hd fds)"
| "renumber fds m = m"

lemmas put_lengths =
  client_hello_format.put_length server_hello_format.put_length device_format.put_length
  image_group_format.put_length present_image_format.put_length acquire_image_format.put_length
  retire_image_format.put_length frame_complete_format.put_length

lemmas get_puts =
  client_hello_format.get_put server_hello_format.get_put device_format.get_put
  image_group_format.get_put present_image_format.get_put acquire_image_format.get_put
  retire_image_format.get_put frame_complete_format.get_put

lemma message_payload_bound: "message_ok m \<Longrightarrow> length (message_payload m) \<le> 256"
  by (cases m) (simp_all add: put_lengths ipc_sizeof_defs)

lemma ipc_request_ok:
  assumes "message_ok m"
  shows "ipc_request m = Some \<lparr>dg_bytes = put_raw_header \<lparr>raw_magic = Magic, raw_serial = get_serial m,
      raw_type = ipc_type_code (get_type m), raw_payload_len = word_of_nat (length (message_payload m)), raw_reserved = 0\<rparr>
      @ message_payload m, dg_fds = message_fds m\<rparr>"
proof -
  have "length (message_fds m) \<le> MaxSockets" using assms by (cases m) (simp_all add: MaxSockets_def)
  moreover have "length (message_payload m) \<le> sizeof_raw_data"
    using message_payload_bound[OF assms] by (simp add: ipc_sizeof_defs)
  ultimately show ?thesis by (simp add: ipc_request_def send_request_def)
qed

lemma raw_buffer_short: "length b \<le> 1024 \<Longrightarrow> raw_buffer b = b @ replicate (1024 - length b) 0"
  by (simp add: raw_buffer_def)

lemma received_fds_delivered [simp]: "received_fds (rv_control (delivered dg fds)) = fds"
  by (simp add: received_fds_def delivered_def)

lemma delivered_simps [simp]:
  "rv_ret (delivered dg fds) = int (length (dg_bytes dg))" "rv_bytes (delivered dg fds) = dg_bytes dg"
  "\<not> rv_trunc (delivered dg fds)"
  by (simp_all add: delivered_def)

lemma unat_small_length: "n \<le> 1024 \<Longrightarrow> unat (word_of_nat n :: u32) = n"
  unfolding unat_of_nat by simp

text \<open>The switch of the decoder on a well-formed message.\<close>

lemma decode_message_ok:
  assumes ok: "message_ok m" and n: "length fds = length (message_fds m)"
    and h: "get_raw_header buf = \<lparr>raw_magic = Magic, raw_serial = get_serial m, raw_type = ipc_type_code (get_type m),
      raw_payload_len = word_of_nat (length (message_payload m)), raw_reserved = 0\<rparr>"
    and body: "drop sizeof_raw_header buf = message_payload m @ rest"
  shows "decode_message buf fds = (Some (renumber fds m), [])"
proof -
  have len: "unat (word_of_nat (length (message_payload m)) :: u32) = length (message_payload m)"
    using message_payload_bound[OF ok] by (intro unat_small_length) simp
  show ?thesis
    using ok n len
    by (cases m)
      (auto simp: decode_message_def h body Let_def create_wire_format_message_def get_puts put_lengths
        create_single_file_handle_message_def create_file_handles_wire_format_message_def
        create_file_handle_wire_format_message_def split: if_splits)
qed

text \<open>
  C24. Sending on a stream ends, whatever the partial results of \<open>send\<close>: the bytes that left are a prefix of
  the data, and all of it exactly when success is reported.
\<close>

theorem send_stream_prefix:
  assumes "\<And>k d. send k d \<le> int (length d)"
  shows "\<exists>ok sent rest. send_stream_message send k data = Some (ok, sent) \<and> data = sent @ rest \<and> (ok \<longleftrightarrow> rest = [])"
proof (induction "length data" arbitrary: k data rule: less_induct)
  case less
  consider "data = []" | "data \<noteq> []" "send k data \<le> 0" | "data \<noteq> []" "0 < send k data" by linarith
  then show ?case
  proof cases
    case 3
    then have n: "nat (send k data) \<le> length data" "0 < nat (send k data)" using assms[of k data] by auto
    then have "length (drop (nat (send k data)) data) < length data" using 3(1) by simp
    from less[OF this, of "Suc k"] obtain ok sent rest where
      ih: "send_stream_message send (Suc k) (drop (nat (send k data)) data) = Some (ok, sent)"
        "drop (nat (send k data)) data = sent @ rest" "ok \<longleftrightarrow> rest = []" by blast
    have "data = (take (nat (send k data)) data @ sent) @ rest" by (simp flip: ih(2))
    moreover have "send_stream_message send k data = Some (ok, take (nat (send k data)) data @ sent)"
      using 3 n by (subst send_stream_message.simps) (simp add: ih(1) Let_def)
    ultimately show ?thesis using ih(3) by blast
  next
    case 1
    then show ?thesis by (subst send_stream_message.simps) auto
  next
    case 2
    then show ?thesis by (subst send_stream_message.simps) auto
  qed
qed

lemma send_stream_prefix_witness:
  "\<exists>ok sent rest. send_stream_message (\<lambda>k d. if k < 2 then min 2 (int (length d)) else -1) 0 [1, 2, 3, 4, 5] = Some (ok, sent)
     \<and> [1, 2, 3, 4, 5] = sent @ rest \<and> (ok \<longleftrightarrow> rest = [])"
  by (rule send_stream_prefix) simp

lemma parse_delivered:
  assumes "message_ok m" "length fds = length (message_fds m)"
  shows "\<exists>dg. ipc_request m = Some dg \<and> parse_message (delivered dg fds) = (Some (renumber fds m), [])"
proof -
  define h where "h = \<lparr>raw_magic = Magic, raw_serial = get_serial m, raw_type = ipc_type_code (get_type m),
      raw_payload_len = word_of_nat (length (message_payload m)), raw_reserved = 0\<rparr>"
  define dg where "dg = \<lparr>dg_bytes = put_raw_header h @ message_payload m, dg_fds = message_fds m\<rparr>"
  define buf where "buf = raw_buffer (dg_bytes dg)"
  have lh: "length (put_raw_header h) = 32"
    using raw_header_format.put_length by (simp add: ipc_sizeof_defs)
  have lp: "length (message_payload m) \<le> 256" by (rule message_payload_bound[OF assms(1)])
  have b: "buf = put_raw_header h @ message_payload m @ replicate (1024 - length (dg_bytes dg)) 0"
    using lh lp unfolding buf_def by (subst raw_buffer_short) (simp_all add: dg_def)
  have g: "get_raw_header buf = h" unfolding b by (rule raw_header_format.get_put)
  have d: "drop sizeof_raw_header buf = message_payload m @ replicate (1024 - length (dg_bytes dg)) 0"
    unfolding b using lh by (simp add: ipc_sizeof_defs)
  have len: "unat (raw_payload_len h) = length (message_payload m)"
    using lp by (simp add: h_def unat_small_length del: unat_of_nat)
  have ldg: "length (dg_bytes dg) = 32 + length (message_payload m)" and magic: "raw_magic h = Magic"
    using lh by (simp_all add: dg_def h_def)
  have "parse_message (delivered dg fds) = decode_message buf fds"
    using lh len ldg magic by (simp add: parse_message_def buf_def[symmetric] g Let_def ipc_sizeof_defs nat_add_distrib)
  moreover have "decode_message buf fds = (Some (renumber fds m), [])"
    by (rule decode_message_ok[OF assms g[unfolded h_def] d])
  ultimately show ?thesis
    using ipc_request_ok[OF assms(1)] by (simp add: dg_def h_def)
qed

text \<open>
  C22. Round trip of a message: what \<open>send_message\<close> puts on the socket for a well-formed message is parsed
  into that message, with the descriptor numbers that the receiver was given, and no descriptor is dropped.
\<close>

theorem message_roundtrip:
  assumes "message_ok m" "length fds = length (message_fds m)"
  shows "\<exists>dg. ipc_request m = Some dg \<and> parse_message (delivered dg fds) = (Some (renumber fds m), [])"
  by (rule parse_delivered[OF assms])

text \<open>The presentation of image 1 of group 7 with a semaphore that arrives as descriptor 40.\<close>

definition sample_present :: present_image where
  "sample_present = \<lparr>pr_group_serial = 7, pr_period = 1, pr_index = 1, pr_semaphore_type = 1, pr_old_layout = 2,
     pr_new_layout = 6, pr_id = 9\<rparr>"

lemma message_roundtrip_witness:
  "\<exists>dg. ipc_request (PresentImageMessage 3 sample_present 12) = Some dg
     \<and> parse_message (delivered dg [40]) = (Some (PresentImageMessage 3 sample_present 40), [])"
  using message_roundtrip[of "PresentImageMessage 3 sample_present 12" "[40]"] by simp

text \<open>
  C23. Descriptors are neither leaked nor closed twice: those that come with a record are exactly the ones
  that the parsed message owns and the ones that parsing closes, whatever the record contains.
\<close>

theorem parse_keeps_descriptors:
  assumes "0 < rv_ret r" "\<forall>fd \<in> set (received_fds (rv_control r)). 0 \<le> fd"
  shows "mset (case fst (parse_message r) of None \<Rightarrow> [] | Some m \<Rightarrow> message_fds m) + mset (snd (parse_message r))
    = mset (received_fds (rv_control r))"
proof -
  have single: "length fds = 1 \<Longrightarrow> [hd fds] = fds" for fds :: "int list" by (cases fds) auto
  have dec: "mset (case fst (decode_message buf fds) of None \<Rightarrow> [] | Some m \<Rightarrow> message_fds m)
      + mset (snd (decode_message buf fds)) = mset fds" if pos: "\<forall>fd \<in> set fds. 0 \<le> fd" for buf fds
  proof -
    have one: "length fds = 1 \<Longrightarrow> \<not> hd fds < 0" using pos by (cases fds) auto
    have none: "\<not> 1 < length fds \<Longrightarrow> length fds \<noteq> 1 \<Longrightarrow> fds = []" by (cases fds) auto
    show ?thesis
    proof (cases "ipc_type_of_code (raw_type (get_raw_header buf))")
      case None
      then show ?thesis by (simp add: decode_message_def Let_def)
    next
      case (Some t)
      show ?thesis
        using one none single[of fds]
        by (cases t)
          (auto simp: decode_message_def Let_def Some create_wire_format_message_def
            create_single_file_handle_message_def create_file_handles_wire_format_message_def
            create_file_handle_wire_format_message_def)
    qed
  qed
  show ?thesis using assms dec by (simp add: parse_message_def Let_def)
qed

text \<open>A hello with two stray descriptors: both are closed.\<close>

definition stray_result :: recv_result where
  "stray_result = \<lparr>rv_ret = 40, rv_bytes = replicate 40 1,
     rv_control = [\<lparr>cmsg_level = 1, cmsg_type = 1, cmsg_data = [5, 6]\<rparr>], rv_trunc = False\<rparr>"

lemma parse_keeps_descriptors_witness:
  "mset (case fst (parse_message stray_result) of None \<Rightarrow> [] | Some m \<Rightarrow> message_fds m)
     + mset (snd (parse_message stray_result)) = {#5, 6#}"
  using parse_keeps_descriptors[of stray_result]
  by (simp add: stray_result_def received_fds_def SOL_SOCKET_def SCM_RIGHTS_def)

text \<open>
  The length of an image group is not checked: a record that is only a header of that type, with no
  payload at all, is accepted as an image group whose fields are all zero.  The messages without descriptors
  are rejected in the same situation.
\<close>

theorem short_image_group_accepted:
  "\<exists>b. length b = sizeof_raw_header
     \<and> parse_message \<lparr>rv_ret = 32, rv_bytes = b, rv_control = [], rv_trunc = False\<rparr>
       = (Some (ImageGroupMessage 5 \<lparr>num_images = 0, ig_width = 0, ig_height = 0, vk_format = 0, vk_color_space = 0,
           vk_image_usage = 0, vk_image_flags = 0, vk_external_memory_type = 0, vk_num_view_formats = 0,
           vk_view_formats = replicate 15 0, drm_modifier = 0\<rparr> []), [])"
proof -
  define h where "h = \<lparr>raw_magic = Magic, raw_serial = 5, raw_type = ipc_type_code MT_ImageGroup,
    raw_payload_len = 0, raw_reserved = 0\<rparr>"
  have lh: "length (put_raw_header h) = 32"
    using raw_header_format.put_length by (simp add: ipc_sizeof_defs)
  have ht: "raw_type h = ipc_type_code MT_ImageGroup" "raw_serial h = 5" by (simp_all add: h_def)
  have b: "raw_buffer (put_raw_header h) = put_raw_header h @ replicate 992 0"
    using lh by (simp add: raw_buffer_short)
  have g: "get_raw_header (put_raw_header h @ replicate 992 0) = h" by (rule raw_header_format.get_put)
  have z: "get_word off n (replicate k 0) = 0" for off n k
  proof -
    have "le_nat (replicate j 0) = 0" for j by (induction j) auto
    then show ?thesis by (simp add: get_word_def)
  qed
  have ig: "get_image_group (replicate 992 0) = \<lparr>num_images = 0, ig_width = 0, ig_height = 0, vk_format = 0,
      vk_color_space = 0, vk_image_usage = 0, vk_image_flags = 0, vk_external_memory_type = 0,
      vk_num_view_formats = 0, vk_view_formats = replicate 15 0, drm_modifier = 0\<rparr>"
    by (simp add: get_image_group_def z get_array_def map_replicate_const)
  have "parse_message \<lparr>rv_ret = 32, rv_bytes = put_raw_header h, rv_control = [], rv_trunc = False\<rparr>
      = decode_message (put_raw_header h @ replicate 992 0) []"
    by (simp add: parse_message_def Let_def b g received_fds_def ipc_sizeof_defs) (simp add: h_def)
  also have "\<dots> = (Some (ImageGroupMessage 5 (get_image_group (replicate 992 0)) []), [])"
    using lh unfolding decode_message_def g Let_def
    by (simp add: ht create_file_handles_wire_format_message_def ipc_sizeof_defs)
  finally show ?thesis using lh ig by (intro exI[of _ "put_raw_header h"]) (simp add: ipc_sizeof_defs)
qed

end
