(* ===== verification/Ipc_Client.thy ===== *)
theory Ipc_Client
  imports Ipc_Messages
begin

text \<open>
  The application side of the local socket (\<open>ipc/client.hpp\<close>, \<open>ipc/client.cpp\<close>): requests get increasing
  serials, replies must come back in order, events have serial 0.  Any number of threads may wait for
  replies; one of them at a time, the socket master, polls the socket and processes the message.

  Handlers are functions on a state \<open>'s\<close> of the application.  A handler that is registered for a serial may
  be empty, as a \<open>std::function\<close> may.  The results of system calls and the parsed message are arguments.

  \<open>wait_reply\<close> is cut at the points where the lock is released: the thread is then at the poll, or blocked on
  the condition variable, or woken and about to take the lock.  The pieces run under the lock and are the
  steps of the relation \<open>wait_step\<close> on a system of threads; run one after the other without interference
  they are the sequential \<open>wait_reply\<close>.
\<close>

section \<open>State\<close>

type_synonym 's serial_handler = "(ipc_message \<Rightarrow> 's \<Rightarrow> bool \<times> 's) option"

record 's ipc_client =
  send_serial :: u64
  received_replies :: u64
  cl_handlers :: "u64 \<rightharpoonup> 's serial_handler"
  default_handler :: "'s serial_handler"
  event_handler :: "'s serial_handler"
  has_socket_master :: bool
  socket_master_error :: bool
  process_count :: u64

datatype client_error = FailedToCreateSocket | NameIsNullptr | FailedToConnect

definition ipc_client_new :: "int \<Rightarrow> bool \<Rightarrow> int \<Rightarrow> client_error + 's ipc_client" where
  "ipc_client_new socket_fd name_null connect_ret =
     (if socket_fd < 0 then Inl FailedToCreateSocket
      else if name_null then Inl NameIsNullptr
      else if connect_ret < 0 then Inl FailedToConnect
      else Inr \<lparr>send_serial = 0, received_replies = 0, cl_handlers = Map.empty, default_handler = None,
                event_handler = None, has_socket_master = False, socket_master_error = False, process_count = 0\<rparr>)"

definition set_serial_handler :: "u64 \<Rightarrow> 's serial_handler \<Rightarrow> 's ipc_client \<Rightarrow> 's ipc_client outcome" where
  "set_serial_handler serial f c = do { guard (serial \<noteq> 0); Some (c\<lparr>cl_handlers := (cl_handlers c)(serial \<mapsto> f)\<rparr>) }"

definition set_default_serial_handler :: "'s serial_handler \<Rightarrow> 's ipc_client \<Rightarrow> 's ipc_client" where
  "set_default_serial_handler f c = c\<lparr>default_handler := f\<rparr>"

definition set_event_handler :: "'s serial_handler \<Rightarrow> 's ipc_client \<Rightarrow> 's ipc_client" where
  "set_event_handler f c = c\<lparr>event_handler := f\<rparr>"

text \<open>\<open>writable\<close>: \<open>poll\<close> reported the socket ready for writing within a second.\<close>

definition send_message_raw ::
    "bool \<Rightarrow> (ipc_datagram \<Rightarrow> int) \<Rightarrow> u32 \<Rightarrow> byte list \<Rightarrow> int list \<Rightarrow> 's ipc_client \<Rightarrow> u64 \<times> 's ipc_client" where
  "send_message_raw writable sendmsg typ payload fds c =
     (if \<not> writable then (0, c)
      else if send_message sendmsg typ (send_serial c + 1) payload fds
      then (send_serial c + 1, c\<lparr>send_serial := send_serial c + 1\<rparr>)
      else (0, c))"

section \<open>Processing one message\<close>

definition call_handler :: "'s serial_handler \<Rightarrow> ipc_message \<Rightarrow> 's \<Rightarrow> bool \<times> 's" where
  "call_handler h m s = (case h of None \<Rightarrow> (True, s) | Some f \<Rightarrow> f m s)"

definition is_event :: "ipc_message \<Rightarrow> bool" where
  "is_event m \<longleftrightarrow> ipc_type_code (get_type m) AND MessageEventFlag \<noteq> 0"

definition process_event :: "ipc_message \<Rightarrow> 's ipc_client \<Rightarrow> 's \<Rightarrow> bool \<times> 's ipc_client \<times> 's" where
  "process_event m c s =
     (if \<not> is_event m then (False, c, s)
      else let (ok, s) = call_handler (event_handler c) m s in (ok, c, s))"

definition process_reply :: "ipc_message \<Rightarrow> 's ipc_client \<Rightarrow> 's \<Rightarrow> bool \<times> 's ipc_client \<times> 's" where
  "process_reply m c s =
     (if is_event m then (False, c, s)
      else
        let c = c\<lparr>received_replies := received_replies c + 1\<rparr> in
        if get_serial m \<noteq> received_replies c then (False, c, s)
        else case cl_handlers c (get_serial m) of
          Some h \<Rightarrow>
            let (ok, s) = call_handler h m s in
            if \<not> ok then (False, c, s)
            else (True, c\<lparr>cl_handlers := (cl_handlers c)(get_serial m := None)\<rparr>, s)
        | None \<Rightarrow> let (ok, s) = call_handler (default_handler c) m s in (ok, c, s))"

definition process :: "ipc_message option \<Rightarrow> 's ipc_client \<Rightarrow> 's \<Rightarrow> bool \<times> 's ipc_client \<times> 's" where
  "process msg c s =
     (case msg of
        None \<Rightarrow> (False, c, s)
      | Some m \<Rightarrow> if get_serial m = 0 then process_event m c s else process_reply m c s)"

section \<open>Waiting for a reply\<close>

text \<open>
  The local variables of a call of \<open>wait_reply\<close>: the count at entry, whether this thread is the master, and
  whether the call has a time-out.
\<close>

record wait_frame =
  wf_count :: u64
  wf_master :: bool
  wf_timeout :: bool

datatype notify = NotifyNone | NotifyOne | NotifyAll

datatype wait_result = ToPoll wait_frame | ToBlock wait_frame | ToReturn int notify

record poll_event =
  poll_ret :: int
  poll_in :: bool
  poll_msg :: "ipc_message option"

text \<open>After the loop.\<close>

definition wait_finish :: "wait_frame \<Rightarrow> 's ipc_client \<Rightarrow> wait_result \<times> 's ipc_client" where
  "wait_finish f c =
     (let ret = (if wf_count f \<noteq> process_count c then 1 else if socket_master_error c then -1 else 0) in
      if wf_master f
      then (ToReturn ret (if ret \<noteq> 0 then NotifyAll else NotifyOne), c\<lparr>has_socket_master := False\<rparr>)
      else (ToReturn ret NotifyNone, c))"

text \<open>The test of the loop and the choice between polling and waiting.\<close>

definition wait_head :: "wait_frame \<Rightarrow> 's ipc_client \<Rightarrow> wait_result \<times> 's ipc_client" where
  "wait_head f c =
     (if wf_count f = process_count c \<and> \<not> socket_master_error c \<and> \<not> wf_master f
      then if \<not> has_socket_master c
           then (ToPoll (f\<lparr>wf_master := True\<rparr>), c\<lparr>has_socket_master := True\<rparr>)
           else (ToBlock f, c)
      else wait_finish f c)"

definition wait_enter :: "bool \<Rightarrow> 's ipc_client \<Rightarrow> wait_result \<times> 's ipc_client" where
  "wait_enter timeout c = wait_head \<lparr>wf_count = process_count c, wf_master = False, wf_timeout = timeout\<rparr> c"

text \<open>After the poll, with the lock taken again.\<close>

definition wait_polled :: "wait_frame \<Rightarrow> poll_event \<Rightarrow> 's ipc_client \<Rightarrow> 's \<Rightarrow> wait_result \<times> 's ipc_client \<times> 's" where
  "wait_polled f e c s =
     (let c = (if poll_ret e < 0 then c\<lparr>socket_master_error := True\<rparr> else c) in
      if poll_ret e \<le> 0 \<or> \<not> poll_in e
      then let (r, c) = wait_finish f c in (r, c, s)
      else
        let (ok, c, s) = process (poll_msg e) c s;
            c = (if ok then c\<lparr>process_count := process_count c + 1\<rparr> else c\<lparr>socket_master_error := True\<rparr>);
            (r, c) = wait_head f c
        in (r, c, s))"

text \<open>After the condition variable.\<close>

definition wait_resumed :: "wait_frame \<Rightarrow> bool \<Rightarrow> 's ipc_client \<Rightarrow> wait_result \<times> 's ipc_client" where
  "wait_resumed f timed_out c = (if timed_out \<and> wf_timeout f then wait_finish f c else wait_head f c)"

text \<open>
  \<open>wait_reply\<close> when no other thread is in it.  \<open>None\<close> is a thread that blocks with nobody to wake it.
\<close>

definition wait_reply :: "bool \<Rightarrow> poll_event \<Rightarrow> 's ipc_client \<Rightarrow> 's \<Rightarrow> (int \<times> 's ipc_client \<times> 's) option" where
  "wait_reply timeout e c s =
     (case wait_enter timeout c of
        (ToReturn r n, c) \<Rightarrow> Some (r, c, s)
      | (ToBlock f, c) \<Rightarrow> None
      | (ToPoll f, c) \<Rightarrow>
          (case wait_polled f e c s of
             (ToReturn r n, c, s) \<Rightarrow> Some (r, c, s)
           | _ \<Rightarrow> None))"

text \<open>
  The loops around it.  The polls that will happen are a list; \<open>None\<close> is a run that needs another one.
\<close>

fun wait_reply_for_serial ::
    "poll_event list \<Rightarrow> u64 \<Rightarrow> 's ipc_client \<Rightarrow> 's \<Rightarrow> (bool \<times> poll_event list \<times> 's ipc_client \<times> 's) option" where
  "wait_reply_for_serial es serial c s =
     (if received_replies c < serial
      then case es of
          [] \<Rightarrow> None
        | e # es' \<Rightarrow> do {
            (r, c, s) \<leftarrow> wait_reply False e c s;
            if r \<le> 0 then Some (False, es', c, s) else wait_reply_for_serial es' serial c s }
      else Some (True, es, c, s))"

definition roundtrip ::
    "poll_event list \<Rightarrow> 's ipc_client \<Rightarrow> 's \<Rightarrow> (bool \<times> poll_event list \<times> 's ipc_client \<times> 's) option" where
  "roundtrip es c s = wait_reply_for_serial es (send_serial c) c s"

text \<open>The handler that \<open>wait_plain_reply_for_serial\<close> installs writes a local variable, the first component.\<close>

definition plain_handler :: "(ipc_type \<times> 's) serial_handler" where
  "plain_handler = Some (\<lambda>m (t, s). (True, (get_type m, s)))"

definition wait_plain_reply_for_serial ::
    "poll_event list \<Rightarrow> u64 \<Rightarrow> (ipc_type \<times> 's) ipc_client \<Rightarrow> 's \<Rightarrow> (ipc_type \<times> (ipc_type \<times> 's) ipc_client) option" where
  "wait_plain_reply_for_serial es serial c s =
     (if serial = 0 then Some (MT_Void, c)
      else do {
        c \<leftarrow> set_serial_handler serial plain_handler c;
        (ok, es, c, (t, s)) \<leftarrow> wait_reply_for_serial es serial c (MT_Void, s);
        Some (if ok then t else MT_Void, c) })"

declare wait_reply_for_serial.simps [simp del]

section \<open>Threads\<close>

datatype wait_thread = Outside | AtPoll wait_frame | AtCond wait_frame | AtWake wait_frame

record 's wait_system =
  ws_client :: "'s ipc_client"
  ws_app :: 's
  ws_threads :: "nat \<Rightarrow> wait_thread"

fun wake :: "wait_thread \<Rightarrow> wait_thread" where
  "wake (AtCond f) = AtWake f"
| "wake th = th"

text \<open>
  What the threads become when thread \<open>t\<close> reaches the end of a piece: \<open>u\<close> is the thread that \<open>notify_one\<close>
  picks, a blocked one if there is any.
\<close>

fun settle :: "nat \<Rightarrow> nat \<Rightarrow> wait_result \<Rightarrow> (nat \<Rightarrow> wait_thread) \<Rightarrow> nat \<Rightarrow> wait_thread" where
  "settle t u (ToPoll f) th = th(t := AtPoll f)"
| "settle t u (ToBlock f) th = th(t := AtCond f)"
| "settle t u (ToReturn r NotifyNone) th = th(t := Outside)"
| "settle t u (ToReturn r NotifyOne) th = (let th = th(t := Outside) in th(u := wake (th u)))"
| "settle t u (ToReturn r NotifyAll) th = (\<lambda>v. wake ((th(t := Outside)) v))"

definition blocked :: "wait_thread \<Rightarrow> bool" where
  "blocked x \<longleftrightarrow> (case x of AtCond f \<Rightarrow> True | _ \<Rightarrow> False)"

definition may_pick :: "nat \<Rightarrow> nat \<Rightarrow> (nat \<Rightarrow> wait_thread) \<Rightarrow> bool" where
  "may_pick t u th \<longleftrightarrow> (\<exists>v. v \<noteq> t \<and> blocked (th v)) \<longrightarrow> u \<noteq> t \<and> blocked (th u)"

text \<open>\<open>timeouts\<close> says whether calls with a time-out occur.\<close>

inductive wait_step :: "bool \<Rightarrow> 's wait_system \<Rightarrow> 's wait_system \<Rightarrow> bool" for timeouts :: bool where
  enter: "ws_threads w t = Outside \<Longrightarrow> timeout \<longrightarrow> timeouts \<Longrightarrow> wait_enter timeout (ws_client w) = (r, c) \<Longrightarrow>
    may_pick t u (ws_threads w) \<Longrightarrow>
    wait_step timeouts w (w\<lparr>ws_client := c, ws_threads := settle t u r (ws_threads w)\<rparr>)"
| polled: "ws_threads w t = AtPoll f \<Longrightarrow> wait_polled f e (ws_client w) (ws_app w) = (r, c, s) \<Longrightarrow>
    may_pick t u (ws_threads w) \<Longrightarrow>
    wait_step timeouts w \<lparr>ws_client = c, ws_app = s, ws_threads = settle t u r (ws_threads w)\<rparr>"
| spurious: "ws_threads w t = AtCond f \<Longrightarrow>
    wait_step timeouts w (w\<lparr>ws_threads := (ws_threads w)(t := AtWake f)\<rparr>)"
| resumed: "ws_threads w t = AtWake f \<Longrightarrow> wait_resumed f timed_out (ws_client w) = (r, c) \<Longrightarrow>
    may_pick t u (ws_threads w) \<Longrightarrow>
    wait_step timeouts w (w\<lparr>ws_client := c, ws_threads := settle t u r (ws_threads w)\<rparr>)"

definition wait_start :: "'s wait_system \<Rightarrow> bool" where
  "wait_start w \<longleftrightarrow> \<not> has_socket_master (ws_client w) \<and> (\<forall>t. ws_threads w t = Outside)"

inductive wait_reachable :: "bool \<Rightarrow> 's wait_system \<Rightarrow> bool" for timeouts :: bool where
  start: "wait_start w \<Longrightarrow> wait_reachable timeouts w"
| step: "wait_reachable timeouts w \<Longrightarrow> wait_step timeouts w w' \<Longrightarrow> wait_reachable timeouts w'"

section \<open>Lemmas on processing\<close>

lemma process_frame [frame_simps]:
  assumes "process msg c s = (ok, c', s')"
  shows "has_socket_master c' = has_socket_master c" "socket_master_error c' = socket_master_error c"
    "process_count c' = process_count c" "send_serial c' = send_serial c"
    "event_handler c' = event_handler c" "default_handler c' = default_handler c"
  using assms
  by (auto simp: process_def process_event_def process_reply_def Let_def split: option.splits if_splits prod.splits)

text \<open>A processed reply is the next in order; an event changes nothing of the client.\<close>

lemma process_reply_ok:
  assumes "process (Some m) c s = (True, c', s')" "get_serial m \<noteq> 0"
  shows "get_serial m = received_replies c + 1" "received_replies c' = received_replies c + 1"
    "cl_handlers c' = (cl_handlers c)(get_serial m := None)" "\<not> is_event m"
  using assms
  by (auto simp: process_def process_reply_def Let_def fun_eq_iff split: option.splits if_splits prod.splits)

lemma process_event_ok:
  assumes "process (Some m) c s = (True, c', s')" "get_serial m = 0"
  shows "c' = c" "is_event m"
  using assms
  by (auto simp: process_def process_event_def split: option.splits if_splits prod.splits)

section \<open>The socket master\<close>

definition polling :: "wait_thread \<Rightarrow> bool" where
  "polling x \<longleftrightarrow> (case x of AtPoll f \<Rightarrow> True | _ \<Rightarrow> False)"

lemma polling_simps [simp]:
  "polling (AtPoll f)" "\<not> polling Outside" "\<not> polling (AtCond f)" "\<not> polling (AtWake f)"
  by (simp_all add: polling_def)

lemma blocked_simps [simp]:
  "blocked (AtCond f)" "\<not> blocked Outside" "\<not> blocked (AtPoll f)" "\<not> blocked (AtWake f)"
  by (simp_all add: blocked_def)

lemma wake_simps [simp]: "polling (wake x) = polling x" "\<not> blocked (wake x)"
  by (cases x; simp)+

fun thread_ok :: "'s ipc_client \<Rightarrow> wait_thread \<Rightarrow> bool" where
  "thread_ok c Outside \<longleftrightarrow> True"
| "thread_ok c (AtPoll f) \<longleftrightarrow> wf_master f \<and> wf_count f = process_count c \<and> \<not> socket_master_error c \<and> has_socket_master c"
| "thread_ok c (AtCond f) \<longleftrightarrow> \<not> wf_master f \<and> wf_count f = process_count c \<and> \<not> socket_master_error c"
| "thread_ok c (AtWake f) \<longleftrightarrow> \<not> wf_master f"

definition wait_inv :: "'s wait_system \<Rightarrow> bool" where
  "wait_inv w \<longleftrightarrow> (\<forall>t. thread_ok (ws_client w) (ws_threads w t))
     \<and> (has_socket_master (ws_client w) \<longrightarrow> (\<exists>t. polling (ws_threads w t)))
     \<and> (\<forall>t u. polling (ws_threads w t) \<longrightarrow> polling (ws_threads w u) \<longrightarrow> t = u)"

text \<open>What a piece of \<open>wait_reply\<close> does for a thread that is not the master.\<close>

inductive head_case :: "wait_frame \<Rightarrow> 's ipc_client \<Rightarrow> wait_result \<Rightarrow> 's ipc_client \<Rightarrow> bool" for f c where
  become_master: "wf_count f = process_count c \<Longrightarrow> \<not> socket_master_error c \<Longrightarrow> \<not> has_socket_master c \<Longrightarrow>
    head_case f c (ToPoll (f\<lparr>wf_master := True\<rparr>)) (c\<lparr>has_socket_master := True\<rparr>)"
| block: "wf_count f = process_count c \<Longrightarrow> \<not> socket_master_error c \<Longrightarrow> has_socket_master c \<Longrightarrow>
    head_case f c (ToBlock f) c"
| leave: "wf_count f \<noteq> process_count c \<or> socket_master_error c \<Longrightarrow> head_case f c (ToReturn r NotifyNone) c"

lemma wait_head_cases: "\<not> wf_master f \<Longrightarrow> wait_head f c = (r, c') \<Longrightarrow> head_case f c r c'"
  by (auto simp: wait_head_def wait_finish_def Let_def intro: head_case.intros split: if_splits)

text \<open>The master always returns; it wakes everybody unless nothing has happened.\<close>

lemma wait_finish_master:
  assumes "wf_master f"
  obtains ret n where "wait_finish f c = (ToReturn ret n, c\<lparr>has_socket_master := False\<rparr>)"
    "n = (if wf_count f = process_count c \<and> \<not> socket_master_error c then NotifyOne else NotifyAll)"
  using assms by (simp add: wait_finish_def Let_def split: if_splits)

lemma wait_head_master: "wf_master f \<Longrightarrow> wait_head f c = wait_finish f c"
  by (simp add: wait_head_def)

lemma wait_polled_cases:
  assumes f: "wf_master f" "wf_count f = process_count c" "\<not> socket_master_error c"
    and p: "wait_polled f e c s = (r, c', s')"
  shows "\<exists>ret n. r = ToReturn ret n \<and> \<not> has_socket_master c' \<and>
    (n = NotifyAll \<or> n = NotifyOne \<and> process_count c' = process_count c \<and> \<not> socket_master_error c')"
proof -
  obtain ok c1 s1 where q: "process (poll_msg e) c s = (ok, c1, s1)" by (metis prod_cases3)
  note pf = process_frame[OF q]
  define d where "d = (if poll_ret e < 0 then c\<lparr>socket_master_error := True\<rparr>
    else if poll_ret e = 0 \<or> \<not> poll_in e then c
    else if ok then c1\<lparr>process_count := process_count c1 + 1\<rparr> else c1\<lparr>socket_master_error := True\<rparr>)"
  have "fst (wait_polled f e c s) = fst (wait_finish f d)" "fst (snd (wait_polled f e c s)) = snd (wait_finish f d)"
    using q by (auto simp: wait_polled_def wait_head_master[OF f(1)] d_def Let_def split: prod.splits)
  then have rd: "(r, c') = wait_finish f d" using p by simp
  have d: "wf_count f = process_count d \<and> \<not> socket_master_error d \<Longrightarrow> process_count d = process_count c"
    using f by (auto simp: d_def pf)
  from f(1) show ?thesis
  proof (rule wait_finish_master[of f d])
    fix ret n assume "wait_finish f d = (ToReturn ret n, d\<lparr>has_socket_master := False\<rparr>)"
      "n = (if wf_count f = process_count d \<and> \<not> socket_master_error d then NotifyOne else NotifyAll)"
    with rd d show ?thesis by (auto split: if_splits)
  qed
qed

lemma inv_head:
  assumes inv: "wait_inv w" and t: "\<not> polling (ws_threads w t)" and f: "\<not> wf_master f"
    and h: "head_case f (ws_client w) r c"
  shows "wait_inv (w\<lparr>ws_client := c, ws_threads := settle t u r (ws_threads w)\<rparr>)"
  using h
proof cases
  case become_master
  then have np: "\<not> polling (ws_threads w v)" for v
    using inv by (cases "ws_threads w v") (auto simp: wait_inv_def dest: spec[of _ v])
  have "thread_ok c (ws_threads w v)" for v
    using inv np[of v] become_master by (cases "ws_threads w v") (auto simp: wait_inv_def dest: spec[of _ v])
  with np become_master f show ?thesis by (auto simp: wait_inv_def)
next
  case block
  with inv f t show ?thesis by (auto simp: wait_inv_def)
next
  case (leave r)
  with inv f t show ?thesis by (auto simp: wait_inv_def)
qed

lemma inv_polled:
  assumes inv: "wait_inv w" and t: "ws_threads w t = AtPoll f"
    and p: "wait_polled f e (ws_client w) (ws_app w) = (r, c, s)"
  shows "wait_inv \<lparr>ws_client = c, ws_app = s, ws_threads = settle t u r (ws_threads w)\<rparr>"
proof -
  have ok: "thread_ok (ws_client w) (ws_threads w v)" for v using inv by (simp add: wait_inv_def)
  have tf: "wf_master f" "wf_count f = process_count (ws_client w)" "\<not> socket_master_error (ws_client w)"
    using ok[of t] t by auto
  obtain ret n where r: "r = ToReturn ret n" "\<not> has_socket_master c"
    and n: "n = NotifyAll \<or> n = NotifyOne \<and> process_count c = process_count (ws_client w) \<and> \<not> socket_master_error c"
    using wait_polled_cases[OF tf p] by blast
  have only: "\<not> polling (ws_threads w v)" if "v \<noteq> t" for v
    using inv t that by (auto simp: wait_inv_def)
  have wk: "thread_ok c (wake (ws_threads w v))" if "v \<noteq> t" for v
    using ok[of v] only[OF that] by (cases "ws_threads w v") auto
  from n show ?thesis
  proof
    assume "n = NotifyAll"
    with r wk only show ?thesis by (auto simp: wait_inv_def)
  next
    assume n1: "n = NotifyOne \<and> process_count c = process_count (ws_client w) \<and> \<not> socket_master_error c"
    have "thread_ok c (ws_threads w v)" if "v \<noteq> t" for v
      using ok[of v] only[OF that] n1 by (cases "ws_threads w v") auto
    with n1 r wk only show ?thesis by (auto simp: wait_inv_def Let_def)
  qed
qed

lemma wait_finish_none: "\<not> wf_master f \<Longrightarrow> wait_finish f c = (r, c') \<Longrightarrow> \<exists>ret. r = ToReturn ret NotifyNone \<and> c' = c"
  by (auto simp: wait_finish_def Let_def)

lemma inv_leave:
  "wait_inv w \<Longrightarrow> \<not> polling (ws_threads w t) \<Longrightarrow>
   wait_inv (w\<lparr>ws_client := ws_client w, ws_threads := settle t u (ToReturn ret NotifyNone) (ws_threads w)\<rparr>)"
  by (auto simp: wait_inv_def)

lemma wait_step_inv: "wait_step timeouts w w' \<Longrightarrow> wait_inv w \<Longrightarrow> wait_inv w'"
proof (induction rule: wait_step.induct)
  case (enter w t timeout r c u)
  then have "head_case \<lparr>wf_count = process_count (ws_client w), wf_master = False, wf_timeout = timeout\<rparr> (ws_client w) r c"
    by (intro wait_head_cases) (simp_all add: wait_enter_def)
  then show ?case by (intro inv_head[OF enter.prems]) (simp_all add: enter.hyps)
next
  case (polled w t f e r c s u)
  then show ?case by (intro inv_polled)
next
  case (spurious w t f)
  have "thread_ok (ws_client w) (ws_threads w t)" using spurious.prems by (simp add: wait_inv_def)
  with spurious show ?case by (auto simp: wait_inv_def) (metis polling_simps(3))
next
  case (resumed w t f timed_out r c u)
  have "thread_ok (ws_client w) (ws_threads w t)" using resumed.prems by (simp add: wait_inv_def)
  then have f: "\<not> wf_master f" using resumed.hyps by simp
  show ?case
  proof (cases "timed_out \<and> wf_timeout f")
    case True
    then have "wait_finish f (ws_client w) = (r, c)" using resumed.hyps by (simp add: wait_resumed_def)
    from wait_finish_none[OF f this] show ?thesis using inv_leave[OF resumed.prems, of t] resumed.hyps by auto
  next
    case False
    then have "wait_head f (ws_client w) = (r, c)" using resumed.hyps by (auto simp: wait_resumed_def)
    from wait_head_cases[OF f this] show ?thesis
      by (intro inv_head[OF resumed.prems _ f]) (simp_all add: resumed.hyps)
  qed
qed

lemma wait_reachable_inv: "wait_reachable timeouts w \<Longrightarrow> wait_inv w"
proof (induction rule: wait_reachable.induct)
  case (start w)
  then show ?case by (simp add: wait_start_def wait_inv_def)
next
  case (step w w')
  then show ?case by (blast intro: wait_step_inv)
qed

section \<open>No waiter is forgotten\<close>

text \<open>A thread that was woken and will take over when it gets the lock.\<close>

definition successor :: "'s ipc_client \<Rightarrow> wait_thread \<Rightarrow> bool" where
  "successor c x \<longleftrightarrow> (case x of AtWake f \<Rightarrow> wf_count f = process_count c \<and> \<not> socket_master_error c | _ \<Rightarrow> False)"

lemma successor_simps [simp]:
  "successor c (AtWake f) \<longleftrightarrow> wf_count f = process_count c \<and> \<not> socket_master_error c"
  "\<not> successor c Outside" "\<not> successor c (AtPoll f)" "\<not> successor c (AtCond f)"
  by (simp_all add: successor_def)

fun without_timeout :: "wait_thread \<Rightarrow> bool" where
  "without_timeout Outside \<longleftrightarrow> True"
| "without_timeout (AtPoll f) \<longleftrightarrow> \<not> wf_timeout f"
| "without_timeout (AtCond f) \<longleftrightarrow> \<not> wf_timeout f"
| "without_timeout (AtWake f) \<longleftrightarrow> \<not> wf_timeout f"

lemma without_timeout_wake [simp]: "without_timeout (wake x) = without_timeout x"
  by (cases x) auto

definition attended :: "'s wait_system \<Rightarrow> bool" where
  "attended w \<longleftrightarrow> (\<forall>t. without_timeout (ws_threads w t))
     \<and> ((\<exists>t. blocked (ws_threads w t)) \<longrightarrow>
          has_socket_master (ws_client w) \<or> (\<exists>t. successor (ws_client w) (ws_threads w t)))"

lemma attended_head:
  assumes a: "attended w" and t: "\<not> blocked (ws_threads w t)"
    and st: "ws_threads w t = Outside \<or> ws_threads w t = AtWake f"
    and f: "\<not> wf_timeout f" and h: "head_case f (ws_client w) r c"
  shows "attended (w\<lparr>ws_client := c, ws_threads := settle t u r (ws_threads w)\<rparr>)"
  using h
proof cases
  case become_master
  with a f show ?thesis by (auto simp: attended_def)
next
  case block
  with a f show ?thesis by (auto simp: attended_def)
next
  case (leave r')
  then have ns: "\<not> successor (ws_client w) (ws_threads w t)" using st by auto
  then have "v \<noteq> t" if "successor (ws_client w) (ws_threads w v)" for v using that by auto
  with a leave t show ?thesis by (fastforce simp: attended_def split: if_splits)
qed

lemma attended_polled:
  assumes inv: "wait_inv w" and a: "attended w" and t: "ws_threads w t = AtPoll f"
    and p: "wait_polled f e (ws_client w) (ws_app w) = (r, c, s)" and u: "may_pick t u (ws_threads w)"
  shows "attended \<lparr>ws_client = c, ws_app = s, ws_threads = settle t u r (ws_threads w)\<rparr>"
proof -
  have ok: "thread_ok (ws_client w) (ws_threads w v)" for v using inv by (simp add: wait_inv_def)
  have wo: "without_timeout (ws_threads w v)" for v using a by (simp add: attended_def)
  have tf: "wf_master f" "wf_count f = process_count (ws_client w)" "\<not> socket_master_error (ws_client w)"
    using ok[of t] t by auto
  obtain ret n where r: "r = ToReturn ret n"
    and n: "n = NotifyAll \<or> n = NotifyOne \<and> process_count c = process_count (ws_client w) \<and> \<not> socket_master_error c"
    using wait_polled_cases[OF tf p] by blast
  from n show ?thesis
  proof
    assume "n = NotifyAll"
    with r wo show ?thesis by (auto simp: attended_def)
  next
    assume n1: "n = NotifyOne \<and> process_count c = process_count (ws_client w) \<and> \<not> socket_master_error c"
    have suc: "successor c (wake (ws_threads w u))" if "blocked (ws_threads w v)" "v \<noteq> t" for v
    proof -
      have "blocked (ws_threads w u)" using u that by (auto simp: may_pick_def)
      then obtain g where "ws_threads w u = AtCond g" by (cases "ws_threads w u") auto
      with ok[of u] n1 show ?thesis by simp
    qed
    have ut: "u \<noteq> t" if "blocked (ws_threads w v)" "v \<noteq> t" for v
      using u that by (auto simp: may_pick_def)
    have "\<exists>x. successor c ((settle t u r (ws_threads w)) x)" if "blocked ((settle t u r (ws_threads w)) v)" for v
    proof -
      have v: "blocked (ws_threads w v)" "v \<noteq> t"
        using that n1 r by (auto simp: Let_def split: if_splits)
      from suc[OF v] ut[OF v] show ?thesis using n1 r by (intro exI[of _ u]) (simp add: Let_def)
    qed
    moreover have "without_timeout (settle t u r (ws_threads w) v)" for v
      using wo n1 r by (simp add: Let_def)
    ultimately show ?thesis by (auto simp: attended_def)
  qed
qed

lemma wait_step_attended: "wait_step False w w' \<Longrightarrow> wait_inv w \<Longrightarrow> attended w \<Longrightarrow> attended w'"
proof (induction rule: wait_step.induct)
  case (enter w t timeout r c u)
  then have "head_case \<lparr>wf_count = process_count (ws_client w), wf_master = False, wf_timeout = timeout\<rparr> (ws_client w) r c"
    by (intro wait_head_cases) (simp_all add: wait_enter_def)
  then show ?case by (intro attended_head[OF enter.prems(2)]) (use enter.hyps in simp_all)
next
  case (polled w t f e r c s u)
  then show ?case by (intro attended_polled)
next
  case (spurious w t f)
  have "thread_ok (ws_client w) (ws_threads w t)" "without_timeout (ws_threads w t)"
    using spurious.prems by (simp_all add: wait_inv_def attended_def)
  with spurious show ?case by (auto simp: attended_def)
next
  case (resumed w t f timed_out r c u)
  have "thread_ok (ws_client w) (ws_threads w t)" "without_timeout (ws_threads w t)"
    using resumed.prems by (simp_all add: wait_inv_def attended_def)
  then have f: "\<not> wf_master f" "\<not> wf_timeout f" using resumed.hyps by simp_all
  then have "wait_head f (ws_client w) = (r, c)" using resumed.hyps by (simp add: wait_resumed_def)
  from wait_head_cases[OF f(1) this] show ?case
    by (intro attended_head[OF resumed.prems(2) _ _ f(2)]) (simp_all add: resumed.hyps)
qed

lemma wait_reachable_attended: "wait_reachable False w \<Longrightarrow> attended w"
proof (induction rule: wait_reachable.induct)
  case (start w)
  then show ?case by (simp add: wait_start_def attended_def)
next
  case (step w w')
  then show ?case by (blast intro: wait_step_attended wait_reachable_inv)
qed

text \<open>
  C19. One socket master: in every reachable state of any number of threads in \<open>wait_reply\<close>, whatever the polls
  deliver and in whatever order the threads run, at most one thread is at the poll, and the flag
  \<open>has_socket_master\<close> says exactly whether there is one.
\<close>

theorem one_socket_master:
  assumes "wait_reachable timeouts w"
  shows "(has_socket_master (ws_client w) \<longleftrightarrow> (\<exists>t f. ws_threads w t = AtPoll f))
    \<and> (\<forall>t u f g. ws_threads w t = AtPoll f \<longrightarrow> ws_threads w u = AtPoll g \<longrightarrow> t = u)"
proof -
  have inv: "wait_inv w" by (rule wait_reachable_inv[OF assms])
  have poll: "polling x \<longleftrightarrow> (\<exists>f. x = AtPoll f)" for x by (cases x) auto
  have "has_socket_master (ws_client w)" if "ws_threads w t = AtPoll f" for t f
  proof -
    have "thread_ok (ws_client w) (ws_threads w t)" using inv by (simp add: wait_inv_def)
    then show ?thesis by (simp add: that)
  qed
  with inv show ?thesis unfolding wait_inv_def poll by blast
qed

definition idle_client :: "unit ipc_client" where
  "idle_client = \<lparr>send_serial = 0, received_replies = 0, cl_handlers = Map.empty, default_handler = None,
     event_handler = None, has_socket_master = False, socket_master_error = False, process_count = 0\<rparr>"

definition idle_system :: "unit wait_system" where
  "idle_system = \<lparr>ws_client = idle_client, ws_app = (), ws_threads = (\<lambda>_. Outside)\<rparr>"

definition idle_frame :: "bool \<Rightarrow> bool \<Rightarrow> wait_frame" where
  "idle_frame master timeout = \<lparr>wf_count = 0, wf_master = master, wf_timeout = timeout\<rparr>"

text \<open>A thread enters an idle system and becomes the master; others enter and block.\<close>

lemma idle_start: "wait_reachable timeouts idle_system"
  by (rule wait_reachable.start) (simp add: wait_start_def idle_system_def idle_client_def)

definition polled_system :: "bool \<Rightarrow> unit wait_system" where
  "polled_system timeout = idle_system\<lparr>ws_client := idle_client\<lparr>has_socket_master := True\<rparr>,
     ws_threads := (\<lambda>_. Outside)(0 := AtPoll (idle_frame True timeout))\<rparr>"

lemma idle_enter:
  assumes "timeout \<longrightarrow> timeouts"
  shows "wait_reachable timeouts (polled_system timeout)"
proof -
  have "wait_step timeouts idle_system (polled_system timeout)"
    using wait_step.enter[of idle_system 0 timeout timeouts "ToPoll (idle_frame True timeout)"
        "idle_client\<lparr>has_socket_master := True\<rparr>" 0] assms
    by (simp add: idle_system_def idle_client_def polled_system_def idle_frame_def wait_enter_def wait_head_def
        may_pick_def)
  then show ?thesis by (rule wait_reachable.step[OF idle_start])
qed

lemma enter_blocks:
  assumes "wait_reachable timeouts w" "ws_threads w t = Outside" "timeout \<longrightarrow> timeouts"
    "ws_client w = idle_client\<lparr>has_socket_master := True\<rparr>"
  shows "wait_reachable timeouts (w\<lparr>ws_threads := (ws_threads w)(t := AtCond (idle_frame False timeout))\<rparr>)"
proof -
  obtain u where u: "may_pick t u (ws_threads w)" by (auto simp: may_pick_def)
  have "wait_enter timeout (ws_client w) = (ToBlock (idle_frame False timeout), ws_client w)"
    by (simp add: assms(4) idle_client_def wait_enter_def wait_head_def idle_frame_def)
  from wait_step.enter[OF assms(2,3) this u] show ?thesis by (auto intro: wait_reachable.step[OF assms(1)])
qed

lemma one_socket_master_witness:
  "has_socket_master (ws_client (polled_system False)) \<and> (\<exists>!t. \<exists>f. ws_threads (polled_system False) t = AtPoll f)"
proof -
  have "has_socket_master (ws_client (polled_system False))" by (simp add: polled_system_def)
  then show ?thesis using one_socket_master[OF idle_enter[of False False]] by blast
qed

text \<open>
  C20. No waiter is forgotten: as long as no call uses a time-out, whenever a thread is blocked in
  \<open>wait_reply\<close>, either some thread polls the socket or a woken thread will do so as soon as it gets the lock.
\<close>

theorem blocked_waiters_attended:
  assumes "wait_reachable False w" "ws_threads w t = AtCond f"
  shows "(\<exists>u g. ws_threads w u = AtPoll g)
    \<or> (\<exists>u g g'. ws_threads w u = AtWake g \<and> fst (wait_resumed g b (ws_client w)) = ToPoll g')"
proof -
  have inv: "wait_inv w" by (rule wait_reachable_inv[OF assms(1)])
  have a: "attended w" by (rule wait_reachable_attended[OF assms(1)])
  have poll: "polling x \<longleftrightarrow> (\<exists>f. x = AtPoll f)" for x by (cases x) auto
  show ?thesis
  proof (cases "has_socket_master (ws_client w)")
    case True
    with inv show ?thesis unfolding wait_inv_def poll by blast
  next
    case False
    have "blocked (ws_threads w t)" by (simp add: assms(2))
    with a False obtain u where u: "successor (ws_client w) (ws_threads w u)" by (auto simp: attended_def)
    then obtain g where g: "ws_threads w u = AtWake g" by (cases "ws_threads w u") auto
    have "thread_ok (ws_client w) (ws_threads w u)" "without_timeout (ws_threads w u)"
      using inv a by (simp_all add: wait_inv_def attended_def)
    with g u False have "wait_resumed g b (ws_client w)
        = (ToPoll (g\<lparr>wf_master := True\<rparr>), (ws_client w)\<lparr>has_socket_master := True\<rparr>)"
      by (simp add: wait_resumed_def wait_head_def)
    then have "fst (wait_resumed g b (ws_client w)) = ToPoll (g\<lparr>wf_master := True\<rparr>)" by simp
    with g show ?thesis by blast
  qed
qed

lemma blocked_waiters_attended_witness:
  "\<exists>w t f. wait_reachable False w \<and> ws_threads (w :: unit wait_system) t = AtCond f
     \<and> ((\<exists>u g. ws_threads w u = AtPoll g)
        \<or> (\<exists>u g g'. ws_threads w u = AtWake g \<and> fst (wait_resumed g True (ws_client w)) = ToPoll g'))"
proof -
  define w where "w = (polled_system False)\<lparr>ws_threads := (ws_threads (polled_system False))(1 := AtCond (idle_frame False False))\<rparr>"
  have "wait_reachable False (polled_system False)" by (rule idle_enter) simp
  then have r: "wait_reachable False w" unfolding w_def
    by (rule enter_blocks) (simp_all add: polled_system_def)
  have t: "ws_threads w 1 = AtCond (idle_frame False False)" by (simp add: w_def)
  from blocked_waiters_attended[OF r t, of True] r t show ?thesis by blast
qed

text \<open>
  C36. With time-outs a waiter can be forgotten: a master whose poll timed out wakes one thread; when the
  time-out of that thread has expired as well it leaves without taking over, and a third thread that waits
  without time-out stays blocked although nobody polls the socket and no error has occurred.
\<close>

theorem timeout_forgets_waiter:
  "\<exists>w. wait_reachable True (w :: unit wait_system) \<and> \<not> socket_master_error (ws_client w)
     \<and> ws_threads w = (\<lambda>_. Outside)(2 := AtCond (idle_frame False False))"
proof -
  define w1 where "w1 = (polled_system True)\<lparr>ws_threads := (ws_threads (polled_system True))(1 := AtCond (idle_frame False True))\<rparr>"
  define w2 where "w2 = w1\<lparr>ws_threads := (ws_threads w1)(2 := AtCond (idle_frame False False))\<rparr>"
  define th3 :: "nat \<Rightarrow> wait_thread" where "th3 = (\<lambda>_. Outside)(1 := AtWake (idle_frame False True), 2 := AtCond (idle_frame False False))"
  define w3 where "w3 = \<lparr>ws_client = idle_client, ws_app = (), ws_threads = th3\<rparr>"
  define w4 where "w4 = w3\<lparr>ws_threads := (\<lambda>_. Outside)(2 := AtCond (idle_frame False False))\<rparr>"
  have "wait_reachable True (polled_system True)" by (rule idle_enter) simp
  then have r1: "wait_reachable True w1" unfolding w1_def
    by (rule enter_blocks) (simp_all add: polled_system_def)
  then have r2: "wait_reachable True w2" unfolding w2_def
    by (rule enter_blocks) (simp_all add: w1_def polled_system_def)
  have p: "wait_polled (idle_frame True True) \<lparr>poll_ret = 0, poll_in = False, poll_msg = None\<rparr> (ws_client w2) (ws_app w2)
      = (ToReturn 0 NotifyOne, idle_client, ())"
    by (simp add: w2_def w1_def polled_system_def wait_polled_def wait_finish_def idle_frame_def idle_client_def)
  have at: "ws_threads w2 0 = AtPoll (idle_frame True True)" by (simp add: w2_def w1_def polled_system_def)
  have pk: "may_pick 0 1 (ws_threads w2)" by (simp add: may_pick_def w2_def w1_def)
  have "settle 0 1 (ToReturn 0 NotifyOne) (ws_threads w2) = th3"
    by (auto simp: w2_def w1_def polled_system_def th3_def fun_eq_iff Let_def)
  then have r3: "wait_reachable True w3"
    using wait_reachable.step[OF r2 wait_step.polled[OF at p pk]] by (simp add: w3_def)
  have q: "wait_resumed (idle_frame False True) True (ws_client w3) = (ToReturn 0 NotifyNone, idle_client)"
    by (simp add: w3_def wait_resumed_def wait_finish_def idle_frame_def idle_client_def)
  have at3: "ws_threads w3 1 = AtWake (idle_frame False True)" by (simp add: w3_def th3_def)
  have pk3: "may_pick 1 2 (ws_threads w3)" by (simp add: may_pick_def w3_def th3_def)
  have "w3\<lparr>ws_client := idle_client, ws_threads := settle 1 2 (ToReturn 0 NotifyNone) (ws_threads w3)\<rparr> = w4"
    by (auto simp: w4_def w3_def th3_def fun_eq_iff)
  then have r4: "wait_reachable True w4"
    using wait_reachable.step[OF r3 wait_step.resumed[OF at3 q pk3]] by simp
  show ?thesis
    by (rule exI[of _ w4]) (simp add: r4, simp add: w4_def w3_def idle_client_def)
qed

section \<open>Replies\<close>

text \<open>
  A stream as a correct server produces it: events carry serial 0, replies carry consecutive serials; \<open>n\<close>
  replies have been received before.
\<close>

fun valid_stream :: "nat \<Rightarrow> ipc_message list \<Rightarrow> bool" where
  "valid_stream n [] \<longleftrightarrow> True"
| "valid_stream n (m # ms) \<longleftrightarrow>
     (if get_serial m = 0 then is_event m \<and> valid_stream n ms
      else unat (get_serial m) = Suc n \<and> \<not> is_event m \<and> valid_stream (Suc n) ms)"

definition accepting :: "'s serial_handler \<Rightarrow> bool" where
  "accepting h \<longleftrightarrow> (\<forall>m s. fst (call_handler h m s))"

definition handlers_accept :: "'s ipc_client \<Rightarrow> bool" where
  "handlers_accept c \<longleftrightarrow> accepting (event_handler c) \<and> accepting (default_handler c)
     \<and> (\<forall>k h. cl_handlers c k = Some h \<longrightarrow> accepting h)"

definition poll_ok :: "ipc_message \<Rightarrow> poll_event" where
  "poll_ok m = \<lparr>poll_ret = 1, poll_in = True, poll_msg = Some m\<rparr>"

definition client_idle :: "'s ipc_client \<Rightarrow> bool" where
  "client_idle c \<longleftrightarrow> \<not> has_socket_master c \<and> \<not> socket_master_error c"

lemma accepting_call: "accepting h \<Longrightarrow> \<exists>s'. call_handler h m s = (True, s')"
  unfolding accepting_def by (metis prod.collapse)

lemma unat_Suc_plus:
  assumes "unat (k :: u64) = Suc (unat r)"
  shows "k = r + 1"
proof -
  have "unat k < 2 ^ 64" using unsigned_less[of k, where ?'a = nat] by simp
  then have "unat r + 1 < 2 ^ 64" using assms by simp
  then have "unat (r + 1) = unat r + 1" by (simp add: unat_word_ariths)
  with assms show ?thesis by (simp add: word_unat_eq_iff)
qed

lemma process_valid:
  assumes "valid_stream (unat (received_replies c)) (m # ms)" "handlers_accept c"
  shows "\<exists>c' s'. process (Some m) c s = (True, c', s') \<and> handlers_accept c'
    \<and> valid_stream (unat (received_replies c')) ms
    \<and> cl_handlers c' = (if get_serial m = 0 then cl_handlers c else (cl_handlers c)(get_serial m := None))"
proof (cases "get_serial m = 0")
  case True
  obtain s' where "call_handler (event_handler c) m s = (True, s')"
    using accepting_call[of "event_handler c" m s] assms(2) by (auto simp: handlers_accept_def)
  with True assms show ?thesis by (simp add: process_def process_event_def)
next
  case False
  have sr: "get_serial m = received_replies c + 1" and ev: "\<not> is_event m"
    using assms(1) False unat_Suc_plus by auto
  have vs: "valid_stream (unat (received_replies c + 1)) ms"
    using assms(1) False by (simp flip: sr)
  show ?thesis
  proof (cases "cl_handlers c (get_serial m)")
    case None
    obtain s' where "call_handler (default_handler c) m s = (True, s')"
      using accepting_call[of "default_handler c" m s] assms(2) by (auto simp: handlers_accept_def)
    with None False ev vs sr assms(2) show ?thesis
      by (auto simp: process_def process_reply_def Let_def handlers_accept_def fun_eq_iff)
  next
    case (Some h)
    obtain s' where "call_handler h m s = (True, s')"
      using accepting_call[of h m s] assms(2) Some by (auto simp: handlers_accept_def)
    with Some False ev vs sr assms(2) show ?thesis
      by (auto simp: process_def process_reply_def Let_def handlers_accept_def)
  qed
qed

lemma wait_reply_ok:
  assumes "client_idle c" "process (Some m) c s = (True, c', s')"
  shows "wait_reply False (poll_ok m) c s = Some (1, c'\<lparr>process_count := process_count c + 1, has_socket_master := False\<rparr>, s')"
proof -
  have p: "process (Some m) (c\<lparr>has_socket_master := True\<rparr>) s = (True, c'\<lparr>has_socket_master := True\<rparr>, s')"
    using assms(2)
    by (auto simp: process_def process_event_def process_reply_def Let_def split: option.splits if_splits prod.splits)
  have "process_count c' = process_count c" by (rule process_frame[OF assms(2)])
  with p assms(1) show ?thesis
    by (simp add: wait_reply_def wait_enter_def wait_head_def client_idle_def wait_polled_def poll_ok_def
        wait_finish_def)
qed

lemma valid_stream_last:
  "valid_stream n (pre @ [m]) \<Longrightarrow> get_serial m \<noteq> 0 \<Longrightarrow> n < unat (get_serial m)"
proof (induction pre arbitrary: n)
  case Nil
  then show ?case by simp
next
  case (Cons x pre)
  then show ?case by (cases "get_serial x = 0") (auto dest: Suc_lessD)
qed

lemma plain_handler_accepts: "accepting plain_handler"
  by (simp add: accepting_def call_handler_def plain_handler_def split: prod.splits)

lemma wait_for_reply:
  assumes "valid_stream (unat (received_replies c)) (pre @ [m])" "get_serial m \<noteq> 0" "handlers_accept c" "client_idle c"
    and "cl_handlers c (get_serial m) = Some plain_handler"
  shows "\<exists>c' s'. wait_reply_for_serial (map poll_ok (pre @ m # post)) (get_serial m) c (t, s)
    = Some (True, map poll_ok post, c', (get_type m, s'))"
  using assms
proof (induction pre arbitrary: c t s)
  case Nil
  let ?k = "get_serial m"
  have k: "?k = received_replies c + 1" using Nil.prems unat_Suc_plus by auto
  have lt: "received_replies c < ?k"
    using valid_stream_last[of _ "[]" m] Nil.prems by (simp add: word_less_nat_alt)
  have p: "process (Some m) c (t, s)
      = (True, c\<lparr>received_replies := ?k, cl_handlers := (cl_handlers c)(?k := None)\<rparr>, (get_type m, s))"
    using Nil.prems k by (auto simp: process_def process_reply_def Let_def call_handler_def plain_handler_def)
  show ?case
    using wait_reply_ok[OF Nil.prems(4) p] lt
    by (subst wait_reply_for_serial.simps) (simp, subst wait_reply_for_serial.simps, simp)
next
  case (Cons x pre)
  let ?k = "get_serial m"
  have lt: "received_replies c < ?k"
    using valid_stream_last[OF Cons.prems(1,2)] by (simp add: word_less_nat_alt)
  obtain c1 u where p: "process (Some x) c (t, s) = (True, c1, u)" and c1: "handlers_accept c1"
    "valid_stream (unat (received_replies c1)) (pre @ [m])"
    "cl_handlers c1 = (if get_serial x = 0 then cl_handlers c else (cl_handlers c)(get_serial x := None))"
    using process_valid[of c x "pre @ [m]" "(t, s)"] Cons.prems by auto
  have ne: "get_serial x \<noteq> ?k"
  proof (cases "get_serial x = 0")
    case True
    with Cons.prems(2) show ?thesis by simp
  next
    case False
    with Cons.prems(1) have "valid_stream (unat (get_serial x)) (pre @ [m])" by simp
    from valid_stream_last[OF this Cons.prems(2)] show ?thesis by auto
  qed
  define c2 where "c2 = c1\<lparr>process_count := process_count c + 1, has_socket_master := False\<rparr>"
  have c2: "handlers_accept c2" "valid_stream (unat (received_replies c2)) (pre @ [m])" "client_idle c2"
    "cl_handlers c2 ?k = Some plain_handler"
    using c1 ne Cons.prems(4,5) process_frame(2)[OF p]
    by (auto simp: c2_def handlers_accept_def client_idle_def)
  obtain t' s' where u: "u = (t', s')" by (cases u)
  from Cons.IH[OF c2(2) Cons.prems(2) c2(1,3,4), of t' s'] obtain c' s'' where
    ih: "wait_reply_for_serial (map poll_ok (pre @ m # post)) ?k c2 (t', s') = Some (True, map poll_ok post, c', (get_type m, s''))"
    by blast
  show ?case
    using wait_reply_ok[OF Cons.prems(4) p] lt ih
    by (subst wait_reply_for_serial.simps) (simp add: u c2_def)
qed

lemma wait_plain_reply_ok:
  assumes "valid_stream (unat (received_replies c)) (pre @ [m])" "get_serial m \<noteq> 0" "handlers_accept c" "client_idle c"
  shows "\<exists>c'. wait_plain_reply_for_serial (map poll_ok (pre @ m # post)) (get_serial m) c s = Some (get_type m, c')"
proof -
  define c1 where "c1 = c\<lparr>cl_handlers := (cl_handlers c)(get_serial m \<mapsto> plain_handler)\<rparr>"
  have c1: "handlers_accept c1" "client_idle c1" "received_replies c1 = received_replies c"
    "cl_handlers c1 (get_serial m) = Some plain_handler"
    using assms(3,4) plain_handler_accepts by (auto simp: c1_def handlers_accept_def client_idle_def)
  obtain c' s' where "wait_reply_for_serial (map poll_ok (pre @ m # post)) (get_serial m) c1 (MT_Void, s)
      = Some (True, map poll_ok post, c', (get_type m, s'))"
    using wait_for_reply[of c1 pre m post MT_Void s] c1 assms by auto
  then show ?thesis
    using assms(2) by (simp add: wait_plain_reply_for_serial_def set_serial_handler_def c1_def)
qed

text \<open>
  A request is answered by its own reply: when the server sends events and the replies in order, waiting
  for the reply with a given serial ends, has consumed the messages up to that reply, and returns its type,
  whatever events and earlier replies came before and whatever comes after.
\<close>

theorem plain_reply_matches:
  assumes "valid_stream (unat (received_replies c)) (pre @ [m])" "get_serial m \<noteq> 0" "handlers_accept c" "client_idle c"
  shows "\<exists>c'. wait_plain_reply_for_serial (map poll_ok (pre @ m # post)) (get_serial m) c s = Some (get_type m, c')"
  by (rule wait_plain_reply_ok[OF assms])

text \<open>An acquire event and the reply to request 1 come before the reply to request 2.\<close>

definition sample_client :: "(ipc_type \<times> unit) ipc_client" where
  "sample_client = \<lparr>send_serial = 2, received_replies = 0, cl_handlers = Map.empty, default_handler = None,
     event_handler = None, has_socket_master = False, socket_master_error = False, process_count = 0\<rparr>"

lemma plain_reply_matches_witness:
  "\<exists>c'. wait_plain_reply_for_serial
     (map poll_ok ([AcquireImageMessage 0 \<lparr>aq_group_serial = 1, aq_index = 0, aq_semaphore_type = 0\<rparr> (-1), PlainMessage MT_OK 1]
        @ PlainMessage MT_ErrorParameter 2 # [])) 2 sample_client () = Some (MT_ErrorParameter, c')"
proof -
  have ev: "is_event (AcquireImageMessage s a fd)" "\<not> is_event (PlainMessage MT_OK s)"
    "\<not> is_event (PlainMessage MT_ErrorParameter s)" for s a fd
    using event_flag_iff[of MT_AcquireImage] event_flag_iff[of MT_OK] event_flag_iff[of MT_ErrorParameter]
    by (simp_all add: is_event_def)
  show ?thesis
    using plain_reply_matches[of sample_client
        "[AcquireImageMessage 0 \<lparr>aq_group_serial = 1, aq_index = 0, aq_semaphore_type = 0\<rparr> (-1), PlainMessage MT_OK 1]"
        "PlainMessage MT_ErrorParameter 2" "[]" "()"]
    by (simp add: sample_client_def ev handlers_accept_def accepting_def call_handler_def client_idle_def)
qed

end
