(* ===== verification/Swapchain.thy ===== *)
theory Swapchain
  imports Ipc_Client
begin

text \<open>
  The server side of a client swapchain and the encode scheduling (\<open>SwapchainServer::Swapchain\<close> and the parts
  of \<open>SwapchainServer\<close> in \<open>pyrofling.cpp\<close>): image groups, presentation, completion of GPU work, retirement,
  and the heartbeat.

  Environment.  Messages to the client are appended to \<open>sc_out\<close>; the results of \<open>send_message\<close> are read from
  \<open>sc_send\<close>, one per call (a call beyond its end succeeds).  What the graphics library answers (format
  properties, creation of images and semaphores, import of handles) is a record \<open>vk_env\<close>.  A GPU task that
  has been created and has not yet written to the pipe is an element of \<open>sc_tasks\<close>; it holds a reference to
  the swapchain.  Records that were written and not yet read are in \<open>sc_pipe\<close>.  \<open>encode_surface\<close> is reduced to what it decides: which surface is encoded, in which slot,
  with which bit rate and delay.  Trace events and log output are left out.
\<close>

section \<open>Encode scheduling\<close>

datatype surface = SurfDummy | SurfExternal | SurfChain nat

record encode_job =
  job_surface :: surface
  job_pts :: u64
  job_slot :: nat
  job_compensate_audio_us :: u32

text \<open>
  \<open>es_tasks\<close> has for every slot whether a task is there and whether it has finished.  \<open>es_request\<close> is what
  \<open>consume_bitrate_change_request\<close> will deliver.
\<close>

record encode_server =
  es_immediate :: bool
  es_pipewire :: bool
  es_encoder :: bool
  es_bitrate_kbits :: u32
  es_request :: int
  es_rate_multiplier :: u32
  es_heartbeat_count :: u32
  es_slot :: nat
  es_tasks :: "bool option list"
  es_jobs :: "encode_job list"

definition NumEncodeTasks :: nat where "NumEncodeTasks = 8"

definition update_bitrate :: "encode_server \<Rightarrow> encode_server" where
  "update_bitrate s =
     (let delta = es_request s; s = s\<lparr>es_request := 0\<rparr> in
      if delta > 0 then s\<lparr>es_bitrate_kbits := min 10000000 ((es_bitrate_kbits s * 110) div 100)\<rparr>
      else if delta < 0 then s\<lparr>es_bitrate_kbits := max 100 ((es_bitrate_kbits s * 90) div 100)\<rparr>
      else s)"

definition set_client_rate_multiplier :: "u32 \<Rightarrow> encode_server \<Rightarrow> encode_server" where
  "set_client_rate_multiplier r s = s\<lparr>es_rate_multiplier := r, es_heartbeat_count := 0\<rparr>"

text \<open>
  \<open>chain\<close> gives, for a surface of a swapchain, the number of its images and the period of the image.  The
  result says whether a frame was encoded; \<open>now\<close> is \<open>sample_realtime_pts\<close>.
\<close>

definition encode_surface ::
    "surface \<Rightarrow> u64 \<Rightarrow> (nat \<times> u32) option \<Rightarrow> u64 \<Rightarrow> u64 \<Rightarrow> encode_server \<Rightarrow> bool \<times> encode_server" where
  "encode_surface surf pts chain period_ns now s =
     (let s = update_bitrate s;
          s = s\<lparr>es_heartbeat_count := es_heartbeat_count s + 1\<rparr>;
          encode_frame = es_heartbeat_count s \<ge> es_rate_multiplier s;
          s = (if encode_frame then s\<lparr>es_heartbeat_count := 0\<rparr> else s)
      in if es_encoder s \<and> encode_frame
         then let comp = (case chain of None \<Rightarrow> 0
                     | Some (n, period) \<Rightarrow> word_of_int (int n - 1) * period * ucast (period_ns div 1000));
                  job = \<lparr>job_surface = surf, job_pts = (if pts = 0 then now else pts), job_slot = es_slot s,
                         job_compensate_audio_us = comp\<rparr>
              in (True, s\<lparr>es_jobs := es_jobs s @ [job], es_tasks := (es_tasks s)[es_slot s := Some False],
                          es_slot := (es_slot s + 1) mod NumEncodeTasks\<rparr>)
         else (False, s))"

text \<open>Whether the slot for the next frame is still busy.\<close>

definition slot_busy :: "encode_server \<Rightarrow> bool" where
  "slot_busy s \<longleftrightarrow> es_tasks s ! es_slot s = Some False"

definition notify_async_surface ::
    "nat \<Rightarrow> u64 \<Rightarrow> nat \<times> u32 \<Rightarrow> u64 \<Rightarrow> encode_server \<Rightarrow> bool \<times> encode_server" where
  "notify_async_surface i pts chain now s =
     (if \<not> es_immediate s then (False, s)
      else if slot_busy s then (False, s)
      else encode_surface (SurfChain i) pts (Some chain) 0 now (s\<lparr>es_tasks := (es_tasks s)[es_slot s := None]\<rparr>))"

section \<open>State of a swapchain\<close>

datatype image_state = ClientOwned | PresentQueued | PresentPendingReady | PresentReady

text \<open>\<open>img_cross\<close>: the image goes through a buffer on another device; \<open>img_sem\<close>: a read semaphore is pending.\<close>

record swapchain_image =
  target_timestamp :: u64
  target_period :: u32
  present_id :: u64
  img_state :: image_state
  img_cross :: bool
  img_sem :: bool

definition image_new :: "bool \<Rightarrow> swapchain_image" where
  "image_new cross = \<lparr>target_timestamp = 0, target_period = 0, present_id = 0, img_state = ClientOwned,
     img_cross = cross, img_sem = False\<rparr>"

record gpu_task =
  gt_serial :: u64
  gt_index :: nat
  gt_pts :: u64

record complete_mapping =
  cm_timestamp :: u64
  cm_complete_id :: u64

record swapchain =
  sc_images :: "swapchain_image list"
  sc_color_space :: u32
  sc_mappings :: "complete_mapping list"
  sc_group_serial :: u64
  sc_timestamp_completed :: u64
  sc_timestamp_stalled_count :: u64
  sc_last_present_id :: u64
  sc_earliest_next_timestamp :: u64
  sc_refs :: nat
  sc_tasks :: "gpu_task list"
  sc_pipe :: "gpu_task list"
  sc_out :: "ipc_message list"
  sc_send :: "bool list"

text \<open>
  \<open>register_handler\<close> creates the object: one reference for the pipe connection, one for the socket connection
  and one for the list of handlers.
\<close>

definition swapchain_new :: "bool list \<Rightarrow> swapchain" where
  "swapchain_new script = \<lparr>sc_images = [], sc_color_space = 0, sc_mappings = [], sc_group_serial = 0,
     sc_timestamp_completed = 0, sc_timestamp_stalled_count = 0, sc_last_present_id = 0,
     sc_earliest_next_timestamp = 0, sc_refs = 3, sc_tasks = [], sc_pipe = [], sc_out = [], sc_send = script\<rparr>"

section \<open>Sending\<close>

definition sc_reply :: "ipc_message \<Rightarrow> swapchain \<Rightarrow> bool \<times> swapchain" where
  "sc_reply m c =
     (case sc_send c of
        [] \<Rightarrow> (True, c\<lparr>sc_out := sc_out c @ [m]\<rparr>)
      | b # bs \<Rightarrow> (b, c\<lparr>sc_send := bs, sc_out := (if b then sc_out c @ [m] else sc_out c)\<rparr>))"

definition sc_plain :: "ipc_type \<Rightarrow> u64 \<Rightarrow> swapchain \<Rightarrow> bool \<times> swapchain" where
  "sc_plain t serial c = sc_reply (PlainMessage t serial) c"

section \<open>What the graphics library answers\<close>

text \<open>
  \<open>vk_is_srgb\<close>: the format is an sRGB format; \<open>vk_extent\<close>: the largest extent for the format, if it is
  supported; \<open>vk_create\<close>: which images can be created; \<open>vk_semaphore\<close>, \<open>vk_import\<close>: a semaphore can be
  requested and imported; \<open>vk_export\<close>: the descriptor and type of an exported semaphore; \<open>vk_cross\<close>: the
  encoder runs on another device; \<open>vk_now\<close>: the clock of the encoder.
\<close>

record vk_env =
  vk_is_srgb :: "u32 \<Rightarrow> bool"
  vk_extent :: "image_group \<Rightarrow> (u32 \<times> u32) option"
  vk_create :: "nat \<Rightarrow> bool"
  vk_semaphore :: bool
  vk_import :: bool
  vk_export :: "int \<times> u32"
  vk_cross :: bool
  vk_now :: u64

definition VK_IMAGE_USAGE_SAMPLED_BIT :: u32 where "VK_IMAGE_USAGE_SAMPLED_BIT = 4"
definition VK_IMAGE_USAGE_TRANSFER_SRC_BIT :: u32 where "VK_IMAGE_USAGE_TRANSFER_SRC_BIT = 1"
definition OPAQUE_FD :: u32 where "OPAQUE_FD = 1"
definition COLOR_SPACE_SRGB :: u32 where "COLOR_SPACE_SRGB = 0"
definition COLOR_SPACE_HDR10 :: u32 where "COLOR_SPACE_HDR10 = 1000104008"
definition COLOR_SPACE_SCRGB :: u32 where "COLOR_SPACE_SCRGB = 1000104002"

section \<open>Image groups\<close>

text \<open>The view formats of a group are read one by one; the array has 15 elements.\<close>

definition read_view_formats :: "image_group \<Rightarrow> unit outcome" where
  "read_view_formats g = for_list (\<lambda>i _. do { _ \<leftarrow> load (vk_view_formats g) i; Some () }) [0..<unat (vk_num_view_formats g)] ()"

definition create_images :: "vk_env \<Rightarrow> u64 \<Rightarrow> nat list \<Rightarrow> swapchain \<Rightarrow> bool \<times> swapchain" where
  "create_images env serial is c =
     (let done = takeWhile (vk_create env) is;
          c = c\<lparr>sc_images := sc_images c @ replicate (length done) (image_new (vk_cross env))\<rparr>
      in if length done < length is
         then (False, snd (sc_plain MT_Error serial c))
         else sc_plain MT_OK serial c)"

definition image_group_error :: "vk_env \<Rightarrow> image_group \<Rightarrow> int list \<Rightarrow> bool" where
  "image_group_error env g fds \<longleftrightarrow>
     unat (num_images g) \<noteq> length fds
     \<or> vk_image_usage g AND VK_IMAGE_USAGE_SAMPLED_BIT = 0
     \<or> vk_image_usage g AND VK_IMAGE_USAGE_TRANSFER_SRC_BIT = 0
     \<or> vk_external_memory_type g \<noteq> OPAQUE_FD
     \<or> vk_color_space g \<notin> {COLOR_SPACE_SRGB, COLOR_SPACE_HDR10, COLOR_SPACE_SCRGB}"

definition image_extent_error :: "vk_env \<Rightarrow> image_group \<Rightarrow> bool" where
  "image_extent_error env g \<longleftrightarrow>
     (case vk_extent env g of
        None \<Rightarrow> True
      | Some (mw, mh) \<Rightarrow> ig_width g > mw \<or> ig_width g = 0 \<or> ig_height g > mh \<or> ig_height g = 0)"

definition handle_swapchain_create ::
    "vk_env \<Rightarrow> u64 \<Rightarrow> image_group \<Rightarrow> int list \<Rightarrow> swapchain \<Rightarrow> (bool \<times> swapchain) outcome" where
  "handle_swapchain_create env serial g fds c =
     (let c = c\<lparr>sc_group_serial := serial\<rparr> in
      if image_group_error env g fds then Some (sc_plain MT_ErrorParameter serial c)
      else
        let c = c\<lparr>sc_color_space := vk_color_space g\<rparr> in
        if vk_num_view_formats g = 0 \<and> vk_is_srgb env (vk_format g)
        then Some (sc_plain MT_ErrorParameter serial c)
        else do {
          _ \<leftarrow> read_view_formats g;
          if image_extent_error env g then Some (sc_plain MT_ErrorParameter serial c)
          else Some (create_images env serial [0..<unat (num_images g)] c) })"

section \<open>Retirement\<close>

definition send_acquire_retire :: "vk_env \<Rightarrow> nat \<Rightarrow> swapchain \<Rightarrow> bool \<times> swapchain" where
  "send_acquire_retire env i c =
     (let sem = img_sem (sc_images c ! i);
          (fd, typ) = (if sem then vk_export env else (-1, 0));
          c = c\<lparr>sc_images := (sc_images c)[i := (sc_images c ! i)\<lparr>img_sem := False\<rparr>]\<rparr>;
          (ok, c) = sc_reply (AcquireImageMessage 0
             \<lparr>aq_group_serial = sc_group_serial c, aq_index = word_of_nat i, aq_semaphore_type = typ\<rparr> fd) c
      in if \<not> ok then (False, c)
         else sc_reply (RetireImageMessage 0
             \<lparr>rt_group_serial = sc_group_serial c, rt_index = word_of_nat i, rt_padding = 0\<rparr>) c)"

fun retire_images :: "vk_env \<Rightarrow> u64 \<Rightarrow> nat list \<Rightarrow> swapchain \<Rightarrow> bool \<times> swapchain" where
  "retire_images env pid [] c = (True, c)"
| "retire_images env pid (i # is) c =
     (if img_state (sc_images c ! i) = PresentReady \<and> present_id (sc_images c ! i) < pid
      then let (ok, c) = send_acquire_retire env i
                 (c\<lparr>sc_images := (sc_images c)[i := (sc_images c ! i)\<lparr>img_state := ClientOwned\<rparr>]\<rparr>)
           in if ok then retire_images env pid is c else (False, c)
      else retire_images env pid is c)"

definition retire_obsolete_images_before :: "vk_env \<Rightarrow> u64 \<Rightarrow> swapchain \<Rightarrow> bool \<times> swapchain" where
  "retire_obsolete_images_before env pid c = retire_images env pid [0..<length (sc_images c)] c"

text \<open>The ready image with the largest id among those that are due; \<open>None\<close> is the index -1.\<close>

fun target_scan :: "swapchain_image list \<Rightarrow> u64 \<Rightarrow> nat list \<Rightarrow> nat option \<Rightarrow> nat option" where
  "target_scan imgs ts [] best = best"
| "target_scan imgs ts (i # is) best =
     (if img_state (imgs ! i) \<noteq> PresentReady then target_scan imgs ts is best
      else if target_timestamp (imgs ! i) > ts then target_scan imgs ts is best
      else if (case best of None \<Rightarrow> True | Some b \<Rightarrow> present_id (imgs ! i) > present_id (imgs ! b))
      then target_scan imgs ts is (Some i) else target_scan imgs ts is best)"

definition get_target_image_index_for_timestamp :: "u64 \<Rightarrow> swapchain \<Rightarrow> nat option" where
  "get_target_image_index_for_timestamp ts c = target_scan (sc_images c) ts [0..<length (sc_images c)] None"

definition retire_obsolete_images :: "vk_env \<Rightarrow> swapchain \<Rightarrow> bool \<times> swapchain" where
  "retire_obsolete_images env c =
     (case get_target_image_index_for_timestamp (sc_timestamp_completed c + 1) c of
        None \<Rightarrow> (True, c)
      | Some i \<Rightarrow> retire_obsolete_images_before env (present_id (sc_images c ! i)) c)"

section \<open>Completion of GPU work\<close>

text \<open>
  \<open>handle_async\<close>: \<open>None\<close> is a failed assertion.  The semaphore of the image is set when the frame was encoded
  on the device of the client.
\<close>

definition handle_async_buf ::
    "vk_env \<Rightarrow> gpu_task \<Rightarrow> bool \<Rightarrow> swapchain \<Rightarrow> encode_server \<Rightarrow> (bool \<times> swapchain \<times> encode_server) outcome" where
  "handle_async_buf env t gpu_done c s =
     (if gt_serial t \<noteq> sc_group_serial c then Some (True, c, s)
      else do {
        let i = gt_index t;
        guard (i < length (sc_images c));
        let img = sc_images c ! i;
        let was_queued = (img_state img = PresentQueued);
        guard (was_queued \<or> img_state img = PresentPendingReady);
        let img = img\<lparr>img_state := (if gpu_done then PresentReady else PresentPendingReady)\<rparr>;
        let c = c\<lparr>sc_images := (sc_images c)[i := img]\<rparr>;
        let (c, s) =
          (if was_queued
           then let (enc, s) = notify_async_surface i (gt_pts t) (length (sc_images c), target_period img) (vk_now env) s;
                    img = img\<lparr>img_sem := img_sem img \<or> enc \<and> \<not> vk_cross env\<rparr>
                in (c\<lparr>sc_mappings := sc_mappings c @ [\<lparr>cm_timestamp = target_timestamp img, cm_complete_id = present_id img\<rparr>],
                      sc_images := (sc_images c)[i := img]\<rparr>, s)
           else (c, s));
        let (ok, c) = (if es_immediate s then retire_obsolete_images_before env (-1) c else retire_obsolete_images env c);
        Some (ok, c, s) })"

text \<open>
  The pipe connection: the next record of a task, or, when the pipe has no record of a task, a short read or
  the sentinel that \<open>release_id\<close> writes.
\<close>

definition handle_async ::
    "vk_env \<Rightarrow> swapchain \<Rightarrow> encode_server \<Rightarrow> (bool \<times> swapchain \<times> encode_server) outcome" where
  "handle_async env c s =
     (case sc_pipe c of
        [] \<Rightarrow> Some (False, c, s)
      | t # ts \<Rightarrow> handle_async_buf env t True (c\<lparr>sc_pipe := ts\<rparr>) s)"

text \<open>A task ends: it writes its record and drops its reference.\<close>

definition finish_task :: "nat \<Rightarrow> swapchain \<Rightarrow> swapchain" where
  "finish_task k c = c\<lparr>sc_tasks := take k (sc_tasks c) @ drop (Suc k) (sc_tasks c),
     sc_pipe := sc_pipe c @ [sc_tasks c ! k], sc_refs := sc_refs c - 1\<rparr>"

text \<open>
  The connection \<open>ident\<close> is gone.  Connection 0 takes the swapchain off the list of handlers, which drops
  the reference of the list.  The object is destroyed when no reference is left.
\<close>

definition sc_release_id :: "u32 \<Rightarrow> swapchain \<Rightarrow> swapchain" where
  "sc_release_id ident c = c\<lparr>sc_refs := sc_refs c - (if ident = 0 then 2 else 1)\<rparr>"

section \<open>Presentation\<close>

definition compute_next_target_timestamp :: "swapchain \<Rightarrow> u64" where
  "compute_next_target_timestamp c =
     (let ts = sc_timestamp_completed c + 1 in
      if ts < sc_earliest_next_timestamp c then sc_earliest_next_timestamp c else ts)"

text \<open>The task that waits for the GPU is created; its reference was taken before.\<close>

definition spawn_task :: "vk_env \<Rightarrow> gpu_task \<Rightarrow> swapchain \<Rightarrow> encode_server \<Rightarrow> bool \<times> swapchain \<times> encode_server" where
  "spawn_task env task c s =
     (let (ok, c) = retire_obsolete_images env (c\<lparr>sc_tasks := sc_tasks c @ [task]\<rparr>) in (ok, c, s))"

text \<open>The part of \<open>handle_present\<close> after all checks: \<open>i\<close> is the image, \<open>pts\<close> the time of the presentation.\<close>

definition queue_present ::
    "vk_env \<Rightarrow> u64 \<Rightarrow> present_image \<Rightarrow> nat \<Rightarrow> u64 \<Rightarrow> swapchain \<Rightarrow> encode_server \<Rightarrow> (bool \<times> swapchain \<times> encode_server) outcome" where
  "queue_present env serial p i pts c s =
     (let task = \<lparr>gt_serial = sc_group_serial c, gt_index = i, gt_pts = pts\<rparr>;
          img = (sc_images c ! i)\<lparr>target_period := ucast (pr_period p),
                  target_timestamp := compute_next_target_timestamp c, present_id := pr_id p,
                  img_state := PresentQueued\<rparr>;
          wait_early = (img_cross img \<or> \<not> es_immediate s);
          (ok, c) = sc_plain MT_OK serial (c\<lparr>sc_images := (sc_images c)[i := img],
                sc_earliest_next_timestamp := target_timestamp img + ucast (target_period img),
                sc_refs := sc_refs c + 1\<rparr>)
      in if \<not> ok then Some (False, c, s)
         else do {
           (ok, c, s) \<leftarrow> (if wait_early then Some (True, c, s) else handle_async_buf env task False c s);
           Some (if ok then spawn_task env task c s else (False, c, s)) })"

definition handle_present ::
    "vk_env \<Rightarrow> u64 \<Rightarrow> present_image \<Rightarrow> swapchain \<Rightarrow> encode_server \<Rightarrow> (bool \<times> swapchain \<times> encode_server) outcome" where
  "handle_present env serial p c s =
     (let reply = (\<lambda>t c. let (ok, c) = sc_plain t serial c in Some (ok, c, s));
          i = unat (pr_index p)
      in if pr_group_serial p \<noteq> sc_group_serial c then reply MT_ErrorParameter c
         else if i \<ge> length (sc_images c) then reply MT_ErrorProtocol c
         else if pr_id p \<le> sc_last_present_id c then reply MT_ErrorParameter c
         else
           let c = c\<lparr>sc_last_present_id := pr_id p\<rparr> in
           if img_state (sc_images c ! i) \<noteq> ClientOwned then reply MT_ErrorProtocol c
           else if pr_semaphore_type p \<noteq> 0 \<and> \<not> (vk_semaphore env \<and> vk_import env)
           then Some (False, snd (sc_plain MT_Error serial c), s)
           else queue_present env serial p i (if es_encoder s then vk_now env else 0) c s)"

section \<open>Requests\<close>

text \<open>\<open>Swapchain::handle\<close> on a message of the client (\<open>None\<close>: no message could be parsed).\<close>

definition sc_handle ::
    "vk_env \<Rightarrow> ipc_message option \<Rightarrow> swapchain \<Rightarrow> encode_server \<Rightarrow> (bool \<times> swapchain \<times> encode_server) outcome" where
  "sc_handle env msg c s =
     (case msg of
        None \<Rightarrow> Some (False, c, s)
      | Some (ImageGroupMessage serial g fds) \<Rightarrow> do {
          (ok, c) \<leftarrow> handle_swapchain_create env serial g fds c; Some (ok, c, s) }
      | Some (PresentImageMessage serial p fd) \<Rightarrow> handle_present env serial p c s
      | Some m \<Rightarrow> Some (False, snd (sc_plain MT_ErrorProtocol (get_serial m) c), s))"

section \<open>Heartbeat\<close>

definition sc_heartbeat_stalled :: "vk_env \<Rightarrow> swapchain \<Rightarrow> bool \<times> swapchain" where
  "sc_heartbeat_stalled env c = retire_obsolete_images env
     (c\<lparr>sc_timestamp_completed := sc_timestamp_completed c + 1,
        sc_timestamp_stalled_count := sc_timestamp_stalled_count c + 1\<rparr>)"

definition due_complete_id :: "u64 \<Rightarrow> complete_mapping list \<Rightarrow> u64" where
  "due_complete_id now ms =
     fold (\<lambda>m best. if now \<ge> cm_timestamp m \<and> cm_complete_id m > best then cm_complete_id m else best) ms 0"

text \<open>The result has the index to scan out.\<close>

definition sc_heartbeat :: "vk_env \<Rightarrow> u64 \<Rightarrow> swapchain \<Rightarrow> bool \<times> nat option \<times> swapchain" where
  "sc_heartbeat env time_ns c =
     (let c = c\<lparr>sc_timestamp_completed := sc_timestamp_completed c + 1\<rparr> in
      if sc_images c = [] then (True, None, c)
      else
        let scanout = get_target_image_index_for_timestamp (sc_timestamp_completed c) c;
            complete_id = due_complete_id (sc_timestamp_completed c) (sc_mappings c);
            c = c\<lparr>sc_mappings := filter (\<lambda>m. \<not> cm_timestamp m \<le> sc_timestamp_completed c) (sc_mappings c)\<rparr>
        in if complete_id \<noteq> 0
           then let (ok, c) = sc_reply (FrameCompleteMessage 0
                      \<lparr>fc_group_serial = sc_group_serial c, fc_timestamp = sc_timestamp_completed c,
                       fc_period_ns = time_ns, fc_presented_id = complete_id, fc_flags = 0, fc_delayed_count = 0,
                       fc_headroom_ns = 0\<rparr>) c
                in if \<not> ok then (False, scanout, c)
                   else let (ok, c) = retire_obsolete_images_before env complete_id c in (ok, scanout, c)
           else (True, scanout, c))"

section \<open>The handlers of a server\<close>

text \<open>A failed swapchain is cancelled: the index of the swapchain whose connection is to be dropped.\<close>

fun heartbeat_stalled_all :: "vk_env \<Rightarrow> nat \<Rightarrow> swapchain list \<Rightarrow> bool \<times> nat option \<times> swapchain list" where
  "heartbeat_stalled_all env k [] = (True, None, [])"
| "heartbeat_stalled_all env k (c # cs) =
     (let (ok, c) = sc_heartbeat_stalled env c in
      if \<not> ok then (False, Some k, c # cs)
      else let (r, cancel, cs) = heartbeat_stalled_all env (Suc k) cs in (r, cancel, c # cs))"

fun heartbeat_all ::
    "vk_env \<Rightarrow> u64 \<Rightarrow> nat \<Rightarrow> (nat \<times> nat) option \<Rightarrow> swapchain list \<Rightarrow> bool \<times> nat option \<times> (nat \<times> nat) option \<times> swapchain list" where
  "heartbeat_all env time_ns k ready [] = (True, None, ready, [])"
| "heartbeat_all env time_ns k ready (c # cs) =
     (let (ok, idx, c) = sc_heartbeat env time_ns c in
      if \<not> ok then (False, Some k, ready, c # cs)
      else let ready = (case idx of None \<Rightarrow> ready | Some i \<Rightarrow> Some (k, i));
               (r, cancel, ready, cs) = heartbeat_all env time_ns (Suc k) ready cs
           in (r, cancel, ready, c # cs))"

definition srv_heartbeat ::
    "vk_env \<Rightarrow> u64 \<Rightarrow> swapchain list \<Rightarrow> encode_server \<Rightarrow> bool \<times> nat option \<times> swapchain list \<times> encode_server" where
  "srv_heartbeat env period_ns cs s =
     (if \<not> es_immediate s \<and> slot_busy s
      then let (r, cancel, cs) = heartbeat_stalled_all env 0 cs in (r, cancel, cs, s)
      else
        let s = (if es_immediate s then s else s\<lparr>es_tasks := (es_tasks s)[es_slot s := None]\<rparr>);
            (ok, cancel, ready, cs) = heartbeat_all env period_ns 0 None cs
        in if \<not> ok then (False, cancel, cs, s)
           else if \<not> es_pipewire s \<and> (\<not> es_immediate s \<or> cs = [])
           then (case ready of
               None \<Rightarrow> (True, None, cs, snd (encode_surface SurfDummy 0 None period_ns (vk_now env) s))
             | Some (k, i) \<Rightarrow>
                 let c = cs ! k; img = sc_images c ! i;
                     (enc, s) = encode_surface (SurfChain i) 0 (Some (length (sc_images c), target_period img))
                                  period_ns (vk_now env) s;
                     img = img\<lparr>img_sem := img_sem img \<or> enc \<and> \<not> vk_cross env\<rparr>
                 in (True, None, cs[k := c\<lparr>sc_images := (sc_images c)[i := img]\<rparr>], s))
           else (True, None, cs, s))"

section \<open>Steps\<close>

datatype sc_event =
    ScMessage vk_env ipc_message
  | ScTaskDone nat
  | ScPipe vk_env
  | ScHeartbeat vk_env u64
  | ScStalled vk_env

fun sc_step :: "sc_event \<Rightarrow> swapchain \<Rightarrow> encode_server \<Rightarrow> (bool \<times> swapchain \<times> encode_server) outcome" where
  "sc_step (ScMessage env m) c s = sc_handle env (Some m) c s"
| "sc_step (ScTaskDone k) c s = Some (True, finish_task k c, s)"
| "sc_step (ScPipe env) c s = handle_async env c s"
| "sc_step (ScHeartbeat env t) c s = (let (ok, i, c) = sc_heartbeat env t c in Some (ok, c, s))"
| "sc_step (ScStalled env) c s = (let (ok, c) = sc_heartbeat_stalled env c in Some (ok, c, s))"

text \<open>A run that ends when a step reports failure.\<close>

fun sc_run :: "sc_event list \<Rightarrow> swapchain \<Rightarrow> encode_server \<Rightarrow> (bool \<times> swapchain \<times> encode_server) outcome" where
  "sc_run [] c s = Some (True, c, s)"
| "sc_run (e # es) c s = do {
     (ok, c, s) \<leftarrow> sc_step e c s;
     if ok then sc_run es c s else Some (False, c, s) }"

section \<open>What the pieces leave alone\<close>

text \<open>
  \<open>only_retires\<close>: nothing changes but images that were ready and go back to the client, and events that are
  sent.
\<close>

definition is_sc_event :: "ipc_message \<Rightarrow> bool" where
  "is_sc_event m \<longleftrightarrow> get_serial m = 0 \<and> is_event m \<and> message_ok m"

definition image_retired :: "swapchain_image \<Rightarrow> swapchain_image \<Rightarrow> bool" where
  "image_retired a b \<longleftrightarrow> img_state b = img_state a \<or> img_state a = PresentReady \<and> img_state b = ClientOwned"

definition only_retires :: "swapchain \<Rightarrow> swapchain \<Rightarrow> bool" where
  "only_retires c c' \<longleftrightarrow>
     length (sc_images c') = length (sc_images c)
     \<and> (\<forall>j < length (sc_images c). image_retired (sc_images c ! j) (sc_images c' ! j))
     \<and> sc_tasks c' = sc_tasks c \<and> sc_pipe c' = sc_pipe c \<and> sc_group_serial c' = sc_group_serial c
     \<and> sc_refs c' = sc_refs c \<and> sc_last_present_id c' = sc_last_present_id c
     \<and> (\<exists>es. sc_out c' = sc_out c @ es \<and> (\<forall>e \<in> set es. is_sc_event e))"

lemma image_retired_refl [simp]: "image_retired a a"
  by (simp add: image_retired_def)

lemma only_retires_refl [simp]: "only_retires c c"
  by (simp add: only_retires_def)

lemma only_retires_trans: "only_retires a b \<Longrightarrow> only_retires b c \<Longrightarrow> only_retires a c"
  unfolding only_retires_def image_retired_def by (elim conjE exE) (auto, metis+)

lemma sc_events:
  "is_sc_event (AcquireImageMessage 0 a fd)" "is_sc_event (RetireImageMessage 0 r)" "is_sc_event (FrameCompleteMessage 0 f)"
  using event_flag_iff[of MT_AcquireImage] event_flag_iff[of MT_RetireImage] event_flag_iff[of MT_FrameComplete]
  by (simp_all add: is_sc_event_def is_event_def)

lemma sc_reply_frame:
  assumes "sc_reply m c = (ok, c')"
  shows "\<exists>script. c' = c\<lparr>sc_send := script, sc_out := sc_out c @ (if ok then [m] else [])\<rparr>"
  using assms by (cases c) (auto simp: sc_reply_def split: list.splits)

lemma sc_reply_event:
  assumes "sc_reply m c = (ok, c')" "is_sc_event m"
  shows "only_retires c c'"
  using sc_reply_frame[OF assms(1)] assms(2) by (auto simp: only_retires_def)

lemma send_acquire_retire_frame:
  assumes "send_acquire_retire env i c = (ok, c')" "i < length (sc_images c)"
  shows "only_retires c c'"
proof -
  define c1 where "c1 = c\<lparr>sc_images := (sc_images c)[i := (sc_images c ! i)\<lparr>img_sem := False\<rparr>]\<rparr>"
  have r1: "only_retires c c1"
    using assms(2) by (auto simp: only_retires_def c1_def nth_list_update image_retired_def)
  obtain fd ty where ft: "(if img_sem (sc_images c ! i) then vk_export env else (-1, 0)) = (fd, ty)"
    by (metis prod.exhaust)
  obtain ok2 c2 where s2: "sc_reply (AcquireImageMessage 0
      \<lparr>aq_group_serial = sc_group_serial c, aq_index = word_of_nat i, aq_semaphore_type = ty\<rparr> fd) c1 = (ok2, c2)"
    by (metis prod.exhaust)
  have r2: "only_retires c c2" using r1 sc_reply_event[OF s2 sc_events(1)] by (rule only_retires_trans)
  have g2: "sc_group_serial c2 = sc_group_serial c" using r2 by (simp add: only_retires_def)
  have eq: "send_acquire_retire env i c = (if \<not> ok2 then (False, c2) else sc_reply (RetireImageMessage 0
      \<lparr>rt_group_serial = sc_group_serial c, rt_index = word_of_nat i, rt_padding = 0\<rparr>) c2)"
    using s2 g2 by (simp add: send_acquire_retire_def ft c1_def)
  show ?thesis
  proof (cases ok2)
    case False
    with eq assms(1) r2 show ?thesis by simp
  next
    case True
    with eq assms(1) have "sc_reply (RetireImageMessage 0
      \<lparr>rt_group_serial = sc_group_serial c, rt_index = word_of_nat i, rt_padding = 0\<rparr>) c2 = (ok, c')" by simp
    from sc_reply_event[OF this sc_events(2)] show ?thesis by (rule only_retires_trans[OF r2])
  qed
qed

lemma retire_images_frame:
  "retire_images env pid is c = (ok, c') \<Longrightarrow> \<forall>i \<in> set is. i < length (sc_images c) \<Longrightarrow> only_retires c c'"
proof (induction "is" arbitrary: c)
  case Nil
  then show ?case by simp
next
  case (Cons i "is")
  let ?img = "sc_images c ! i"
  show ?case
  proof (cases "img_state ?img = PresentReady \<and> present_id ?img < pid")
    case False
    then have e: "retire_images env pid (i # is) c = retire_images env pid is c" by auto
    show ?thesis by (rule Cons.IH) (use Cons.prems e in auto)
  next
    case True
    define c1 where "c1 = c\<lparr>sc_images := (sc_images c)[i := ?img\<lparr>img_state := ClientOwned\<rparr>]\<rparr>"
    have i: "i < length (sc_images c)" using Cons.prems(2) by simp
    have r1: "only_retires c c1"
      using True i by (auto simp: only_retires_def c1_def nth_list_update image_retired_def)
    obtain ok2 c2 where s2: "send_acquire_retire env i c1 = (ok2, c2)" by (metis prod.exhaust)
    have "i < length (sc_images c1)" using i by (simp add: c1_def)
    then have r2: "only_retires c c2"
      using only_retires_trans[OF r1 send_acquire_retire_frame[OF s2]] by blast
    have e: "retire_images env pid (i # is) c = (if ok2 then retire_images env pid is c2 else (False, c2))"
      using True s2 by (simp add: c1_def)
    show ?thesis
    proof (cases ok2)
      case False
      with e Cons.prems(1) r2 show ?thesis by simp
    next
      case True
      have "only_retires c2 c'"
        by (rule Cons.IH) (use Cons.prems e True r2 in \<open>auto simp: only_retires_def\<close>)
      then show ?thesis by (rule only_retires_trans[OF r2])
    qed
  qed
qed

lemma retire_before_frame: "retire_obsolete_images_before env pid c = (ok, c') \<Longrightarrow> only_retires c c'"
  by (auto simp: retire_obsolete_images_before_def intro: retire_images_frame)

lemma retire_frame: "retire_obsolete_images env c = (ok, c') \<Longrightarrow> only_retires c c'"
  by (auto simp: retire_obsolete_images_def split: option.splits intro: retire_before_frame)

section \<open>Tasks and the states of images\<close>

definition gpu_pending :: "swapchain \<Rightarrow> nat \<Rightarrow> bool" where
  "gpu_pending c i \<longleftrightarrow> i < length (sc_images c) \<and> img_state (sc_images c ! i) \<in> {PresentQueued, PresentPendingReady}"

text \<open>
  Every task that runs, or whose record is in the pipe, belongs to an image that waits for it, and no two
  belong to the same image.
\<close>

definition sc_inv :: "swapchain \<Rightarrow> bool" where
  "sc_inv c \<longleftrightarrow> distinct (map gt_index (sc_tasks c @ sc_pipe c))
     \<and> (\<forall>t \<in> set (sc_tasks c @ sc_pipe c). gpu_pending c (gt_index t))"

lemma sc_inv_pending: "sc_inv c \<Longrightarrow> t \<in> set (sc_tasks c @ sc_pipe c) \<Longrightarrow> gpu_pending c (gt_index t)"
  by (simp add: sc_inv_def)

text \<open>What every piece keeps, but for the images.\<close>

definition sc_frame :: "swapchain \<Rightarrow> swapchain \<Rightarrow> bool" where
  "sc_frame c c' \<longleftrightarrow> length (sc_images c') = length (sc_images c)
     \<and> sc_tasks c' = sc_tasks c \<and> sc_pipe c' = sc_pipe c \<and> sc_group_serial c' = sc_group_serial c
     \<and> sc_refs c' = sc_refs c \<and> sc_last_present_id c' = sc_last_present_id c
     \<and> (\<exists>es. sc_out c' = sc_out c @ es \<and> (\<forall>e \<in> set es. is_sc_event e))"

lemma sc_frame_trans: "sc_frame a b \<Longrightarrow> sc_frame b c \<Longrightarrow> sc_frame a c"
  unfolding sc_frame_def by (elim conjE exE) auto

lemma only_retires_frame: "only_retires c c' \<Longrightarrow> sc_frame c c'"
  by (simp add: only_retires_def sc_frame_def)

lemma only_retires_pending:
  "only_retires c c' \<Longrightarrow> gpu_pending c i \<Longrightarrow> gpu_pending c' i"
  by (auto simp: only_retires_def gpu_pending_def image_retired_def)

lemma sc_inv_mono:
  "sc_inv c \<Longrightarrow> sc_frame c c' \<Longrightarrow> (\<And>t. t \<in> set (sc_tasks c @ sc_pipe c) \<Longrightarrow> gpu_pending c' (gt_index t)) \<Longrightarrow> sc_inv c'"
  by (simp add: sc_inv_def sc_frame_def)

lemma only_retires_inv: "only_retires c c' \<Longrightarrow> sc_inv c \<Longrightarrow> sc_inv c'"
  by (rule sc_inv_mono) (auto simp: sc_inv_def intro: only_retires_frame only_retires_pending)

text \<open>Writing one image that no task waits for.\<close>

definition async_ok :: "gpu_task \<Rightarrow> swapchain \<Rightarrow> bool" where
  "async_ok t c \<longleftrightarrow> gt_index t \<notin> gt_index ` set (sc_tasks c @ sc_pipe c)
     \<and> (gt_serial t = sc_group_serial c \<longrightarrow> gpu_pending c (gt_index t))"

text \<open>A record of the current group: one image changes its state, then images are retired.\<close>

lemma handle_async_buf_shape:
  assumes "gt_serial t = sc_group_serial c" "gpu_pending c (gt_index t)"
  obtains img ms s1 where "img_state img = (if gpu_done then PresentReady else PresentPendingReady)"
    "handle_async_buf env t gpu_done c s =
       (let c1 = c\<lparr>sc_mappings := ms, sc_images := (sc_images c)[gt_index t := img]\<rparr>;
            (ok, c2) = (if es_immediate s1 then retire_obsolete_images_before env (-1) c1 else retire_obsolete_images env c1)
        in Some (ok, c2, s1))"
proof -
  let ?i = "gt_index t"
  define img where "img = (sc_images c ! ?i)\<lparr>img_state := (if gpu_done then PresentReady else PresentPendingReady)\<rparr>"
  define q where "q \<longleftrightarrow> img_state (sc_images c ! ?i) = PresentQueued"
  obtain enc s1 where n: "notify_async_surface ?i (gt_pts t) (length (sc_images c), target_period img) (vk_now env) s = (enc, s1)"
    by (metis prod.exhaust)
  define img1 where "img1 = (if q then img\<lparr>img_sem := img_sem img \<or> enc \<and> \<not> vk_cross env\<rparr> else img)"
  define ms where "ms = (if q then sc_mappings c @ [\<lparr>cm_timestamp = target_timestamp img, cm_complete_id = present_id img\<rparr>]
      else sc_mappings c)"
  define s2 where "s2 = (if q then s1 else s)"
  define c1 where "c1 = c\<lparr>sc_mappings := ms, sc_images := (sc_images c)[?i := img1]\<rparr>"
  obtain ok c2 where r: "(if es_immediate s2 then retire_obsolete_images_before env (-1) c1 else retire_obsolete_images env c1) = (ok, c2)"
    by (metis prod.exhaust)
  have "handle_async_buf env t gpu_done c s = Some (ok, c2, s2)"
    using assms n r unfolding gpu_pending_def
    by (auto simp: handle_async_buf_def img_def[symmetric] q_def img1_def ms_def c1_def s2_def Let_def)
  then have "handle_async_buf env t gpu_done c s =
      (let (ok, c2) = (if es_immediate s2 then retire_obsolete_images_before env (-1) c1 else retire_obsolete_images env c1)
       in Some (ok, c2, s2))"
    unfolding r by simp
  moreover have "img_state img1 = (if gpu_done then PresentReady else PresentPendingReady)"
    by (simp add: img1_def img_def)
  ultimately show thesis using that[of img1 ms s2] unfolding c1_def Let_def by blast
qed

lemma handle_async_buf_ok:
  assumes inv: "sc_inv c" and t: "async_ok t c"
  shows "\<exists>ok c' s'. handle_async_buf env t gpu_done c s = Some (ok, c', s') \<and> sc_inv c' \<and> sc_frame c c'
    \<and> (\<forall>j. gpu_pending c j \<longrightarrow> (j \<noteq> gt_index t \<or> \<not> gpu_done) \<longrightarrow> gpu_pending c' j)"
proof (cases "gt_serial t = sc_group_serial c")
  case False
  with inv show ?thesis by (auto simp: handle_async_buf_def sc_frame_def)
next
  case True
  let ?i = "gt_index t"
  have pend: "gpu_pending c ?i" using t True by (simp add: async_ok_def)
  then have i: "?i < length (sc_images c)" by (simp add: gpu_pending_def)
  obtain img ms s2 where sh: "img_state img = (if gpu_done then PresentReady else PresentPendingReady)"
    "handle_async_buf env t gpu_done c s =
       (let c1 = c\<lparr>sc_mappings := ms, sc_images := (sc_images c)[?i := img]\<rparr>;
            (ok, c2) = (if es_immediate s2 then retire_obsolete_images_before env (-1) c1 else retire_obsolete_images env c1)
        in Some (ok, c2, s2))"
    by (rule handle_async_buf_shape[OF True pend])
  define c1 where "c1 = c\<lparr>sc_mappings := ms, sc_images := (sc_images c)[?i := img]\<rparr>"
  obtain ok c2 where r: "(if es_immediate s2 then retire_obsolete_images_before env (-1) c1 else retire_obsolete_images env c1) = (ok, c2)"
    by (metis prod.exhaust)
  have r2: "only_retires c1 c2" using r by (auto split: if_splits intro: retire_before_frame retire_frame)
  have f1: "sc_frame c c1" by (simp add: sc_frame_def c1_def)
  have eq: "handle_async_buf env t gpu_done c s = Some (ok, c2, s2)"
    unfolding sh(2) Let_def c1_def[symmetric] r by simp
  have p1: "gpu_pending c1 j" if "gpu_pending c j" "j \<noteq> ?i \<or> \<not> gpu_done" for j
    using that i sh(1) by (auto simp: gpu_pending_def c1_def nth_list_update)
  have "gpu_pending c2 j" if "gpu_pending c j" "j \<noteq> ?i \<or> \<not> gpu_done" for j
    by (rule only_retires_pending[OF r2 p1[OF that]])
  moreover have "sc_inv c1"
  proof (rule sc_inv_mono[OF inv f1])
    fix u assume u: "u \<in> set (sc_tasks c @ sc_pipe c)"
    then have "gt_index u \<noteq> ?i" using t unfolding async_ok_def by (metis imageI)
    moreover have "gpu_pending c (gt_index u)" using inv u by (simp add: sc_inv_def)
    ultimately show "gpu_pending c1 (gt_index u)" by (intro p1) auto
  qed
  then have "sc_inv c2" by (rule only_retires_inv[OF r2])
  moreover have "sc_frame c c2" by (rule sc_frame_trans[OF f1 only_retires_frame[OF r2]])
  ultimately show ?thesis using eq by blast
qed

section \<open>Requests\<close>

text \<open>
  The messages that answer a request: at most one reply with its serial, exactly one when the request
  succeeds, and otherwise events.
\<close>

definition answers :: "u64 \<Rightarrow> bool \<Rightarrow> ipc_message list \<Rightarrow> bool" where
  "answers serial ok es \<longleftrightarrow>
     (\<forall>e \<in> set es. is_sc_event e \<or> get_serial e = serial \<and> \<not> is_event e \<and> message_ok e)
     \<and> length (filter (\<lambda>e. \<not> is_sc_event e) es) \<le> 1
     \<and> (ok \<longrightarrow> length (filter (\<lambda>e. \<not> is_sc_event e) es) = 1)"

lemma plain_not_event: "t \<in> {MT_OK, MT_ErrorProtocol, MT_Error, MT_ErrorParameter} \<Longrightarrow> \<not> is_event (PlainMessage t s)"
  using event_flag_iff[of t] by (auto simp: is_event_def)

lemma sc_plain_answers:
  assumes "sc_plain t serial c = (ok, c')" "t \<in> {MT_OK, MT_ErrorProtocol, MT_Error, MT_ErrorParameter}"
  shows "\<exists>es. sc_out c' = sc_out c @ es \<and> answers serial ok es"
    "\<exists>script. c' = c\<lparr>sc_send := script, sc_out := sc_out c @ (if ok then [PlainMessage t serial] else [])\<rparr>"
proof -
  show e: "\<exists>script. c' = c\<lparr>sc_send := script, sc_out := sc_out c @ (if ok then [PlainMessage t serial] else [])\<rparr>"
    using assms(1) sc_reply_frame by (simp add: sc_plain_def)
  from e show "\<exists>es. sc_out c' = sc_out c @ es \<and> answers serial ok es"
    using plain_not_event[OF assms(2), of serial] assms(2) by (auto simp: answers_def is_sc_event_def)
qed

lemma answers_events:
  assumes "answers serial ok1 es" "\<forall>e \<in> set es'. is_sc_event e" "ok \<longrightarrow> ok1"
  shows "answers serial ok (es @ es')"
proof -
  have "filter (\<lambda>e. \<not> is_sc_event e) es' = []" using assms(2) by (auto simp: filter_empty_conv)
  with assms show ?thesis by (auto simp: answers_def)
qed

text \<open>A step that leaves tasks and the states of their images alone.\<close>

lemma sc_inv_cong:
  assumes "sc_inv c" "sc_tasks c' = sc_tasks c" "sc_pipe c' = sc_pipe c" "sc_images c' = sc_images c @ xtra"
  shows "sc_inv c'"
proof -
  have "gpu_pending c i \<Longrightarrow> gpu_pending c' i" for i using assms(4) by (auto simp: gpu_pending_def nth_append)
  with assms(1-3) show ?thesis by (simp add: sc_inv_def)
qed

definition event_possible :: "ipc_message \<Rightarrow> bool" where
  "event_possible m \<longleftrightarrow> (case m of ImageGroupMessage serial g fds \<Rightarrow>
     unat (vk_num_view_formats g) \<le> length (vk_view_formats g) | _ \<Rightarrow> True)"

lemma read_view_formats_ok:
  "unat (vk_num_view_formats g) \<le> length (vk_view_formats g) \<Longrightarrow> read_view_formats g = Some ()"
proof -
  assume "unat (vk_num_view_formats g) \<le> length (vk_view_formats g)"
  then have "\<forall>i \<in> set [0..<unat (vk_num_view_formats g)]. i < length (vk_view_formats g)" by auto
  then have "for_list (\<lambda>i _. do { _ \<leftarrow> load (vk_view_formats g) i; Some () }) is () = Some ()"
    if "set is \<subseteq> set [0..<unat (vk_num_view_formats g)]" for "is" :: "nat list"
    using that by (induction "is") auto
  then show ?thesis by (simp add: read_view_formats_def)
qed

lemma handle_swapchain_create_ok:
  assumes inv: "sc_inv c" and n: "unat (vk_num_view_formats g) \<le> length (vk_view_formats g)"
  shows "\<exists>ok c'. handle_swapchain_create env serial g fds c = Some (ok, c') \<and> sc_inv c'
    \<and> (\<exists>es. sc_out c' = sc_out c @ es \<and> answers serial ok es)"
proof -
  define c1 where "c1 = c\<lparr>sc_group_serial := serial\<rparr>"
  define c2 where "c2 = c1\<lparr>sc_color_space := vk_color_space g\<rparr>"
  define dn where "dn = takeWhile (vk_create env) [0..<unat (num_images g)]"
  define c3 where "c3 = c2\<lparr>sc_images := sc_images c2 @ replicate (length dn) (image_new (vk_cross env))\<rparr>"
  have plain: "\<exists>ok' c'. sc_plain t serial d = (ok', c') \<and> sc_inv c' \<and> (\<exists>es. sc_out c' = sc_out c @ es \<and> answers serial ok' es)"
    if "sc_out d = sc_out c" "sc_tasks d = sc_tasks c" "sc_pipe d = sc_pipe c" "sc_images d = sc_images c @ xtra"
      "t \<in> {MT_OK, MT_Error, MT_ErrorParameter}" for d xtra t
  proof -
    obtain ok' c' where p: "sc_plain t serial d = (ok', c')" by (metis prod.exhaust)
    have nt: "t \<in> {MT_OK, MT_ErrorProtocol, MT_Error, MT_ErrorParameter}" using that(5) by auto
    from sc_plain_answers[OF p nt] that have "\<exists>es. sc_out c' = sc_out c @ es \<and> answers serial ok' es" by simp
    moreover have "sc_inv c'" using sc_plain_answers(2)[OF p nt] that
      by (intro sc_inv_cong[OF inv, of c' xtra]) auto
    ultimately show ?thesis using p by blast
  qed
  have weak: "answers serial ok' es \<Longrightarrow> answers serial False es" for ok' es by (simp add: answers_def)
  obtain ok1 d1 where p1: "sc_plain MT_ErrorParameter serial c1 = (ok1, d1)" "sc_inv d1"
    "\<exists>es. sc_out d1 = sc_out c @ es \<and> answers serial ok1 es"
    using plain[of c1 "[]" MT_ErrorParameter] by (auto simp: c1_def)
  obtain ok2 d2 where p2: "sc_plain MT_ErrorParameter serial c2 = (ok2, d2)" "sc_inv d2"
    "\<exists>es. sc_out d2 = sc_out c @ es \<and> answers serial ok2 es"
    using plain[of c2 "[]" MT_ErrorParameter] by (auto simp: c1_def c2_def)
  obtain ok3 d3 where p3: "sc_plain MT_Error serial c3 = (ok3, d3)" "sc_inv d3"
    "\<exists>es. sc_out d3 = sc_out c @ es \<and> answers serial ok3 es"
    using plain[of c3 "replicate (length dn) (image_new (vk_cross env))" MT_Error]
    by (auto simp: c1_def c2_def c3_def)
  obtain ok4 d4 where p4: "sc_plain MT_OK serial c3 = (ok4, d4)" "sc_inv d4"
    "\<exists>es. sc_out d4 = sc_out c @ es \<and> answers serial ok4 es"
    using plain[of c3 "replicate (length dn) (image_new (vk_cross env))" MT_OK]
    by (auto simp: c1_def c2_def c3_def)
  have ci: "create_images env serial [0..<unat (num_images g)] c2
      = (if length dn < unat (num_images g) then (False, d3) else (ok4, d4))"
    using p3(1) p4(1) by (simp add: create_images_def c3_def dn_def Let_def)
  have "handle_swapchain_create env serial g fds c \<in>
      {Some (ok1, d1), Some (ok2, d2), Some (False, d3), Some (ok4, d4)}"
    using p1(1) p2(1) read_view_formats_ok[OF n] ci
    by (simp add: handle_swapchain_create_def c1_def[symmetric] c2_def[symmetric] Let_def)
  then show ?thesis using p1(2,3) p2(2,3) p3(2,3) p4(2,3) weak by (elim insertE) blast+
qed

text \<open>Queueing a presentation of an image that the client owns.\<close>

lemma queue_present_ok:
  assumes inv: "sc_inv c" and i: "i < length (sc_images c)" "img_state (sc_images c ! i) = ClientOwned"
  shows "\<exists>ok c' s'. queue_present env serial p i pts c s = Some (ok, c', s') \<and> sc_inv c'
    \<and> (\<exists>es. sc_out c' = sc_out c @ es \<and> answers serial ok es)"
proof -
  define img where "img = (sc_images c ! i)\<lparr>target_period := ucast (pr_period p),
    target_timestamp := compute_next_target_timestamp c, present_id := pr_id p, img_state := PresentQueued\<rparr>"
  define c1 where "c1 = c\<lparr>sc_images := (sc_images c)[i := img],
    sc_earliest_next_timestamp := target_timestamp img + ucast (target_period img), sc_refs := sc_refs c + 1\<rparr>"
  define wait_early where "wait_early \<longleftrightarrow> img_cross img \<or> \<not> es_immediate s"
  define task where "task = \<lparr>gt_serial = sc_group_serial c, gt_index = i, gt_pts = pts\<rparr>"
  have fresh: "i \<notin> gt_index ` set (sc_tasks c @ sc_pipe c)"
    using sc_inv_pending[OF inv] i(2) unfolding gpu_pending_def by force
  have pend1: "gpu_pending c j \<Longrightarrow> gpu_pending c1 j" "gpu_pending c1 i" for j
    using i(1) by (auto simp: gpu_pending_def c1_def img_def nth_list_update)
  have inv1: "sc_inv c1" using inv pend1(1) by (simp add: sc_inv_def c1_def)
  obtain ok2 c2 where p2: "sc_plain MT_OK serial c1 = (ok2, c2)" by (metis prod.exhaust)
  obtain script where c2: "c2 = c1\<lparr>sc_send := script, sc_out := sc_out c1 @ (if ok2 then [PlainMessage MT_OK serial] else [])\<rparr>"
    using sc_plain_answers(2)[OF p2] by auto
  have inv2: "sc_inv c2" using inv1 by (simp add: c2 sc_inv_def gpu_pending_def)
  obtain es2 where es2: "sc_out c2 = sc_out c @ es2" "answers serial ok2 es2"
    using sc_plain_answers(1)[OF p2] by (auto simp: c1_def)
  have weak: "answers serial ok' es \<Longrightarrow> answers serial False es" for ok' es by (simp add: answers_def)
  define async where "async = (if wait_early then Some (True, c2, s) else handle_async_buf env task False c2 s)"
  have eq: "queue_present env serial p i pts c s = (if \<not> ok2 then Some (False, c2, s)
      else do { (ok, c, s) \<leftarrow> async; Some (if ok then spawn_task env task c s else (False, c, s)) })"
    using p2 unfolding queue_present_def img_def[symmetric] task_def[symmetric] c1_def async_def wait_early_def
    by (simp add: Let_def)
  have "gpu_pending c2 i" using pend1(2) by (simp add: c2 gpu_pending_def)
  then have "async_ok task c2" using fresh by (simp add: async_ok_def task_def c2 c1_def)
  from handle_async_buf_ok[OF inv2 this, of env False s] obtain ok3 c3 s3 where
    h3: "handle_async_buf env task False c2 s = Some (ok3, c3, s3)" "sc_inv c3" "sc_frame c2 c3"
      "\<forall>j. gpu_pending c2 j \<longrightarrow> gpu_pending c3 j" by auto
  obtain ok4 c4 s4 where h4: "async = Some (ok4, c4, s4)" "sc_inv c4" "sc_frame c2 c4" "gpu_pending c4 i"
  proof (cases wait_early)
    case True
    with inv2 pend1(2) that[of True c2 s] show thesis
      by (auto simp: async_def sc_frame_def c2 gpu_pending_def)
  next
    case False
    with h3 pend1(2) that[of ok3 c3 s3] show thesis by (auto simp: async_def c2 gpu_pending_def)
  qed
  obtain es4 where es4: "sc_out c4 = sc_out c2 @ es4" "\<forall>e \<in> set es4. is_sc_event e"
    using h4(3) by (auto simp: sc_frame_def)
  define c5 where "c5 = c4\<lparr>sc_tasks := sc_tasks c4 @ [task]\<rparr>"
  have tk: "sc_tasks c4 = sc_tasks c" "sc_pipe c4 = sc_pipe c" using h4(3) by (simp_all add: sc_frame_def c2 c1_def)
  have inv5: "sc_inv c5" using h4(2,4) fresh by (auto simp: sc_inv_def c5_def task_def tk gpu_pending_def)
  obtain ok6 c6 where r6: "retire_obsolete_images env c5 = (ok6, c6)" by (metis prod.exhaust)
  have o6: "only_retires c5 c6" by (rule retire_frame[OF r6])
  then obtain es6 where es6: "sc_out c6 = sc_out c4 @ es6" "\<forall>e \<in> set es6. is_sc_event e"
    by (auto simp: only_retires_def c5_def)
  show ?thesis
  proof (cases "ok2")
    case False
    with eq inv2 es2 show ?thesis by auto
  next
    case True
    then have a4: "answers serial True (es2 @ es4)" using answers_events[OF es2(2) es4(2)] by simp
    show ?thesis
    proof (cases ok4)
      case False
      with True eq h4(1,2) es2(1) es4(1) weak[OF a4] show ?thesis by auto
    next
      case ok4: True
      have "queue_present env serial p i pts c s = Some (ok6, c6, s4)"
        using True ok4 eq h4(1) r6 by (simp add: c5_def spawn_task_def)
      moreover have "answers serial ok6 ((es2 @ es4) @ es6)" by (rule answers_events[OF a4 es6(2)]) simp
      ultimately show ?thesis
        using es2(1) es4(1) es6(1) only_retires_inv[OF o6 inv5] by auto
    qed
  qed
qed

lemma handle_present_ok:
  assumes inv: "sc_inv c"
  shows "\<exists>ok c' s'. handle_present env serial p c s = Some (ok, c', s') \<and> sc_inv c'
    \<and> (\<exists>es. sc_out c' = sc_out c @ es \<and> answers serial ok es)"
proof -
  have plain: "\<exists>ok' c'. sc_plain t serial d = (ok', c') \<and> sc_inv c'
      \<and> (\<exists>es. sc_out c' = sc_out c @ es \<and> answers serial ok' es \<and> answers serial False es)"
    if "d = c \<or> d = c\<lparr>sc_last_present_id := x\<rparr>" "t \<in> {MT_ErrorProtocol, MT_Error, MT_ErrorParameter}" for d t x
  proof -
    obtain ok' c' where p: "sc_plain t serial d = (ok', c')" by (metis prod.exhaust)
    have nt: "t \<in> {MT_OK, MT_ErrorProtocol, MT_Error, MT_ErrorParameter}" using that(2) by auto
    have "sc_inv c'" using sc_plain_answers(2)[OF p nt] that(1) by (intro sc_inv_cong[OF inv, of c' "[]"]) auto
    moreover have "\<exists>es. sc_out c' = sc_out c @ es \<and> answers serial ok' es"
      using sc_plain_answers(1)[OF p nt] that(1) by auto
    ultimately show ?thesis using p by (auto simp: answers_def)
  qed
  define c1 where "c1 = c\<lparr>sc_last_present_id := pr_id p\<rparr>"
  let ?i = "unat (pr_index p)"
  have inv1: "sc_inv c1" using inv by (simp add: c1_def sc_inv_def gpu_pending_def)
  have q: "?i < length (sc_images c) \<Longrightarrow> img_state (sc_images c ! ?i) = ClientOwned \<Longrightarrow>
      \<exists>ok c' s'. queue_present env serial p ?i pts c1 s = Some (ok, c', s') \<and> sc_inv c'
        \<and> (\<exists>es. sc_out c' = sc_out c @ es \<and> answers serial ok es)" for pts
    using queue_present_ok[OF inv1, of ?i env serial p pts s] by (simp add: c1_def)
  consider (serial) "pr_group_serial p \<noteq> sc_group_serial c"
    | (idx) "pr_group_serial p = sc_group_serial c" "?i \<ge> length (sc_images c)"
    | (ident) "pr_group_serial p = sc_group_serial c" "?i < length (sc_images c)" "pr_id p \<le> sc_last_present_id c"
    | (state) "pr_group_serial p = sc_group_serial c" "?i < length (sc_images c)" "\<not> pr_id p \<le> sc_last_present_id c"
        "img_state (sc_images c ! ?i) \<noteq> ClientOwned"
    | (sem) "pr_group_serial p = sc_group_serial c" "?i < length (sc_images c)" "\<not> pr_id p \<le> sc_last_present_id c"
        "img_state (sc_images c ! ?i) = ClientOwned" "pr_semaphore_type p \<noteq> 0 \<and> \<not> (vk_semaphore env \<and> vk_import env)"
    | (queue) "pr_group_serial p = sc_group_serial c" "?i < length (sc_images c)" "\<not> pr_id p \<le> sc_last_present_id c"
        "img_state (sc_images c ! ?i) = ClientOwned" "\<not> (pr_semaphore_type p \<noteq> 0 \<and> \<not> (vk_semaphore env \<and> vk_import env))"
    by linarith
  then show ?thesis
  proof cases
    case serial
    with plain[of c 0 MT_ErrorParameter] show ?thesis by (auto simp: handle_present_def)
  next
    case idx
    with plain[of c 0 MT_ErrorProtocol] show ?thesis by (auto simp: handle_present_def)
  next
    case ident
    with plain[of c 0 MT_ErrorParameter] show ?thesis by (auto simp: handle_present_def)
  next
    case state
    with plain[of c1 "pr_id p" MT_ErrorProtocol] show ?thesis by (auto simp: handle_present_def c1_def)
  next
    case sem
    with plain[of c1 "pr_id p" MT_Error] show ?thesis by (auto simp: handle_present_def c1_def)
  next
    case queue
    then have "handle_present env serial p c s
        = queue_present env serial p ?i (if es_encoder s then vk_now env else 0) c1 s"
      by (auto simp: handle_present_def c1_def Let_def)
    with q[OF queue(2,4)] show ?thesis by simp
  qed
qed

section \<open>Steps and runs\<close>

definition step_possible :: "sc_event \<Rightarrow> swapchain \<Rightarrow> bool" where
  "step_possible e c \<longleftrightarrow> (case e of
     ScMessage env m \<Rightarrow> event_possible m
   | ScTaskDone k \<Rightarrow> k < length (sc_tasks c)
   | _ \<Rightarrow> True)"

fun step_serial :: "sc_event \<Rightarrow> u64 option" where
  "step_serial (ScMessage env m) = Some (get_serial m)"
| "step_serial _ = None"

text \<open>The output of a step: the answer to a request, or events only.\<close>

definition step_output :: "sc_event \<Rightarrow> bool \<Rightarrow> ipc_message list \<Rightarrow> bool" where
  "step_output e ok es \<longleftrightarrow> (case step_serial e of
     None \<Rightarrow> \<forall>x \<in> set es. is_sc_event x | Some serial \<Rightarrow> answers serial ok es)"

lemma finish_task_ok:
  assumes "sc_inv c" "k < length (sc_tasks c)"
  shows "sc_inv (finish_task k c)"
proof -
  have m: "mset (sc_tasks (finish_task k c) @ sc_pipe (finish_task k c)) = mset (sc_tasks c @ sc_pipe c)"
    using arg_cong[OF id_take_nth_drop[OF assms(2)], of mset] by (simp add: finish_task_def)
  then have "mset (map gt_index (sc_tasks (finish_task k c) @ sc_pipe (finish_task k c)))
      = mset (map gt_index (sc_tasks c @ sc_pipe c))" by (metis mset_map)
  then have "distinct (map gt_index (sc_tasks (finish_task k c) @ sc_pipe (finish_task k c)))"
    using assms(1) unfolding sc_inv_def by (metis mset_eq_imp_distinct_iff)
  moreover have "set (sc_tasks (finish_task k c) @ sc_pipe (finish_task k c)) = set (sc_tasks c @ sc_pipe c)"
    by (rule mset_eq_setD[OF m])
  ultimately show ?thesis using assms(1) by (simp add: sc_inv_def gpu_pending_def finish_task_def)
qed

lemma handle_async_ok:
  assumes inv: "sc_inv c"
  shows "\<exists>ok c' s'. handle_async env c s = Some (ok, c', s') \<and> sc_inv c'
    \<and> (\<exists>es. sc_out c' = sc_out c @ es \<and> (\<forall>x \<in> set es. is_sc_event x))"
proof (cases "sc_pipe c")
  case Nil
  with inv show ?thesis by (auto simp: handle_async_def)
next
  case (Cons t ts)
  define c1 where "c1 = c\<lparr>sc_pipe := ts\<rparr>"
  have "sc_inv c1" using inv Cons by (auto simp: sc_inv_def c1_def gpu_pending_def)
  moreover have "async_ok t c1"
    using inv Cons by (auto simp: sc_inv_def async_ok_def c1_def gpu_pending_def)
  ultimately obtain ok c' s' where "handle_async_buf env t True c1 s = Some (ok, c', s')" "sc_inv c'" "sc_frame c1 c'"
    using handle_async_buf_ok by blast
  with Cons show ?thesis by (auto simp: handle_async_def c1_def sc_frame_def)
qed

lemma sc_heartbeat_ok:
  assumes inv: "sc_inv c" and h: "sc_heartbeat env time_ns c = (ok, i, c')"
  shows "sc_inv c' \<and> (\<exists>es. sc_out c' = sc_out c @ es \<and> (\<forall>x \<in> set es. is_sc_event x))"
proof -
  define c1 where "c1 = c\<lparr>sc_timestamp_completed := sc_timestamp_completed c + 1\<rparr>"
  define c2 where "c2 = c1\<lparr>sc_mappings := filter (\<lambda>m. \<not> cm_timestamp m \<le> sc_timestamp_completed c1) (sc_mappings c1)\<rparr>"
  define cid where "cid = due_complete_id (sc_timestamp_completed c1) (sc_mappings c1)"
  have i2: "sc_inv c1" "sc_inv c2" using inv by (simp_all add: c1_def c2_def sc_inv_def gpu_pending_def)
  have o2: "sc_out c1 = sc_out c" "sc_out c2 = sc_out c" by (simp_all add: c1_def c2_def)
  define m where "m = FrameCompleteMessage 0 \<lparr>fc_group_serial = sc_group_serial c2, fc_timestamp = sc_timestamp_completed c2,
    fc_period_ns = time_ns, fc_presented_id = cid, fc_flags = 0, fc_delayed_count = 0, fc_headroom_ns = 0\<rparr>"
  obtain ok3 c3 where r3: "sc_reply m c2 = (ok3, c3)" by (metis prod.exhaust)
  have e3: "only_retires c2 c3" by (rule sc_reply_event[OF r3]) (simp add: m_def sc_events)
  obtain ok4 c4 where r4: "retire_obsolete_images_before env cid c3 = (ok4, c4)" by (metis prod.exhaust)
  have e4: "only_retires c2 c4" by (rule only_retires_trans[OF e3 retire_before_frame[OF r4]])
  have "c' \<in> {c1, c2, c3, c4}"
    using h r3 r4
    by (auto simp: sc_heartbeat_def c1_def[symmetric] c2_def[symmetric] cid_def[symmetric] m_def Let_def split: if_splits)
  moreover have "sc_inv c3" "sc_inv c4" using only_retires_inv e3 e4 i2(2) by blast+
  ultimately show ?thesis using i2 o2 e3 e4 unfolding only_retires_def by (elim insertE) auto
qed

lemma sc_step_ok:
  assumes inv: "sc_inv c" and p: "step_possible e c"
  shows "\<exists>ok c' s'. sc_step e c s = Some (ok, c', s') \<and> sc_inv c' \<and> (\<exists>es. sc_out c' = sc_out c @ es \<and> step_output e ok es)"
proof (cases e)
  case (ScMessage env m)
  show ?thesis
  proof (cases "\<exists>serial g fds. m = ImageGroupMessage serial g fds")
    case True
    then obtain serial g fds where m: "m = ImageGroupMessage serial g fds" by blast
    with p ScMessage have "unat (vk_num_view_formats g) \<le> length (vk_view_formats g)"
      by (simp add: step_possible_def event_possible_def)
    from handle_swapchain_create_ok[OF inv this, of env serial fds] show ?thesis
      by (auto simp: ScMessage m sc_handle_def step_output_def)
  next
    case ng: False
    show ?thesis
    proof (cases "\<exists>serial q fd. m = PresentImageMessage serial q fd")
      case True
      then obtain serial q fd where m: "m = PresentImageMessage serial q fd" by blast
      from handle_present_ok[OF inv, of env serial q s] show ?thesis
        by (auto simp: ScMessage m sc_handle_def step_output_def)
    next
      case False
      obtain ok c' where pl: "sc_plain MT_ErrorProtocol (get_serial m) c = (ok, c')" by (metis prod.exhaust)
      have "sc_handle env (Some m) c s = Some (False, c', s)"
        using ng False pl by (cases m) (auto simp: sc_handle_def)
      moreover have "sc_inv c'" using sc_plain_answers(2)[OF pl] by (intro sc_inv_cong[OF inv, of c' "[]"]) auto
      moreover have "\<exists>es. sc_out c' = sc_out c @ es \<and> answers (get_serial m) False es"
        using sc_plain_answers(1)[OF pl] by (auto simp: answers_def)
      ultimately show ?thesis by (intro exI[of _ False] exI[of _ c'] exI[of _ s]) (simp add: ScMessage step_output_def)
    qed
  qed
next
  case (ScTaskDone k)
  with p finish_task_ok[OF inv, of k] show ?thesis
    by (auto simp: step_possible_def step_output_def finish_task_def)
next
  case (ScPipe env)
  with handle_async_ok[OF inv, of env s] show ?thesis by (auto simp: step_output_def)
next
  case (ScHeartbeat env t)
  obtain ok i c' where h: "sc_heartbeat env t c = (ok, i, c')" by (metis prod_cases3)
  with sc_heartbeat_ok[OF inv h] ScHeartbeat show ?thesis by (auto simp: step_output_def)
next
  case (ScStalled env)
  obtain ok c' where h: "sc_heartbeat_stalled env c = (ok, c')" by (metis prod.exhaust)
  define c1 where "c1 = c\<lparr>sc_timestamp_completed := sc_timestamp_completed c + 1,
    sc_timestamp_stalled_count := sc_timestamp_stalled_count c + 1\<rparr>"
  have r: "only_retires c1 c'" using h by (intro retire_frame[of env c1 ok c']) (simp add: sc_heartbeat_stalled_def c1_def)
  have "sc_inv c1" using inv by (simp add: c1_def sc_inv_def gpu_pending_def)
  then have "sc_inv c'" by (rule only_retires_inv[OF r])
  moreover have "\<exists>es. sc_out c' = sc_out c @ es \<and> (\<forall>x \<in> set es. is_sc_event x)"
    using r by (auto simp: only_retires_def c1_def)
  ultimately show ?thesis using ScStalled h by (auto simp: step_output_def)
qed

text \<open>Requests with consecutive serials, after \<open>n\<close> earlier ones, and steps that can happen.\<close>

fun requests_from :: "nat \<Rightarrow> sc_event list \<Rightarrow> bool" where
  "requests_from n [] \<longleftrightarrow> True"
| "requests_from n (e # es) \<longleftrightarrow> (case step_serial e of
     None \<Rightarrow> requests_from n es
   | Some serial \<Rightarrow> unat serial = Suc n \<and> requests_from (Suc n) es)"

fun run_possible :: "sc_event list \<Rightarrow> swapchain \<Rightarrow> encode_server \<Rightarrow> bool" where
  "run_possible [] c s \<longleftrightarrow> True"
| "run_possible (e # es) c s \<longleftrightarrow> step_possible e c
     \<and> (case sc_step e c s of Some (True, c', s') \<Rightarrow> run_possible es c' s' | _ \<Rightarrow> True)"

lemma valid_stream_events:
  "\<forall>x \<in> set es. is_sc_event x \<Longrightarrow> valid_stream n (es @ rest) = valid_stream n rest"
  by (induction es) (auto simp: is_sc_event_def)

lemma answers_split:
  assumes a: "answers serial ok es"
  shows "\<not> ok \<and> (\<forall>x \<in> set es. is_sc_event x) \<or>
    (\<exists>us x vs. es = us @ x # vs \<and> (\<forall>u \<in> set us. is_sc_event u) \<and> (\<forall>u \<in> set vs. is_sc_event u)
      \<and> get_serial x = serial \<and> \<not> is_event x)"
proof (cases "filter (\<lambda>e. \<not> is_sc_event e) es")
  case Nil
  then have "\<forall>x \<in> set es. is_sc_event x" by (simp add: filter_empty_conv)
  with a Nil show ?thesis by (simp add: answers_def)
next
  case (Cons x xs)
  have "xs = []" using a Cons by (simp add: answers_def)
  obtain us vs where es: "es = us @ x # vs" "\<forall>u \<in> set us. \<not> \<not> is_sc_event u" "\<not> is_sc_event x"
    "xs = filter (\<lambda>e. \<not> is_sc_event e) vs"
    using iffD1[OF filter_eq_Cons_iff Cons] by blast
  have "filter (\<lambda>e. \<not> is_sc_event e) vs = []" using es(4) \<open>xs = []\<close> by simp
  then have "\<forall>u \<in> set vs. is_sc_event u" by (simp add: filter_empty_conv)
  moreover have "get_serial x = serial \<and> \<not> is_event x" using a es(1,3) by (auto simp: answers_def)
  ultimately show ?thesis using es(1,2) by blast
qed

lemma valid_stream_answers:
  assumes "answers serial ok es" "unat serial = Suc n"
  shows "valid_stream n es" "ok \<Longrightarrow> valid_stream (Suc n) rest \<Longrightarrow> valid_stream n (es @ rest)"
proof -
  have s0: "serial \<noteq> 0" using assms(2) by auto
  have mid: "valid_stream (Suc n) rest' \<Longrightarrow> valid_stream n ((us @ x # vs) @ rest')"
    if "\<forall>u \<in> set us. is_sc_event u" "\<forall>u \<in> set vs. is_sc_event u" "get_serial x = serial" "\<not> is_event x"
    for us x vs rest'
    using valid_stream_events[OF that(1), of n] valid_stream_events[OF that(2), of "Suc n" rest'] that(3,4) s0 assms(2)
    by simp
  show "valid_stream n es"
    using answers_split[OF assms(1)]
  proof
    assume "\<not> ok \<and> (\<forall>x \<in> set es. is_sc_event x)"
    then show ?thesis using valid_stream_events[of es n "[]"] by simp
  next
    assume "\<exists>us x vs. es = us @ x # vs \<and> (\<forall>u \<in> set us. is_sc_event u) \<and> (\<forall>u \<in> set vs. is_sc_event u)
      \<and> get_serial x = serial \<and> \<not> is_event x"
    then show ?thesis using mid[where rest' = "[]"] by fastforce
  qed
  show "valid_stream n (es @ rest)" if "ok" "valid_stream (Suc n) rest"
    using answers_split[OF assms(1)] that mid by blast
qed

lemma sc_run_stream:
  assumes "sc_inv c" "requests_from n es" "run_possible es c s"
  shows "\<exists>ok c' s' ms. sc_run es c s = Some (ok, c', s') \<and> sc_inv c' \<and> sc_out c' = sc_out c @ ms
    \<and> valid_stream n ms \<and> (\<forall>m \<in> set ms. message_ok m)"
  using assms
proof (induction es arbitrary: c s n)
  case Nil
  then show ?case by auto
next
  case (Cons e es)
  from Cons.prems have p: "step_possible e c" by simp
  from sc_step_ok[OF Cons.prems(1) p, of s] obtain ok c1 s1 ms1 where
    st: "sc_step e c s = Some (ok, c1, s1)" "sc_inv c1" "sc_out c1 = sc_out c @ ms1" "step_output e ok ms1" by blast
  define n1 where "n1 = (case step_serial e of None \<Rightarrow> n | Some _ \<Rightarrow> Suc n)"
  have mok: "\<forall>m \<in> set ms1. message_ok m"
    using st(4) by (auto simp: step_output_def answers_def is_sc_event_def split: option.splits)
  have v1: "valid_stream n ms1" and v2: "ok \<Longrightarrow> valid_stream n1 ms \<Longrightarrow> valid_stream n (ms1 @ ms)" for ms
    using st(4) Cons.prems(2) valid_stream_events[of ms1 n "[]"] valid_stream_events[of ms1 n ms] valid_stream_answers
    by (auto simp: step_output_def n1_def split: option.splits)
  show ?case
  proof (cases ok)
    case False
    with st v1 mok show ?thesis by auto
  next
    case True
    have "requests_from n1 es" using Cons.prems(2) by (auto simp: n1_def split: option.splits)
    moreover have "run_possible es c1 s1" using Cons.prems(3) st(1) True by simp
    ultimately obtain ok' c' s' ms where
      "sc_run es c1 s1 = Some (ok', c', s')" "sc_inv c'" "sc_out c' = sc_out c1 @ ms" "valid_stream n1 ms"
      "\<forall>m \<in> set ms. message_ok m"
      using Cons.IH[OF st(2)] by blast
    with st(1,3) True v2 mok show ?thesis by auto
  qed
qed

text \<open>
  C5. The server keeps the protocol: for any sequence of requests with consecutive serials, GPU completions,
  pipe records and heartbeats, whatever the graphics library and the socket answer, no assertion of
  \<open>handle_async\<close> fails, every task still belongs to an image that waits for it, and what was sent to the client
  is a stream of events with serial 0 and replies with the serials of the requests, in order.
\<close>

theorem swapchain_protocol:
  assumes "sc_inv c" "requests_from n es" "run_possible es c s"
  shows "\<exists>ok c' s' ms. sc_run es c s = Some (ok, c', s') \<and> sc_inv c' \<and> sc_out c' = sc_out c @ ms
    \<and> valid_stream n ms \<and> (\<forall>m \<in> set ms. message_ok m)"
  by (rule sc_run_stream[OF assms])

definition plain_env :: vk_env where
  "plain_env = \<lparr>vk_is_srgb = (\<lambda>_. False), vk_extent = (\<lambda>_. Some (8192, 8192)), vk_create = (\<lambda>_. True),
     vk_semaphore = True, vk_import = True, vk_export = (50, 1), vk_cross = False, vk_now = 1000\<rparr>"

definition paced_server :: encode_server where
  "paced_server = \<lparr>es_immediate = False, es_pipewire = False, es_encoder = True, es_bitrate_kbits = 6000, es_request = 0,
     es_rate_multiplier = 1, es_heartbeat_count = 0, es_slot = 0, es_tasks = replicate 8 None, es_jobs = []\<rparr>"

definition sample_group :: image_group where
  "sample_group = \<lparr>num_images = 2, ig_width = 640, ig_height = 480, vk_format = 37, vk_color_space = 0,
     vk_image_usage = 7, vk_image_flags = 0, vk_external_memory_type = 1, vk_num_view_formats = 0,
     vk_view_formats = replicate 15 0, drm_modifier = 0\<rparr>"

definition present_of :: "u64 \<Rightarrow> u16 \<Rightarrow> u64 \<Rightarrow> present_image" where
  "present_of serial i ident = \<lparr>pr_group_serial = serial, pr_period = 1, pr_index = i, pr_semaphore_type = 0,
     pr_old_layout = 0, pr_new_layout = 0, pr_id = ident\<rparr>"

text \<open>An image group, a presentation, the end of its GPU work, and a heartbeat.\<close>

definition sample_run :: "sc_event list" where
  "sample_run = [ScMessage plain_env (ImageGroupMessage 1 sample_group [20, 21]),
     ScMessage plain_env (PresentImageMessage 2 (present_of 1 0 1) (-1)),
     ScTaskDone 0, ScPipe plain_env, ScHeartbeat plain_env 16000000]"

lemma inv_new: "sc_inv (swapchain_new script)"
  by (simp add: sc_inv_def swapchain_new_def)

lemmas sc_eval =
  sc_handle_def handle_swapchain_create_def image_group_error_def image_extent_error_def read_view_formats_def
  create_images_def sc_plain_def sc_reply_def handle_present_def queue_present_def spawn_task_def
  retire_obsolete_images_def retire_obsolete_images_before_def get_target_image_index_for_timestamp_def
  compute_next_target_timestamp_def image_new_def swapchain_new_def plain_env_def sample_group_def paced_server_def
  VK_IMAGE_USAGE_SAMPLED_BIT_def VK_IMAGE_USAGE_TRANSFER_SRC_BIT_def OPAQUE_FD_def COLOR_SPACE_SRGB_def
  present_of_def finish_task_def Let_def

text \<open>The state after the image group and after the presentation.\<close>

definition created_state :: swapchain where
  "created_state = (swapchain_new [])\<lparr>sc_images := [image_new False, image_new False], sc_group_serial := 1,
     sc_out := [PlainMessage MT_OK 1]\<rparr>"

definition presented_state :: swapchain where
  "presented_state = created_state\<lparr>sc_images := [\<lparr>target_timestamp = 1, target_period = 1, present_id = 1,
       img_state = PresentQueued, img_cross = False, img_sem = False\<rparr>, image_new False],
     sc_last_present_id := 1, sc_earliest_next_timestamp := 2, sc_refs := 4,
     sc_tasks := [\<lparr>gt_serial = 1, gt_index = 0, gt_pts = 1000\<rparr>],
     sc_out := [PlainMessage MT_OK 1, PlainMessage MT_OK 2]\<rparr>"

lemma sample_create:
  "sc_step (ScMessage plain_env (ImageGroupMessage 1 sample_group [20, 21])) (swapchain_new []) s
     = Some (True, created_state, s)"
  by (simp add: sc_eval created_state_def upt_rec)

lemma sample_present_step:
  "sc_step (ScMessage plain_env (PresentImageMessage 2 (present_of 1 0 1) (-1))) created_state paced_server
     = Some (True, presented_state, paced_server)"
  by (simp add: sc_eval created_state_def presented_state_def upt_rec)

lemma run_possible_step:
  "step_possible e c \<Longrightarrow> sc_step e c s = Some (ok, c', s') \<Longrightarrow> run_possible es c' s' \<Longrightarrow> run_possible (e # es) c s"
  by (simp split: bool.splits)

lemma run_possible_last: "step_possible e c \<Longrightarrow> run_possible [e] c s"
  by (simp split: option.splits prod.splits bool.splits)

lemma sample_run_possible: "run_possible sample_run (swapchain_new []) paced_server"
proof -
  have "sc_inv presented_state" by (simp add: sc_inv_def presented_state_def created_state_def swapchain_new_def gpu_pending_def)
  then have "sc_inv (finish_task 0 presented_state)" by (rule finish_task_ok) (simp add: presented_state_def)
  from handle_async_ok[OF this, of plain_env paced_server] obtain ok c s where
    p: "sc_step (ScPipe plain_env) (finish_task 0 presented_state) paced_server = Some (ok, c, s)" by auto
  have "run_possible [ScHeartbeat plain_env 16000000] c s" by (rule run_possible_last) (simp add: step_possible_def)
  from run_possible_step[OF _ p this]
  have "run_possible [ScPipe plain_env, ScHeartbeat plain_env 16000000] (finish_task 0 presented_state) paced_server"
    by (simp add: step_possible_def)
  from run_possible_step[OF _ sc_step.simps(2) this]
  have "run_possible [ScTaskDone 0, ScPipe plain_env, ScHeartbeat plain_env 16000000] presented_state paced_server"
    by (simp add: step_possible_def presented_state_def)
  from run_possible_step[OF _ sample_present_step this] have
    "run_possible (tl sample_run) created_state paced_server"
    by (simp add: step_possible_def event_possible_def sample_run_def)
  from run_possible_step[OF _ sample_create this] show ?thesis
    by (simp add: step_possible_def event_possible_def sample_run_def) (simp add: sample_group_def)
qed

lemma sample_requests: "requests_from 0 sample_run"
  by (simp add: sample_run_def)

lemma swapchain_protocol_witness:
  "\<exists>ok c' s' ms. sc_run sample_run (swapchain_new []) paced_server = Some (ok, c', s') \<and> sc_inv c'
     \<and> sc_out c' = sc_out (swapchain_new []) @ ms \<and> valid_stream 0 ms \<and> (\<forall>m \<in> set ms. message_ok m)"
  by (rule swapchain_protocol[OF inv_new sample_requests sample_run_possible])

section \<open>Choice of the image\<close>

definition image_due :: "u64 \<Rightarrow> swapchain_image \<Rightarrow> bool" where
  "image_due ts img \<longleftrightarrow> img_state img = PresentReady \<and> target_timestamp img \<le> ts"

lemma target_scan_latest:
  assumes "\<And>b. best = Some b \<Longrightarrow> image_due ts (imgs ! b)"
  shows "case target_scan imgs ts is best of
      None \<Rightarrow> best = None \<and> (\<forall>i \<in> set is. \<not> image_due ts (imgs ! i))
    | Some b \<Rightarrow> image_due ts (imgs ! b) \<and> (b \<in> set is \<or> best = Some b)
        \<and> (\<forall>i \<in> set is. image_due ts (imgs ! i) \<longrightarrow> present_id (imgs ! i) \<le> present_id (imgs ! b))
        \<and> (\<forall>a. best = Some a \<longrightarrow> present_id (imgs ! a) \<le> present_id (imgs ! b))"
  using assms
proof (induction "is" arbitrary: best)
  case Nil
  then show ?case by (auto split: option.splits)
next
  case (Cons i "is")
  show ?case
  proof (cases "image_due ts (imgs ! i) \<and> (case best of None \<Rightarrow> True | Some b \<Rightarrow> present_id (imgs ! i) > present_id (imgs ! b))")
    case True
    then have e: "target_scan imgs ts (i # is) best = target_scan imgs ts is (Some i)"
      by (cases best) (auto simp: image_due_def)
    have "\<And>b. Some i = Some b \<Longrightarrow> image_due ts (imgs ! b)" using True by simp
    from Cons.IH[where best = "Some i", OF this] True show ?thesis
      unfolding e by (cases best) (auto split: option.splits)
  next
    case False
    then have e: "target_scan imgs ts (i # is) best = target_scan imgs ts is best"
      by (cases best) (auto simp: image_due_def)
    from Cons.IH[where best = best, OF Cons.prems] False show ?thesis
      unfolding e by (cases best) (auto simp: not_less split: option.splits)
  qed
qed

text \<open>
  The image that is scanned out at a time stamp is the latest presentation that is ready and due: its id is
  the largest among the images that are ready with a target not after the time stamp; there is none exactly
  when no image is.
\<close>

theorem target_is_latest_due:
  "case get_target_image_index_for_timestamp ts c of
     None \<Rightarrow> filter (image_due ts) (sc_images c) = []
   | Some i \<Rightarrow> i < length (sc_images c) \<and> image_due ts (sc_images c ! i)
       \<and> present_id (sc_images c ! i) = Max (present_id ` set (filter (image_due ts) (sc_images c)))"
proof (cases "get_target_image_index_for_timestamp ts c")
  case None
  then have "\<forall>i < length (sc_images c). \<not> image_due ts (sc_images c ! i)"
    using target_scan_latest[of None ts "sc_images c" "[0..<length (sc_images c)]"]
    by (auto simp: get_target_image_index_for_timestamp_def)
  with None show ?thesis by (auto simp: filter_empty_conv in_set_conv_nth)
next
  case (Some i)
  then have i: "i < length (sc_images c)" "image_due ts (sc_images c ! i)"
    "\<And>j. j < length (sc_images c) \<Longrightarrow> image_due ts (sc_images c ! j) \<Longrightarrow>
       present_id (sc_images c ! j) \<le> present_id (sc_images c ! i)"
    using target_scan_latest[of None ts "sc_images c" "[0..<length (sc_images c)]"]
    by (auto simp: get_target_image_index_for_timestamp_def)
  have "Max (present_id ` set (filter (image_due ts) (sc_images c))) = present_id (sc_images c ! i)"
  proof (rule Max_eqI)
    show "y \<le> present_id (sc_images c ! i)" if "y \<in> present_id ` set (filter (image_due ts) (sc_images c))" for y
      using that i(3) by (auto simp: in_set_conv_nth)
    show "present_id (sc_images c ! i) \<in> present_id ` set (filter (image_due ts) (sc_images c))"
      using i(1,2) by auto
  qed simp
  with Some i show ?thesis by simp
qed

section \<open>Retirement and completion\<close>

definition retire_messages :: "vk_env \<Rightarrow> u64 \<Rightarrow> swapchain_image list \<Rightarrow> nat \<Rightarrow> ipc_message list" where
  "retire_messages env serial imgs i =
     (let (fd, ty) = (if img_sem (imgs ! i) then vk_export env else (-1, 0)) in
      [AcquireImageMessage 0 \<lparr>aq_group_serial = serial, aq_index = word_of_nat i, aq_semaphore_type = ty\<rparr> fd,
       RetireImageMessage 0 \<lparr>rt_group_serial = serial, rt_index = word_of_nat i, rt_padding = 0\<rparr>])"

definition obsolete :: "u64 \<Rightarrow> swapchain_image \<Rightarrow> bool" where
  "obsolete pid img \<longleftrightarrow> img_state img = PresentReady \<and> present_id img < pid"

definition give_back :: "u64 \<Rightarrow> swapchain_image \<Rightarrow> swapchain_image" where
  "give_back pid img = (if obsolete pid img then img\<lparr>img_state := ClientOwned, img_sem := False\<rparr> else img)"

lemma retire_images_exact:
  assumes "sc_send c = []" "distinct is" "\<forall>i \<in> set is. i < length (sc_images c)"
  shows "retire_images env pid is c = (True, c\<lparr>
    sc_images := map (\<lambda>j. if j \<in> set is then give_back pid (sc_images c ! j) else sc_images c ! j) [0..<length (sc_images c)],
    sc_out := sc_out c @ concat (map (retire_messages env (sc_group_serial c) (sc_images c))
      (filter (\<lambda>i. obsolete pid (sc_images c ! i)) is))\<rparr>)"
  using assms
proof (induction "is" arbitrary: c)
  case Nil
  have "map ((!) (sc_images c)) [0..<length (sc_images c)] = sc_images c" by (rule map_nth)
  then show ?case by simp
next
  case (Cons i "is")
  let ?imgs = "sc_images c"
  have i: "i < length ?imgs" "i \<notin> set is" "distinct is" using Cons.prems by auto
  define c1 where "c1 = (if obsolete pid (?imgs ! i)
    then c\<lparr>sc_images := ?imgs[i := give_back pid (?imgs ! i)],
           sc_out := sc_out c @ retire_messages env (sc_group_serial c) ?imgs i\<rparr> else c)"
  have st: "retire_images env pid (i # is) c = retire_images env pid is c1"
    using i(1) Cons.prems(1)
    by (auto simp: c1_def obsolete_def give_back_def send_acquire_retire_def sc_reply_def retire_messages_def Let_def
        split: prod.splits)
  have same: "\<And>j. j \<noteq> i \<Longrightarrow> sc_images c1 ! j = ?imgs ! j" "length (sc_images c1) = length ?imgs"
    "sc_images c1 ! i = give_back pid (?imgs ! i)" "sc_send c1 = []" "sc_group_serial c1 = sc_group_serial c"
    using i Cons.prems(1) by (auto simp: c1_def give_back_def)
  have IH: "retire_images env pid is c1 = (True, c1\<lparr>
    sc_images := map (\<lambda>j. if j \<in> set is then give_back pid (sc_images c1 ! j) else sc_images c1 ! j) [0..<length (sc_images c1)],
    sc_out := sc_out c1 @ concat (map (retire_messages env (sc_group_serial c1) (sc_images c1))
      (filter (\<lambda>k. obsolete pid (sc_images c1 ! k)) is))\<rparr>)"
    using Cons.prems(3) i(3) same by (intro Cons.IH) auto
  have other: "sc_images c1 ! j = ?imgs ! j" if "j \<in> set is" for j using same(1) i(2) that by metis
  have ims: "map (\<lambda>j. if j \<in> set is then give_back pid (sc_images c1 ! j) else sc_images c1 ! j) [0..<length (sc_images c1)]
      = map (\<lambda>j. if j \<in> set (i # is) then give_back pid (?imgs ! j) else ?imgs ! j) [0..<length ?imgs]"
  proof (rule map_cong)
    fix j assume "j \<in> set [0..<length ?imgs]"
    show "(if j \<in> set is then give_back pid (sc_images c1 ! j) else sc_images c1 ! j)
        = (if j \<in> set (i # is) then give_back pid (?imgs ! j) else ?imgs ! j)"
      using same(1,3) i(2) by (cases "j = i") auto
  qed (simp add: same(2))
  have fl: "filter (\<lambda>k. obsolete pid (sc_images c1 ! k)) is = filter (\<lambda>k. obsolete pid (?imgs ! k)) is"
    using other by (intro filter_cong) auto
  have rm: "map (retire_messages env (sc_group_serial c1) (sc_images c1)) (filter (\<lambda>k. obsolete pid (?imgs ! k)) is)
      = map (retire_messages env (sc_group_serial c) ?imgs) (filter (\<lambda>k. obsolete pid (?imgs ! k)) is)"
    using other same(5) by (intro map_cong) (auto simp: retire_messages_def)
  show ?case unfolding st IH ims fl rm by (simp add: c1_def)
qed

definition due_ids :: "u64 \<Rightarrow> complete_mapping list \<Rightarrow> u64 set" where
  "due_ids now ms = cm_complete_id ` set (filter (\<lambda>m. cm_timestamp m \<le> now) ms)"

lemma due_complete_id_Max: "due_complete_id now ms = Max (insert 0 (due_ids now ms))"
proof -
  have "fold (\<lambda>m best. if now \<ge> cm_timestamp m \<and> cm_complete_id m > best then cm_complete_id m else best) ms b
      = Max (insert b (due_ids now ms))" for b
  proof (induction ms arbitrary: b)
    case Nil
    then show ?case by (simp add: due_ids_def)
  next
    case (Cons m ms)
    have fin: "finite (due_ids now ms)" by (simp add: due_ids_def)
    show ?case
    proof (cases "cm_timestamp m \<le> now")
      case False
      then have "due_ids now (m # ms) = due_ids now ms" by (simp add: due_ids_def)
      with False Cons show ?thesis by simp
    next
      case True
      then have "due_ids now (m # ms) = insert (cm_complete_id m) (due_ids now ms)" by (simp add: due_ids_def)
      with True Cons fin show ?thesis
        by (cases "due_ids now ms = {}") (auto simp: max_def)
    qed
  qed
  then show ?thesis by (simp add: due_complete_id_def)
qed

text \<open>
  C29. A heartbeat reports exactly what became due: it sends one completion, with the largest id whose time has
  come, when there is one; then, in the order of the images, it gives back every ready image with a smaller
  id, each by an acquire and a retire event; and it forgets exactly the entries it has reported.
\<close>

theorem heartbeat_reports_due:
  assumes "sc_images c \<noteq> []" "sc_send c = []"
  defines "now \<equiv> sc_timestamp_completed c + 1"
  defines "cid \<equiv> Max (insert 0 (due_ids now (sc_mappings c)))"
  shows "\<exists>c'. sc_heartbeat env t c = (True, get_target_image_index_for_timestamp now c, c')
    \<and> sc_mappings c' = filter (\<lambda>m. now < cm_timestamp m) (sc_mappings c)
    \<and> sc_images c' = (if cid = 0 then sc_images c else map (give_back cid) (sc_images c))
    \<and> sc_out c' = sc_out c @ (if cid = 0 then [] else
        FrameCompleteMessage 0 \<lparr>fc_group_serial = sc_group_serial c, fc_timestamp = now, fc_period_ns = t,
          fc_presented_id = cid, fc_flags = 0, fc_delayed_count = 0, fc_headroom_ns = 0\<rparr>
        # concat (map (retire_messages env (sc_group_serial c) (sc_images c))
            (filter (\<lambda>i. obsolete cid (sc_images c ! i)) [0..<length (sc_images c)])))"
proof -
  define c1 where "c1 = c\<lparr>sc_timestamp_completed := now, sc_mappings := filter (\<lambda>m. \<not> cm_timestamp m \<le> now) (sc_mappings c)\<rparr>"
  define m where "m = FrameCompleteMessage 0 \<lparr>fc_group_serial = sc_group_serial c, fc_timestamp = now, fc_period_ns = t,
          fc_presented_id = cid, fc_flags = 0, fc_delayed_count = 0, fc_headroom_ns = 0\<rparr>"
  define c2 where "c2 = c1\<lparr>sc_out := sc_out c @ [m]\<rparr>"
  have cid: "due_complete_id now (sc_mappings c) = cid" by (simp add: due_complete_id_Max cid_def)
  have tgt: "get_target_image_index_for_timestamp now (c\<lparr>sc_timestamp_completed := now\<rparr>)
      = get_target_image_index_for_timestamp now c" by (simp add: get_target_image_index_for_timestamp_def)
  have r: "retire_obsolete_images_before env cid c2 = (True, c2\<lparr>
      sc_images := map (\<lambda>j. if j \<in> set [0..<length (sc_images c2)] then give_back cid (sc_images c2 ! j) else sc_images c2 ! j)
        [0..<length (sc_images c2)],
      sc_out := sc_out c2 @ concat (map (retire_messages env (sc_group_serial c2) (sc_images c2))
        (filter (\<lambda>i. obsolete cid (sc_images c2 ! i)) [0..<length (sc_images c2)]))\<rparr>)"
    unfolding retire_obsolete_images_before_def
    using assms(2) by (intro retire_images_exact) (simp_all add: c2_def c1_def)
  have mp: "map (\<lambda>j. if j \<in> set [0..<length (sc_images c2)] then give_back cid (sc_images c2 ! j) else sc_images c2 ! j)
        [0..<length (sc_images c2)] = map (give_back cid) (sc_images c)"
    by (rule nth_equalityI) (simp_all add: c2_def c1_def)
  have rep: "sc_reply m c1 = (True, c2)" using assms(2) by (simp add: sc_reply_def c2_def c1_def)
  have none: "cid = 0 \<Longrightarrow> sc_heartbeat env t c = (True, get_target_image_index_for_timestamp now c, c1)"
    using assms(1) by (simp add: sc_heartbeat_def now_def[symmetric] cid tgt c1_def Let_def)
  have some: "cid \<noteq> 0 \<Longrightarrow> sc_heartbeat env t c = (let (ok, c') = retire_obsolete_images_before env cid c2 in
      (ok, get_target_image_index_for_timestamp now c, c'))"
    using assms(1) rep by (simp add: sc_heartbeat_def now_def[symmetric] cid tgt c1_def m_def Let_def)
  show ?thesis
    using none some r mp by (cases "cid = 0") (simp_all add: c2_def c1_def m_def not_le)
qed

text \<open>After the sample presentation was drawn: the heartbeat completes id 1.\<close>

definition ready_state :: swapchain where
  "ready_state = presented_state\<lparr>sc_images := [\<lparr>target_timestamp = 1, target_period = 1, present_id = 1,
       img_state = PresentReady, img_cross = False, img_sem = False\<rparr>, image_new False], sc_refs := 3, sc_tasks := [],
     sc_mappings := [\<lparr>cm_timestamp = 1, cm_complete_id = 1\<rparr>]\<rparr>"

lemma heartbeat_reports_due_witness:
  "\<exists>c'. sc_heartbeat plain_env 7 ready_state = (True, get_target_image_index_for_timestamp 1 ready_state, c')
    \<and> sc_mappings c' = [] \<and> sc_images c' = map (give_back 1) (sc_images ready_state)"
  using heartbeat_reports_due[of ready_state plain_env 7]
  by (auto simp: ready_state_def presented_state_def created_state_def swapchain_new_def due_ids_def)

section \<open>Image groups on a connection in use\<close>

text \<open>
  C38. A second image group does not replace the first: the images of the first group keep their indices, and the
  last present id is kept as well, so that the first presentation of a client that starts counting again
  (\<open>SurfaceState::sendImageGroup\<close> does) is rejected with a parameter error.
\<close>

theorem second_group_rejects_present:
  assumes "handle_swapchain_create env serial g fds c = Some (True, c1)" "sc_last_present_id c \<noteq> 0"
    and "pr_group_serial p = serial" "unat (pr_index p) < length (sc_images c1)" "pr_id p = 1" "sc_send c1 = []"
  shows "take (length (sc_images c)) (sc_images c1) = sc_images c
    \<and> handle_present env req p c1 s = Some (True, c1\<lparr>sc_out := sc_out c1 @ [PlainMessage MT_ErrorParameter req]\<rparr>, s)"
proof -
  have sr: "\<And>m d ok d'. sc_reply m d = (ok, d') \<Longrightarrow> sc_images d' = sc_images d \<and> sc_last_present_id d' = sc_last_present_id d
      \<and> sc_group_serial d' = sc_group_serial d"
    by (auto dest!: sc_reply_frame)
  have k: "take (length (sc_images c)) (sc_images c1) = sc_images c \<and> sc_last_present_id c1 = sc_last_present_id c
      \<and> sc_group_serial c1 = serial"
    using assms(1)
    by (auto simp: handle_swapchain_create_def create_images_def sc_plain_def Let_def Option.bind_eq_Some_conv
        split: if_splits dest!: sr)
  have "(1::u64) \<le> sc_last_present_id c" using assms(2) by (simp add: word_le_nat_alt unat_gt_0 Suc_leI)
  then have "pr_id p \<le> sc_last_present_id c1" using assms(5) k by simp
  then show ?thesis
    using k assms(3,4,6) by (simp add: handle_present_def sc_plain_def sc_reply_def Let_def)
qed

lemma second_group_rejects_present_witness:
  "\<exists>c1. handle_swapchain_create plain_env 3 sample_group [30, 31] presented_state = Some (True, c1)
     \<and> take 2 (sc_images c1) = sc_images presented_state
     \<and> handle_present plain_env 4 (present_of 3 1 1) c1 paced_server
       = Some (True, c1\<lparr>sc_out := sc_out c1 @ [PlainMessage MT_ErrorParameter 4]\<rparr>, paced_server)"
proof -
  define c1 where "c1 = presented_state\<lparr>sc_group_serial := 3,
    sc_images := sc_images presented_state @ [image_new False, image_new False],
    sc_out := sc_out presented_state @ [PlainMessage MT_OK 3]\<rparr>"
  have c: "handle_swapchain_create plain_env 3 sample_group [30, 31] presented_state = Some (True, c1)"
    by (simp add: sc_eval presented_state_def created_state_def c1_def upt_rec)
  have l: "length (sc_images presented_state) = 2" by (simp add: presented_state_def)
  show ?thesis
    using second_group_rejects_present[OF c, of "present_of 3 1 1" 4 paced_server] c l
    by (auto simp: c1_def presented_state_def created_state_def swapchain_new_def present_of_def)
qed

text \<open>
  C39. The number of view formats is not checked: an image group that announces more than the 15 formats of its
  array, and passes the earlier checks, makes the server read outside the array.
\<close>

theorem view_formats_out_of_bounds:
  assumes "length (vk_view_formats g) = 15" "15 < unat (vk_num_view_formats g)" "\<not> image_group_error env g fds"
  shows "handle_swapchain_create env serial g fds c = None"
proof -
  have lt: "for_list (\<lambda>i _. do { _ \<leftarrow> load (vk_view_formats g) i; Some () }) (xs @ 15 # ys) u = None" for xs ys u
    using assms(1) by (auto simp: for_list_append load_def split: option.splits)
  have "[0..<unat (vk_num_view_formats g)] = [0..<15] @ 15 # [16..<unat (vk_num_view_formats g)]"
    using assms(2) upt_add_eq_append[of 0 15 "unat (vk_num_view_formats g) - 15"] by (simp add: upt_conv_Cons)
  then have "read_view_formats g = None" unfolding read_view_formats_def by (simp only: lt)
  moreover have "vk_num_view_formats g \<noteq> 0" using assms(2) by auto
  ultimately show ?thesis using assms(3) by (simp add: handle_swapchain_create_def Let_def)
qed

lemma view_formats_out_of_bounds_witness:
  "handle_swapchain_create plain_env 1 (sample_group\<lparr>vk_num_view_formats := 16\<rparr>) [20, 21] (swapchain_new []) = None"
  by (rule view_formats_out_of_bounds) (simp_all add: sample_group_def image_group_error_def
    VK_IMAGE_USAGE_SAMPLED_BIT_def VK_IMAGE_USAGE_TRANSFER_SRC_BIT_def OPAQUE_FD_def COLOR_SPACE_SRGB_def)

section \<open>References\<close>

text \<open>
  A presentation whose reply cannot be sent leaks the swapchain: the reference for the GPU task was taken,
  the task is never created, and after both connections are gone one reference remains, so that the object
  is never destroyed.
\<close>

theorem failed_reply_leaks_reference:
  assumes "sc_refs c = 3" "sc_tasks c = []" "i < length (sc_images c)" "sc_send c = False # script"
  shows "\<exists>c'. queue_present env serial p i pts c s = Some (False, c', s) \<and> sc_tasks c' = []
    \<and> sc_refs (sc_release_id 1 (sc_release_id 0 c')) = 1"
  using assms by (simp add: queue_present_def sc_plain_def sc_reply_def sc_release_id_def Let_def)

lemma failed_reply_leaks_reference_witness:
  "\<exists>c'. queue_present plain_env 2 (present_of 1 0 1) 0 0 (created_state\<lparr>sc_send := [False]\<rparr>) paced_server
       = Some (False, c', paced_server) \<and> sc_tasks c' = [] \<and> sc_refs (sc_release_id 1 (sc_release_id 0 c')) = 1"
  by (rule failed_reply_leaks_reference[where script = "[]"])
    (simp_all add: created_state_def swapchain_new_def)

section \<open>Bit rate and frame rate\<close>

text \<open>
  The bit rate stays between 100 and 10000000 kbit/s whatever changes are requested, and the products
  do not wrap around: an increase is a factor of 1.1, a decrease a factor of 0.9, rounded down.
\<close>

theorem bitrate_bounds:
  assumes "100 \<le> unat (es_bitrate_kbits s)" "unat (es_bitrate_kbits s) \<le> 10000000"
  shows "unat (es_bitrate_kbits (update_bitrate s)) =
      (if es_request s > 0 then min 10000000 (unat (es_bitrate_kbits s) * 110 div 100)
       else if es_request s < 0 then max 100 (unat (es_bitrate_kbits s) * 90 div 100)
       else unat (es_bitrate_kbits s))
    \<and> 100 \<le> unat (es_bitrate_kbits (update_bitrate s)) \<and> unat (es_bitrate_kbits (update_bitrate s)) \<le> 10000000"
proof -
  let ?b = "es_bitrate_kbits s"
  have up: "unat ((?b * 110) div 100) = unat ?b * 110 div 100"
    using assms(2) by (simp add: unat_div_distrib unat_word_ariths)
  have down: "unat ((?b * 90) div 100) = unat ?b * 90 div 100"
    using assms(2) by (simp add: unat_div_distrib unat_word_ariths)
  have mn: "unat (min a b) = min (unat a) (unat b)" "unat (max a b) = max (unat a) (unat b)" for a b :: u32
    by (simp_all add: min_def max_def word_le_nat_alt)
  have "b * 90 div 100 \<le> 10000000 \<and> 100 \<le> b * 110 div 100" if "100 \<le> b" "b \<le> 10000000" for b :: nat
    using div_le_mono[of "b * 90" "10000000 * 90" 100] div_le_mono[of "100 * 110" "b * 110" 100] that by simp
  from this[OF assms] show ?thesis using assms by (auto simp: update_bitrate_def Let_def mn up down)
qed

lemma bitrate_bounds_witness:
  "unat (es_bitrate_kbits (update_bitrate (paced_server\<lparr>es_request := 1\<rparr>))) = 6600"
  using bitrate_bounds[of "paced_server\<lparr>es_request := 1\<rparr>"] by (simp add: paced_server_def)

fun encode_surfaces :: "(surface \<times> u64 \<times> (nat \<times> u32) option \<times> u64 \<times> u64) list \<Rightarrow> encode_server \<Rightarrow> encode_server" where
  "encode_surfaces [] s = s"
| "encode_surfaces ((surf, pts, chain, period_ns, now) # xs) s =
     encode_surfaces xs (snd (encode_surface surf pts chain period_ns now s))"

lemma encode_surface_count:
  fixes surf :: surface and pts period_ns now :: u64 and chain :: "(nat \<times> u32) option"
  assumes "es_encoder s" "0 < unat (es_rate_multiplier s)" "unat (es_heartbeat_count s) < unat (es_rate_multiplier s)"
  defines "s' \<equiv> snd (encode_surface surf pts chain period_ns now s)"
  shows "es_encoder s'" "es_rate_multiplier s' = es_rate_multiplier s"
    "unat (es_heartbeat_count s') = Suc (unat (es_heartbeat_count s)) mod unat (es_rate_multiplier s)"
    "length (es_jobs s') = length (es_jobs s) + Suc (unat (es_heartbeat_count s)) div unat (es_rate_multiplier s)"
proof -
  have u: "es_encoder (update_bitrate s)" "es_rate_multiplier (update_bitrate s) = es_rate_multiplier s"
    "es_heartbeat_count (update_bitrate s) = es_heartbeat_count s" "es_jobs (update_bitrate s) = es_jobs s"
    using assms(1) by (simp_all add: update_bitrate_def Let_def)
  have "unat (es_rate_multiplier s) < 2 ^ 32" using unsigned_less[of "es_rate_multiplier s", where ?'a = nat] by simp
  then have c: "unat (es_heartbeat_count s + 1) = Suc (unat (es_heartbeat_count s))"
    using assms(3) by (simp add: unat_word_ariths)
  consider "Suc (unat (es_heartbeat_count s)) < unat (es_rate_multiplier s)"
    | "Suc (unat (es_heartbeat_count s)) = unat (es_rate_multiplier s)" using assms(3) by linarith
  then show "es_encoder s'" "es_rate_multiplier s' = es_rate_multiplier s"
    "unat (es_heartbeat_count s') = Suc (unat (es_heartbeat_count s)) mod unat (es_rate_multiplier s)"
    "length (es_jobs s') = length (es_jobs s) + Suc (unat (es_heartbeat_count s)) div unat (es_rate_multiplier s)"
    using assms(2) c by (cases; simp add: s'_def encode_surface_def Let_def u word_le_nat_alt)+
qed

text \<open>
  Frame rate division: with a client rate multiplier \<open>k\<close>, of \<open>n\<close> surfaces that reach the encoder, counted from
  the setting of the multiplier, exactly \<open>n div k\<close> are encoded.
\<close>

theorem encoded_frame_count:
  assumes "es_encoder s" "0 < unat (es_rate_multiplier s)" "es_heartbeat_count s = 0"
  shows "length (es_jobs (encode_surfaces xs s)) = length (es_jobs s) + length xs div unat (es_rate_multiplier s)"
proof -
  have "length (es_jobs (encode_surfaces xs s)) = length (es_jobs s)
      + (length xs + unat (es_heartbeat_count s)) div unat (es_rate_multiplier s)"
    if "es_encoder s" "0 < unat (es_rate_multiplier s)" "unat (es_heartbeat_count s) < unat (es_rate_multiplier s)" for s
    using that
  proof (induction xs arbitrary: s)
    case Nil
    then show ?case by simp
  next
    case (Cons x xs)
    obtain surf pts chain period_ns now where x: "x = (surf, pts, chain, period_ns, now)" by (cases x)
    define s1 where "s1 = snd (encode_surface surf pts chain period_ns now s)"
    define m where "m = unat (es_rate_multiplier s)"
    define h where "h = Suc (unat (es_heartbeat_count s))"
    have e: "es_encoder s1" "es_rate_multiplier s1 = es_rate_multiplier s" "unat (es_heartbeat_count s1) = h mod m"
      "length (es_jobs s1) = length (es_jobs s) + h div m"
      unfolding s1_def h_def m_def by (rule encode_surface_count[OF Cons.prems])+
    have m: "0 < m" using Cons.prems(2) by (simp add: m_def)
    have "length (es_jobs (encode_surfaces xs s1)) = length (es_jobs s1) + (length xs + h mod m) div m"
      using Cons.IH[of s1] e m by (simp add: m_def)
    also have "\<dots> = length (es_jobs s) + ((length xs + h mod m) div m + h div m)" using e(4) by simp
    also have "(length xs + h mod m) div m + h div m = (length xs + h mod m + h div m * m) div m"
      using m div_mult_self1[of m "length xs + h mod m" "h div m"] by (simp only: add.commute)
    also have "length xs + h mod m + h div m * m = length (x # xs) + unat (es_heartbeat_count s)"
      using mod_mult_div_eq[of h m] by (simp add: h_def mult.commute)
    finally show ?case by (simp add: x s1_def m_def)
  qed
  from this[OF assms(1,2)] assms(2,3) show ?thesis by simp
qed

lemma encoded_frame_count_witness:
  "length (es_jobs (encode_surfaces (replicate 5 (SurfDummy, 0, None, 0, 0)) (paced_server\<lparr>es_rate_multiplier := 2\<rparr>)))
     = length (es_jobs (paced_server\<lparr>es_rate_multiplier := 2\<rparr>)) + 5 div 2"
proof -
  have u: "unat (es_rate_multiplier (paced_server\<lparr>es_rate_multiplier := 2\<rparr>)) = 2" by simp
  have h: "es_encoder (paced_server\<lparr>es_rate_multiplier := 2\<rparr>)" "es_heartbeat_count (paced_server\<lparr>es_rate_multiplier := 2\<rparr>) = 0"
    by (simp_all add: paced_server_def)
  show ?thesis
    using encoded_frame_count[OF h(1) _ h(2), of "replicate 5 (SurfDummy, 0, None, 0, 0)"]
    by (simp only: u length_replicate)
qed

end
