(* ===== verification/Heartbeat.thy ===== *)
theory Heartbeat
  imports Swapchain
begin

text \<open>
  The heartbeat timer of the server (\<open>HeartbeatHandler\<close> in \<open>pyrofling.cpp\<close>): it steers the interval of the
  timer by the phase offset that clients ask for, and drives the swapchains once per tick.

  Times are 64-bit nanosecond counts; \<open>tick_interval_offset\<close> is a signed 32-bit integer, kept as an integer
  whose bounds are proved.  What \<open>clock_gettime\<close> and \<open>timerfd_gettime\<close> return are arguments.
\<close>

section \<open>State\<close>

record heartbeat_handler =
  timebase_ns :: u64
  timebase_ns_fraction :: u64
  target_interval_ns :: u64
  tick_interval_offset :: int

definition heartbeat_handler_new :: "u32 \<Rightarrow> heartbeat_handler outcome" where
  "heartbeat_handler_new fps = do {
     guard (fps \<noteq> 0);
     let tb = ucast (1000000000 div fps);
     Some \<lparr>timebase_ns = tb, timebase_ns_fraction = tb div 10000, target_interval_ns = tb, tick_interval_offset = 0\<rparr> }"

text \<open>A setting of the timer: the first expiry and the interval, in seconds and nanoseconds.\<close>

record itimerspec =
  it_value_sec :: u64
  it_value_nsec :: u64
  it_interval_sec :: u64
  it_interval_nsec :: u64

definition respond_factor :: u64 where "respond_factor = 60"

text \<open>The reaction to the phase offset: the handler, the time of the next tick and whether the timer is set.\<close>

definition steer :: "int \<Rightarrow> u64 \<Rightarrow> heartbeat_handler \<Rightarrow> heartbeat_handler \<times> u64 \<times> bool" where
  "steer phase target h =
     (if abs phase > 200
      then if phase > 0 \<and> tick_interval_offset h < 50
        then (h\<lparr>tick_interval_offset := tick_interval_offset h + 2,
                target_interval_ns := target_interval_ns h + 2 * timebase_ns_fraction h\<rparr>,
              target + respond_factor * timebase_ns_fraction h, True)
        else if phase < 0 \<and> tick_interval_offset h > -50
        then (h\<lparr>tick_interval_offset := tick_interval_offset h - 2,
                target_interval_ns := target_interval_ns h - 2 * timebase_ns_fraction h\<rparr>,
              target - respond_factor * timebase_ns_fraction h, True)
        else (h, target, False)
      else (h, target, False))"

text \<open>The drift back to the centre.\<close>

definition recentre :: "heartbeat_handler \<Rightarrow> heartbeat_handler \<times> bool" where
  "recentre h =
     (if tick_interval_offset h > 0
      then (h\<lparr>tick_interval_offset := tick_interval_offset h - 1,
              target_interval_ns := target_interval_ns h - timebase_ns_fraction h\<rparr>, True)
      else if tick_interval_offset h < 0
      then (h\<lparr>tick_interval_offset := tick_interval_offset h + 1,
              target_interval_ns := target_interval_ns h + timebase_ns_fraction h\<rparr>, True)
      else (h, False))"

definition update_loop :: "u64 \<Rightarrow> int \<Rightarrow> heartbeat_handler \<Rightarrow> heartbeat_handler \<times> itimerspec option" where
  "update_loop next_tick_ns phase h =
     (let (h, target, set1) = steer phase next_tick_ns h;
          (h, set2) = recentre h
      in (h, if set1 \<or> set2
             then Some \<lparr>it_value_sec = target div 1000000000, it_value_nsec = target mod 1000000000,
                        it_interval_sec = target_interval_ns h div 1000000000,
                        it_interval_nsec = target_interval_ns h mod 1000000000\<rparr>
             else None))"

text \<open>The time of the next tick from the clock and the remaining time.\<close>

definition next_tick_ns :: "u64 \<Rightarrow> u64 \<Rightarrow> u64 \<Rightarrow> u64 \<Rightarrow> u64" where
  "next_tick_ns now_sec now_nsec rem_sec rem_nsec = (now_sec + rem_sec) * 1000000000 + now_nsec + rem_nsec"

section \<open>A tick\<close>

text \<open>
  The missed expiries are stalled heartbeats; the result says whether the handler stays, and whether the
  dispatcher is told to end.
\<close>

fun stall :: "vk_env \<Rightarrow> nat \<Rightarrow> swapchain list \<Rightarrow> bool \<times> nat option \<times> swapchain list" where
  "stall env 0 cs = (True, None, cs)"
| "stall env (Suc n) cs =
     (let (ok, cancel, cs) = heartbeat_stalled_all env 0 cs in
      if ok then stall env n cs else (False, cancel, cs))"

record tick_result =
  tk_keep :: bool
  tk_kill :: bool
  tk_cancel :: "nat option"
  tk_timer :: "itimerspec option"

definition heartbeat_tick ::
    "vk_env \<Rightarrow> u64 option \<Rightarrow> u64 \<Rightarrow> int \<Rightarrow> heartbeat_handler \<Rightarrow> swapchain list \<Rightarrow> encode_server
      \<Rightarrow> tick_result \<times> heartbeat_handler \<times> swapchain list \<times> encode_server" where
  "heartbeat_tick env timeouts tick phase h cs s =
     (case timeouts of
        None \<Rightarrow> (\<lparr>tk_keep = False, tk_kill = False, tk_cancel = None, tk_timer = None\<rparr>, h, cs, s)
      | Some n \<Rightarrow>
          let (h, t) = update_loop tick phase h;
              (ok, cancel, cs) = stall env (unat n - 1) cs
          in if \<not> ok then (\<lparr>tk_keep = False, tk_kill = True, tk_cancel = cancel, tk_timer = t\<rparr>, h, cs, s)
             else let (ok, cancel, cs, s) = srv_heartbeat env (timebase_ns h) cs s
                  in (\<lparr>tk_keep = ok, tk_kill = \<not> ok, tk_cancel = cancel, tk_timer = t\<rparr>, h, cs, s))"

section \<open>The interval\<close>

text \<open>
  The offset is within 50 steps, and the interval is the timebase plus the offset in steps of a
  ten-thousandth.
\<close>

definition heartbeat_inv :: "heartbeat_handler \<Rightarrow> bool" where
  "heartbeat_inv h \<longleftrightarrow> abs (tick_interval_offset h) \<le> 50
     \<and> timebase_ns_fraction h = timebase_ns h div 10000 \<and> unat (timebase_ns h) \<le> 1000000000
     \<and> target_interval_ns h = timebase_ns h + word_of_int (tick_interval_offset h) * timebase_ns_fraction h"

lemma heartbeat_new_inv: "heartbeat_handler_new fps = Some h \<Longrightarrow> heartbeat_inv h"
proof -
  assume "heartbeat_handler_new fps = Some h"
  then have h: "h = \<lparr>timebase_ns = ucast (1000000000 div fps), timebase_ns_fraction = ucast (1000000000 div fps) div 10000,
      target_interval_ns = ucast (1000000000 div fps), tick_interval_offset = 0\<rparr>"
    by (auto simp: heartbeat_handler_new_def Let_def Option.bind_eq_Some_conv)
  have "unat (1000000000 div fps) \<le> 1000000000" by (simp add: unat_div_distrib)
  moreover have "unat (ucast (1000000000 div fps) :: u64) = unat (1000000000 div fps)"
    unfolding unsigned_ucast_eq take_bit_eq_mod
    by (rule mod_less) (use unsigned_less[of "1000000000 div fps", where ?'a = nat] in simp)
  ultimately show ?thesis by (simp add: h heartbeat_inv_def)
qed

lemma steer_inv:
  assumes "heartbeat_inv h" "steer phase target h = (h', target', b)"
  shows "abs (tick_interval_offset h') \<le> 51" "timebase_ns h' = timebase_ns h"
    "timebase_ns_fraction h' = timebase_ns_fraction h"
    "target_interval_ns h' = timebase_ns h' + word_of_int (tick_interval_offset h') * timebase_ns_fraction h'"
  using assms
  by (auto simp: steer_def heartbeat_inv_def algebra_simps split: if_splits)

lemma recentre_inv:
  assumes "abs (tick_interval_offset h) \<le> 51"
    "target_interval_ns h = timebase_ns h + word_of_int (tick_interval_offset h) * timebase_ns_fraction h"
    "recentre h = (h', b)"
  shows "abs (tick_interval_offset h') \<le> 50" "timebase_ns h' = timebase_ns h"
    "timebase_ns_fraction h' = timebase_ns_fraction h"
    "target_interval_ns h' = timebase_ns h' + word_of_int (tick_interval_offset h') * timebase_ns_fraction h'"
  using assms
  by (auto simp: recentre_def algebra_simps split: if_splits)

lemma update_loop_inv:
  assumes "heartbeat_inv h"
  shows "heartbeat_inv (fst (update_loop tick phase h))"
    "timebase_ns (fst (update_loop tick phase h)) = timebase_ns h"
proof -
  obtain h1 t1 b1 where s: "steer phase tick h = (h1, t1, b1)" by (metis prod_cases3)
  obtain h2 b2 where r: "recentre h1 = (h2, b2)" by (metis prod.exhaust)
  note s1 = steer_inv[OF assms s]
  note r1 = recentre_inv[OF s1(1,4) r]
  have "fst (update_loop tick phase h) = h2" by (simp add: update_loop_def s r)
  then show "heartbeat_inv (fst (update_loop tick phase h))" "timebase_ns (fst (update_loop tick phase h)) = timebase_ns h"
    using assms s1 r1 by (simp_all add: heartbeat_inv_def)
qed

lemma inv_interval:
  assumes "heartbeat_inv h"
  shows "uint (target_interval_ns h) = uint (timebase_ns h) + tick_interval_offset h * (uint (timebase_ns h) div 10000)"
proof -
  let ?tb = "uint (timebase_ns h)" and ?o = "tick_interval_offset h"
  have "unat (timebase_ns h) \<le> 1000000000" using assms by (simp add: heartbeat_inv_def)
  then have "int (unat (timebase_ns h)) \<le> int 1000000000" by (simp only: zle_int)
  then have tb: "0 \<le> ?tb" "?tb \<le> 1000000000" by simp_all
  define f where "f = ?tb div 10000"
  have f: "uint (timebase_ns_fraction h) = f" "0 \<le> f" "f \<le> 100000" "10000 * f \<le> ?tb"
    using assms tb by (simp_all add: heartbeat_inv_def f_def uint_div_distrib pos_imp_zdiv_nonneg_iff)
  have o: "-50 \<le> ?o" "?o \<le> 50" using assms by (auto simp: heartbeat_inv_def)
  have lo: "-50 * f \<le> ?o * f" and hi: "?o * f \<le> 50 * f" using o f(2) by (intro mult_right_mono; simp)+
  have "uint (target_interval_ns h) = (?tb + ?o * f) mod 2 ^ 64"
    using assms by (simp add: heartbeat_inv_def uint_word_ariths uint_word_of_int f_def uint_div_distrib mod_simps)
  also have "\<dots> = ?tb + ?o * f" using lo hi f(2,3,4) tb by (intro mod_pos_pos_trivial; simp)
  finally show ?thesis by (simp add: f_def)
qed

text \<open>
  C31. The tick interval: whatever phase offsets the clients send and however often, the interval of the timer
  stays within 50 ten-thousandths, half a percent, of the timebase, and it is the timebase again as soon
  as the offset has drifted back to zero.
\<close>

theorem tick_interval_bounds:
  fixes inputs :: "(u64 \<times> int) list"
  assumes "heartbeat_handler_new fps = Some h0"
  defines "h \<equiv> fold (\<lambda>(tick, phase) h. fst (update_loop tick phase h)) inputs h0"
  shows "abs (uint (target_interval_ns h) - uint (timebase_ns h)) \<le> 50 * (uint (timebase_ns h) div 10000)
    \<and> timebase_ns h = timebase_ns h0 \<and> (tick_interval_offset h = 0 \<longrightarrow> target_interval_ns h = timebase_ns h)"
proof -
  have "heartbeat_inv (fold (\<lambda>(tick, phase) h. fst (update_loop tick phase h)) xs k)
      \<and> timebase_ns (fold (\<lambda>(tick, phase) h. fst (update_loop tick phase h)) xs k) = timebase_ns k"
    if "heartbeat_inv k" for xs k
    using that by (induction xs arbitrary: k) (auto simp: update_loop_inv split: prod.splits)
  then have inv: "heartbeat_inv h" "timebase_ns h = timebase_ns h0"
    using heartbeat_new_inv[OF assms(1)] by (simp_all add: h_def)
  have o: "abs (tick_interval_offset h) \<le> 50" using inv by (simp add: heartbeat_inv_def)
  have "abs (tick_interval_offset h * (uint (timebase_ns h) div 10000)) \<le> 50 * (uint (timebase_ns h) div 10000)"
    unfolding abs_mult using o by (intro mult_mono) (auto simp: pos_imp_zdiv_nonneg_iff)
  with inv show ?thesis by (auto simp: inv_interval) (simp add: heartbeat_inv_def)
qed

lemma tick_interval_bounds_witness:
  "\<exists>h0. heartbeat_handler_new 60 = Some h0
     \<and> abs (uint (target_interval_ns (fst (update_loop 0 500 h0))) - uint (timebase_ns h0)) \<le> 50 * (uint (timebase_ns h0) div 10000)"
proof -
  obtain h0 where h0: "heartbeat_handler_new 60 = Some h0" by (simp add: heartbeat_handler_new_def Let_def)
  from tick_interval_bounds[OF h0, of "[(0, 500)]"] h0 show ?thesis by auto
qed

section \<open>Ticks\<close>

text \<open>
  One client that cannot be served ends the server: when sending to one swapchain fails during a tick,
  its connection is cancelled and the dispatcher is told to end, although every other swapchain could be
  served.
\<close>

theorem failed_client_kills_server:
  assumes "sc_heartbeat env (timebase_ns h) c = (False, i, c')" "tick_interval_offset h = 0"
    and "es_immediate s \<or> \<not> slot_busy s"
  shows "\<exists>s' r. heartbeat_tick env (Some 1) tick 0 h (c # cs) s = (r, h, c' # cs, s')
    \<and> tk_kill r \<and> \<not> tk_keep r \<and> tk_cancel r = Some 0"
  using assms
  by (auto simp: heartbeat_tick_def update_loop_def steer_def recentre_def srv_heartbeat_def Let_def)

lemma failed_client_kills_server_witness:
  "\<exists>h c' s' r. heartbeat_tick plain_env (Some 1) 0 0 h [ready_state\<lparr>sc_send := [False]\<rparr>, created_state] paced_server
       = (r, h, c' # [created_state], s') \<and> tk_kill r \<and> \<not> tk_keep r \<and> tk_cancel r = Some 0"
proof -
  define h where "h = \<lparr>timebase_ns = 16666666, timebase_ns_fraction = 1666, target_interval_ns = 16666666, tick_interval_offset = 0\<rparr>"
  obtain i c' where c: "sc_heartbeat plain_env (timebase_ns h) (ready_state\<lparr>sc_send := [False]\<rparr>) = (False, i, c')"
    by (simp add: sc_heartbeat_def ready_state_def presented_state_def created_state_def swapchain_new_def
        due_complete_id_def sc_reply_def Let_def)
  from failed_client_kills_server[OF c, of paced_server 0 "[created_state]"] show ?thesis
    by (auto simp: h_def paced_server_def slot_busy_def)
qed

end
