(* ===== verification/Ipc_Dispatcher.thy ===== *)
theory Ipc_Dispatcher
  imports Stream_Server "HOL-Library.Multiset"
begin

text \<open>
  The event loop of the server (\<open>ipc/listener.hpp\<close>, \<open>ipc/listener.cpp\<close>): listening sockets, connections
  with their handlers, cancellation, and one round of \<open>epoll\<close>.

  A \<open>Connection\<close> object is identified by its address, a number that the model never reuses.  A handler or a
  factory call may call back into the dispatcher; what it asks for is a list of commands that are carried
  out before it returns.  The handlers and the factory are parameters (a record of functions on a state
  \<open>'w\<close>).  The interest list of \<open>epoll\<close> is part of the state: removing a descriptor that is not in it fails.
  Dereferencing a connection that has been destroyed is the undefined outcome.
\<close>

section \<open>State\<close>

text \<open>\<open>SignalHandler\<close> is the one handler that is a sentinel; \<open>UserHandler\<close> is any other.\<close>

datatype 'h dhandler = SignalHandler | UserHandler 'h

definition is_sentinel_file_handle :: "'h dhandler \<Rightarrow> bool" where
  "is_sentinel_file_handle h \<longleftrightarrow> (case h of SignalHandler \<Rightarrow> True | UserHandler _ \<Rightarrow> False)"

record 'h connection =
  dc_ptr :: nat
  dc_fd :: int
  dc_remote :: remote_address
  dc_id :: u32
  dc_handler :: "'h dhandler option"

text \<open>
  \<open>d_poll\<close>: the \<open>epoll\<close> descriptor is valid; \<open>d_interest\<close>: the descriptors in its interest list;
  \<open>d_full\<close>: the kernel refuses new ones; \<open>d_destroyed\<close> and \<open>d_released\<close> record the destroyed connections
  and the calls of \<open>release_id\<close>; \<open>d_event_fd\<close> is the descriptor that \<open>kill\<close> writes.
\<close>

record 'h dispatcher =
  d_iface :: bool
  d_poll :: bool
  d_interest :: "int list"
  d_full :: bool
  d_connections :: "'h connection list"
  d_cancellations :: "'h connection list"
  d_next :: nat
  d_event_fd :: "int option"
  d_destroyed :: "nat list"
  d_released :: "('h dhandler \<times> u32) list"

datatype connection_type = ConnInput | ConnOutput | ConnInOut

datatype 'h command = AddConnection int 'h u32 connection_type | CancelConnection 'h u32

record ('h, 'w) handler_interface =
  hi_handle :: "'h \<Rightarrow> int \<Rightarrow> u32 \<Rightarrow> 'w \<Rightarrow> bool \<times> 'h command list \<times> 'w"
  hi_register :: "int \<Rightarrow> 'w \<Rightarrow> bool \<times> 'h option \<times> 'h command list \<times> 'w"
  hi_register_tcp :: "int \<Rightarrow> remote_address \<Rightarrow> 'w \<Rightarrow> bool \<times> 'h option \<times> 'h command list \<times> 'w"
  hi_udp :: "remote_address \<Rightarrow> byte list \<Rightarrow> 'w \<Rightarrow> 'h command list \<times> 'w"

section \<open>Construction\<close>

datatype listen_error =
    FailedDomainSocket | FailedBindSocket | FailedGetaddrinfo | FailedTcpSocket | FailedReuseaddr | FailedBind
  | FailedListen | FailedEpollCreate | FailedSignalfd | FailedEventfd | FailedEpollAdd | FailedTcpUdp

text \<open>
  \<open>Listener\<close>: the path is unlinked first when it names a socket.  The result is the descriptor, the path to
  unlink on destruction and whether the path was unlinked.
\<close>

definition S_IFMT :: nat where "S_IFMT = 61440"
definition S_IFSOCK :: nat where "S_IFSOCK = 49152"

definition listener_new :: "int \<Rightarrow> nat option \<Rightarrow> int \<Rightarrow> string \<Rightarrow> listen_error + (int \<times> string \<times> bool)" where
  "listener_new socket_fd stat_mode bind_ret name =
     (if socket_fd < 0 then Inl FailedDomainSocket
      else
        let rebind = (case stat_mode of None \<Rightarrow> False | Some mode \<Rightarrow> mode AND S_IFMT = S_IFSOCK) in
        if bind_ret < 0 then Inl FailedBindSocket else Inr (socket_fd, name, rebind))"

definition ip_listener_new :: "int \<Rightarrow> bool \<Rightarrow> int \<Rightarrow> int \<Rightarrow> int \<Rightarrow> listen_error + int" where
  "ip_listener_new gai_ret has_result socket_fd setsockopt_ret bind_ret =
     (if gai_ret < 0 \<or> \<not> has_result then Inl FailedGetaddrinfo
      else if socket_fd < 0 then Inl FailedTcpSocket
      else if setsockopt_ret < 0 then Inl FailedReuseaddr
      else if bind_ret < 0 then Inl FailedBind
      else Inr socket_fd)"

definition read_udp_datagram :: "(remote_address \<times> byte list) option \<Rightarrow> nat \<Rightarrow> (remote_address \<times> byte list) option" where
  "read_udp_datagram incoming sz = map_option (\<lambda>(r, b). (r, take sz b)) incoming"

definition epoll_add :: "int \<Rightarrow> 'h dispatcher \<Rightarrow> bool \<times> 'h dispatcher" where
  "epoll_add fd d =
     (if d_poll d \<and> \<not> d_full d \<and> fd \<notin> set (d_interest d)
      then (True, d\<lparr>d_interest := fd # d_interest d\<rparr>) else (False, d))"

definition epoll_del :: "int \<Rightarrow> 'h dispatcher \<Rightarrow> bool \<times> 'h dispatcher" where
  "epoll_del fd d =
     (if d_poll d \<and> fd \<in> set (d_interest d)
      then (True, d\<lparr>d_interest := filter (\<lambda>x. x \<noteq> fd) (d_interest d)\<rparr>) else (False, d))"

text \<open>
  The destructor of a connection; closing its descriptor takes it off the interest list.  The call of \<open>release_id\<close> is recorded, in
  the order of the calls; what it does to the handler is in the theory of that handler (\<open>sc_release_id\<close>, \<open>swapchain_release_id\<close>
  and the stream server's \<open>release_id\<close>), and none of the handlers calls the dispatcher from there.
\<close>

definition destroy_connection :: "'h connection \<Rightarrow> 'h dispatcher \<Rightarrow> 'h dispatcher" where
  "destroy_connection c d = d\<lparr>d_destroyed := dc_ptr c # d_destroyed d,
     d_released := (case dc_handler c of None \<Rightarrow> d_released d | Some h \<Rightarrow> d_released d @ [(h, dc_id c)]),
     d_interest := filter (\<lambda>x. x \<noteq> dc_fd c) (d_interest d)\<rparr>"

definition new_connection :: "int \<Rightarrow> remote_address \<Rightarrow> u32 \<Rightarrow> 'h dhandler option \<Rightarrow> 'h dispatcher \<Rightarrow> 'h connection \<times> 'h dispatcher" where
  "new_connection fd remote ident h d =
     (\<lparr>dc_ptr = d_next d, dc_fd = fd, dc_remote = remote, dc_id = ident, dc_handler = h\<rparr>, d\<lparr>d_next := Suc (d_next d)\<rparr>)"

text \<open>Register a new connection; the object is destroyed when the kernel refuses it.\<close>

definition insert_connection :: "int \<Rightarrow> remote_address \<Rightarrow> u32 \<Rightarrow> 'h dhandler option \<Rightarrow> 'h dispatcher \<Rightarrow> bool \<times> 'h dispatcher" where
  "insert_connection fd remote ident h d =
     (let (c, d) = new_connection fd remote ident h d; (ok, d) = epoll_add fd d in
      if ok then (True, d\<lparr>d_connections := d_connections d @ [c]\<rparr>)
      else (False, destroy_connection c d))"

definition dispatcher_empty :: "'h dispatcher" where
  "dispatcher_empty = \<lparr>d_iface = False, d_poll = False, d_interest = [], d_full = False, d_connections = [],
     d_cancellations = [], d_next = 0, d_event_fd = None, d_destroyed = [], d_released = []\<rparr>"

definition add_signalfd :: "int \<Rightarrow> 'h dispatcher \<Rightarrow> listen_error + 'h dispatcher" where
  "add_signalfd fd d =
     (if fd < 0 then Inl FailedSignalfd
      else let (ok, d) = insert_connection fd no_remote 0 (Some SignalHandler) d in
        if ok then Inr d else Inl FailedEpollAdd)"

definition add_eventfd :: "int \<Rightarrow> 'h dispatcher \<Rightarrow> listen_error + 'h dispatcher" where
  "add_eventfd fd d =
     (if fd < 0 then Inl FailedEventfd
      else let (ok, d) = insert_connection fd no_remote 0 (Some SignalHandler) (d\<lparr>d_event_fd := Some fd\<rparr>) in
        if ok then Inr d else Inl FailedEpollAdd)"

text \<open>The results of the system calls of the constructor.\<close>

record listen_env =
  le_listener :: "listen_error + (int \<times> string \<times> bool)"
  le_listen :: int
  le_epoll_fd :: int
  le_signal_fd :: int
  le_event_fd :: int
  le_port :: bool
  le_tcp :: "listen_error + int"
  le_udp :: "listen_error + int"
  le_listen_tcp :: int

definition watch :: "int \<Rightarrow> 'h dispatcher \<Rightarrow> listen_error + 'h dispatcher" where
  "watch fd d = (let (ok, d) = epoll_add fd d in if ok then Inr d else Inl FailedEpollAdd)"

definition dispatcher_ports :: "listen_env \<Rightarrow> 'h dispatcher \<Rightarrow> listen_error + 'h dispatcher" where
  "dispatcher_ports e d =
     (if \<not> le_port e then Inr d
      else case le_tcp e of
        Inl err \<Rightarrow> Inl err
      | Inr tcp \<Rightarrow>
          (case le_udp e of
             Inl err \<Rightarrow> Inl err
           | Inr udp \<Rightarrow>
               if tcp \<ge> 0 \<and> udp \<ge> 0 then
                 if le_listen_tcp e < 0 then Inl FailedListen
                 else (case watch tcp d of Inl err \<Rightarrow> Inl err | Inr d \<Rightarrow> watch udp d)
               else Inl FailedTcpUdp))"

definition dispatcher_new :: "listen_env \<Rightarrow> listen_error + 'h dispatcher" where
  "dispatcher_new e =
     (case le_listener e of
        Inl err \<Rightarrow> Inl err
      | Inr (lfd, path, rebound) \<Rightarrow>
          if le_listen e < 0 then Inl FailedListen
          else if le_epoll_fd e < 0 then Inl FailedEpollCreate
          else case add_signalfd (le_signal_fd e) (dispatcher_empty\<lparr>d_poll := True\<rparr>) of
              Inl err \<Rightarrow> Inl err
            | Inr d \<Rightarrow>
                (case add_eventfd (le_event_fd e) d of
                   Inl err \<Rightarrow> Inl err
                 | Inr d \<Rightarrow>
                     (case watch lfd d of Inl err \<Rightarrow> Inl err | Inr d \<Rightarrow> dispatcher_ports e d)))"

definition set_handler_factory_interface :: "'h dispatcher \<Rightarrow> 'h dispatcher" where
  "set_handler_factory_interface d = d\<lparr>d_iface := True\<rparr>"

text \<open>\<open>kill\<close> makes the event descriptor readable: the descriptor that becomes ready.\<close>

definition kill :: "'h dispatcher \<Rightarrow> int option" where
  "kill d = d_event_fd d"

section \<open>Connections\<close>

text \<open>The interest mask of a connection: input, output.\<close>

definition connection_mask :: "connection_type \<Rightarrow> bool \<times> bool" where
  "connection_mask t = (t \<noteq> ConnOutput, t \<noteq> ConnInput)"

definition add_connection :: "int \<Rightarrow> 'h \<Rightarrow> u32 \<Rightarrow> connection_type \<Rightarrow> 'h dispatcher \<Rightarrow> bool \<times> 'h dispatcher" where
  "add_connection fd h ident t d = insert_connection fd no_remote ident (Some (UserHandler h)) d"

text \<open>Move the last element into the place of element \<open>i\<close>, and shorten.\<close>

definition swap_remove :: "nat \<Rightarrow> 'a list \<Rightarrow> 'a list" where
  "swap_remove i xs = butlast (xs[i := List.last xs])"

fun find_index :: "('a \<Rightarrow> bool) \<Rightarrow> 'a list \<Rightarrow> nat option" where
  "find_index P [] = None"
| "find_index P (x # xs) = (if P x then Some 0 else map_option Suc (find_index P xs))"

definition cancel_connection :: "'h \<Rightarrow> u32 \<Rightarrow> 'h dispatcher \<Rightarrow> 'h dispatcher" where
  "cancel_connection h ident d =
     (case find_index (\<lambda>c. dc_handler c = Some (UserHandler h) \<and> dc_id c = ident) (d_connections d) of
        None \<Rightarrow> d
      | Some i \<Rightarrow> d\<lparr>d_cancellations := d_cancellations d @ [d_connections d ! i],
                    d_connections := swap_remove i (d_connections d)\<rparr>)"

fun run_command :: "'h command \<Rightarrow> 'h dispatcher \<Rightarrow> 'h dispatcher" where
  "run_command (AddConnection fd h ident t) d = snd (add_connection fd h ident t d)"
| "run_command (CancelConnection h ident) d = cancel_connection h ident d"

definition run_commands :: "'h command list \<Rightarrow> 'h dispatcher \<Rightarrow> 'h dispatcher" where
  "run_commands cs d = fold run_command cs d"

section \<open>UDP output\<close>

definition write_udp_datagram :: "byte list \<Rightarrow> byte list \<Rightarrow> byte list" where
  "write_udp_datagram header data = header @ data"

text \<open>
  Datagram \<open>i\<close> has the \<open>i\<close>-th slice of the headers and the \<open>i\<close>-th block of data.  \<open>sendmmsg\<close> is given all of
  them and returns how many it sent, or -1.
\<close>

definition udp_datagrams :: "nat \<Rightarrow> nat \<Rightarrow> byte list \<Rightarrow> byte list list \<Rightarrow> byte list list" where
  "udp_datagrams n header_size headers data =
     map (\<lambda>i. write_udp_datagram (take header_size (drop (header_size * i) headers)) (data ! i)) [0..<n]"

definition write_udp_datagrams ::
    "(byte list list \<Rightarrow> int) \<Rightarrow> nat \<Rightarrow> nat \<Rightarrow> byte list \<Rightarrow> byte list list \<Rightarrow> int \<times> byte list list" where
  "write_udp_datagrams sendmmsg n header_size headers data =
     (let ms = udp_datagrams n header_size headers data in (sendmmsg ms, take (nat (sendmmsg ms)) ms))"

section \<open>One round\<close>

text \<open>
  What a ready descriptor brings: a datagram, a descriptor from \<open>accept\<close> (with the peer for TCP), or activity
  on a connection, with or without hang-up.
\<close>

datatype ready_event =
    UdpReady "(remote_address \<times> byte list) option"
  | DomainReady int
  | TcpReady int remote_address
  | ConnReady nat bool

definition find_connection :: "nat \<Rightarrow> 'h dispatcher \<Rightarrow> 'h connection option" where
  "find_connection p d = List.find (\<lambda>c. dc_ptr c = p) (d_connections d @ d_cancellations d)"

definition set_handler :: "nat \<Rightarrow> 'h option \<Rightarrow> 'h dispatcher \<Rightarrow> 'h dispatcher" where
  "set_handler p h d =
     (let upd = map (\<lambda>c. if dc_ptr c = p then c\<lparr>dc_handler := map_option UserHandler h\<rparr> else c) in
      d\<lparr>d_connections := upd (d_connections d), d_cancellations := upd (d_cancellations d)\<rparr>)"

text \<open>Call the handler, or register one; the flag says that the connection is to be dropped.\<close>

definition serve_connection ::
    "('h, 'w) handler_interface \<Rightarrow> 'h connection \<Rightarrow> bool \<Rightarrow> 'h dispatcher \<Rightarrow> 'w \<Rightarrow> bool \<times> 'h dispatcher \<times> 'w" where
  "serve_connection hi c hup d w =
     (if hup then (True, d, w)
      else case dc_handler c of
        None \<Rightarrow>
          if \<not> d_iface d then (True, d, w)
          else
            let (ok, h, cmds, w) =
                  (if remote_valid (dc_remote c) then hi_register_tcp hi (dc_fd c) (dc_remote c) w
                   else hi_register hi (dc_fd c) w)
            in (\<not> ok, set_handler (dc_ptr c) h (run_commands cmds d), w)
      | Some SignalHandler \<Rightarrow> (True, d, w)
      | Some (UserHandler h) \<Rightarrow>
          let (ok, cmds, w) = hi_handle hi h (dc_fd c) (dc_id c) w in (\<not> ok, run_commands cmds d, w))"

text \<open>Drop a connection: whether the loop goes on.  A cancelled connection is not among the connections.\<close>

definition hang_up :: "nat \<Rightarrow> 'h dispatcher \<Rightarrow> (bool \<times> 'h dispatcher) outcome" where
  "hang_up p d = do {
     c \<leftarrow> find_connection p d;
     let (ok, d) = epoll_del (dc_fd c) d;
     if \<not> ok then Some (False, d)
     else do {
       let sentinel = (case dc_handler c of None \<Rightarrow> False | Some h \<Rightarrow> is_sentinel_file_handle h);
       let d = (if p \<in> set (map dc_ptr (d_connections d))
                then destroy_connection c (d\<lparr>d_connections := filter (\<lambda>x. dc_ptr x \<noteq> p) (d_connections d)\<rparr>) else d);
       Some (\<not> sentinel, d) } }"

fun dispatch_event ::
    "('h, 'w) handler_interface \<Rightarrow> ready_event \<Rightarrow> 'h dispatcher \<Rightarrow> 'w \<Rightarrow> (bool \<times> 'h dispatcher \<times> 'w) outcome" where
  "dispatch_event hi (UdpReady incoming) d w =
     (case read_udp_datagram incoming (64 * 1024) of
        Some (remote, b) \<Rightarrow>
          if b \<noteq> [] \<and> d_iface d then let (cmds, w) = hi_udp hi remote b w in Some (True, run_commands cmds d, w)
          else Some (True, d, w)
      | None \<Rightarrow> Some (True, d, w))"
| "dispatch_event hi (DomainReady fd) d w =
     (if fd < 0 then Some (True, d, w) else Some (True, snd (insert_connection fd no_remote 0 None d), w))"
| "dispatch_event hi (TcpReady fd remote) d w =
     (if fd < 0 then Some (True, d, w) else Some (True, snd (insert_connection fd remote 0 None d), w))"
| "dispatch_event hi (ConnReady p hup) d w = do {
     c \<leftarrow> find_connection p d;
     let (hangup, d, w) = serve_connection hi c hup d w;
     if hangup then do { (go_on, d) \<leftarrow> hang_up p d; Some (go_on, d, w) } else Some (True, d, w) }"

fun dispatch_events ::
    "('h, 'w) handler_interface \<Rightarrow> ready_event list \<Rightarrow> 'h dispatcher \<Rightarrow> 'w \<Rightarrow> (bool \<times> 'h dispatcher \<times> 'w) outcome" where
  "dispatch_events hi [] d w = Some (True, d, w)"
| "dispatch_events hi (e # es) d w = do {
     (go_on, d, w) \<leftarrow> dispatch_event hi e d w;
     if go_on then dispatch_events hi es d w else Some (False, d, w) }"

text \<open>The cancelled connections are destroyed at the end of the round.\<close>

fun clean_up :: "'h connection list \<Rightarrow> bool \<Rightarrow> 'h dispatcher \<Rightarrow> bool \<times> 'h dispatcher" where
  "clean_up [] sentinel d = (\<not> sentinel, d\<lparr>d_cancellations := []\<rparr>)"
| "clean_up (c # cs) sentinel d =
     (let (ok, d) = epoll_del (dc_fd c) d in
      if \<not> ok then (False, d\<lparr>d_cancellations := c # cs\<rparr>)
      else clean_up cs (sentinel \<or> (case dc_handler c of None \<Rightarrow> False | Some h \<Rightarrow> is_sentinel_file_handle h))
             (destroy_connection c d))"

text \<open>\<open>epoll_wait\<close> gives at most 64 events, or an error that is an interruption or not.\<close>

datatype poll_result = PollError bool | PollEvents "ready_event list"

definition iterate_inner ::
    "('h, 'w) handler_interface \<Rightarrow> poll_result \<Rightarrow> 'h dispatcher \<Rightarrow> 'w \<Rightarrow> (bool \<times> 'h dispatcher \<times> 'w) outcome" where
  "iterate_inner hi p d w =
     (if \<not> d_poll d then Some (False, d, w)
      else case p of
        PollError eintr \<Rightarrow> Some (eintr, d, w)
      | PollEvents es \<Rightarrow> do {
          (go_on, d, w) \<leftarrow> dispatch_events hi (take 64 es) d w;
          if \<not> go_on then Some (False, d, w)
          else let (r, d) = clean_up (d_cancellations d) False d in Some (r, d, w) })"

definition drop_all :: "'h dispatcher \<Rightarrow> 'h dispatcher" where
  "drop_all d =
     (fold destroy_connection (d_connections d @ d_cancellations d)
        (d\<lparr>d_poll := False, d_interest := [], d_connections := [], d_cancellations := []\<rparr>))"

definition disp_iterate ::
    "('h, 'w) handler_interface \<Rightarrow> poll_result \<Rightarrow> 'h dispatcher \<Rightarrow> 'w \<Rightarrow> (bool \<times> 'h dispatcher \<times> 'w) outcome" where
  "disp_iterate hi p d w = do {
     (r, d, w) \<leftarrow> iterate_inner hi p d w;
     Some (r, if r then d else drop_all d, w) }"

section \<open>The life of connections\<close>

text \<open>Every connection that was ever created is live exactly once or was destroyed exactly once.\<close>

definition live :: "'h dispatcher \<Rightarrow> nat list" where
  "live d = map dc_ptr (d_connections d @ d_cancellations d)"

definition disp_inv :: "'h dispatcher \<Rightarrow> bool" where
  "disp_inv d \<longleftrightarrow> mset (live d @ d_destroyed d) = mset [0..<d_next d]"

lemma disp_inv_distinct: "disp_inv d \<Longrightarrow> distinct (live d @ d_destroyed d)"
  unfolding disp_inv_def by (metis distinct_upt mset_eq_imp_distinct_iff)

lemma find_index_Some: "find_index P xs = Some i \<Longrightarrow> i < length xs \<and> P (xs ! i)"
  by (induction xs arbitrary: i) (auto split: if_splits)

lemma mset_swap_remove:
  assumes "i < length xs"
  shows "add_mset (xs ! i) (mset (swap_remove i xs)) = mset xs"
proof -
  obtain ys y where xs: "xs = ys @ [y]" using assms by (cases xs rule: rev_cases) auto
  show ?thesis
  proof (cases "i = length ys")
    case True
    then show ?thesis by (simp add: swap_remove_def xs)
  next
    case False
    then have i: "i < length ys" using assms by (simp add: xs)
    then have "mset (ys[i := y]) = add_mset y (mset ys - {#ys ! i#})" by (simp add: mset_update)
    moreover have "ys ! i \<in># mset ys" using i by simp
    ultimately show ?thesis using i by (simp add: swap_remove_def xs list_update_append nth_append)
  qed
qed

lemma epoll_frame [frame_simps]:
  "d_connections (snd (epoll_add fd d)) = d_connections d" "d_cancellations (snd (epoll_add fd d)) = d_cancellations d"
  "d_destroyed (snd (epoll_add fd d)) = d_destroyed d" "d_next (snd (epoll_add fd d)) = d_next d"
  "d_connections (snd (epoll_del fd d)) = d_connections d" "d_cancellations (snd (epoll_del fd d)) = d_cancellations d"
  "d_destroyed (snd (epoll_del fd d)) = d_destroyed d" "d_next (snd (epoll_del fd d)) = d_next d"
  by (simp_all add: epoll_add_def epoll_del_def)

lemma destroy_frame [frame_simps]:
  "d_connections (destroy_connection c d) = d_connections d" "d_cancellations (destroy_connection c d) = d_cancellations d"
  "d_destroyed (destroy_connection c d) = dc_ptr c # d_destroyed d" "d_next (destroy_connection c d) = d_next d"
  by (simp_all add: destroy_connection_def)

lemma epoll_inv: "disp_inv (snd (epoll_add fd d)) = disp_inv d" "disp_inv (snd (epoll_del fd d)) = disp_inv d"
  "live (snd (epoll_add fd d)) = live d" "live (snd (epoll_del fd d)) = live d"
  by (simp_all add: disp_inv_def live_def frame_simps)

lemma insert_connection_inv:
  "disp_inv d \<Longrightarrow> disp_inv (snd (insert_connection fd remote ident h d))
     \<and> set (live d) \<subseteq> set (live (snd (insert_connection fd remote ident h d)))"
  by (auto simp: insert_connection_def new_connection_def epoll_add_def disp_inv_def live_def destroy_connection_def
      atLeast0_lessThan_Suc)

lemma cancel_connection_inv:
  "mset (live (cancel_connection h ident d)) = mset (live d)
   \<and> d_destroyed (cancel_connection h ident d) = d_destroyed d \<and> d_next (cancel_connection h ident d) = d_next d"
proof (cases "find_index (\<lambda>c. dc_handler c = Some (UserHandler h) \<and> dc_id c = ident) (d_connections d)")
  case None
  then show ?thesis by (simp add: cancel_connection_def)
next
  case (Some i)
  then have "i < length (d_connections d)" using find_index_Some by metis
  from mset_swap_remove[OF this] have "mset (map dc_ptr (d_connections d))
      = add_mset (dc_ptr (d_connections d ! i)) (mset (map dc_ptr (swap_remove i (d_connections d))))"
    by (metis image_mset_add_mset mset_map)
  with Some show ?thesis by (simp add: cancel_connection_def live_def)
qed

lemma run_command_inv:
  "disp_inv d \<Longrightarrow> disp_inv (run_command x d) \<and> set (live d) \<subseteq> set (live (run_command x d))"
proof (cases x)
  case (AddConnection fd h ident t)
  then show "disp_inv d \<Longrightarrow> ?thesis" using insert_connection_inv by (simp add: add_connection_def)
next
  case (CancelConnection h ident)
  with cancel_connection_inv[of h ident d] show "disp_inv d \<Longrightarrow> ?thesis"
    by (simp add: disp_inv_def) (metis mset_eq_setD subset_refl)
qed

lemma run_commands_inv:
  "disp_inv d \<Longrightarrow> disp_inv (run_commands xs d) \<and> set (live d) \<subseteq> set (live (run_commands xs d))"
proof (induction xs arbitrary: d)
  case Nil
  then show ?case by (simp add: run_commands_def)
next
  case (Cons x xs)
  with run_command_inv[OF Cons.prems, of x] Cons.IH[of "run_command x d"] show ?case
    by (auto simp: run_commands_def)
qed

lemma set_handler_live [simp]:
  "live (set_handler p h d) = live d" "disp_inv (set_handler p h d) = disp_inv d"
  by (auto simp: set_handler_def live_def disp_inv_def Let_def comp_def if_distrib cong: if_cong)

lemma serve_connection_inv:
  assumes "disp_inv d" "serve_connection hi c hup d w = (b, d', w')"
  shows "disp_inv d' \<and> set (live d) \<subseteq> set (live d')"
proof -
  have "\<exists>xs h. d' = d \<or> d' = run_commands xs d \<or> d' = set_handler (dc_ptr c) h (run_commands xs d)"
    using assms(2)
    by (auto simp: serve_connection_def Let_def split: if_splits option.splits dhandler.splits prod.splits)
  then show ?thesis using run_commands_inv[OF assms(1)] assms(1) by (elim exE disjE) simp_all
qed

lemma find_connection_live:
  "p \<in> set (live d) \<longleftrightarrow> (\<exists>c. find_connection p d = Some c \<and> dc_ptr c = p)"
proof
  assume "p \<in> set (live d)"
  then have "\<exists>c \<in> set (d_connections d @ d_cancellations d). dc_ptr c = p" by (auto simp: live_def)
  then have "find_connection p d \<noteq> None" unfolding find_connection_def find_None_iff by blast
  then show "\<exists>c. find_connection p d = Some c \<and> dc_ptr c = p"
    by (auto simp: find_connection_def find_Some_iff)
next
  assume "\<exists>c. find_connection p d = Some c \<and> dc_ptr c = p"
  then obtain i where "i < length (d_connections d @ d_cancellations d)"
    "dc_ptr ((d_connections d @ d_cancellations d) ! i) = p" by (auto simp: find_connection_def find_Some_iff)
  then show "p \<in> set (live d)" unfolding live_def by (metis length_map nth_map nth_mem)
qed

lemma remove_connection:
  assumes "disp_inv d" "p \<in> set (map dc_ptr (d_connections d))"
  shows "add_mset p (mset (map dc_ptr (filter (\<lambda>x. dc_ptr x \<noteq> p) (d_connections d)))) = mset (map dc_ptr (d_connections d))"
proof -
  have "distinct (map dc_ptr (d_connections d))" using disp_inv_distinct[OF assms(1)] by (simp add: live_def)
  then show ?thesis using assms(2)
  proof (induction "d_connections d" arbitrary: d)
    case Nil
    then show ?case by simp
  next
    case (Cons c cs)
    have eq: "d_connections d = c # cs" using Cons.hyps(2) by simp
    have IH: "distinct (map dc_ptr cs) \<Longrightarrow> p \<in> set (map dc_ptr cs) \<Longrightarrow>
        add_mset p (mset (map dc_ptr (filter (\<lambda>x. dc_ptr x \<noteq> p) cs))) = mset (map dc_ptr cs)"
      using Cons.hyps(1)[of "d\<lparr>d_connections := cs\<rparr>"] by simp
    show ?case
    proof (cases "dc_ptr c = p")
      case True
      then have "filter (\<lambda>x. dc_ptr x \<noteq> p) cs = cs"
        using Cons.prems(1) by (auto simp: eq filter_id_conv image_iff)
      with True show ?thesis by (simp add: eq)
    next
      case False
      with IH Cons.prems show ?thesis by (simp add: eq add_mset_commute)
    qed
  qed
qed

lemma hang_up_inv:
  assumes inv: "disp_inv d" and p: "p \<in> set (live d)"
  shows "\<exists>b d'. hang_up p d = Some (b, d') \<and> disp_inv d' \<and> set (live d) - {p} \<subseteq> set (live d')"
proof -
  obtain c where c: "find_connection p d = Some c" "dc_ptr c = p" using p by (auto simp: find_connection_live)
  obtain ok d1 where e: "epoll_del (dc_fd c) d = (ok, d1)" by (cases "epoll_del (dc_fd c) d")
  have d1: "disp_inv d1" "live d1 = live d" using epoll_inv(2,4)[of "dc_fd c" d] inv by (simp_all add: e)
  show ?thesis
  proof (cases "ok \<and> p \<in> set (map dc_ptr (d_connections d1))")
    case False
    with c e d1 show ?thesis by (auto simp: hang_up_def Let_def)
  next
    case True
    define d2 where "d2 = destroy_connection c (d1\<lparr>d_connections := filter (\<lambda>x. dc_ptr x \<noteq> p) (d_connections d1)\<rparr>)"
    define rest where "rest = mset (map dc_ptr (filter (\<lambda>x. dc_ptr x \<noteq> p) (d_connections d1)))"
    have rm: "mset (map dc_ptr (d_connections d1)) = add_mset p rest"
      using remove_connection[OF d1(1), of p] True by (simp add: rest_def)
    have l2: "mset (live d2 @ d_destroyed d2) = rest + mset (map dc_ptr (d_cancellations d1)) + add_mset p (mset (d_destroyed d1))"
      by (simp add: live_def d2_def destroy_frame rest_def c(2))
    have "mset (live d1 @ d_destroyed d1) = add_mset p rest + mset (map dc_ptr (d_cancellations d1)) + mset (d_destroyed d1)"
      by (simp only: live_def map_append mset_append rm)
    then have "mset (live d2 @ d_destroyed d2) = mset (live d1 @ d_destroyed d1)" unfolding l2 by simp
    moreover have "d_next d2 = d_next d1" by (simp add: d2_def destroy_frame)
    ultimately have "disp_inv d2" using d1(1) unfolding disp_inv_def by presburger
    moreover have "set (live d) - {p} \<subseteq> set (live d2)"
      unfolding d1(2)[symmetric] by (auto simp: live_def d2_def frame_simps)
    ultimately show ?thesis using True c e by (auto simp: hang_up_def Let_def d2_def)
  qed
qed

fun event_ptr :: "ready_event \<Rightarrow> nat list" where
  "event_ptr (ConnReady p hup) = [p]"
| "event_ptr _ = []"

definition event_ptrs :: "ready_event list \<Rightarrow> nat list" where
  "event_ptrs es = concat (map event_ptr es)"

lemma dispatch_event_inv:
  assumes inv: "disp_inv d" and p: "set (event_ptr e) \<subseteq> set (live d)"
  shows "\<exists>b d' w'. dispatch_event hi e d w = Some (b, d', w') \<and> disp_inv d'
    \<and> set (live d) - set (event_ptr e) \<subseteq> set (live d')"
proof (cases e)
  case (UdpReady incoming)
  with inv run_commands_inv[OF inv] show ?thesis by (fastforce split: option.splits prod.splits if_splits)
next
  case (DomainReady fd)
  with inv insert_connection_inv[OF inv] show ?thesis by auto
next
  case (TcpReady fd remote)
  with inv insert_connection_inv[OF inv] show ?thesis by auto
next
  case (ConnReady q hup)
  then have "q \<in> set (live d)" using p by simp
  then obtain c where c: "find_connection q d = Some c" by (auto simp: find_connection_live)
  obtain b d1 w1 where s: "serve_connection hi c hup d w = (b, d1, w1)" by (metis prod_cases3)
  note d1 = serve_connection_inv[OF inv s]
  have q1: "q \<in> set (live d1)" using d1 \<open>q \<in> set (live d)\<close> by blast
  from hang_up_inv[OF _ q1] d1 c s ConnReady show ?thesis by (cases b) fastforce+
qed

lemma dispatch_events_inv:
  assumes "disp_inv d" "distinct (event_ptrs es)" "set (event_ptrs es) \<subseteq> set (live d)"
  shows "\<exists>b d' w'. dispatch_events hi es d w = Some (b, d', w') \<and> disp_inv d'"
  using assms
proof (induction es arbitrary: d w)
  case Nil
  then show ?case by auto
next
  case (Cons e es)
  from Cons.prems(3) have "set (event_ptr e) \<subseteq> set (live d)" by (simp add: event_ptrs_def)
  from dispatch_event_inv[OF Cons.prems(1) this, of hi w] obtain b d1 w1 where
    e: "dispatch_event hi e d w = Some (b, d1, w1)" "disp_inv d1" "set (live d) - set (event_ptr e) \<subseteq> set (live d1)" by blast
  have "set (event_ptrs es) \<subseteq> set (live d1)"
    using e(3) Cons.prems(2,3) by (auto simp: event_ptrs_def) blast
  moreover have "distinct (event_ptrs es)" using Cons.prems(2) by (simp add: event_ptrs_def)
  ultimately show ?case using Cons.IH[OF e(2), of w1] e(1,2) by (cases b) auto
qed

lemma clean_up_inv:
  "disp_inv (d\<lparr>d_cancellations := cs\<rparr>) \<Longrightarrow> disp_inv (snd (clean_up cs sentinel d))"
proof (induction cs arbitrary: sentinel d)
  case Nil
  then show ?case by simp
next
  case (Cons c cs)
  obtain ok d1 where e: "epoll_del (dc_fd c) d = (ok, d1)" by (cases "epoll_del (dc_fd c) d")
  have d1: "d_connections d1 = d_connections d" "d_destroyed d1 = d_destroyed d" "d_next d1 = d_next d"
    using frame_simps(5,7,8)[of "dc_fd c" d] by (simp_all add: e epoll_frame)
  have "disp_inv (d1\<lparr>d_cancellations := c # cs\<rparr>)"
    using Cons.prems by (simp add: disp_inv_def live_def d1)
  moreover have "disp_inv ((destroy_connection c d1)\<lparr>d_cancellations := cs\<rparr>)"
    using Cons.prems by (simp add: disp_inv_def live_def d1 destroy_frame)
  ultimately show ?case using Cons.IH by (simp add: e Let_def)
qed

lemma clean_up_removes: "fst (clean_up cs sentinel d) \<Longrightarrow> d_cancellations (snd (clean_up cs sentinel d)) = []"
  by (induction cs arbitrary: sentinel d) (auto simp: Let_def split: prod.splits if_splits)

lemma fold_destroy:
  "d_destroyed (fold destroy_connection cs d) = rev (map dc_ptr cs) @ d_destroyed d"
  "d_connections (fold destroy_connection cs d) = d_connections d"
  "d_cancellations (fold destroy_connection cs d) = d_cancellations d"
  "d_next (fold destroy_connection cs d) = d_next d" "d_poll (fold destroy_connection cs d) = d_poll d"
  by (induction cs arbitrary: d) (simp_all add: destroy_connection_def)

lemma drop_all_inv: "disp_inv d \<Longrightarrow> disp_inv (drop_all d) \<and> live (drop_all d) = [] \<and> \<not> d_poll (drop_all d)"
  by (simp add: drop_all_def disp_inv_def live_def fold_destroy ac_simps)

lemma iterate_inner_inv:
  assumes "disp_inv d" "distinct (event_ptrs es)" "set (event_ptrs es) \<subseteq> set (live d)" "length es \<le> 64"
  shows "\<exists>b d' w'. iterate_inner hi (PollEvents es) d w = Some (b, d', w') \<and> disp_inv d'
    \<and> (b \<longrightarrow> d_cancellations d' = [])"
proof -
  from dispatch_events_inv[OF assms(1-3), of hi w] obtain b d1 w1 where
    e: "dispatch_events hi es d w = Some (b, d1, w1)" "disp_inv d1" by blast
  have "disp_inv (d1\<lparr>d_cancellations := d_cancellations d1\<rparr>)" using e(2) by simp
  from clean_up_inv[OF this, of False] clean_up_removes[of "d_cancellations d1" False d1]
  show ?thesis
    using e assms(1,4)
    by (cases "d_poll d"; cases b; cases "clean_up (d_cancellations d1) False d1") (auto simp: iterate_inner_def Let_def)
qed

text \<open>
  C21. A round of the event loop never touches a destroyed connection and never destroys one twice, whatever
  the handlers do and whichever connections they cancel: with at most one event per connection and events
  only for live connections (what \<open>epoll_wait\<close> delivers), the round has a result, and every connection ever
  created is then either live or destroyed, exactly once.  A round that does not end the loop leaves no
  cancelled connection behind; one that does destroys every connection.
\<close>

theorem dispatcher_no_dangling:
  assumes "disp_inv d" "distinct (event_ptrs es)" "set (event_ptrs es) \<subseteq> set (live d)" "length es \<le> 64"
  shows "\<exists>b d' w'. disp_iterate hi (PollEvents es) d w = Some (b, d', w')
    \<and> mset (live d' @ d_destroyed d') = mset [0..<d_next d']
    \<and> (if b then d_cancellations d' = [] else live d' = [] \<and> \<not> d_poll d')"
proof -
  from iterate_inner_inv[OF assms, of hi w] obtain b d1 w1 where
    i: "iterate_inner hi (PollEvents es) d w = Some (b, d1, w1)" "disp_inv d1" "b \<longrightarrow> d_cancellations d1 = []" by blast
  have "disp_iterate hi (PollEvents es) d w = Some (b, if b then d1 else drop_all d1, w1)"
    by (simp add: disp_iterate_def i(1))
  with i(2,3) drop_all_inv[OF i(2)] show ?thesis
    unfolding disp_inv_def by (intro exI[of _ b] exI[of _ "if b then d1 else drop_all d1"] exI[of _ w1]) auto
qed

section \<open>A small server\<close>

text \<open>
  The two sentinels, and a stream connection (handler 7) with its socket as identifier 0 and its timer as
  identifier 1.  The handler does what \<open>PyroStreamConnection::handle\<close> does when the timer fires: it cancels
  the socket and gives up the timer.
\<close>

definition stream_iface :: "(nat, unit) handler_interface" where
  "stream_iface = \<lparr>hi_handle = (\<lambda>h fd ident w. if ident = 1 then (False, [CancelConnection h 0], w) else (True, [], w)),
     hi_register = (\<lambda>fd w. (False, None, [], w)), hi_register_tcp = (\<lambda>fd r w. (False, None, [], w)),
     hi_udp = (\<lambda>r b w. ([], w))\<rparr>"

definition small_connection :: "nat \<Rightarrow> int \<Rightarrow> u32 \<Rightarrow> nat dhandler \<Rightarrow> nat connection" where
  "small_connection p fd ident h =
     \<lparr>dc_ptr = p, dc_fd = fd, dc_remote = no_remote, dc_id = ident, dc_handler = Some h\<rparr>"

definition small_server :: "nat dispatcher" where
  "small_server = \<lparr>d_iface = True, d_poll = True, d_interest = [3, 4, 10, 11], d_full = False,
     d_connections = [small_connection 0 3 0 SignalHandler, small_connection 1 4 0 SignalHandler,
       small_connection 2 10 0 (UserHandler 7), small_connection 3 11 1 (UserHandler 7)],
     d_cancellations = [], d_next = 4, d_event_fd = Some 4, d_destroyed = [], d_released = []\<rparr>"

lemmas dispatch_eval =
  disp_iterate_def iterate_inner_def find_connection_def serve_connection_def hang_up_def run_commands_def
  cancel_connection_def swap_remove_def epoll_del_def destroy_connection_def is_sentinel_file_handle_def
  stream_iface_def small_server_def small_connection_def drop_all_def

lemma small_server_inv: "disp_inv small_server" "live small_server = [0, 1, 2, 3]"
proof -
  show l: "live small_server = [0, 1, 2, 3]" by (simp add: live_def small_server_def small_connection_def)
  have "[0..<d_next small_server] = [0, 1, 2, 3]" by (simp add: small_server_def upt_rec)
  then show "disp_inv small_server" unfolding disp_inv_def l by (simp add: small_server_def)
qed

lemma dispatcher_no_dangling_witness:
  "\<exists>b d' w'. disp_iterate stream_iface (PollEvents [ConnReady 3 False, ConnReady 2 True]) small_server () = Some (b, d', w')
    \<and> mset (live d' @ d_destroyed d') = mset [0..<d_next d']
    \<and> (if b then d_cancellations d' = [] else live d' = [] \<and> \<not> d_poll d')"
  by (rule dispatcher_no_dangling[OF small_server_inv(1)]) (simp_all add: small_server_inv(2) event_ptrs_def)

text \<open>On that server the timer alone ends only its own stream connection, and the loop goes on.\<close>

lemma timer_alone_goes_on:
  "map_option (\<lambda>(b, d, w). (b, live d)) (disp_iterate stream_iface (PollEvents [ConnReady 3 False]) small_server ()) = Some (True, [0, 1])"
  by (simp add: dispatch_eval live_def)

section \<open>Rounds that end the loop\<close>

text \<open>All the connections, cancelled or not.\<close>

abbreviation all_conns :: "'h dispatcher \<Rightarrow> 'h connection list" where
  "all_conns d \<equiv> d_connections d @ d_cancellations d"

lemma find_connection_in: "find_connection p d = Some c \<Longrightarrow> c \<in> set (all_conns d) \<and> dc_ptr c = p"
  unfolding find_connection_def find_Some_iff by (metis nth_mem)

lemma find_connection_unique:
  assumes "disp_inv d" "c \<in> set (all_conns d)"
  shows "find_connection (dc_ptr c) d = Some c"
proof -
  have "distinct (map dc_ptr (all_conns d))" using disp_inv_distinct[OF assms(1)] unfolding live_def distinct_append by blast
  then have inj: "inj_on dc_ptr (set (all_conns d))" by (simp only: distinct_map)
  have "dc_ptr c \<in> set (live d)" using assms(2) by (auto simp: live_def)
  then obtain x where x: "find_connection (dc_ptr c) d = Some x" "dc_ptr x = dc_ptr c" using find_connection_live by blast
  then have "x \<in> set (all_conns d)" using find_connection_in by blast
  with inj_onD[OF inj x(2) _ assms(2)] x(1) show ?thesis by simp
qed

lemma drop_all_ends:
  assumes "disp_inv d"
  shows "mset (d_destroyed (drop_all d)) = mset [0..<d_next (drop_all d)]" "live (drop_all d) = []"
    "disp_iterate hi q (drop_all d) v = Some (False, drop_all d, v)"
proof -
  have i: "disp_inv (drop_all d)" "live (drop_all d) = []" "\<not> d_poll (drop_all d)" using drop_all_inv[OF assms] by simp_all
  then show "mset (d_destroyed (drop_all d)) = mset [0..<d_next (drop_all d)]" "live (drop_all d) = []" by (simp_all add: disp_inv_def)
  have "d_interest (fold destroy_connection cs x) = []" if "d_interest x = []" for cs and x :: "'a dispatcher"
    using that by (induction cs arbitrary: x) (simp_all add: destroy_connection_def)
  then have "d_interest (drop_all d) = []" by (simp add: drop_all_def)
  then have "drop_all (drop_all d) = drop_all d" using i(2,3) by (simp add: drop_all_def[of "drop_all d"] live_def)
  then show "disp_iterate hi q (drop_all d) v = Some (False, drop_all d, v)"
    using i(3) by (simp add: disp_iterate_def iterate_inner_def)
qed

text \<open>A sentinel keeps its connection until its own event: no handler can cancel it or take its place.\<close>

definition sentinel_at :: "nat \<Rightarrow> 'h dispatcher \<Rightarrow> bool" where
  "sentinel_at p d \<longleftrightarrow> (\<exists>c \<in> set (all_conns d). dc_ptr c = p \<and> dc_handler c = Some SignalHandler)"

lemma cancel_connection_set: "set (all_conns (cancel_connection h ident d)) = set (all_conns d)"
proof (cases "find_index (\<lambda>c. dc_handler c = Some (UserHandler h) \<and> dc_id c = ident) (d_connections d)")
  case (Some i)
  then have "i < length (d_connections d)" using find_index_Some by metis
  from arg_cong[OF mset_swap_remove[OF this], of set_mset] Some show ?thesis by (auto simp: cancel_connection_def)
qed (simp add: cancel_connection_def)

lemma insert_connection_set: "set (all_conns d) \<subseteq> set (all_conns (snd (insert_connection fd remote ident h d)))"
  by (auto simp: insert_connection_def new_connection_def epoll_add_def destroy_connection_def)

lemma run_commands_set: "set (all_conns d) \<subseteq> set (all_conns (run_commands xs d))"
proof (induction xs arbitrary: d)
  case (Cons x xs)
  have "set (all_conns d) \<subseteq> set (all_conns (run_command x d))"
    by (cases x) (simp_all only: run_command.simps add_connection_def insert_connection_set cancel_connection_set subset_refl)
  with Cons.IH[of "run_command x d"] show ?case by (auto simp: run_commands_def)
qed (simp add: run_commands_def)

lemma sentinel_mono: "set (all_conns d) \<subseteq> set (all_conns d') \<Longrightarrow> sentinel_at p d \<Longrightarrow> sentinel_at p d'"
  by (auto simp: sentinel_at_def)

lemma sentinel_set_handler: "p \<noteq> q \<Longrightarrow> sentinel_at p d \<Longrightarrow> sentinel_at p (set_handler q h d)"
  by (auto simp: sentinel_at_def set_handler_def Let_def)

lemma serve_connection_sentinel:
  assumes "serve_connection hi c hup d w = (b, d', w')" "sentinel_at p d" "dc_ptr c \<noteq> p"
  shows "sentinel_at p d'"
proof -
  have "\<exists>xs h. d' = d \<or> d' = run_commands xs d \<or> d' = set_handler (dc_ptr c) h (run_commands xs d)"
    using assms(1)
    by (auto simp: serve_connection_def Let_def split: if_splits option.splits dhandler.splits prod.splits)
  with assms(2,3) show ?thesis using sentinel_mono[OF run_commands_set] sentinel_set_handler by metis
qed

lemma hang_up_sentinel:
  assumes "hang_up q d = Some (b, d')" "sentinel_at p d" "q \<noteq> p"
  shows "sentinel_at p d'"
  using assms by (auto simp: hang_up_def Let_def sentinel_at_def epoll_del_def destroy_connection_def split: if_splits bind_splits prod.splits)

lemma dispatch_event_sentinel:
  assumes "dispatch_event hi e d w = Some (b, d', w')" "sentinel_at p d" "p \<notin> set (event_ptr e)"
  shows "sentinel_at p d'"
proof (cases e)
  case (ConnReady q hup)
  with assms(1) obtain c b1 d1 w1 where c: "find_connection q d = Some c" and s: "serve_connection hi c hup d w = (b1, d1, w1)"
    and r: "if b1 then \<exists>g. hang_up q d1 = Some (g, d') else d' = d1"
    by (auto split: bind_splits prod.splits if_splits)
  have q: "dc_ptr c = q" "q \<noteq> p" using c assms(3) ConnReady by (auto simp: find_connection_def find_Some_iff)
  with serve_connection_sentinel[OF s assms(2)] hang_up_sentinel[of q d1 _ d' p] r show ?thesis by (auto split: if_splits)
qed (use assms(1,2) sentinel_mono[OF run_commands_set] sentinel_mono[OF insert_connection_set] in
    \<open>auto split: option.splits prod.splits if_splits\<close>)

lemma sentinel_event:
  assumes "disp_inv d" "sentinel_at p d"
  shows "\<exists>d'. dispatch_event hi (ConnReady p hup) d w = Some (False, d', w)"
proof -
  obtain c where c: "find_connection p d = Some c" "dc_handler c = Some SignalHandler"
    using assms find_connection_unique by (auto simp: sentinel_at_def)
  then have "serve_connection hi c hup d w = (True, d, w)" by (simp add: serve_connection_def)
  moreover have "\<exists>d1. hang_up p d = Some (False, d1)"
    using c by (cases "epoll_del (dc_fd c) d") (simp add: hang_up_def Let_def is_sentinel_file_handle_def)
  ultimately show ?thesis using c(1) by auto
qed

lemma sentinel_events:
  assumes "disp_inv d" "distinct (event_ptrs es)" "set (event_ptrs es) \<subseteq> set (live d)" "sentinel_at p d" "p \<in> set (event_ptrs es)"
  shows "\<exists>d' w'. dispatch_events hi es d w = Some (False, d', w')"
  using assms
proof (induction es arbitrary: d w)
  case (Cons e es)
  show ?case
  proof (cases "p \<in> set (event_ptr e)")
    case True
    then obtain hup where "e = ConnReady p hup" by (cases e) auto
    with sentinel_event[OF Cons.prems(1,4), of hi hup w] show ?thesis by (auto simp del: dispatch_event.simps)
  next
    case False
    from Cons.prems(3) have "set (event_ptr e) \<subseteq> set (live d)" by (simp add: event_ptrs_def)
    from dispatch_event_inv[OF Cons.prems(1) this, of hi w] obtain b d1 w1 where
      e: "dispatch_event hi e d w = Some (b, d1, w1)" "disp_inv d1" "set (live d) - set (event_ptr e) \<subseteq> set (live d1)" by blast
    have "set (event_ptrs es) \<subseteq> set (live d1)" "distinct (event_ptrs es)" "p \<in> set (event_ptrs es)"
      using e(3) Cons.prems(2,3,5) False by (auto simp: event_ptrs_def) blast
    with Cons.IH[OF e(2), of w1] dispatch_event_sentinel[OF e(1) Cons.prems(4) False] e(1) show ?thesis by (cases b) auto
  qed
qed (simp add: event_ptrs_def)

text \<open>
  C30. Ending the loop: when a sentinel (the signal or the event descriptor that \<open>kill\<close> writes) is among the ready descriptors of a
  round, wherever it stands and whatever the handlers of the others do, the round ends the loop, every connection that was ever
  created has then been destroyed exactly once, and every later round returns false at once and changes nothing.
\<close>

theorem sentinel_ends_loop:
  assumes "disp_inv d" "d_poll d" "distinct (event_ptrs es)" "set (event_ptrs es) \<subseteq> set (live d)" "length es \<le> 64"
    "p \<in> set (event_ptrs es)" "find_connection p d = Some c" "dc_handler c = Some SignalHandler"
  shows "\<exists>d' w'. disp_iterate hi (PollEvents es) d w = Some (False, d', w')
    \<and> live d' = [] \<and> mset (d_destroyed d') = mset [0..<d_next d']
    \<and> (\<forall>q v. disp_iterate hi q d' v = Some (False, d', v))"
proof -
  have "sentinel_at p d" unfolding sentinel_at_def using find_connection_in[OF assms(7)] assms(8) by blast
  from sentinel_events[OF assms(1,3,4) this assms(6), of hi w] obtain d1 w1 where
    e: "dispatch_events hi es d w = Some (False, d1, w1)" by blast
  have inv: "disp_inv d1" using dispatch_events_inv[OF assms(1,3,4), of hi w] e by auto
  have "disp_iterate hi (PollEvents es) d w = Some (False, drop_all d1, w1)"
    using e assms(2,5) by (simp add: disp_iterate_def iterate_inner_def)
  with drop_all_ends(1,2)[OF inv] drop_all_ends(3)[OF inv, of hi] show ?thesis by (intro exI[of _ "drop_all d1"] exI[of _ w1]) auto
qed

lemma sentinel_ends_loop_witness:
  "\<exists>d' w'. disp_iterate stream_iface (PollEvents [ConnReady 3 False, ConnReady 1 False]) small_server () = Some (False, d', w')
    \<and> live d' = [] \<and> mset (d_destroyed d') = mset [0..<d_next d']"
proof -
  have "find_connection 1 small_server = Some (small_connection 1 4 0 SignalHandler)"
    by (simp add: find_connection_def small_server_def small_connection_def)
  moreover have "d_poll small_server" by (simp add: small_server_def)
  ultimately show ?thesis
    using sentinel_ends_loop[OF small_server_inv(1), where es = "[ConnReady 3 False, ConnReady 1 False]" and p = 1
        and c = "small_connection 1 4 0 SignalHandler" and hi = stream_iface and w = "()"]
    by (auto simp: small_server_inv(2) event_ptrs_def small_connection_def)
qed

text \<open>Hang-ups never put a descriptor back on the interest list and never take back a cancellation.\<close>

lemma hang_up_event:
  assumes "dispatch_event hi (ConnReady q True) d w = Some (b, d', w')"
  shows "w' = w" "d_cancellations d' = d_cancellations d" "set (d_interest d') \<subseteq> set (d_interest d)"
    "b \<and> find_connection q d = Some c \<Longrightarrow> dc_fd c \<notin> set (d_interest d')"
  using assms
  by (auto simp: serve_connection_def hang_up_def Let_def epoll_del_def destroy_connection_def split: bind_splits prod.splits if_splits)

lemma hang_up_events:
  assumes "disp_inv d" "distinct qs" "set qs \<subseteq> set (live d)" "c \<in> set (d_cancellations d)"
    "dc_ptr c \<in> set qs \<or> dc_fd c \<notin> set (d_interest d)"
    "dispatch_events hi (map (\<lambda>q. ConnReady q True) qs) d w = Some (b, d', w')"
  shows "w' = w \<and> (b \<longrightarrow> c \<in> set (d_cancellations d') \<and> dc_fd c \<notin> set (d_interest d'))"
  using assms
proof (induction qs arbitrary: d)
  case (Cons q qs)
  have "set (event_ptr (ConnReady q True)) \<subseteq> set (live d)" using Cons.prems(3) by simp
  from dispatch_event_inv[OF Cons.prems(1) this, of hi w] obtain b1 d1 w1 where
    e: "dispatch_event hi (ConnReady q True) d w = Some (b1, d1, w1)" "disp_inv d1" "set (live d) - {q} \<subseteq> set (live d1)" by auto
  note h = hang_up_event[OF e(1)]
  show ?case
  proof (cases b1)
    case True
    have "dc_ptr c \<in> set qs \<or> dc_fd c \<notin> set (d_interest d1)"
    proof (cases "q = dc_ptr c")
      case True
      then have "find_connection q d = Some c" using find_connection_unique[OF Cons.prems(1), of c] Cons.prems(4) by simp
      with h(4) \<open>b1\<close> show ?thesis by blast
    qed (use h(3) Cons.prems(5) in auto)
    moreover have "distinct qs" "set qs \<subseteq> set (live d1)" using Cons.prems(2,3) e(3) by auto
    moreover have "c \<in> set (d_cancellations d1)" using Cons.prems(4) h(2) by simp
    moreover have "dispatch_events hi (map (\<lambda>q. ConnReady q True) qs) d1 w = Some (b, d', w')"
      using Cons.prems(6) e(1) h(1) True by (simp del: dispatch_event.simps)
    ultimately show ?thesis using Cons.IH[OF e(2)] by blast
  qed (use Cons.prems(6) e(1) h(1) in \<open>simp del: dispatch_event.simps\<close>)
qed simp

text \<open>The end of the round fails on a cancelled connection whose descriptor has left the interest list.\<close>

lemma clean_up_fails: "c \<in> set cs \<Longrightarrow> dc_fd c \<notin> set (d_interest d) \<Longrightarrow> \<not> fst (clean_up cs sentinel d)"
  by (induction cs arbitrary: sentinel d) (auto simp: Let_def epoll_del_def destroy_connection_def)

lemma cancel_connection_cancels:
  assumes "c \<in> set (d_connections d)" "dc_handler c = Some (UserHandler h)"
    "\<And>x. x \<in> set (d_connections d) \<Longrightarrow> dc_handler x = Some (UserHandler h) \<Longrightarrow> dc_id x = dc_id c \<Longrightarrow> x = c"
  shows "c \<in> set (d_cancellations (cancel_connection h (dc_id c) d))"
proof -
  have "find_index P xs \<noteq> None" if "x \<in> set xs" "P x" for P and x :: "'a connection" and xs
    using that by (induction xs) auto
  from this[OF assms(1), of "\<lambda>x. dc_handler x = Some (UserHandler h) \<and> dc_id x = dc_id c"] assms(2)
  obtain i where i: "find_index (\<lambda>x. dc_handler x = Some (UserHandler h) \<and> dc_id x = dc_id c) (d_connections d) = Some i" by auto
  from find_index_Some[OF i] have "d_connections d ! i = c" using assms(3) by simp
  with i show ?thesis by (simp add: cancel_connection_def)
qed

text \<open>
  C37. A hang-up of a cancelled connection stops the server: when a handler gives up one of its connections (the timer of a stream
  connection) and cancels another one (its socket), and that one reports a hang-up later in the same round, among hang-ups
  of any others, the socket leaves the interest list twice, the second attempt fails, and the event loop ends with every
  connection of the server destroyed.
\<close>

theorem cancelled_hangup_stops_server:
  assumes "disp_inv d" "d_poll d" "t \<in> set (d_connections d)" "dc_handler t = Some (UserHandler h)"
    "c \<in> set (d_connections d)" "dc_handler c = Some (UserHandler h)" "dc_ptr t \<noteq> dc_ptr c"
    "\<And>x. x \<in> set (d_connections d) \<Longrightarrow> dc_handler x = Some (UserHandler h) \<Longrightarrow> dc_id x = dc_id c \<Longrightarrow> x = c"
    "hi_handle hi h (dc_fd t) (dc_id t) w = (False, [CancelConnection h (dc_id c)], w')"
    "distinct (dc_ptr t # qs)" "set qs \<subseteq> set (live d)" "dc_ptr c \<in> set qs" "length qs < 64"
  shows "\<exists>d'. disp_iterate hi (PollEvents (ConnReady (dc_ptr t) False # map (\<lambda>q. ConnReady q True) qs)) d w = Some (False, d', w')
    \<and> live d' = [] \<and> mset (d_destroyed d') = mset [0..<d_next d']"
proof -
  let ?e = "ConnReady (dc_ptr t) False" and ?es = "map (\<lambda>q. ConnReady q True) qs"
  define d1 where "d1 = cancel_connection h (dc_id c) d"
  have tl: "dc_ptr t \<in> set (live d)" using assms(3) by (auto simp: live_def)
  have ft: "find_connection (dc_ptr t) d = Some t" using find_connection_unique[OF assms(1), of t] assms(3) by simp
  have "serve_connection hi t False d w = (True, d1, w')" using assms(4,9) by (simp add: serve_connection_def d1_def run_commands_def)
  then have de: "dispatch_event hi ?e d w = do { (go_on, x) \<leftarrow> hang_up (dc_ptr t) d1; Some (go_on, x, w') }" using ft by simp
  have "set (event_ptr ?e) \<subseteq> set (live d)" using tl by simp
  from dispatch_event_inv[OF assms(1) this, of hi w] obtain b d2 w2 where
    e: "dispatch_event hi ?e d w = Some (b, d2, w2)" "disp_inv d2" "set (live d) - {dc_ptr t} \<subseteq> set (live d2)" by auto
  have w2: "w2 = w'" and hu: "hang_up (dc_ptr t) d1 = Some (b, d2)" using de e(1) by (auto split: bind_splits)
  have "d_cancellations d2 = d_cancellations d1"
    using hu by (auto simp: hang_up_def Let_def epoll_del_def destroy_connection_def split: bind_splits prod.splits if_splits)
  moreover have "c \<in> set (d_cancellations d1)" unfolding d1_def by (rule cancel_connection_cancels[OF assms(5,6,8)])
  ultimately have cc: "c \<in> set (d_cancellations d2)" by simp
  have qs: "distinct qs" "set qs \<subseteq> set (live d2)" using assms(10,11) e(3) by auto
  have "event_ptrs ?es = qs" by (induction qs) (simp_all add: event_ptrs_def)
  then obtain b3 d3 w3 where r: "dispatch_events hi ?es d2 w' = Some (b3, d3, w3)" "disp_inv d3"
    using dispatch_events_inv[OF e(2), of ?es hi w'] qs by auto
  have h: "w3 = w' \<and> (b3 \<longrightarrow> c \<in> set (d_cancellations d3) \<and> dc_fd c \<notin> set (d_interest d3))"
    using hang_up_events[OF e(2) qs cc _ r(1)] assms(12) by blast
  have "\<exists>x. iterate_inner hi (PollEvents (?e # ?es)) d w = Some (False, x, w') \<and> disp_inv x"
  proof (cases "b \<and> b3")
    case True
    define k where "k = clean_up (d_cancellations d3) False d3"
    have "\<not> fst k" "disp_inv (snd k)"
      using clean_up_fails[of c "d_cancellations d3" d3 False] clean_up_inv[of "d_cancellations d3" d3 False] h True r(2) by (simp_all add: k_def)
    moreover have "iterate_inner hi (PollEvents (?e # ?es)) d w = Some (fst k, snd k, w')"
      using assms(2,13) e(1) w2 r(1) h True by (simp add: iterate_inner_def k_def case_prod_beta del: dispatch_event.simps)
    ultimately show ?thesis by auto
  next
    case False
    then show ?thesis using assms(2,13) e w2 r h by (cases b) (auto simp: iterate_inner_def simp del: dispatch_event.simps)
  qed
  then obtain x where x: "iterate_inner hi (PollEvents (?e # ?es)) d w = Some (False, x, w')" "disp_inv x" by blast
  then have "disp_iterate hi (PollEvents (?e # ?es)) d w = Some (False, drop_all x, w')" by (simp add: disp_iterate_def)
  with drop_all_ends[OF x(2)] show ?thesis by blast
qed

lemma cancelled_hangup_stops_server_witness:
  "\<exists>d'. disp_iterate stream_iface (PollEvents [ConnReady 3 False, ConnReady 2 True]) small_server () = Some (False, d', ())
    \<and> live d' = [] \<and> mset (d_destroyed d') = mset [0..<d_next d']"
proof -
  let ?t = "small_connection 3 11 1 (UserHandler 7)" and ?c = "small_connection 2 10 0 (UserHandler 7)"
  have m: "?t \<in> set (d_connections small_server)" "?c \<in> set (d_connections small_server)" "d_poll small_server" by (simp_all add: small_server_def)
  have u: "x = ?c" if "x \<in> set (d_connections small_server)" "dc_handler x = Some (UserHandler 7)" "dc_id x = dc_id ?c" for x
    using that by (auto simp: small_server_def small_connection_def)
  have h: "dc_handler ?t = Some (UserHandler 7)" "dc_handler ?c = Some (UserHandler 7)" "dc_ptr ?t \<noteq> dc_ptr ?c"
      "hi_handle stream_iface 7 (dc_fd ?t) (dc_id ?t) () = (False, [CancelConnection 7 (dc_id ?c)], ())" "distinct (dc_ptr ?t # [2])"
      "set [2] \<subseteq> set (live small_server)" "dc_ptr ?c \<in> set [2]" "length [2 :: nat] < 64"
    unfolding small_server_inv(2) by (simp_all add: small_connection_def stream_iface_def)
  from cancelled_hangup_stops_server[OF small_server_inv(1) m(3,1) h(1) m(2) h(2,3) u h(4-8)] show ?thesis by (simp add: small_connection_def)
qed

section \<open>Output of datagrams\<close>

lemma length_udp_datagrams [simp]: "length (udp_datagrams n header_size headers data) = n"
  by (simp add: udp_datagrams_def)

text \<open>
  Large batches are cut: \<open>sendmmsg\<close> sends at most 1024 messages per call, so that of a batch with more
  datagrams (a packet of more than 1 MiB) at most the first 1024 leave, and the caller sees a result that is
  not negative.
\<close>

theorem large_batch_truncated:
  assumes "\<And>ms. sendmmsg ms = int (min 1024 (length ms))" "1024 < n"
  shows "write_udp_datagrams sendmmsg n header_size headers data
      = (1024, take 1024 (udp_datagrams n header_size headers data))
    \<and> take 1024 (udp_datagrams n header_size headers data) \<noteq> udp_datagrams n header_size headers data"
proof -
  have "length (take 1024 (udp_datagrams n header_size headers data)) \<noteq> length (udp_datagrams n header_size headers data)"
    using assms(2) by simp
  then have "take 1024 (udp_datagrams n header_size headers data) \<noteq> udp_datagrams n header_size headers data"
    by metis
  with assms show ?thesis by (simp add: write_udp_datagrams_def Let_def)
qed

lemma large_batch_truncated_witness:
  "write_udp_datagrams (\<lambda>ms. int (min 1024 (length ms))) 1025 24 [] []
      = (1024, take 1024 (udp_datagrams 1025 24 [] []))
    \<and> take 1024 (udp_datagrams 1025 24 [] []) \<noteq> udp_datagrams 1025 24 [] []"
  by (rule large_batch_truncated) simp_all

end
