(* ===== verification/Ipc_Session.thy ===== *)
theory Ipc_Session
  imports Heartbeat Ipc_Dispatcher
begin

text \<open>
  A session on the local socket: the server side (\<open>Swapchain\<close>), the message format (\<open>Ipc_Messages\<close>) and the
  client side (\<open>Ipc_Client\<close>) put together.  What the server sends is encoded, carried by the socket with new
  descriptor numbers, parsed and processed by the client.

  The locale \<open>reply_channel\<close> is the contract between them: what the client needs of a sender and of a carrier.
\<close>

section \<open>The contract\<close>

text \<open>Whether a stream is valid depends on the serials and types of its messages only.\<close>

lemma valid_stream_cong:
  "map get_serial ms' = map get_serial ms \<Longrightarrow> map get_type ms' = map get_type ms \<Longrightarrow> valid_stream n ms' = valid_stream n ms"
proof (induction ms arbitrary: ms' n)
  case Nil
  then show ?case by simp
next
  case (Cons m ms)
  then obtain m' us where ms': "ms' = m' # us" "get_serial m' = get_serial m" "get_type m' = get_type m"
    "map get_serial us = map get_serial ms" "map get_type us = map get_type ms" by (cases ms') auto
  from Cons.IH[OF ms'(4,5)] ms'(2,3) show ?case by (simp add: ms'(1) is_event_def)
qed

lemma valid_stream_prefix: "valid_stream n (xs @ ys) \<Longrightarrow> valid_stream n xs"
  by (induction xs arbitrary: n) (auto split: if_splits)

text \<open>
  \<open>carry\<close> is the way of one message from the sender to the poll of the client.  The carrier keeps serial and
  type of the messages that the sender may send.
\<close>

locale reply_channel =
  fixes carry :: "ipc_message \<Rightarrow> poll_event"
    and sendable :: "ipc_message \<Rightarrow> bool"
  assumes carry_ok: "sendable m \<Longrightarrow> \<exists>m'. carry m = poll_ok m' \<and> get_serial m' = get_serial m \<and> get_type m' = get_type m"
begin

lemma carry_list:
  assumes "\<forall>m \<in> set ms. sendable m"
  shows "\<exists>ms'. map carry ms = map poll_ok ms' \<and> map get_serial ms' = map get_serial ms \<and> map get_type ms' = map get_type ms"
  using assms
proof (induction ms)
  case Nil
  then show ?case by simp
next
  case (Cons m ms)
  then obtain ms' where "map carry ms = map poll_ok ms'" "map get_serial ms' = map get_serial ms" "map get_type ms' = map get_type ms"
    by auto
  moreover obtain m' where "carry m = poll_ok m'" "get_serial m' = get_serial m" "get_type m' = get_type m"
    using carry_ok Cons.prems by fastforce
  ultimately show ?case by (intro exI[of _ "m' # ms'"]) simp
qed

text \<open>The reply with a serial in a valid stream is what the wait for that serial returns.\<close>

lemma reply_received:
  assumes stream: "valid_stream (unat (received_replies c)) (pre @ m # post)" and ok: "\<forall>x \<in> set (pre @ m # post). sendable x"
    and m: "get_serial m \<noteq> 0" and c: "handlers_accept c" "client_idle c"
  shows "\<exists>c'. wait_plain_reply_for_serial (map carry (pre @ m # post)) (get_serial m) c s = Some (get_type m, c')"
proof -
  from carry_list[OF ok] obtain ms' where ms': "map carry (pre @ m # post) = map poll_ok ms'"
    "map get_serial ms' = map get_serial (pre @ m # post)" "map get_type ms' = map get_type (pre @ m # post)" by blast
  have "length ms' = length (pre @ m # post)" using ms'(2) by (metis length_map)
  then have "ms' = take (length pre) ms' @ ms' ! length pre # drop (Suc (length pre)) ms'"
    by (intro id_take_nth_drop) simp
  then obtain pre' m' post' where sp: "ms' = pre' @ m' # post'" "length pre' = length pre"
    using \<open>length ms' = length (pre @ m # post)\<close> by (metis length_append length_take min.absorb2 le_add1)
  have mm: "get_serial m' = get_serial m" "get_type m' = get_type m"
    using ms'(2,3) sp by (auto simp: append_eq_append_conv)
  have "valid_stream (unat (received_replies c)) (pre' @ m' # post')"
    using stream valid_stream_cong[OF ms'(2,3)] sp(1) by simp
  then have "valid_stream (unat (received_replies c)) (pre' @ [m'])"
    using valid_stream_prefix[of _ "pre' @ [m']" post'] by simp
  from wait_plain_reply_ok[OF this _ c, of post' s] m mm show ?thesis
    by (simp add: ms'(1) sp(1) del: map_append)
qed

end

section \<open>The socket\<close>

text \<open>\<open>fds m\<close> are the descriptor numbers that the receiver gets for the descriptors of a message.\<close>

definition wire_poll :: "(ipc_message \<Rightarrow> int list) \<Rightarrow> ipc_message \<Rightarrow> poll_event" where
  "wire_poll fds m =
     \<lparr>poll_ret = 1, poll_in = True,
      poll_msg = (case ipc_request m of None \<Rightarrow> None | Some dg \<Rightarrow> fst (parse_message (delivered dg (fds m))))\<rparr>"

lemma renumber_keeps [simp]: "get_serial (renumber fds m) = get_serial m" "get_type (renumber fds m) = get_type m"
  by (cases m; simp)+

lemma wire_poll_ok:
  assumes "message_ok m" "length (fds m) = length (message_fds m)"
  shows "wire_poll fds m = poll_ok (renumber (fds m) m)"
proof -
  from parse_delivered[OF assms] obtain dg where
    "ipc_request m = Some dg" "parse_message (delivered dg (fds m)) = (Some (renumber (fds m) m), [])" by blast
  then show ?thesis by (simp add: wire_poll_def poll_ok_def)
qed

text \<open>A numbering gives every message as many descriptors as it carries.\<close>

locale descriptor_numbering =
  fixes fds :: "ipc_message \<Rightarrow> int list"
  assumes same_number: "length (fds m) = length (message_fds m)"

sublocale descriptor_numbering \<subseteq> reply_channel "wire_poll fds" message_ok
  by unfold_locales (auto simp: wire_poll_ok same_number)

context descriptor_numbering
begin

text \<open>What a run of the server sends is received.\<close>

lemma run_reply_received:
  assumes "sc_inv c" "requests_from (unat (received_replies cl)) es" "run_possible es c s"
    and "sc_run es c s = Some (ok, c', s')" "sc_out c' = sc_out c @ pre @ m # post" "get_serial m \<noteq> 0"
    and "handlers_accept cl" "client_idle cl"
  shows "\<exists>cl'. wait_plain_reply_for_serial (map (wire_poll fds) (pre @ m # post)) (get_serial m) cl a
    = Some (get_type m, cl')"
proof -
  from sc_run_stream[OF assms(1-3)] assms(4,5)
  have "valid_stream (unat (received_replies cl)) (pre @ m # post)" "\<forall>x \<in> set (pre @ m # post). message_ok x"
    by auto
  from reply_received[OF this assms(6-8)] show ?thesis .
qed

end

interpretation shared_descriptors: descriptor_numbering message_fds
  by unfold_locales simp

text \<open>
  C6. Requests on a session are answered: run the server on requests with consecutive serials, mixed with GPU
  completions and heartbeats; encode what it sends, carry it over the socket and let the client process it.
  Then, for every reply that the server sent, waiting for its serial ends and returns the type of that
  reply.
\<close>

theorem session_replies:
  assumes "\<And>x. length (fds x) = length (message_fds x)"
    and "sc_inv c" "requests_from (unat (received_replies cl)) es" "run_possible es c s"
    and "sc_run es c s = Some (ok, c', s')" "sc_out c' = sc_out c @ pre @ m # post" "get_serial m \<noteq> 0"
    and "handlers_accept cl" "client_idle cl"
  shows "\<exists>cl'. wait_plain_reply_for_serial (map (wire_poll fds) (pre @ m # post)) (get_serial m) cl a
    = Some (get_type m, cl')"
  using assms by (intro descriptor_numbering.run_reply_received descriptor_numbering.intro)

text \<open>The sample run of the server: the reply to the presentation reaches the client.\<close>

lemma session_replies_witness:
  "\<exists>cl'. wait_plain_reply_for_serial (map (wire_poll message_fds) ([PlainMessage MT_OK 1] @ PlainMessage MT_OK 2 # [])) 2
     sample_client () = Some (MT_OK, cl')"
proof -
  have run: "sc_run (take 2 sample_run) (swapchain_new []) paced_server = Some (True, presented_state, paced_server)"
    using sample_create[of paced_server] sample_present_step by (simp add: sample_run_def)
  have out: "sc_out presented_state = sc_out (swapchain_new []) @ [PlainMessage MT_OK 1] @ PlainMessage MT_OK 2 # []"
    by (simp add: presented_state_def swapchain_new_def)
  have req: "requests_from (unat (received_replies sample_client)) (take 2 sample_run)"
    by (simp add: sample_client_def sample_run_def)
  have pos: "run_possible (take 2 sample_run) (swapchain_new []) paced_server"
    using sample_create[of paced_server]
    by (simp add: sample_run_def step_possible_def event_possible_def split: option.splits bool.splits)
      (simp add: sample_group_def)
  show ?thesis
    using session_replies[OF _ inv_new req pos run out, of message_fds "()"]
    by (simp add: sample_client_def handlers_accept_def accepting_def call_handler_def client_idle_def)
qed

end
