(* ===== verification/Capture_Layer.thy ===== *)
theory Capture_Layer
  imports Ipc_Client
begin

text \<open>
  The capture layer inside the application (\<open>capture-layer/capture_layer.cpp\<close>): the surface with its exported
  images, its connection to the server, and the presentation of a frame.

  Environment.  What the graphics library, the loader and the system calls answer is a record \<open>layer_env\<close>
  that is a field of the surface; it may change between any two operations.  Vulkan objects are not modelled:
  of an image only the flags and the queue family of its command pool are kept.  The surface is the state on
  which the handlers of the client act.  \<open>None\<close> as the outcome of an operation is a null pointer that is
  dereferenced, an index out of range or a call of \<open>abort\<close>.  Operations that wait take the list of the
  polls that will happen, as the operations of the client do; one thread runs at a time.
\<close>

section \<open>Numbers in the environment\<close>

text \<open>\<open>strtol\<close> with base 0: white space, a sign, a prefix that chooses the base, digits; the result saturates.\<close>

definition digit_value :: "char \<Rightarrow> nat option" where
  "digit_value ch =
     (let k = of_char ch :: nat in
      if 48 \<le> k \<and> k \<le> 57 then Some (k - 48)
      else if 97 \<le> k \<and> k \<le> 122 then Some (k - 87)
      else if 65 \<le> k \<and> k \<le> 90 then Some (k - 55)
      else None)"

fun read_digits :: "nat \<Rightarrow> nat \<Rightarrow> string \<Rightarrow> nat" where
  "read_digits base acc [] = acc"
| "read_digits base acc (ch # cs) =
     (case digit_value ch of
        Some d \<Rightarrow> if d < base then read_digits base (acc * base + d) cs else acc
      | None \<Rightarrow> acc)"

definition is_space :: "char \<Rightarrow> bool" where
  "is_space ch \<longleftrightarrow> (let k = of_char ch :: nat in k = 32 \<or> 9 \<le> k \<and> k \<le> 13)"

definition read_unsigned :: "string \<Rightarrow> nat" where
  "read_unsigned cs =
     (if take 2 cs \<in> {''0x'', ''0X''} \<and> (case drop 2 cs of [] \<Rightarrow> False | ch # _ \<Rightarrow>
           (case digit_value ch of None \<Rightarrow> False | Some d \<Rightarrow> d < 16))
      then read_digits 16 0 (drop 2 cs)
      else if take 1 cs = ''0'' then read_digits 8 0 cs
      else read_digits 10 0 cs)"

definition split_sign :: "string \<Rightarrow> bool \<times> string" where
  "split_sign cs =
     (let cs = dropWhile is_space cs in
      if take 1 cs = ''-'' then (True, drop 1 cs)
      else if take 1 cs = ''+'' then (False, drop 1 cs)
      else (False, cs))"

definition strtol :: "string \<Rightarrow> int" where
  "strtol cs =
     (let (neg, ds) = split_sign cs; v = int (read_unsigned ds) in
      if neg then max (- (2 ^ 63)) (- v) else min (2 ^ 63 - 1) v)"

definition strtoul :: "string \<Rightarrow> u64" where
  "strtoul cs =
     (let (neg, ds) = split_sign cs; v = read_unsigned ds in
      if v \<ge> 2 ^ 64 then -1 else if neg then - word_of_nat v else word_of_nat v)"

section \<open>State\<close>

datatype sync_mode = SyncDefault | SyncServer | SyncClient

text \<open>
  \<open>le_family\<close>: the queue family of the presenting queue; \<open>le_gpu\<close>: the physical device of a device; \<open>le_memory_types\<close>:
  for every memory type whether it is device local; \<open>le_memory_bits\<close>: the types an image may use; the
  \<open>VkResult\<close>s are 0 for success.
\<close>

record layer_env =
  le_socket :: int
  le_connect :: int
  le_writable :: "u32 \<Rightarrow> bool"
  le_sendmsg :: "ipc_datagram \<Rightarrow> int"
  le_device_id :: device_info
  le_wait_fences :: "nat \<Rightarrow> bool"
  le_reset_fences :: "nat \<Rightarrow> bool"
  le_import_semaphore :: bool
  le_read_event :: bool
  le_wait_submit :: int
  le_family :: u32
  le_create_pool :: int
  le_allocate_commands :: int
  le_end_commands :: int
  le_submit :: int
  le_semaphore_fd :: "int + int"
  le_memory_fd :: "nat \<Rightarrow> int option"
  le_create_image :: "nat \<Rightarrow> bool"
  le_memory_types :: "bool list"
  le_memory_bits :: "nat \<Rightarrow> u32"
  le_create_rest :: "nat \<Rightarrow> bool"
  le_gpu :: "nat \<Rightarrow> nat"
  le_swap_count :: nat
  le_color_space :: "string option"

record exportable_image =
  ex_pool :: "u32 option"
  ex_live_payload :: bool
  ex_acquired :: bool
  ex_ready :: bool
  ex_fence_pending :: bool

record wait_pair =
  wp_pyro :: u64
  wp_khr :: u64

record surface_state =
  sf_env :: layer_env
  sf_app_name :: "byte list"
  sf_engine_name :: "byte list"
  sf_sync :: sync_mode
  sf_force_images :: u32
  sf_images :: "exportable_image list"
  sf_wire :: image_group
  sf_device :: "nat option"
  sf_gpu :: "nat option"
  sf_swapchain :: "nat option"
  sf_swap_images :: nat
  sf_present_mode :: u32
  sf_width :: u32
  sf_height :: u32
  sf_format :: u32
  sf_color_space :: u32
  sf_group_serial :: u64
  sf_present_id :: u64
  sf_complete_id :: u64
  sf_retry :: u32
  sf_waiters :: u32
  sf_wait_pairs :: "wait_pair list"
  sf_completed_khr :: u64
  sf_uses_wait :: bool

type_synonym layer_client = "surface_state ipc_client"

text \<open>The client, if there is one, and the surface.\<close>

type_synonym capture = "layer_client option \<times> surface_state"

definition image_zero :: exportable_image where
  "image_zero = \<lparr>ex_pool = None, ex_live_payload = False, ex_acquired = False, ex_ready = False, ex_fence_pending = False\<rparr>"

definition wire_zero :: image_group where
  "wire_zero = \<lparr>num_images = 0, ig_width = 0, ig_height = 0, vk_format = 0, vk_color_space = 0, vk_image_usage = 0,
     vk_image_flags = 0, vk_external_memory_type = 0, vk_num_view_formats = 0, vk_view_formats = replicate 15 0,
     drm_modifier = 0\<rparr>"

definition VK_PRESENT_MODE_FIFO :: u32 where "VK_PRESENT_MODE_FIFO = 2"
definition VK_PRESENT_MODE_FIFO_RELAXED :: u32 where "VK_PRESENT_MODE_FIFO_RELAXED = 3"
definition VK_SUCCESS :: int where "VK_SUCCESS = 0"
definition VK_TIMEOUT :: int where "VK_TIMEOUT = 2"
definition VK_ERROR_SURFACE_LOST :: int where "VK_ERROR_SURFACE_LOST = -1000000000"

section \<open>Events from the server\<close>

definition set_image :: "nat \<Rightarrow> (exportable_image \<Rightarrow> exportable_image) \<Rightarrow> surface_state \<Rightarrow> surface_state" where
  "set_image i f s = s\<lparr>sf_images := (sf_images s)[i := f (sf_images s ! i)]\<rparr>"

text \<open>A pending fence is waited for and reset.\<close>

definition settle_fence :: "nat \<Rightarrow> surface_state \<Rightarrow> bool \<times> surface_state" where
  "settle_fence i s =
     (if \<not> ex_fence_pending (sf_images s ! i) then (True, s)
      else if \<not> le_wait_fences (sf_env s) i then (False, s)
      else if \<not> le_reset_fences (sf_env s) i then (False, s)
      else (True, set_image i (\<lambda>x. x\<lparr>ex_fence_pending := False\<rparr>) s))"

definition event_acquire :: "acquire_image \<Rightarrow> int \<Rightarrow> surface_state \<Rightarrow> bool \<times> surface_state" where
  "event_acquire a fd s =
     (if aq_group_serial a \<noteq> sf_group_serial s then (True, s)
      else
        let i = unat (aq_index a) in
        if i \<ge> length (sf_images s) then (False, s)
        else if ex_acquired (sf_images s ! i) then (False, s)
        else
          let (ok, s) = settle_fence i (set_image i (\<lambda>x. x\<lparr>ex_acquired := True\<rparr>) s) in
          if \<not> ok then (False, s)
          else if aq_semaphore_type a \<noteq> 0
          then if le_import_semaphore (sf_env s) then (True, set_image i (\<lambda>x. x\<lparr>ex_live_payload := True\<rparr>) s)
               else (False, s)
          else if fd \<ge> 0 \<and> \<not> le_read_event (sf_env s) then (False, s)
          else (True, set_image i (\<lambda>x. x\<lparr>ex_live_payload := False\<rparr>) s))"

definition event_retire :: "retire_image \<Rightarrow> surface_state \<Rightarrow> bool \<times> surface_state" where
  "event_retire r s =
     (if rt_group_serial r \<noteq> sf_group_serial s then (True, s)
      else
        let i = unat (rt_index r) in
        if i \<ge> length (sf_images s) then (False, s)
        else if ex_ready (sf_images s ! i) then (False, s)
        else (True, set_image i (\<lambda>x. x\<lparr>ex_ready := True\<rparr>) s))"

definition event_complete :: "frame_complete \<Rightarrow> surface_state \<Rightarrow> bool \<times> surface_state" where
  "event_complete f s =
     (if fc_group_serial f \<noteq> sf_group_serial s then (True, s)
      else
        let khr = fold (\<lambda>w best. if wp_pyro w = fc_presented_id f \<and> wp_khr w > best then wp_khr w else best)
                    (sf_wait_pairs s) (sf_completed_khr s)
        in (True, s\<lparr>sf_complete_id := fc_presented_id f, sf_completed_khr := khr,
                    sf_wait_pairs := filter (\<lambda>p. \<not> wp_khr p \<le> khr) (sf_wait_pairs s)\<rparr>))"

definition handle_event :: "ipc_message \<Rightarrow> surface_state \<Rightarrow> bool \<times> surface_state" where
  "handle_event m s =
     (case m of
        AcquireImageMessage _ a fd \<Rightarrow> event_acquire a fd s
      | RetireImageMessage _ r \<Rightarrow> event_retire r s
      | FrameCompleteMessage _ f \<Rightarrow> event_complete f s
      | _ \<Rightarrow> (False, s))"

section \<open>The image group\<close>

text \<open>\<open>send_wire_message\<close> of the client.  The serial in the message is filled in by the client.\<close>

definition layer_send :: "ipc_message \<Rightarrow> surface_state \<Rightarrow> layer_client \<Rightarrow> u64 \<times> layer_client" where
  "layer_send m s cl =
     (let t = ipc_type_code (get_type m) in
      send_message_raw (le_writable (sf_env s) t) (le_sendmsg (sf_env s)) t (message_payload m) (message_fds m) cl)"

text \<open>The loop that gives every image back to the application.\<close>

fun reset_images :: "nat list \<Rightarrow> surface_state \<Rightarrow> bool \<times> surface_state" where
  "reset_images [] s = (True, s)"
| "reset_images (i # is) s =
     (let (ok, s) = settle_fence i (set_image i (\<lambda>x. x\<lparr>ex_ready := True, ex_acquired := True\<rparr>) s) in
      if ok then reset_images is s else (False, s))"

definition memory_fds :: "surface_state \<Rightarrow> int option list" where
  "memory_fds s = map (le_memory_fd (sf_env s)) [0..<length (sf_images s)]"

definition send_image_group :: "layer_client \<Rightarrow> surface_state \<Rightarrow> bool \<times> layer_client \<times> surface_state" where
  "send_image_group cl s =
     (let fds = memory_fds s in
      if None \<in> set fds then (False, cl, s)
      else
        let (serial, cl) = layer_send (ImageGroupMessage 0 (sf_wire s) (map the fds)) s cl;
            s = s\<lparr>sf_group_serial := serial\<rparr>
        in if serial = 0 then (False, cl, s)
           else let (ok, s) = reset_images [0..<length (sf_images s)]
                      (s\<lparr>sf_present_id := 0, sf_complete_id := 0, sf_wait_pairs := []\<rparr>)
                in (ok, cl, s))"

text \<open>The formats that an image may be viewed in: the linear and the sRGB variant, in this order.\<close>

definition mutable_formats :: "u32 \<Rightarrow> u32 list" where
  "mutable_formats fmt =
     (if fmt = 43 \<or> fmt = 37 then [37, 43]
      else if fmt = 50 \<or> fmt = 44 then [44, 50]
      else if fmt = 57 \<or> fmt = 51 then [51, 57]
      else [])"

definition memory_type :: "bool list \<Rightarrow> u32 \<Rightarrow> nat option" where
  "memory_type types bits = List.find (\<lambda>k. types ! k \<and> bit bits k) [0..<length types]"

text \<open>One image: it is appended before the objects are created, and stays when one cannot be.\<close>

fun create_exports :: "nat list \<Rightarrow> surface_state \<Rightarrow> bool \<times> surface_state" where
  "create_exports [] s = (True, s)"
| "create_exports (i # is) s =
     (let s = s\<lparr>sf_images := sf_images s @ [image_zero\<lparr>ex_acquired := True, ex_ready := True\<rparr>]\<rparr> in
      if \<not> le_create_image (sf_env s) i then (False, s)
      else if memory_type (le_memory_types (sf_env s)) (le_memory_bits (sf_env s) i) = None then (False, s)
      else if \<not> le_create_rest (sf_env s) i then (False, s)
      else create_exports is s)"

definition forced_color_space :: "string option \<Rightarrow> u32 \<Rightarrow> u32" where
  "forced_color_space v cs =
     (case v of
        None \<Rightarrow> cs
      | Some e \<Rightarrow> if e = ''HDR10'' then 1000104008 else if e = ''scRGB'' then 1000104002 else word_of_int (strtol e))"

definition init_image_group :: "u32 \<Rightarrow> surface_state \<Rightarrow> bool \<times> surface_state" where
  "init_image_group n s =
     (let fmts = mutable_formats (sf_format s); (ok, s) = create_exports [0..<unat n] s in
      if \<not> ok then (False, s)
      else (True, s\<lparr>sf_wire := (sf_wire s)\<lparr>ig_width := sf_width s, ig_height := sf_height s, vk_format := sf_format s,
               vk_color_space := forced_color_space (le_color_space (sf_env s)) (sf_color_space s),
               vk_num_view_formats := word_of_nat (length fmts),
               vk_view_formats := fmts @ drop (length fmts) (vk_view_formats (sf_wire s)),
               vk_external_memory_type := 1, num_images := n,
               vk_image_flags := (if fmts = [] then 0 else 8), vk_image_usage := 7\<rparr>\<rparr>))"

section \<open>The connection\<close>

definition ascii_bytes :: "string \<Rightarrow> byte list" where
  "ascii_bytes cs = map of_char cs"

definition default_name :: "byte list \<Rightarrow> byte list" where
  "default_name n = (if n = [] then ascii_bytes ''default'' else n)"

text \<open>\<open>snprintf\<close> cuts the text so that a terminating zero fits; the rest of the array is zero.\<close>

definition hello_wire :: "surface_state \<Rightarrow> client_hello" where
  "hello_wire s =
     (let txt = take 251 (default_name (sf_app_name s) @ ascii_bytes '' - '' @ default_name (sf_engine_name s)) in
      \<lparr>intent = VulkanExternalStream, hello_name = txt @ replicate (252 - length txt) 0\<rparr>)"

text \<open>Use of the client through its pointer: there is no outcome through the null pointer.\<close>

definition through_client :: "(layer_client \<Rightarrow> layer_client) \<Rightarrow> layer_client option \<Rightarrow> layer_client option outcome" where
  "through_client f client = (case client of None \<Rightarrow> None | Some cl \<Rightarrow> Some (Some (f cl)))"

text \<open>
  The reply to the greeting must be a greeting, other replies must be positive.  A failed greeting resets the pointer; the two other
  handlers are set through it in either case.
\<close>

definition connect_client :: "surface_state \<Rightarrow> capture outcome" where
  "connect_client s =
     (let s = s\<lparr>sf_gpu := None\<rparr> in
      case ipc_client_new (le_socket (sf_env s)) False (le_connect (sf_env s)) of
        Inl e \<Rightarrow> Some (None, s)
      | Inr cl \<Rightarrow> do {
          let (serial, cl) = layer_send (ClientHelloMessage 0 (hello_wire s)) s cl;
          client \<leftarrow> (if serial \<noteq> 0
            then do { cl \<leftarrow> set_serial_handler serial (Some (\<lambda>m st. (get_type m = MT_ServerHello, st))) cl; Some (Some cl) }
            else Some None);
          client \<leftarrow> through_client (set_default_serial_handler (Some (\<lambda>m st. (get_type m = MT_OK, st)))) client;
          client \<leftarrow> through_client (set_event_handler (Some handle_event)) client;
          Some (client, s) })"

text \<open>
  The device is announced; a failed announcement resets the pointer.  When there are images they are sent again, through the pointer, once
  the descriptors of their memory could be made.
\<close>

definition announce_device :: "layer_client \<Rightarrow> surface_state \<Rightarrow> capture outcome" where
  "announce_device cl s = do {
     let (serial, cl) = layer_send (DeviceMessage 0 (le_device_id (sf_env s))) s cl;
     let client = (if serial = 0 then None else Some cl);
     if sf_images s = [] then Some (client, s)
     else if None \<in> set (memory_fds s) then Some (None, s)
     else do {
       cl \<leftarrow> client;
       let (ok, cl, s) = send_image_group cl s;
       Some (if ok then Some cl else None, s) } }"

definition init_client :: "nat option \<Rightarrow> capture \<Rightarrow> capture outcome" where
  "init_client gpu st = do {
     let (cl, s) = st;
     let (cl, s) = (if sf_gpu s \<noteq> None \<and> gpu \<noteq> sf_gpu s then (None, s\<lparr>sf_gpu := None\<rparr>) else (cl, s));
     (cl, s) \<leftarrow> (case cl of None \<Rightarrow> connect_client s | Some c \<Rightarrow> Some (Some c, s));
     (cl, s) \<leftarrow> (case cl of
         None \<Rightarrow> Some (None, s)
       | Some c \<Rightarrow> if sf_gpu s = None \<and> gpu \<noteq> None then announce_device c s else Some (Some c, s));
     Some (cl, s\<lparr>sf_gpu := gpu\<rparr>) }"

section \<open>Waiting\<close>

text \<open>Drop the client unless another thread still waits on it.\<close>

definition drop_client :: "layer_client \<Rightarrow> surface_state \<Rightarrow> capture" where
  "drop_client cl s = (if sf_waiters s = 0 then None else Some cl, s)"

fun poll_connection :: "poll_event list \<Rightarrow> layer_client \<Rightarrow> surface_state \<Rightarrow> (bool \<times> poll_event list \<times> capture) outcome" where
  "poll_connection [] cl s = None"
| "poll_connection (e # es) cl s = do {
     (r, cl, s) \<leftarrow> wait_reply True e cl s;
     if r > 0 then poll_connection es cl s
     else Some (r \<ge> 0, es, if r < 0 then drop_client cl s else (Some cl, s)) }"

definition ready_image :: "surface_state \<Rightarrow> nat option" where
  "ready_image s = List.find (\<lambda>i. ex_ready (sf_images s ! i) \<and> ex_acquired (sf_images s ! i)) [0..<length (sf_images s)]"

fun acquire :: "poll_event list \<Rightarrow> layer_client \<Rightarrow> surface_state \<Rightarrow> (nat option \<times> poll_event list \<times> capture) outcome" where
  "acquire es cl s =
     (case ready_image s of
        Some i \<Rightarrow> Some (Some i, es, Some cl, s)
      | None \<Rightarrow>
          (case es of
             [] \<Rightarrow> None
           | e # es' \<Rightarrow> do {
               (r, cl, s) \<leftarrow> wait_reply False e cl s;
               if r > 0 then acquire es' cl s else Some (None, es', drop_client cl s) }))"

text \<open>The time-out in milliseconds; \<open>None\<close> waits without end.\<close>

definition timeout_ms :: "u64 \<Rightarrow> nat option" where
  "timeout_ms t = (if unat t div 1000000 > 2147483647 then None else Some (unat t div 1000000))"

fun wait_khr :: "poll_event list \<Rightarrow> bool \<Rightarrow> u64 \<Rightarrow> layer_client \<Rightarrow> surface_state \<Rightarrow> (int \<times> layer_client \<times> surface_state) outcome" where
  "wait_khr es timed khr cl s =
     (if sf_completed_khr s < khr
      then case es of
          [] \<Rightarrow> None
        | e # es' \<Rightarrow> do {
            (r, cl, s) \<leftarrow> wait_reply timed e cl s;
            if r < 0 then Some (VK_ERROR_SURFACE_LOST, cl, s)
            else if r = 0 then Some (if sf_completed_khr s < khr then VK_TIMEOUT else VK_SUCCESS, cl, s)
            else wait_khr es' timed khr cl s }
      else Some (VK_SUCCESS, cl, s))"

definition wait_for_present :: "poll_event list \<Rightarrow> u64 \<Rightarrow> u64 \<Rightarrow> capture \<Rightarrow> (int \<times> capture) outcome" where
  "wait_for_present es khr t st =
     (case st of
        (None, s) \<Rightarrow> Some (VK_ERROR_SURFACE_LOST, None, s)
      | (Some cl, s) \<Rightarrow> do {
          (r, cl, s) \<leftarrow> wait_khr es (timeout_ms t \<noteq> None) khr cl (s\<lparr>sf_waiters := sf_waiters s + 1\<rparr>);
          Some (r, Some cl, s\<lparr>sf_waiters := sf_waiters s - 1\<rparr>) })"

declare acquire.simps [simp del] wait_khr.simps [simp del]

section \<open>Presenting a frame\<close>

text \<open>
  The commands that copy the frame: the result of the first call that fails, or the descriptor of the release
  semaphore.
\<close>

definition record_copy :: "nat \<Rightarrow> surface_state \<Rightarrow> (int + int) \<times> surface_state" where
  "record_copy i s =
     (let env = sf_env s; img = sf_images s ! i in
      if ex_live_payload img \<and> le_wait_submit env \<noteq> VK_SUCCESS then (Inl (le_wait_submit env), s)
      else
        let s = set_image i (\<lambda>x. x\<lparr>ex_live_payload := False\<rparr>) s;
            fresh = (ex_pool img \<noteq> Some (le_family env))
        in if fresh \<and> le_create_pool env \<noteq> VK_SUCCESS
           then (Inl (le_create_pool env), set_image i (\<lambda>x. x\<lparr>ex_pool := None\<rparr>) s)
           else
             let s = set_image i (\<lambda>x. x\<lparr>ex_pool := Some (le_family env)\<rparr>) s in
             if fresh \<and> le_allocate_commands env \<noteq> VK_SUCCESS then (Inl (le_allocate_commands env), s)
             else if le_end_commands env \<noteq> VK_SUCCESS then (Inl (le_end_commands env), s)
             else if le_submit env \<noteq> VK_SUCCESS then (Inl (le_submit env), s)
             else (le_semaphore_fd env, s))"

definition present_period :: "sync_mode \<Rightarrow> u32 \<Rightarrow> u16" where
  "present_period sync mode =
     (case sync of
        SyncServer \<Rightarrow> 1
      | SyncClient \<Rightarrow> 0
      | SyncDefault \<Rightarrow> if mode = VK_PRESENT_MODE_FIFO \<or> mode = VK_PRESENT_MODE_FIFO_RELAXED then 1 else 0)"

definition present_wire :: "nat \<Rightarrow> surface_state \<Rightarrow> present_image" where
  "present_wire i s =
     \<lparr>pr_group_serial = sf_group_serial s, pr_period = present_period (sf_sync s) (sf_present_mode s),
      pr_index = word_of_nat i, pr_semaphore_type = 1, pr_old_layout = 7, pr_new_layout = 5, pr_id = sf_present_id s\<rparr>"

text \<open>Let at most one completion be outstanding.\<close>

fun wait_complete :: "poll_event list \<Rightarrow> layer_client \<Rightarrow> surface_state \<Rightarrow> capture outcome" where
  "wait_complete es cl s =
     (if sf_complete_id s + 1 < sf_present_id s
      then case es of
          [] \<Rightarrow> None
        | e # es' \<Rightarrow> do {
            (r, cl, s) \<leftarrow> wait_reply False e cl s;
            if r < 0 then Some (drop_client cl s) else wait_complete es' cl s }
      else Some (Some cl, s))"

declare wait_complete.simps [simp del]

text \<open>The state of the surface when image \<open>i\<close> is about to be sent, and the message.\<close>

definition mark_presented :: "nat \<Rightarrow> u64 \<Rightarrow> u32 option \<Rightarrow> surface_state \<Rightarrow> present_image \<times> surface_state" where
  "mark_presented i khr mode s =
     (let s = (case mode of None \<Rightarrow> s | Some m \<Rightarrow> s\<lparr>sf_present_mode := m\<rparr>);
          s = s\<lparr>sf_present_id := sf_present_id s + 1\<rparr>;
          wire = present_wire i s;
          s = s\<lparr>sf_wait_pairs := sf_wait_pairs s @ [\<lparr>wp_pyro = pr_id wire, wp_khr = khr\<rparr>]\<rparr>
      in (wire, set_image i (\<lambda>x. x\<lparr>ex_acquired := False, ex_ready := False, ex_fence_pending := True\<rparr>) s))"

definition present_image_now ::
    "poll_event list \<Rightarrow> nat \<Rightarrow> u64 \<Rightarrow> u32 option \<Rightarrow> layer_client \<Rightarrow> surface_state \<Rightarrow> (int \<times> capture) outcome" where
  "present_image_now es i khr mode cl s =
     (case record_copy i s of
        (Inl res, s) \<Rightarrow> Some (res, Some cl, s)
      | (Inr fd, s) \<Rightarrow> do {
          let (wire, s) = mark_presented i khr mode s;
          let (serial, cl) = layer_send (PresentImageMessage 0 wire fd) s cl;
          if serial = 0 then Some (VK_SUCCESS, drop_client cl s)
          else do {
            let s = (if khr \<noteq> 0 then s\<lparr>sf_uses_wait := True\<rparr> else s);
            st \<leftarrow> (if pr_period wire > 0 \<and> (\<not> sf_uses_wait s \<or> sf_sync s = SyncServer)
                   then wait_complete es cl s else Some (Some cl, s));
            Some (VK_SUCCESS, st) } })"

definition retry_connection :: "capture \<Rightarrow> capture outcome" where
  "retry_connection st =
     (case st of
        (Some cl, s) \<Rightarrow> Some (Some cl, s)
      | (None, s) \<Rightarrow>
          let s = s\<lparr>sf_retry := sf_retry s + 1\<rparr> in
          if sf_retry s \<ge> 30 then do { (cl, s) \<leftarrow> init_client (sf_gpu s) (None, s); Some (cl, s\<lparr>sf_retry := 0\<rparr>) }
          else Some (None, s))"

definition process_present ::
    "poll_event list \<Rightarrow> nat \<Rightarrow> u64 \<Rightarrow> u32 option \<Rightarrow> capture \<Rightarrow> (int \<times> capture) outcome" where
  "process_present es index khr mode st = do {
     st \<leftarrow> retry_connection st;
     case st of
       (None, s) \<Rightarrow> Some (VK_SUCCESS, None, s)
     | (Some cl, s) \<Rightarrow> do {
         (ok, es, st) \<leftarrow> poll_connection es cl s;
         case st of
           (None, s) \<Rightarrow> Some (VK_SUCCESS, None, s)
         | (Some cl, s) \<Rightarrow>
             if \<not> ok then Some (VK_SUCCESS, Some cl, s)
             else do {
               (slot, es, st) \<leftarrow> acquire es cl s;
               case (slot, st) of
                 (Some i, Some cl, s) \<Rightarrow> do {
                   guard (index < sf_swap_images s);
                   present_image_now es i khr mode cl s }
               | _ \<Rightarrow> Some (VK_SUCCESS, st) } } }"

section \<open>Swapchains\<close>

text \<open>What the layer reads of \<open>VkSwapchainCreateInfoKHR\<close>.\<close>

record swapchain_info =
  si_mode :: u32
  si_width :: u32
  si_height :: u32
  si_format :: u32
  si_color_space :: u32

definition replace_images :: "capture \<Rightarrow> capture" where
  "replace_images st =
     (let (cl, s) = st;
          forced = (if sf_force_images s < 2 then 3 else sf_force_images s);
          (ok, s) = init_image_group forced (s\<lparr>sf_images := []\<rparr>)
      in if \<not> ok then (None, s)
         else case cl of
           None \<Rightarrow> (None, s)
         | Some c \<Rightarrow> let (ok, c, s) = send_image_group c s in (if ok then Some c else None, s))"

definition set_active :: "nat option \<Rightarrow> swapchain_info \<Rightarrow> nat option \<Rightarrow> capture \<Rightarrow> capture outcome" where
  "set_active dev info chain st = do {
     let (cl, s) = st;
     guard (sf_waiters s = 0);
     let s = s\<lparr>sf_completed_khr := 0\<rparr>;
     let s = (if sf_device s \<noteq> dev then s\<lparr>sf_images := [], sf_swapchain := None, sf_device := dev\<rparr> else s);
     (cl, s) \<leftarrow> (case dev of None \<Rightarrow> Some (cl, s) | Some d \<Rightarrow> init_client (Some (le_gpu (sf_env s) d)) (cl, s));
     if sf_swapchain s = chain \<or> chain = None then Some (cl, s\<lparr>sf_swapchain := chain\<rparr>)
     else do {
       guard (dev \<noteq> None);
       let s = s\<lparr>sf_present_mode := si_mode info, sf_swapchain := chain, sf_swap_images := le_swap_count (sf_env s)\<rparr>;
       if si_width info = sf_width s \<and> si_height info = sf_height s \<and> si_format info = sf_format s
          \<and> si_color_space info = sf_color_space s
       then Some (cl, s)
       else Some (replace_images (cl, s\<lparr>sf_width := si_width info, sf_height := si_height info,
                    sf_format := si_format info, sf_color_space := si_color_space info\<rparr>)) } }"

text \<open>\<open>Instance::init\<close>: the synchronisation mode and the number of images from the environment.\<close>

definition sync_from_env :: "string option \<Rightarrow> sync_mode" where
  "sync_from_env v = (if v = Some ''server'' then SyncServer else if v = Some ''client'' then SyncClient else SyncDefault)"

definition images_from_env :: "string option \<Rightarrow> u32" where
  "images_from_env v = (case v of None \<Rightarrow> 0 | Some e \<Rightarrow> ucast (strtoul e))"

definition fresh_surface :: "layer_env \<Rightarrow> byte list \<Rightarrow> byte list \<Rightarrow> sync_mode \<Rightarrow> u32 \<Rightarrow> surface_state" where
  "fresh_surface env app eng sync forced =
     \<lparr>sf_env = env, sf_app_name = app, sf_engine_name = eng, sf_sync = sync, sf_force_images = forced, sf_images = [],
      sf_wire = wire_zero, sf_device = None, sf_gpu = None, sf_swapchain = None, sf_swap_images = 0,
      sf_present_mode = VK_PRESENT_MODE_FIFO, sf_width = 0, sf_height = 0, sf_format = 0, sf_color_space = 0,
      sf_group_serial = 0, sf_present_id = 0, sf_complete_id = 0, sf_retry = 0, sf_waiters = 0, sf_wait_pairs = [],
      sf_completed_khr = 0, sf_uses_wait = False\<rparr>"

definition surface_new ::
    "layer_env \<Rightarrow> byte list \<Rightarrow> byte list \<Rightarrow> sync_mode \<Rightarrow> u32 \<Rightarrow> capture outcome" where
  "surface_new env app eng sync forced = init_client None (None, fresh_surface env app eng sync forced)"

section \<open>A greeting that cannot be sent\<close>

text \<open>
  The first message of a connection leaves when the socket can be written within the second that the client waits, and \<open>sendmsg\<close>
  takes the whole record.
\<close>

definition greeting_leaves :: "surface_state \<Rightarrow> bool" where
  "greeting_leaves s \<longleftrightarrow> le_writable (sf_env s) (ipc_type_code MT_ClientHello)
     \<and> send_message (le_sendmsg (sf_env s)) (ipc_type_code MT_ClientHello) 1 (message_payload (ClientHelloMessage 0 (hello_wire s))) []"

lemma greeting_serial:
  assumes "send_serial cl = 0"
  shows "fst (layer_send (ClientHelloMessage 0 (hello_wire s)) (s\<lparr>sf_gpu := None\<rparr>) cl) = 0 \<longleftrightarrow> \<not> greeting_leaves s"
  using assms by (simp add: layer_send_def send_message_raw_def greeting_leaves_def Let_def)

lemma connect_client_crashes:
  assumes "0 \<le> le_socket (sf_env s)" "0 \<le> le_connect (sf_env s)"
  shows "connect_client s = None \<longleftrightarrow> \<not> greeting_leaves s"
proof -
  let ?s = "s\<lparr>sf_gpu := None\<rparr>"
  obtain cl :: layer_client where cl: "ipc_client_new (le_socket (sf_env s)) False (le_connect (sf_env s)) = Inr cl" "send_serial cl = 0"
    using assms by (simp add: ipc_client_new_def)
  have h: "hello_wire ?s = hello_wire s" by (simp add: hello_wire_def)
  obtain serial cl1 where l: "layer_send (ClientHelloMessage 0 (hello_wire s)) ?s cl = (serial, cl1)" by fastforce
  have "connect_client s = None \<longleftrightarrow> serial = 0"
    using cl(1) l by (simp add: connect_client_def h through_client_def set_serial_handler_def)
  with greeting_serial[OF cl(2), of s] l show ?thesis by simp
qed

text \<open>
  C40. A greeting that cannot be sent crashes the application.  Once the connection is made, setting up the client has an outcome exactly when the
  greeting leaves; when it does not (the server is busy for a second, or the send fails or is cut short), the client is destroyed and
  its handlers are set through the null pointer, in the constructor of the surface state and in every later attempt to connect
  again alike, for every GPU.
\<close>

theorem failed_greeting_crashes:
  assumes "0 \<le> le_socket (sf_env s)" "0 \<le> le_connect (sf_env s)"
  shows "(connect_client s = None \<longleftrightarrow> \<not> greeting_leaves s) \<and> (\<not> greeting_leaves s \<longrightarrow> init_client gpu (None, s) = None)"
proof -
  have g: "greeting_leaves (s\<lparr>sf_gpu := None\<rparr>) = greeting_leaves s" by (simp add: greeting_leaves_def hello_wire_def)
  have "init_client gpu (None, s) = None" if "\<not> greeting_leaves s"
    using that connect_client_crashes[of s] connect_client_crashes[of "s\<lparr>sf_gpu := None\<rparr>"] assms by (simp add: init_client_def g)
  with connect_client_crashes[OF assms] show ?thesis by blast
qed

definition refused_env :: layer_env where
  "refused_env = \<lparr>le_socket = 3, le_connect = 0, le_writable = (\<lambda>_. True), le_sendmsg = (\<lambda>dg. -1),
     le_device_id = \<lparr>device_uuid = replicate 16 0, driver_uuid = replicate 16 0, luid = replicate 8 0, luid_valid = 0\<rparr>,
     le_wait_fences = (\<lambda>_. True), le_reset_fences = (\<lambda>_. True), le_import_semaphore = True, le_read_event = True,
     le_wait_submit = 0, le_family = 0, le_create_pool = 0, le_allocate_commands = 0, le_end_commands = 0, le_submit = 0,
     le_semaphore_fd = Inr 20, le_memory_fd = (\<lambda>i. None), le_create_image = (\<lambda>_. True), le_memory_types = [True],
     le_memory_bits = (\<lambda>_. 1), le_create_rest = (\<lambda>_. True), le_gpu = (\<lambda>_. 0), le_swap_count = 3, le_color_space = None\<rparr>"

lemma failed_greeting_crashes_witness:
  "(connect_client (fresh_surface refused_env [] [] SyncDefault 0) = None) \<and> init_client (Some 1) (None, fresh_surface refused_env [] [] SyncDefault 0) = None"
proof -
  let ?s = "fresh_surface refused_env [] [] SyncDefault 0"
  have e: "0 \<le> le_socket (sf_env ?s)" "0 \<le> le_connect (sf_env ?s)" by (simp_all add: fresh_surface_def refused_env_def)
  have "\<not> greeting_leaves ?s" by code_simp
  with failed_greeting_crashes[OF e, of "Some 1"] show ?thesis by simp
qed

end
