(* ===== verification/Capture_Session.thy ===== *)
theory Capture_Session
  imports Capture_Layer Swapchain
begin

text \<open>
  The capture layer and the server together: images travel from the application to the server by presentations
  and back by acquire and retire events.  Ownership of an image is counted: it is with the application, in a
  request, with the server, or in events, in exactly one place.
\<close>

section \<open>Counting on the side of the server\<close>

definition held :: "swapchain \<Rightarrow> nat \<Rightarrow> bool" where
  "held c i \<longleftrightarrow> img_state (sc_images c ! i) \<noteq> ClientOwned"

definition is_acquire :: "nat \<Rightarrow> ipc_message \<Rightarrow> bool" where
  "is_acquire i m \<longleftrightarrow> (case m of AcquireImageMessage _ a _ \<Rightarrow> unat (aq_index a) = i | _ \<Rightarrow> False)"

definition is_retire :: "nat \<Rightarrow> ipc_message \<Rightarrow> bool" where
  "is_retire i m \<longleftrightarrow> (case m of RetireImageMessage _ r \<Rightarrow> unat (rt_index r) = i | _ \<Rightarrow> False)"

definition tally :: "('a \<Rightarrow> bool) \<Rightarrow> 'a list \<Rightarrow> nat" where
  "tally P xs = length (filter P xs)"

lemma tally_simps [simp]:
  "tally P [] = 0" "tally P (x # xs) = of_bool (P x) + tally P xs" "tally P (xs @ ys) = tally P xs + tally P ys"
  by (simp_all add: tally_def)

text \<open>Events of the group \<open>g\<close> about its \<open>n\<close> images.\<close>

definition group_event :: "u64 \<Rightarrow> nat \<Rightarrow> ipc_message \<Rightarrow> bool" where
  "group_event g n m \<longleftrightarrow> (case m of
     AcquireImageMessage s a fd \<Rightarrow> s = 0 \<and> aq_group_serial a = g \<and> unat (aq_index a) < n
   | RetireImageMessage s r \<Rightarrow> s = 0 \<and> rt_group_serial r = g \<and> unat (rt_index r) < n
   | FrameCompleteMessage s f \<Rightarrow> s = 0
   | _ \<Rightarrow> False)"

lemma group_event_serial: "group_event g n m \<Longrightarrow> get_serial m = 0"
  by (cases m) (auto simp: group_event_def)

text \<open>
  A step that presents nothing: what it sends are events, and every image that stops being held is given back by
  one acquire and one retire event.
\<close>

definition returns :: "swapchain \<Rightarrow> swapchain \<Rightarrow> ipc_message list \<Rightarrow> bool" where
  "returns c c' ms \<longleftrightarrow>
     length (sc_images c') = length (sc_images c) \<and> sc_group_serial c' = sc_group_serial c
     \<and> sc_last_present_id c' = sc_last_present_id c \<and> sc_send c' = [] \<and> sc_out c' = sc_out c @ ms
     \<and> (\<forall>m \<in> set ms. group_event (sc_group_serial c) (length (sc_images c)) m)
     \<and> (\<forall>i < length (sc_images c). tally (is_acquire i) ms + of_bool (held c' i) = of_bool (held c i)
          \<and> tally (is_retire i) ms + of_bool (held c' i) = of_bool (held c i))"

lemma returns_trans:
  assumes "returns a b ms" "returns b c ns"
  shows "returns a c (ms @ ns)"
proof -
  have "tally (is_acquire i) (ms @ ns) + of_bool (held c i) = of_bool (held a i)
      \<and> tally (is_retire i) (ms @ ns) + of_bool (held c i) = of_bool (held a i)" if "i < length (sc_images a)" for i
  proof -
    have i: "i < length (sc_images b)" using assms(1) that by (simp add: returns_def)
    have "tally (is_acquire i) ms + of_bool (held b i) = of_bool (held a i)"
      "tally (is_retire i) ms + of_bool (held b i) = of_bool (held a i)"
      "tally (is_acquire i) ns + of_bool (held c i) = of_bool (held b i)"
      "tally (is_retire i) ns + of_bool (held c i) = of_bool (held b i)"
      using assms that i unfolding returns_def by blast+
    then show ?thesis by simp
  qed
  with assms show ?thesis unfolding returns_def by auto
qed

lemma returns_same:
  assumes "length (sc_images c') = length (sc_images c)" "\<And>i. i < length (sc_images c) \<Longrightarrow> held c' i = held c i"
    "sc_group_serial c' = sc_group_serial c" "sc_last_present_id c' = sc_last_present_id c" "sc_send c' = []"
    "sc_out c' = sc_out c"
  shows "returns c c' []"
  using assms by (auto simp: returns_def)

lemma returns_complete:
  assumes "sc_send c = []"
  shows "sc_reply (FrameCompleteMessage 0 f) c = (True, c\<lparr>sc_out := sc_out c @ [FrameCompleteMessage 0 f]\<rparr>)"
    and "returns c (c\<lparr>sc_out := sc_out c @ [FrameCompleteMessage 0 f]\<rparr>) [FrameCompleteMessage 0 f]"
  using assms by (auto simp: sc_reply_def returns_def group_event_def is_acquire_def is_retire_def held_def)

text \<open>One turn of the loop of \<open>retire_obsolete_images\<close>.\<close>

definition retire_one :: "vk_env \<Rightarrow> u64 \<Rightarrow> nat \<Rightarrow> swapchain \<Rightarrow> swapchain" where
  "retire_one env pid i c = (if obsolete pid (sc_images c ! i)
     then c\<lparr>sc_images := (sc_images c)[i := give_back pid (sc_images c ! i)],
            sc_out := sc_out c @ retire_messages env (sc_group_serial c) (sc_images c) i\<rparr> else c)"

lemma retire_images_Cons:
  assumes "sc_send c = []" "i < length (sc_images c)"
  shows "retire_images env pid (i # is) c = retire_images env pid is (retire_one env pid i c)"
  using assms
  by (auto simp: retire_one_def obsolete_def give_back_def send_acquire_retire_def sc_reply_def retire_messages_def Let_def
      split: prod.splits)

lemma retire_one_returns:
  assumes "sc_send c = []" "i < length (sc_images c)" "length (sc_images c) \<le> 2 ^ 32"
  shows "\<exists>ms. returns c (retire_one env pid i c) ms"
proof (cases "obsolete pid (sc_images c ! i)")
  case False
  then have "retire_one env pid i c = c" by (simp add: retire_one_def)
  with assms(1) show ?thesis by (auto intro: returns_same)
next
  case True
  let ?ms = "retire_messages env (sc_group_serial c) (sc_images c) i"
  have u: "unat (word_of_nat i :: u32) = i" using assms(2,3) by (simp add: unsigned_of_nat take_bit_nat_eq_self)
  have m: "(\<forall>m \<in> set ?ms. group_event (sc_group_serial c) (length (sc_images c)) m)"
    "tally (is_acquire j) ?ms = of_bool (j = i)" "tally (is_retire j) ?ms = of_bool (j = i)" for j
    using u assms(2)
    by (auto simp: retire_messages_def group_event_def is_acquire_def is_retire_def split: prod.splits)
  have h: "held c i" using True by (simp add: held_def obsolete_def)
  have "held (retire_one env pid i c) j = (held c j \<and> j \<noteq> i)" if "j < length (sc_images c)" for j
    using True that assms(2) by (auto simp: retire_one_def held_def give_back_def nth_list_update)
  with True h m assms(1) have "returns c (retire_one env pid i c) ?ms"
    unfolding returns_def by (auto simp: retire_one_def)
  then show ?thesis by blast
qed

lemma retire_images_returns:
  assumes "sc_send c = []" "\<forall>i \<in> set is. i < length (sc_images c)" "length (sc_images c) \<le> 2 ^ 32"
  shows "\<exists>c' ms. retire_images env pid is c = (True, c') \<and> returns c c' ms"
  using assms
proof (induction "is" arbitrary: c)
  case Nil
  then show ?case by (auto intro: returns_same)
next
  case (Cons i "is")
  let ?c = "retire_one env pid i c"
  obtain ms where ms: "returns c ?c ms" using retire_one_returns[of c i env pid] Cons.prems by auto
  have "sc_send ?c = []" "\<forall>k \<in> set is. k < length (sc_images ?c)" "length (sc_images ?c) \<le> 2 ^ 32"
    using ms Cons.prems by (auto simp: returns_def)
  from Cons.IH[OF this] obtain c' ns where "retire_images env pid is ?c = (True, c')" "returns ?c c' ns" by blast
  with ms Cons.prems show ?case using retire_images_Cons[of c i env pid "is"] returns_trans by fastforce
qed

lemma retire_before_returns:
  "sc_send c = [] \<Longrightarrow> length (sc_images c) \<le> 2 ^ 32 \<Longrightarrow>
    \<exists>c' ms. retire_obsolete_images_before env pid c = (True, c') \<and> returns c c' ms"
  unfolding retire_obsolete_images_before_def by (rule retire_images_returns) auto

lemma retire_returns:
  "sc_send c = [] \<Longrightarrow> length (sc_images c) \<le> 2 ^ 32 \<Longrightarrow>
    \<exists>c' ms. retire_obsolete_images env c = (True, c') \<and> returns c c' ms"
  unfolding retire_obsolete_images_def
  using returns_same[of c c] retire_before_returns[of c env]
  by (cases "get_target_image_index_for_timestamp (sc_timestamp_completed c + 1) c") auto

lemma handle_async_buf_returns:
  assumes "handle_async_buf env t gpu_done c s = Some (ok, c', s')" "sc_send c = []" "length (sc_images c) \<le> 2 ^ 32"
  shows "ok \<and> (\<exists>ms. returns c c' ms)"
proof (cases "gt_serial t = sc_group_serial c")
  case False
  with assms show ?thesis by (auto simp: handle_async_buf_def intro: returns_same)
next
  case True
  let ?i = "gt_index t"
  have "?i < length (sc_images c)"
    by (rule ccontr) (use assms(1) True in \<open>simp add: handle_async_buf_def\<close>)
  moreover have "img_state (sc_images c ! ?i) \<in> {PresentQueued, PresentPendingReady}"
    by (rule ccontr) (use assms(1) True in \<open>simp add: handle_async_buf_def\<close>)
  ultimately have p: "gpu_pending c ?i" by (simp add: gpu_pending_def)
  obtain img ms s1 where sh: "img_state img = (if gpu_done then PresentReady else PresentPendingReady)"
    "handle_async_buf env t gpu_done c s =
       (let c1 = c\<lparr>sc_mappings := ms, sc_images := (sc_images c)[?i := img]\<rparr>;
            (ok, c2) = (if es_immediate s1 then retire_obsolete_images_before env (-1) c1 else retire_obsolete_images env c1)
        in Some (ok, c2, s1))"
    by (rule handle_async_buf_shape[OF True p])
  define c1 where "c1 = c\<lparr>sc_mappings := ms, sc_images := (sc_images c)[?i := img]\<rparr>"
  have "held c1 j = held c j" if "j < length (sc_images c)" for j
    using p sh(1) that by (cases "j = ?i") (auto simp: c1_def held_def gpu_pending_def)
  then have r1: "returns c c1 []" using assms(2) by (intro returns_same) (auto simp: c1_def)
  then have "sc_send c1 = []" "length (sc_images c1) \<le> 2 ^ 32" using assms(3) by (simp_all add: returns_def)
  then have "ok \<and> (\<exists>ns. returns c1 c' ns)"
    using assms(1) retire_before_returns[of c1 env "-1"] retire_returns[of c1 env]
    unfolding sh(2) Let_def c1_def[symmetric] by (auto split: if_splits prod.splits)
  with returns_trans[OF r1] show ?thesis by auto
qed

lemma sc_heartbeat_returns:
  assumes "sc_heartbeat env t c = (ok, k, c')" "sc_send c = []" "length (sc_images c) \<le> 2 ^ 32"
  shows "ok \<and> (\<exists>ms. returns c c' ms)"
proof -
  define c1 where "c1 = c\<lparr>sc_timestamp_completed := sc_timestamp_completed c + 1\<rparr>"
  define c2 where "c2 = c1\<lparr>sc_mappings := filter (\<lambda>m. \<not> cm_timestamp m \<le> sc_timestamp_completed c1) (sc_mappings c1)\<rparr>"
  have r: "returns c c1 []" "returns c c2 []"
    using assms(2) by (auto intro!: returns_same simp: c1_def c2_def held_def)
  define cid where "cid = due_complete_id (sc_timestamp_completed c1) (sc_mappings c1)"
  define f where "f = \<lparr>fc_group_serial = sc_group_serial c2, fc_timestamp = sc_timestamp_completed c2,
    fc_period_ns = t, fc_presented_id = cid, fc_flags = 0, fc_delayed_count = 0, fc_headroom_ns = 0\<rparr>"
  define c3 where "c3 = c2\<lparr>sc_out := sc_out c2 @ [FrameCompleteMessage 0 f]\<rparr>"
  have s2: "sc_send c2 = []" using r(2) by (simp add: returns_def)
  have r3: "returns c c3 ([] @ [FrameCompleteMessage 0 f])" and q3: "sc_reply (FrameCompleteMessage 0 f) c2 = (True, c3)"
    using returns_trans[OF r(2) returns_complete(2)[OF s2]] returns_complete(1)[OF s2] by (simp_all add: c3_def)
  have "sc_send c3 = []" "length (sc_images c3) \<le> 2 ^ 32" using r3 assms(3) by (simp_all add: returns_def)
  from retire_before_returns[OF this, of env cid] obtain c4 ns where
    r4: "retire_obsolete_images_before env cid c3 = (True, c4)" "returns c3 c4 ns" by blast
  have "ok \<and> (c' = c1 \<or> c' = c2 \<or> c' = c4)"
    using assms(1) q3 r4(1)
    by (auto simp: sc_heartbeat_def c1_def[symmetric] c2_def[symmetric] cid_def[symmetric] f_def Let_def split: if_splits)
  with r returns_trans[OF r3 r4(2)] show ?thesis by blast
qed

lemma sc_stalled_returns:
  assumes "sc_heartbeat_stalled env c = (ok, c')" "sc_send c = []" "length (sc_images c) \<le> 2 ^ 32"
  shows "ok \<and> (\<exists>ms. returns c c' ms)"
proof -
  define c1 where "c1 = c\<lparr>sc_timestamp_completed := sc_timestamp_completed c + 1,
    sc_timestamp_stalled_count := sc_timestamp_stalled_count c + 1\<rparr>"
  have r: "returns c c1 []" using assms(2) by (auto intro!: returns_same simp: c1_def held_def)
  have "sc_send c1 = []" "length (sc_images c1) \<le> 2 ^ 32" using assms(2,3) by (simp_all add: c1_def)
  from retire_returns[OF this, of env] assms(1) obtain ms where "ok" "returns c1 c' ms"
    by (auto simp: sc_heartbeat_stalled_def c1_def)
  with returns_trans[OF r] show ?thesis by auto
qed

text \<open>A step of the server that is not a request.\<close>

definition background :: "sc_event \<Rightarrow> bool" where
  "background e \<longleftrightarrow> (case e of ScMessage env m \<Rightarrow> False | _ \<Rightarrow> True)"

lemma background_returns:
  assumes "background e" "sc_step e c s = Some (True, c', s')" "sc_send c = []" "length (sc_images c) \<le> 2 ^ 32"
  shows "\<exists>ms. returns c c' ms"
proof (cases e)
  case (ScMessage env m)
  with assms(1) show ?thesis by (simp add: background_def)
next
  case (ScTaskDone k)
  with assms have "returns c c' []" by (auto intro!: returns_same simp: finish_task_def held_def)
  then show ?thesis by blast
next
  case (ScPipe env)
  then obtain t ts where p: "handle_async_buf env t True (c\<lparr>sc_pipe := ts\<rparr>) s = Some (True, c', s')"
    using assms(2) by (auto simp: handle_async_def split: list.splits)
  have "returns c (c\<lparr>sc_pipe := ts\<rparr>) []" using assms(3) by (auto intro!: returns_same simp: held_def)
  with handle_async_buf_returns[OF p] assms(3,4) returns_trans show ?thesis by fastforce
next
  case (ScHeartbeat env t)
  with assms sc_heartbeat_returns show ?thesis by (auto split: prod.splits)
next
  case (ScStalled env)
  with assms sc_stalled_returns show ?thesis by (auto split: prod.splits)
qed

text \<open>
  An accepted presentation: the image becomes held, the reply is sent, and then images may be given back.
\<close>

definition accepts :: "u64 \<Rightarrow> present_image \<Rightarrow> swapchain \<Rightarrow> swapchain \<Rightarrow> ipc_message list \<Rightarrow> bool" where
  "accepts serial p c c' ms \<longleftrightarrow> (\<exists>c1. returns c1 c' ms
     \<and> length (sc_images c1) = length (sc_images c) \<and> sc_group_serial c1 = sc_group_serial c
     \<and> sc_last_present_id c1 = pr_id p \<and> sc_out c1 = sc_out c @ [PlainMessage MT_OK serial]
     \<and> (\<forall>j < length (sc_images c). held c1 j = (held c j \<or> j = unat (pr_index p))))"

lemma sc_plain_open: "sc_send c = [] \<Longrightarrow> sc_plain t serial c = (True, c\<lparr>sc_out := sc_out c @ [PlainMessage t serial]\<rparr>)"
  by (simp add: sc_plain_def sc_reply_def)

lemma queue_present_accepts:
  assumes "queue_present env serial p i pts c s = Some (ok, c', s')" "sc_send c = []" "length (sc_images c) \<le> 2 ^ 32"
    and "i = unat (pr_index p)" "i < length (sc_images c)" "sc_last_present_id c = pr_id p"
  shows "ok \<and> (\<exists>ms. accepts serial p c c' ms)"
proof -
  define task where "task = \<lparr>gt_serial = sc_group_serial c, gt_index = i, gt_pts = pts\<rparr>"
  define img where "img = (sc_images c ! i)\<lparr>target_period := ucast (pr_period p),
    target_timestamp := compute_next_target_timestamp c, present_id := pr_id p, img_state := PresentQueued\<rparr>"
  define c1 where "c1 = c\<lparr>sc_images := (sc_images c)[i := img], sc_earliest_next_timestamp := target_timestamp img + ucast (target_period img),
    sc_refs := sc_refs c + 1, sc_out := sc_out c @ [PlainMessage MT_OK serial]\<rparr>"
  have c1: "sc_send c1 = []" "length (sc_images c1) \<le> 2 ^ 32" "length (sc_images c1) = length (sc_images c)"
    "sc_group_serial c1 = sc_group_serial c" "sc_last_present_id c1 = pr_id p"
    "sc_out c1 = sc_out c @ [PlainMessage MT_OK serial]"
    using assms(2,3,6) by (simp_all add: c1_def)
  have h: "held c1 j = (held c j \<or> j = i)" if "j < length (sc_images c)" for j
    using that by (cases "j = i") (auto simp: c1_def held_def img_def)
  have q: "queue_present env serial p i pts c s = do {
      (ok, c, s) \<leftarrow> (if img_cross img \<or> \<not> es_immediate s then Some (True, c1, s) else handle_async_buf env task False c1 s);
      Some (if ok then spawn_task env task c s else (False, c, s)) }"
    using assms(2)
    by (simp add: queue_present_def sc_plain_open task_def[symmetric] img_def[symmetric] c1_def Let_def)
  obtain c2 s2 ms2 where c2: "returns c1 c2 ms2" "Some (spawn_task env task c2 s2) = Some (ok, c', s')"
  proof (cases "img_cross img \<or> \<not> es_immediate s")
    case True
    have "returns c1 c1 []" using c1(1) by (intro returns_same) auto
    then show ?thesis using that q True assms(1) by simp
  next
    case False
    then obtain ok2 c2 s2 where a: "handle_async_buf env task False c1 s = Some (ok2, c2, s2)"
      using q assms(1) by (auto split: option.splits Option.bind_splits)
    with False q assms(1) handle_async_buf_returns[OF a c1(1,2)] that show ?thesis by auto
  qed
  have s2: "sc_send c2 = []" "length (sc_images c2) \<le> 2 ^ 32" using c2(1) c1(2) by (simp_all add: returns_def)
  define c3 where "c3 = c2\<lparr>sc_tasks := sc_tasks c2 @ [task]\<rparr>"
  have r3: "returns c2 c3 []" using s2(1) by (auto intro!: returns_same simp: c3_def held_def)
  have "sc_send c3 = []" "length (sc_images c3) \<le> 2 ^ 32" using s2 by (simp_all add: c3_def)
  then obtain c4 ns where r4: "retire_obsolete_images env c3 = (True, c4)" "returns c3 c4 ns" using retire_returns by blast
  have "ok \<and> returns c1 c' (ms2 @ [] @ ns)"
    using c2(2) r4(1) returns_trans[OF c2(1) returns_trans[OF r3 r4(2)]] by (auto simp: spawn_task_def c3_def)
  with c1 h show ?thesis unfolding accepts_def assms(4)[symmetric] by blast
qed

lemma handle_present_accepts:
  assumes "handle_present env serial p c s = Some (True, c', s')" "sc_send c = []" "length (sc_images c) \<le> 2 ^ 32"
    and "pr_group_serial p = sc_group_serial c" "unat (pr_index p) < length (sc_images c)"
    and "sc_last_present_id c < pr_id p" "\<not> held c (unat (pr_index p))"
  shows "\<exists>ms. accepts serial p c c' ms"
proof -
  define c1 where "c1 = c\<lparr>sc_last_present_id := pr_id p\<rparr>"
  have "queue_present env serial p (unat (pr_index p)) (if es_encoder s then vk_now env else 0) c1 s = Some (True, c', s')"
    using assms(1,4-7) by (auto simp: handle_present_def held_def c1_def Let_def split: if_splits)
  from queue_present_accepts[OF this] obtain ms where "accepts serial p c1 c' ms"
    using assms(2,3,5) by (auto simp: c1_def)
  then show ?thesis by (auto simp: accepts_def c1_def held_def)
qed

text \<open>With a semaphore that can be imported the presentation is accepted.\<close>

lemma handle_present_succeeds:
  assumes "sc_inv c" "sc_send c = []" "length (sc_images c) \<le> 2 ^ 32"
    and "pr_group_serial p = sc_group_serial c" "unat (pr_index p) < length (sc_images c)"
    and "sc_last_present_id c < pr_id p" "\<not> held c (unat (pr_index p))" "vk_semaphore env" "vk_import env"
  shows "\<exists>c' s'. handle_present env serial p c s = Some (True, c', s')"
proof -
  obtain ok c' s' where h: "handle_present env serial p c s = Some (ok, c', s')"
    using handle_present_ok[OF assms(1)] by blast
  define c1 where "c1 = c\<lparr>sc_last_present_id := pr_id p\<rparr>"
  have "queue_present env serial p (unat (pr_index p)) (if es_encoder s then vk_now env else 0) c1 s = Some (ok, c', s')"
    using h assms(4-9) by (auto simp: handle_present_def held_def c1_def Let_def not_le[symmetric])
  from queue_present_accepts[OF this] have ok using assms(2,3,5) by (simp add: c1_def)
  with h show ?thesis by auto
qed

section \<open>The images of the application\<close>

text \<open>The calls that an event of the server leads to succeed.\<close>

definition calls_succeed :: "layer_env \<Rightarrow> bool" where
  "calls_succeed env \<longleftrightarrow> (\<forall>i. le_wait_fences env i \<and> le_reset_fences env i) \<and> le_import_semaphore env \<and> le_read_event env"

text \<open>A surface in which only image \<open>i\<close> has changed.\<close>

lemma settle_fence_ok:
  assumes "calls_succeed (sf_env s)" "i < length (sf_images s)"
  obtains img where "settle_fence i s = (True, s\<lparr>sf_images := (sf_images s)[i := img]\<rparr>)"
    "ex_acquired img = ex_acquired (sf_images s ! i)" "ex_ready img = ex_ready (sf_images s ! i)"
proof (cases "ex_fence_pending (sf_images s ! i)")
  case True
  with assms that[of "(sf_images s ! i)\<lparr>ex_fence_pending := False\<rparr>"] show ?thesis
    by (simp add: settle_fence_def set_image_def calls_succeed_def)
next
  case False
  with assms that[of "sf_images s ! i"] show ?thesis by (simp add: settle_fence_def)
qed

lemma event_acquire_ok:
  assumes "calls_succeed (sf_env s)" "aq_group_serial a = sf_group_serial s"
    "unat (aq_index a) < length (sf_images s)" "\<not> ex_acquired (sf_images s ! unat (aq_index a))"
  obtains img where "event_acquire a fd s = (True, s\<lparr>sf_images := (sf_images s)[unat (aq_index a) := img]\<rparr>)"
    "ex_acquired img" "ex_ready img = ex_ready (sf_images s ! unat (aq_index a))"
proof -
  let ?i = "unat (aq_index a)"
  define s1 where "s1 = set_image ?i (\<lambda>x. x\<lparr>ex_acquired := True\<rparr>) s"
  have s1: "calls_succeed (sf_env s1)" "?i < length (sf_images s1)" using assms by (simp_all add: s1_def set_image_def)
  obtain img where f: "settle_fence ?i s1 = (True, s1\<lparr>sf_images := (sf_images s1)[?i := img]\<rparr>)"
      "ex_acquired img = ex_acquired (sf_images s1 ! ?i)" "ex_ready img = ex_ready (sf_images s1 ! ?i)"
    by (rule settle_fence_ok[OF s1])
  have e: "ex_acquired img" "ex_ready img = ex_ready (sf_images s ! ?i)"
    using f(2,3) assms(3) by (simp_all add: s1_def set_image_def)
  show ?thesis
    by (rule that[of "img\<lparr>ex_live_payload := aq_semaphore_type a \<noteq> 0\<rparr>"])
      (use assms f(1) e in \<open>auto simp: event_acquire_def s1_def set_image_def calls_succeed_def Let_def\<close>)
qed

lemma event_retire_ok:
  assumes "rt_group_serial r = sf_group_serial s" "unat (rt_index r) < length (sf_images s)"
    "\<not> ex_ready (sf_images s ! unat (rt_index r))"
  obtains img where "event_retire r s = (True, s\<lparr>sf_images := (sf_images s)[unat (rt_index r) := img]\<rparr>)"
    "ex_ready img" "ex_acquired img = ex_acquired (sf_images s ! unat (rt_index r))"
  by (rule that[of "(sf_images s ! unat (rt_index r))\<lparr>ex_ready := True\<rparr>"])
    (use assms in \<open>auto simp: event_retire_def set_image_def Let_def\<close>)

lemma event_complete_shape:
  "\<exists>s'. event_complete f s = (True, s') \<and> sf_env s' = sf_env s \<and> sf_group_serial s' = sf_group_serial s
    \<and> sf_present_id s' = sf_present_id s \<and> sf_images s' = sf_images s"
  by (simp add: event_complete_def Let_def)

lemma record_copy_shape:
  assumes "record_copy i s = (Inr fd, s1)" "i < length (sf_images s)"
  obtains img where "s1 = s\<lparr>sf_images := (sf_images s)[i := img]\<rparr>"
proof -
  define img where "img = (sf_images s ! i)\<lparr>ex_live_payload := False, ex_pool := Some (le_family (sf_env s))\<rparr>"
  have "s1 = s\<lparr>sf_images := (sf_images s)[i := img]\<rparr>"
    using assms by (auto simp: record_copy_def Let_def set_image_def img_def split: if_splits)
  then show ?thesis by (rule that)
qed

lemma ready_imageD:
  assumes "ready_image s = Some i"
  shows "i < length (sf_images s)" "ex_ready (sf_images s ! i)" "ex_acquired (sf_images s ! i)"
  using assms by (auto simp: ready_image_def find_Some_iff)

lemma layer_sendD:
  assumes "layer_send m s cl = (serial, cl')" "serial \<noteq> 0"
  shows "serial = send_serial cl + 1" "cl' = cl\<lparr>send_serial := serial\<rparr>"
  using assms by (auto simp: layer_send_def send_message_raw_def Let_def split: if_splits)

section \<open>Sessions\<close>

text \<open>
  The surface with its client, the requests under way to the server, the messages under way to the client,
  and the server's side.
\<close>

record session =
  se_surface :: surface_state
  se_client :: layer_client
  se_requests :: "(u64 \<times> present_image \<times> int) list"
  se_events :: "ipc_message list"
  se_chain :: swapchain
  se_encode :: encode_server

definition sent_since :: "swapchain \<Rightarrow> swapchain \<Rightarrow> ipc_message list" where
  "sent_since c c' = drop (length (sc_out c)) (sc_out c')"

text \<open>
  Steps: the application presents an image that is ready (the part of \<open>processPresent\<close> up to the message),
  the client processes a message, the server handles a request or does something else, and the answers of
  the graphics library change.  A step of the server that fails ends the session.
\<close>

inductive session_step :: "session \<Rightarrow> session \<Rightarrow> bool" where
  present: "ready_image (se_surface w) = Some i \<Longrightarrow> record_copy i (se_surface w) = (Inr fd, s1)
    \<Longrightarrow> mark_presented i khr mode s1 = (wire, s2)
    \<Longrightarrow> layer_send (PresentImageMessage 0 wire fd) s2 (se_client w) = (serial, cl) \<Longrightarrow> serial \<noteq> 0
    \<Longrightarrow> sf_present_id s1 \<noteq> -1
    \<Longrightarrow> session_step w (w\<lparr>se_surface := s2, se_client := cl, se_requests := se_requests w @ [(serial, wire, fd)]\<rparr>)"
| receive: "se_events w = m # ms \<Longrightarrow> process (Some m) (se_client w) (se_surface w) = (ok, cl, s)
    \<Longrightarrow> session_step w (w\<lparr>se_surface := s, se_client := cl, se_events := ms\<rparr>)"
| serve: "se_requests w = (serial, p, fd) # rs
    \<Longrightarrow> sc_handle env (Some (PresentImageMessage serial p fd)) (se_chain w) (se_encode w) = Some (True, c, sv)
    \<Longrightarrow> session_step w (w\<lparr>se_requests := rs, se_chain := c, se_encode := sv,
          se_events := se_events w @ sent_since (se_chain w) c\<rparr>)"
| server: "background e \<Longrightarrow> step_possible e (se_chain w) \<Longrightarrow> sc_step e (se_chain w) (se_encode w) = Some (True, c, sv)
    \<Longrightarrow> session_step w (w\<lparr>se_chain := c, se_encode := sv, se_events := se_events w @ sent_since (se_chain w) c\<rparr>)"
| environment: "calls_succeed env \<Longrightarrow> session_step w (w\<lparr>se_surface := (se_surface w)\<lparr>sf_env := env\<rparr>\<rparr>)"

text \<open>The handlers that \<open>initClient\<close> installs.\<close>

definition layer_handlers :: "layer_client \<Rightarrow> bool" where
  "layer_handlers cl \<longleftrightarrow> cl_handlers cl = Map.empty \<and> event_handler cl = Some handle_event
     \<and> default_handler cl = Some (\<lambda>m st. (get_type m = MT_OK, st))"

text \<open>
  A session after an image group was accepted: all images are with the application, nothing is under way, and
  the counters agree.
\<close>

definition session_start :: "session \<Rightarrow> bool" where
  "session_start w \<longleftrightarrow> (let s = se_surface w; c = se_chain w; cl = se_client w in
     length (sf_images s) = length (sc_images c) \<and> length (sf_images s) \<le> 2 ^ 16
     \<and> sf_group_serial s = sc_group_serial c \<and> calls_succeed (sf_env s) \<and> sc_send c = [] \<and> sc_inv c
     \<and> layer_handlers cl \<and> se_requests w = [] \<and> se_events w = [] \<and> send_serial cl = received_replies cl
     \<and> sf_present_id s = sc_last_present_id c
     \<and> list_all (\<lambda>x. ex_acquired x \<and> ex_ready x) (sf_images s) \<and> list_all (\<lambda>x. img_state x = ClientOwned) (sc_images c))"

inductive session_reachable :: "session \<Rightarrow> bool" where
  start: "session_start w \<Longrightarrow> session_reachable w"
| step: "session_reachable w \<Longrightarrow> session_step w w' \<Longrightarrow> session_reachable w'"

definition asks :: "nat \<Rightarrow> u64 \<times> present_image \<times> int \<Rightarrow> bool" where
  "asks i r \<longleftrightarrow> unat (pr_index (fst (snd r))) = i"

text \<open>In how many places the right to use image \<open>i\<close> is, and the notice that the server has let go of it.\<close>

definition owners :: "session \<Rightarrow> nat \<Rightarrow> nat" where
  "owners w i = of_bool (ex_acquired (sf_images (se_surface w) ! i)) + tally (is_acquire i) (se_events w)
     + tally (asks i) (se_requests w) + of_bool (held (se_chain w) i)"

definition notices :: "session \<Rightarrow> nat \<Rightarrow> nat" where
  "notices w i = of_bool (ex_ready (sf_images (se_surface w) ! i)) + tally (is_retire i) (se_events w)
     + tally (asks i) (se_requests w) + of_bool (held (se_chain w) i)"

definition reply_serials :: "ipc_message list \<Rightarrow> u64 list" where
  "reply_serials ms = filter (\<lambda>k. k \<noteq> 0) (map get_serial ms)"

definition events_ok :: "u64 \<Rightarrow> nat \<Rightarrow> ipc_message list \<Rightarrow> bool" where
  "events_ok g n ms \<longleftrightarrow> (\<forall>m \<in> set ms. group_event g n m \<or> (\<exists>k. k \<noteq> 0 \<and> m = PlainMessage MT_OK k))"

definition requests_ok :: "u64 \<Rightarrow> nat \<Rightarrow> (u64 \<times> present_image \<times> int) list \<Rightarrow> bool" where
  "requests_ok g n rs \<longleftrightarrow> (\<forall>(k, p, fd) \<in> set rs. k \<noteq> 0 \<and> pr_group_serial p = g \<and> unat (pr_index p) < n)"

definition session_inv :: "session \<Rightarrow> bool" where
  "session_inv w \<longleftrightarrow> (let s = se_surface w; c = se_chain w; cl = se_client w; n = length (sf_images s) in
     n = length (sc_images c) \<and> n \<le> 2 ^ 16 \<and> sf_group_serial s = sc_group_serial c \<and> calls_succeed (sf_env s)
     \<and> sc_send c = [] \<and> sc_inv c \<and> layer_handlers cl
     \<and> events_ok (sf_group_serial s) n (se_events w) \<and> requests_ok (sf_group_serial s) n (se_requests w)
     \<and> map unat (reply_serials (se_events w) @ map fst (se_requests w))
         = [Suc (unat (received_replies cl))..<Suc (unat (send_serial cl))]
     \<and> map (\<lambda>r. unat (pr_id (fst (snd r)))) (se_requests w) = [Suc (unat (sc_last_present_id c))..<Suc (unat (sf_present_id s))]
     \<and> received_replies cl \<le> send_serial cl \<and> sc_last_present_id c \<le> sf_present_id s
     \<and> (\<forall>i < n. owners w i = 1 \<and> notices w i = 1))"

lemma session_start_inv: "session_start w \<Longrightarrow> session_inv w"
  by (auto simp: session_start_def session_inv_def Let_def events_ok_def requests_ok_def reply_serials_def
      owners_def notices_def held_def list_all_length)

lemma session_invD:
  assumes "session_inv w"
  shows "length (sc_images (se_chain w)) = length (sf_images (se_surface w))" "length (sf_images (se_surface w)) \<le> 2 ^ 16"
    "sc_group_serial (se_chain w) = sf_group_serial (se_surface w)" "calls_succeed (sf_env (se_surface w))"
    "sc_send (se_chain w) = []" "sc_inv (se_chain w)" "layer_handlers (se_client w)"
    "events_ok (sf_group_serial (se_surface w)) (length (sf_images (se_surface w))) (se_events w)"
    "requests_ok (sf_group_serial (se_surface w)) (length (sf_images (se_surface w))) (se_requests w)"
    "map unat (reply_serials (se_events w) @ map fst (se_requests w))
      = [Suc (unat (received_replies (se_client w)))..<Suc (unat (send_serial (se_client w)))]"
    "map (\<lambda>r. unat (pr_id (fst (snd r)))) (se_requests w)
      = [Suc (unat (sc_last_present_id (se_chain w)))..<Suc (unat (sf_present_id (se_surface w)))]"
    "unat (received_replies (se_client w)) \<le> unat (send_serial (se_client w))"
    "unat (sc_last_present_id (se_chain w)) \<le> unat (sf_present_id (se_surface w))"
    "\<And>i. i < length (sf_images (se_surface w)) \<Longrightarrow> owners w i = 1 \<and> notices w i = 1"
  using assms by (auto simp: session_inv_def Let_def word_le_nat_alt)

lemma mark_presentedD:
  assumes "mark_presented i khr mode s = (wire, s')" "i < length (sf_images s)" "length (sf_images s) \<le> 2 ^ 16"
  obtains img where "sf_images s' = (sf_images s)[i := img]" "\<not> ex_acquired img" "\<not> ex_ready img"
    "sf_env s' = sf_env s" "sf_group_serial s' = sf_group_serial s" "sf_present_id s' = sf_present_id s + 1"
    "pr_group_serial wire = sf_group_serial s" "unat (pr_index wire) = i" "pr_id wire = sf_present_id s + 1"
proof -
  have u: "unat (word_of_nat i :: u16) = i" using assms(2,3) by (simp add: unsigned_of_nat take_bit_nat_eq_self)
  show ?thesis
    by (rule that[of "(sf_images s ! i)\<lparr>ex_acquired := False, ex_ready := False, ex_fence_pending := True\<rparr>"])
      (use assms(1) u in \<open>auto simp: mark_presented_def present_wire_def set_image_def Let_def split: option.splits\<close>)
qed

lemma unat_Suc: "(k :: 'a :: len word) + 1 \<noteq> 0 \<Longrightarrow> unat (k + 1) = Suc (unat k)"
  by (simp add: unatSuc add.commute)

lemma session_present:
  assumes inv: "session_inv w" and r: "ready_image (se_surface w) = Some i"
    and rc: "record_copy i (se_surface w) = (Inr fd, s1)" and mp: "mark_presented i khr mode s1 = (wire, s2)"
    and ls: "layer_send (PresentImageMessage 0 wire fd) s2 (se_client w) = (serial, cl)" "serial \<noteq> 0"
    and lim: "sf_present_id s1 \<noteq> -1"
  shows "session_inv (w\<lparr>se_surface := s2, se_client := cl, se_requests := se_requests w @ [(serial, wire, fd)]\<rparr>)"
    (is "session_inv ?w")
proof -
  let ?s = "se_surface w"
  note I = session_invD[OF inv] and R = ready_imageD[OF r] and L = layer_sendD[OF ls]
  obtain img where s1: "s1 = ?s\<lparr>sf_images := (sf_images ?s)[i := img]\<rparr>" by (rule record_copy_shape[OF rc R(1)])
  have b: "i < length (sf_images s1)" "length (sf_images s1) \<le> 2 ^ 16" using R(1) I(2) by (simp_all add: s1)
  obtain img2 where s2: "sf_images s2 = (sf_images s1)[i := img2]" "\<not> ex_acquired img2" "\<not> ex_ready img2"
    "sf_env s2 = sf_env s1" "sf_group_serial s2 = sf_group_serial s1" "sf_present_id s2 = sf_present_id s1 + 1"
    "pr_group_serial wire = sf_group_serial s1" "unat (pr_index wire) = i" "pr_id wire = sf_present_id s1 + 1"
    by (rule mark_presentedD[OF mp b])
  have im: "sf_images s2 = (sf_images ?s)[i := img2]" using s2(1) by (simp add: s1)
  have us: "unat serial = Suc (unat (send_serial (se_client w)))" using L(1) ls(2) unat_Suc by auto
  have "sf_present_id ?s + 1 \<noteq> 0" using lim by (simp add: s1 eq_neg_iff_add_eq_0)
  then have up: "unat (sf_present_id ?s + 1) = Suc (unat (sf_present_id ?s))" by (rule unat_Suc)
  have own: "owners ?w j = 1 \<and> notices ?w j = 1" if "j < length (sf_images ?s)" for j
    using I(14)[OF that] R s2(2,3,8) that
    by (cases "j = i") (auto simp: owners_def notices_def im asks_def)
  show ?thesis
    unfolding session_inv_def Let_def
    using I own s2 im us up L R(1) by (auto simp: s1 requests_ok_def layer_handlers_def word_le_nat_alt)
qed

lemma process_layer_event:
  assumes "layer_handlers cl" "group_event g n m" "handle_event m s = (True, s')"
  shows "process (Some m) cl s = (True, cl, s')" "get_serial m = 0"
proof -
  have m: "get_serial m = 0" "is_event m"
    using assms(2) sc_events by (auto simp: group_event_def is_sc_event_def split: ipc_message.splits)
  with assms(1,3) show "process (Some m) cl s = (True, cl, s')"
    by (simp add: process_def process_event_def layer_handlers_def call_handler_def)
  show "get_serial m = 0" by (rule m)
qed

lemma process_layer_reply:
  assumes "layer_handlers cl" "k \<noteq> 0" "unat k = Suc (unat (received_replies cl))"
  shows "process (Some (PlainMessage MT_OK k)) cl s = (True, cl\<lparr>received_replies := k\<rparr>, s)"
proof -
  have "k = received_replies cl + 1" by (rule unat_Suc_plus[OF assms(3)])
  with assms(1,2) plain_not_event[of MT_OK k] show ?thesis
    by (simp add: process_def process_reply_def layer_handlers_def call_handler_def)
qed

text \<open>An event about image \<open>i\<close> changes that image only.\<close>

lemma session_event:
  assumes inv: "session_inv w" and ev: "se_events w = m # ms"
    and g: "group_event (sf_group_serial (se_surface w)) (length (sf_images (se_surface w))) m"
  shows "\<exists>s. process (Some m) (se_client w) (se_surface w) = (True, se_client w, s)
    \<and> session_inv (w\<lparr>se_surface := s, se_events := ms\<rparr>)"
proof -
  let ?s = "se_surface w"
  note I = session_invD[OF inv]
  have z: "get_serial m = 0" by (rule group_event_serial[OF g])
  have I8: "events_ok (sf_group_serial ?s) (length (sf_images ?s)) ms" using I(8) by (simp add: ev events_ok_def)
  have I10: "map unat (reply_serials ms @ map fst (se_requests w))
      = [Suc (unat (received_replies (se_client w)))..<Suc (unat (send_serial (se_client w)))]"
    using I(10) z by (simp add: ev reply_serials_def)
  have fin: ?thesis if "handle_event m ?s = (True, s)" "sf_env s = sf_env ?s" "sf_group_serial s = sf_group_serial ?s"
      "sf_present_id s = sf_present_id ?s" "length (sf_images s) = length (sf_images ?s)"
      "\<And>i. i < length (sf_images ?s) \<Longrightarrow> owners (w\<lparr>se_surface := s, se_events := ms\<rparr>) i = 1
          \<and> notices (w\<lparr>se_surface := s, se_events := ms\<rparr>) i = 1" for s
  proof -
    have "session_inv (w\<lparr>se_surface := s, se_events := ms\<rparr>)"
      unfolding session_inv_def Let_def using I I8 I10 that(2-6) by (simp add: word_le_nat_alt)
    with process_layer_event(1)[OF I(7) g that(1)] show ?thesis by blast
  qed
  show ?thesis
  proof (cases m)
    case (AcquireImageMessage k a fd)
    let ?i = "unat (aq_index a)"
    have a: "aq_group_serial a = sf_group_serial ?s" "?i < length (sf_images ?s)"
      using g AcquireImageMessage by (simp_all add: group_event_def)
    have na: "\<not> ex_acquired (sf_images ?s ! ?i)"
      using I(14)[OF a(2)] by (simp add: owners_def ev AcquireImageMessage is_acquire_def split: if_splits)
    obtain img where img: "event_acquire a fd ?s = (True, ?s\<lparr>sf_images := (sf_images ?s)[?i := img]\<rparr>)"
        "ex_acquired img" "ex_ready img = ex_ready (sf_images ?s ! ?i)"
      by (rule event_acquire_ok[OF I(4) a na])
    show ?thesis
    proof (rule fin)
      show "handle_event m ?s = (True, ?s\<lparr>sf_images := (sf_images ?s)[?i := img]\<rparr>)"
        using img(1) AcquireImageMessage by (simp add: handle_event_def)
    next
      fix j assume j: "j < length (sf_images ?s)"
      let ?w = "w\<lparr>se_surface := ?s\<lparr>sf_images := (sf_images ?s)[?i := img]\<rparr>, se_events := ms\<rparr>"
      show "owners ?w j = 1 \<and> notices ?w j = 1"
        using I(14)[OF j] img na j
        by (cases "j = ?i") (auto simp: owners_def notices_def ev AcquireImageMessage is_acquire_def is_retire_def)
    qed simp_all
  next
    case (RetireImageMessage k r)
    let ?i = "unat (rt_index r)"
    have a: "rt_group_serial r = sf_group_serial ?s" "?i < length (sf_images ?s)"
      using g RetireImageMessage by (simp_all add: group_event_def)
    have na: "\<not> ex_ready (sf_images ?s ! ?i)"
      using I(14)[OF a(2)] by (simp add: notices_def ev RetireImageMessage is_retire_def split: if_splits)
    obtain img where img: "event_retire r ?s = (True, ?s\<lparr>sf_images := (sf_images ?s)[?i := img]\<rparr>)"
        "ex_ready img" "ex_acquired img = ex_acquired (sf_images ?s ! ?i)"
      by (rule event_retire_ok[OF a na])
    show ?thesis
    proof (rule fin)
      show "handle_event m ?s = (True, ?s\<lparr>sf_images := (sf_images ?s)[?i := img]\<rparr>)"
        using img(1) RetireImageMessage by (simp add: handle_event_def)
    next
      fix j assume j: "j < length (sf_images ?s)"
      let ?w = "w\<lparr>se_surface := ?s\<lparr>sf_images := (sf_images ?s)[?i := img]\<rparr>, se_events := ms\<rparr>"
      show "owners ?w j = 1 \<and> notices ?w j = 1"
        using I(14)[OF j] img na j
        by (cases "j = ?i") (auto simp: owners_def notices_def ev RetireImageMessage is_acquire_def is_retire_def)
    qed simp_all
  next
    case (FrameCompleteMessage k f)
    obtain s where s: "event_complete f ?s = (True, s)" "sf_env s = sf_env ?s" "sf_group_serial s = sf_group_serial ?s"
        "sf_present_id s = sf_present_id ?s" "sf_images s = sf_images ?s"
      using event_complete_shape by blast
    show ?thesis
      by (rule fin[of s]) (use s I(14) in \<open>auto simp: handle_event_def FrameCompleteMessage owners_def notices_def ev
        is_acquire_def is_retire_def\<close>)
  qed (use g in \<open>simp_all add: group_event_def\<close>)
qed

lemma upt_Cons_eq: "x # xs = [a..<b] \<longleftrightarrow> a < b \<and> x = a \<and> xs = [Suc a..<b]"
  by (cases "a < b") (auto simp: upt_conv_Cons)

lemma session_receive:
  assumes inv: "session_inv w" and ev: "se_events w = m # ms"
  shows "\<exists>cl s. process (Some m) (se_client w) (se_surface w) = (True, cl, s)
    \<and> session_inv (w\<lparr>se_surface := s, se_client := cl, se_events := ms\<rparr>)"
proof (cases "group_event (sf_group_serial (se_surface w)) (length (sf_images (se_surface w))) m")
  case True
  obtain s where s: "process (Some m) (se_client w) (se_surface w) = (True, se_client w, s)"
      "session_inv (w\<lparr>se_surface := s, se_events := ms\<rparr>)"
    using session_event[OF inv ev True] by blast
  have "w\<lparr>se_surface := s, se_client := se_client w, se_events := ms\<rparr> = w\<lparr>se_surface := s, se_events := ms\<rparr>" by simp
  with s show ?thesis by metis
next
  case False
  let ?cl = "se_client w"
  note I = session_invD[OF inv]
  obtain k where k: "k \<noteq> 0" "m = PlainMessage MT_OK k" using I(8) False by (auto simp: ev events_ok_def)
  have "unat k # map unat (reply_serials ms @ map fst (se_requests w))
      = [Suc (unat (received_replies ?cl))..<Suc (unat (send_serial ?cl))]"
    using I(10) k by (simp add: ev reply_serials_def)
  then have u: "unat k = Suc (unat (received_replies ?cl))" "unat k \<le> unat (send_serial ?cl)"
    "map unat (reply_serials ms @ map fst (se_requests w)) = [Suc (unat k)..<Suc (unat (send_serial ?cl))]"
    unfolding upt_Cons_eq by auto
  let ?w = "w\<lparr>se_surface := se_surface w, se_client := ?cl\<lparr>received_replies := k\<rparr>, se_events := ms\<rparr>"
  have own: "owners ?w i = owners w i" "notices ?w i = notices w i" for i
    by (simp_all add: owners_def notices_def ev k is_acquire_def is_retire_def)
  have "session_inv ?w"
    unfolding session_inv_def Let_def own using I u
    by (simp add: ev layer_handlers_def events_ok_def word_le_nat_alt)
  with process_layer_reply[OF I(7) k(1) u(1), of "se_surface w"] k(2) show ?thesis by blast
qed

text \<open>A step of the server that presents nothing.\<close>

lemma session_returns:
  assumes inv: "session_inv w" and r: "returns (se_chain w) c ms" and sc: "sc_inv c"
  shows "session_inv (w\<lparr>se_chain := c, se_encode := sv, se_events := se_events w @ sent_since (se_chain w) c\<rparr>)"
proof -
  note I = session_invD[OF inv]
  have ms: "sent_since (se_chain w) c = ms" using r by (simp add: returns_def sent_since_def)
  have ge: "\<forall>m \<in> set ms. group_event (sf_group_serial (se_surface w)) (length (sf_images (se_surface w))) m"
    using r I(1,3) by (simp add: returns_def)
  then have "reply_serials ms = []"
    using group_event_serial by (fastforce simp: reply_serials_def filter_empty_conv)
  then have rs: "reply_serials (se_events w @ ms) = reply_serials (se_events w)" by (simp add: reply_serials_def)
  have own: "owners (w\<lparr>se_chain := c, se_encode := sv, se_events := se_events w @ ms\<rparr>) i = 1
      \<and> notices (w\<lparr>se_chain := c, se_encode := sv, se_events := se_events w @ ms\<rparr>) i = 1"
    if "i < length (sf_images (se_surface w))" for i
  proof -
    have "tally (is_acquire i) ms + of_bool (held c i) = of_bool (held (se_chain w) i)"
      "tally (is_retire i) ms + of_bool (held c i) = of_bool (held (se_chain w) i)"
      using r that I(1) by (simp_all add: returns_def)
    with I(14)[OF that] show ?thesis by (simp add: owners_def notices_def)
  qed
  show ?thesis
    unfolding ms session_inv_def Let_def using I r own ge rs sc
    by (auto simp: returns_def events_ok_def word_le_nat_alt)
qed

lemma session_serve_ready:
  assumes inv: "session_inv w" and rq: "se_requests w = (serial, p, fd) # rs"
  shows "pr_group_serial p = sc_group_serial (se_chain w)" "unat (pr_index p) < length (sc_images (se_chain w))"
    "sc_last_present_id (se_chain w) < pr_id p" "\<not> held (se_chain w) (unat (pr_index p))"
    "unat (pr_id p) = Suc (unat (sc_last_present_id (se_chain w)))" "unat (pr_id p) \<le> unat (sf_present_id (se_surface w))"
    "map (\<lambda>r. unat (pr_id (fst (snd r)))) rs = [Suc (unat (pr_id p))..<Suc (unat (sf_present_id (se_surface w)))]"
    "serial \<noteq> 0"
proof -
  note I = session_invD[OF inv]
  show g: "pr_group_serial p = sc_group_serial (se_chain w)" "unat (pr_index p) < length (sc_images (se_chain w))" "serial \<noteq> 0"
    using I(1,3,9) by (auto simp: rq requests_ok_def)
  have "unat (pr_id p) # map (\<lambda>r. unat (pr_id (fst (snd r)))) rs
      = [Suc (unat (sc_last_present_id (se_chain w)))..<Suc (unat (sf_present_id (se_surface w)))]"
    using I(11) by (simp add: rq)
  then show u: "unat (pr_id p) = Suc (unat (sc_last_present_id (se_chain w)))"
    "unat (pr_id p) \<le> unat (sf_present_id (se_surface w))"
    "map (\<lambda>r. unat (pr_id (fst (snd r)))) rs = [Suc (unat (pr_id p))..<Suc (unat (sf_present_id (se_surface w)))]"
    unfolding upt_Cons_eq by auto
  show "sc_last_present_id (se_chain w) < pr_id p" using u(1) by (simp add: word_less_nat_alt)
  show "\<not> held (se_chain w) (unat (pr_index p))"
    using I(14)[of "unat (pr_index p)"] g(2) I(1) by (auto simp: owners_def rq asks_def)
qed

text \<open>A request: first the image is taken and the reply sent, then the server goes on as above.\<close>

lemma session_serve:
  assumes inv: "session_inv w" and rq: "se_requests w = (serial, p, fd) # rs"
    and h: "sc_handle env (Some (PresentImageMessage serial p fd)) (se_chain w) (se_encode w) = Some (True, c, sv)"
  shows "session_inv (w\<lparr>se_requests := rs, se_chain := c, se_encode := sv,
      se_events := se_events w @ sent_since (se_chain w) c\<rparr>)"
proof -
  note I = session_invD[OF inv] and S = session_serve_ready[OF inv rq]
  have hp: "handle_present env serial p (se_chain w) (se_encode w) = Some (True, c, sv)" using h by (simp add: sc_handle_def)
  have n: "length (sc_images (se_chain w)) \<le> 2 ^ 32" using I(1,2) by simp
  obtain c1 ms where c1: "returns c1 c ms" "length (sc_images c1) = length (sc_images (se_chain w))"
      "sc_group_serial c1 = sc_group_serial (se_chain w)" "sc_last_present_id c1 = pr_id p"
      "sc_out c1 = sc_out (se_chain w) @ [PlainMessage MT_OK serial]"
      "\<And>j. j < length (sc_images (se_chain w)) \<Longrightarrow> held c1 j = (held (se_chain w) j \<or> j = unat (pr_index p))"
    using handle_present_accepts[OF hp I(5) n S(1-4)] unfolding accepts_def by blast
  have sc: "sc_inv c" using handle_present_ok[OF I(6), of env serial p "se_encode w"] hp by auto
  have ms: "sent_since (se_chain w) c = PlainMessage MT_OK serial # ms"
    using c1(1,5) by (simp add: sent_since_def returns_def)
  have ge: "\<forall>m \<in> set ms. group_event (sf_group_serial (se_surface w)) (length (sf_images (se_surface w))) m"
    using c1(1-3) I(1,3) by (simp add: returns_def)
  then have "reply_serials ms = []"
    using group_event_serial by (fastforce simp: reply_serials_def filter_empty_conv)
  then have "reply_serials (se_events w @ PlainMessage MT_OK serial # ms) = reply_serials (se_events w) @ [serial]"
    using S(8) by (simp add: reply_serials_def)
  then have rs: "map unat (reply_serials (se_events w @ PlainMessage MT_OK serial # ms) @ map fst rs)
      = [Suc (unat (received_replies (se_client w)))..<Suc (unat (send_serial (se_client w)))]"
    using I(10) by (simp add: rq)
  let ?w = "w\<lparr>se_requests := rs, se_chain := c, se_encode := sv, se_events := se_events w @ PlainMessage MT_OK serial # ms\<rparr>"
  have own: "owners ?w i = 1 \<and> notices ?w i = 1" if i: "i < length (sf_images (se_surface w))" for i
  proof -
    have i1: "i < length (sc_images c1)" "i < length (sc_images (se_chain w))" using i I(1) c1(2) by simp_all
    have "tally (is_acquire i) ms + of_bool (held c i) = of_bool (held c1 i)"
      "tally (is_retire i) ms + of_bool (held c i) = of_bool (held c1 i)"
      using c1(1) i1(1) by (simp_all add: returns_def)
    moreover have "held c1 i = (held (se_chain w) i \<or> i = unat (pr_index p))" by (rule c1(6)[OF i1(2)])
    ultimately show ?thesis
      using I(14)[OF i] S(4) by (cases "i = unat (pr_index p)") (auto simp: owners_def notices_def rq asks_def is_acquire_def is_retire_def)
  qed
  show ?thesis
    unfolding ms session_inv_def Let_def using I S c1 own ge rs sc
    by (auto simp: returns_def events_ok_def requests_ok_def rq word_le_nat_alt)
qed

lemma session_step_inv: "session_step w w' \<Longrightarrow> session_inv w \<Longrightarrow> session_inv w'"
proof (induction rule: session_step.induct)
  case (present w i fd s1 khr mode wire s2 serial cl)
  then show ?case by (intro session_present)
next
  case (receive w m ms ok cl s)
  then show ?case using session_receive[of w m ms] by auto
next
  case (serve w serial p fd rs env c sv)
  then show ?case by (intro session_serve)
next
  case (server e w c sv)
  note I = session_invD[OF server.prems]
  have "length (sc_images (se_chain w)) \<le> 2 ^ 32" using I(1,2) by simp
  then obtain ms where "returns (se_chain w) c ms" using background_returns[OF server(1,3) I(5)] by blast
  moreover have "sc_inv c" using sc_step_ok[OF I(6) server(2), of "se_encode w"] server(3) by auto
  ultimately show ?case by (rule session_returns[OF server.prems])
next
  case (environment env w)
  note I = session_invD[OF environment.prems]
  have "owners (w\<lparr>se_surface := (se_surface w)\<lparr>sf_env := env\<rparr>\<rparr>) i = owners w i"
    "notices (w\<lparr>se_surface := (se_surface w)\<lparr>sf_env := env\<rparr>\<rparr>) i = notices w i" for i
    by (simp_all add: owners_def notices_def)
  with I environment.hyps show ?case unfolding session_inv_def Let_def by (simp add: word_le_nat_alt)
qed

lemma session_reachable_inv: "session_reachable w \<Longrightarrow> session_inv w"
  by (induction rule: session_reachable.induct) (auto intro: session_start_inv session_step_inv)

section \<open>Opening a session\<close>

lemma create_exports_ok:
  "create_exports is s = (True, s') \<Longrightarrow>
    s' = s\<lparr>sf_images := sf_images s @ replicate (length is) (image_zero\<lparr>ex_acquired := True, ex_ready := True\<rparr>)\<rparr>"
proof (induction "is" arbitrary: s)
  case (Cons i "is")
  let ?s = "s\<lparr>sf_images := sf_images s @ [image_zero\<lparr>ex_acquired := True, ex_ready := True\<rparr>]\<rparr>"
  have "create_exports is ?s = (True, s')" using Cons.prems by (auto simp: Let_def split: if_splits)
  from Cons.IH[OF this] show ?case by simp
qed simp

lemma reset_images_ok:
  assumes "calls_succeed (sf_env s)" "\<forall>i \<in> set is. i < length (sf_images s)"
    "list_all (\<lambda>x. ex_acquired x \<and> ex_ready x) (sf_images s)"
  shows "\<exists>imgs. reset_images is s = (True, s\<lparr>sf_images := imgs\<rparr>) \<and> length imgs = length (sf_images s)
    \<and> list_all (\<lambda>x. ex_acquired x \<and> ex_ready x) imgs"
  using assms
proof (induction "is" arbitrary: s)
  case Nil
  then show ?case by (intro exI[of _ "sf_images s"]) simp
next
  case (Cons i "is")
  define s1 where "s1 = set_image i (\<lambda>x. x\<lparr>ex_ready := True, ex_acquired := True\<rparr>) s"
  have s1: "calls_succeed (sf_env s1)" "i < length (sf_images s1)" using Cons.prems by (simp_all add: s1_def set_image_def)
  obtain img where f: "settle_fence i s1 = (True, s1\<lparr>sf_images := (sf_images s1)[i := img]\<rparr>)"
      "ex_acquired img = ex_acquired (sf_images s1 ! i)" "ex_ready img = ex_ready (sf_images s1 ! i)"
    by (rule settle_fence_ok[OF s1])
  define s2 where "s2 = s\<lparr>sf_images := (sf_images s)[i := img]\<rparr>"
  have e: "ex_acquired img" "ex_ready img" using f(2,3) s1(2) by (simp_all add: s1_def set_image_def)
  have all: "list_all (\<lambda>x. ex_acquired x \<and> ex_ready x) (sf_images s2)"
    using Cons.prems(2,3) e by (auto simp: s2_def list_all_length nth_list_update)
  have "reset_images (i # is) s = reset_images is s2" using f(1) by (simp add: s1_def s2_def set_image_def)
  moreover obtain imgs where "reset_images is s2 = (True, s2\<lparr>sf_images := imgs\<rparr>)" "length imgs = length (sf_images s2)"
      "list_all (\<lambda>x. ex_acquired x \<and> ex_ready x) imgs"
    using Cons.IH[OF _ _ all] Cons.prems(1,2) by (auto simp: s2_def)
  ultimately show ?case by (intro exI[of _ imgs]) (simp add: s2_def)
qed

lemma send_image_group_ok:
  assumes "send_image_group cl s = (True, cl', s')" "calls_succeed (sf_env s)"
    "list_all (\<lambda>x. ex_acquired x \<and> ex_ready x) (sf_images s)"
  shows "\<exists>imgs. s' = s\<lparr>sf_group_serial := send_serial cl', sf_present_id := 0, sf_complete_id := 0, sf_wait_pairs := [],
      sf_images := imgs\<rparr> \<and> length imgs = length (sf_images s) \<and> list_all (\<lambda>x. ex_acquired x \<and> ex_ready x) imgs"
    "send_serial cl' \<noteq> 0" "length (sf_images s) \<le> 16"
proof -
  let ?fds = "map (le_memory_fd (sf_env s)) [0..<length (sf_images s)]"
  let ?m = "ImageGroupMessage 0 (sf_wire s) (map the ?fds)"
  obtain serial cl1 where l: "layer_send ?m s cl = (serial, cl1)" by (metis prod.exhaust)
  define s1 where "s1 = s\<lparr>sf_group_serial := serial, sf_present_id := 0, sf_complete_id := 0, sf_wait_pairs := []\<rparr>"
  have s1: "calls_succeed (sf_env s1)" "\<forall>i \<in> set [0..<length (sf_images s)]. i < length (sf_images s1)"
      "list_all (\<lambda>x. ex_acquired x \<and> ex_ready x) (sf_images s1)"
    using assms(2,3) by (simp_all add: s1_def)
  obtain imgs where r: "reset_images [0..<length (sf_images s)] s1 = (True, s1\<lparr>sf_images := imgs\<rparr>)"
      "length imgs = length (sf_images s1)" "list_all (\<lambda>x. ex_acquired x \<and> ex_ready x) imgs"
    using reset_images_ok[OF s1] by blast
  have nz: "serial \<noteq> 0" and eq: "cl' = cl1" "s' = s1\<lparr>sf_images := imgs\<rparr>"
    using assms(1) l r(1) by (auto simp: send_image_group_def memory_fds_def s1_def Let_def split: if_splits)
  have ss: "send_serial cl' = serial" using layer_sendD[OF l nz] eq by simp
  show "\<exists>imgs. s' = s\<lparr>sf_group_serial := send_serial cl', sf_present_id := 0, sf_complete_id := 0, sf_wait_pairs := [],
      sf_images := imgs\<rparr> \<and> length imgs = length (sf_images s) \<and> list_all (\<lambda>x. ex_acquired x \<and> ex_ready x) imgs"
    using r(2,3) eq(2) ss by (auto simp: s1_def)
  show "send_serial cl' \<noteq> 0" using ss nz by simp
  have "send_request t k (put_image_group (sf_wire s)) (map the ?fds) = None" if "16 < length (sf_images s)" for t k
    using that by (simp add: send_request_def MaxSockets_def)
  then show "length (sf_images s) \<le> 16"
    using l nz by (fastforce simp: layer_send_def send_message_raw_def send_message_def Let_def split: if_splits)
qed

text \<open>What the server must be able to do with the group.\<close>

definition server_supports :: "vk_env \<Rightarrow> image_group \<Rightarrow> bool" where
  "server_supports env g \<longleftrightarrow> \<not> image_extent_error env g \<and> (\<forall>i. vk_create env i)
     \<and> (vk_is_srgb env (vk_format g) \<longrightarrow> mutable_formats (vk_format g) \<noteq> [])"

lemma init_image_group_wire:
  assumes "init_image_group n s = (True, s')" "length (vk_view_formats (sf_wire s)) = 15"
  shows "num_images (sf_wire s') = n" "vk_image_usage (sf_wire s') = 7" "vk_external_memory_type (sf_wire s') = 1"
    "vk_format (sf_wire s') = sf_format s" "vk_num_view_formats (sf_wire s') = word_of_nat (length (mutable_formats (sf_format s)))"
    "length (vk_view_formats (sf_wire s')) = 15" "sf_env s' = sf_env s"
    "sf_images s' = sf_images s @ replicate (unat n) (image_zero\<lparr>ex_acquired := True, ex_ready := True\<rparr>)"
proof -
  obtain s1 where s1: "create_exports [0..<unat n] s = (True, s1)"
    using assms(1) by (auto simp: init_image_group_def Let_def split: prod.splits if_splits)
  note e = create_exports_ok[OF s1]
  show "sf_env s' = sf_env s" "sf_images s' = sf_images s @ replicate (unat n) (image_zero\<lparr>ex_acquired := True, ex_ready := True\<rparr>)"
    using assms(1) s1 e by (auto simp: init_image_group_def Let_def)
  show "num_images (sf_wire s') = n" "vk_image_usage (sf_wire s') = 7" "vk_external_memory_type (sf_wire s') = 1"
    "vk_format (sf_wire s') = sf_format s" "vk_num_view_formats (sf_wire s') = word_of_nat (length (mutable_formats (sf_format s)))"
    "length (vk_view_formats (sf_wire s')) = 15"
    using assms s1 e by (auto simp: init_image_group_def Let_def mutable_formats_def)
qed

text \<open>
  C9. Opening a session: the image group that the layer builds and sends is accepted by a new swapchain of a
  server that supports its format and size; the server answers that request positively, has one image for
  each image of the layer, and the two sides are then in a starting state of a session: every image is
  with the application, and the group and the present ids agree.
\<close>

theorem session_opens:
  assumes "init_image_group n s0 = (True, s)" "sf_images s0 = []" "length (vk_view_formats (sf_wire s0)) = 15"
    and "send_image_group cl s = (True, cl', s')" "calls_succeed (sf_env s)"
    and "vk_color_space (sf_wire s) \<in> {COLOR_SPACE_SRGB, COLOR_SPACE_HDR10, COLOR_SPACE_SCRGB}"
    and "server_supports env (sf_wire s)" "length fds = unat n"
    and "layer_handlers cl'" "received_replies cl' + 1 = send_serial cl'"
  shows "\<exists>c. handle_swapchain_create env (sf_group_serial s') (sf_wire s') fds (swapchain_new []) = Some (True, c)
    \<and> sc_out c = [PlainMessage MT_OK (sf_group_serial s')] \<and> length (sc_images c) = unat n
    \<and> session_start \<lparr>se_surface = s', se_client = cl'\<lparr>received_replies := send_serial cl'\<rparr>, se_requests = [],
        se_events = [], se_chain = c, se_encode = sv\<rparr>"
proof -
  note W = init_image_group_wire[OF assms(1,3)]
  have all: "list_all (\<lambda>x. ex_acquired x \<and> ex_ready x) (sf_images s)"
    using W(8) assms(2) by (simp add: list_all_length)
  obtain imgs where s': "s' = s\<lparr>sf_group_serial := send_serial cl', sf_present_id := 0, sf_complete_id := 0, sf_wait_pairs := [],
      sf_images := imgs\<rparr>" "length imgs = length (sf_images s)" "list_all (\<lambda>x. ex_acquired x \<and> ex_ready x) imgs"
    using send_image_group_ok(1)[OF assms(4,5) all] by blast
  have n: "length (sf_images s) = unat n" "unat n \<le> 16"
    using W(8) assms(2) send_image_group_ok(3)[OF assms(4,5) all] by simp_all
  define c where "c = (swapchain_new [])\<lparr>sc_group_serial := send_serial cl', sc_color_space := vk_color_space (sf_wire s),
    sc_images := replicate (unat n) (image_new (vk_cross env)), sc_out := [PlainMessage MT_OK (send_serial cl')]\<rparr>"
  have fm: "length (mutable_formats (sf_format s0)) \<le> 2" by (simp add: mutable_formats_def)
  then have "unat (vk_num_view_formats (sf_wire s)) \<le> length (vk_view_formats (sf_wire s))"
    using W(5,6) by (simp add: unsigned_of_nat take_bit_nat_eq_self)
  then have rv: "read_view_formats (sf_wire s) = Some ()" by (rule read_view_formats_ok)
  have "\<not> image_group_error env (sf_wire s) fds"
    using W(1-3) assms(6,8)
    by (simp add: image_group_error_def VK_IMAGE_USAGE_SAMPLED_BIT_def VK_IMAGE_USAGE_TRANSFER_SRC_BIT_def OPAQUE_FD_def)
  moreover have "\<not> (vk_num_view_formats (sf_wire s) = 0 \<and> vk_is_srgb env (vk_format (sf_wire s)))"
    using W(4,5) assms(7) fm by (auto simp: server_supports_def mutable_formats_def split: if_splits)
  moreover have tw: "takeWhile (vk_create env) [0..<unat n] = [0..<unat n]"
    using assms(7) by (simp add: server_supports_def takeWhile_eq_all_conv)
  ultimately have "handle_swapchain_create env (send_serial cl') (sf_wire s) fds (swapchain_new []) = Some (True, c)"
    using rv assms(7) W(1)
    by (simp add: handle_swapchain_create_def create_images_def sc_plain_def sc_reply_def swapchain_new_def c_def
        server_supports_def Let_def tw)
  moreover have "session_start \<lparr>se_surface = s', se_client = cl'\<lparr>received_replies := send_serial cl'\<rparr>, se_requests = [],
        se_events = [], se_chain = c, se_encode = sv\<rparr>"
    using s' n assms(5,9)
    by (auto simp: session_start_def c_def swapchain_new_def sc_inv_def layer_handlers_def image_new_def list_all_length)
  ultimately show ?thesis using s'(1) by (intro exI[of _ c]) (simp add: c_def)
qed

text \<open>A layer with three images of 1280 by 720 on an environment in which every call succeeds.\<close>

definition sample_layer_env :: layer_env where
  "sample_layer_env = \<lparr>le_socket = 3, le_connect = 0, le_writable = (\<lambda>_. True), le_sendmsg = (\<lambda>dg. int (length (dg_bytes dg))),
     le_device_id = \<lparr>device_uuid = replicate 16 0, driver_uuid = replicate 16 0, luid = replicate 8 0, luid_valid = 0\<rparr>,
     le_wait_fences = (\<lambda>_. True), le_reset_fences = (\<lambda>_. True), le_import_semaphore = True, le_read_event = True,
     le_wait_submit = 0, le_family = 0, le_create_pool = 0, le_allocate_commands = 0, le_end_commands = 0, le_submit = 0,
     le_semaphore_fd = Inr 20, le_memory_fd = (\<lambda>i. Some (10 + int i)), le_create_image = (\<lambda>_. True),
     le_memory_types = [False, True], le_memory_bits = (\<lambda>_. 2), le_create_rest = (\<lambda>_. True), le_gpu = (\<lambda>_. 0),
     le_swap_count = 3, le_color_space = None\<rparr>"

definition sample_surface :: "exportable_image list \<Rightarrow> surface_state" where
  "sample_surface imgs = \<lparr>sf_env = sample_layer_env, sf_app_name = [], sf_engine_name = [], sf_sync = SyncDefault,
     sf_force_images = 0, sf_images = imgs, sf_wire = wire_zero, sf_device = Some 0, sf_gpu = Some 0, sf_swapchain = Some 0,
     sf_swap_images = 3, sf_present_mode = VK_PRESENT_MODE_FIFO, sf_width = 1280, sf_height = 720, sf_format = 37,
     sf_color_space = 0, sf_group_serial = 0, sf_present_id = 0, sf_complete_id = 0, sf_retry = 0, sf_waiters = 0,
     sf_wait_pairs = [], sf_completed_khr = 0, sf_uses_wait = False\<rparr>"

definition sample_layer_client :: "u64 \<Rightarrow> u64 \<Rightarrow> layer_client" where
  "sample_layer_client sent received = \<lparr>send_serial = sent, received_replies = received, cl_handlers = Map.empty,
     default_handler = Some (\<lambda>m st. (get_type m = MT_OK, st)), event_handler = Some handle_event,
     has_socket_master = False, socket_master_error = False, process_count = 0\<rparr>"

lemmas sample_defs = sample_layer_env_def sample_surface_def sample_layer_client_def

lemma layer_send_sample:
  assumes "length (message_fds m) \<le> 16" "length (message_payload m) \<le> 104" "sf_env s = sample_layer_env"
  shows "layer_send m s cl = (send_serial cl + 1, cl\<lparr>send_serial := send_serial cl + 1\<rparr>)"
  using assms
  by (simp add: layer_send_def send_message_raw_def send_message_def send_request_def MaxSockets_def sizeof_raw_data_def
      sizeof_raw_header_def sample_layer_env_def raw_header_format.put_length)

lemma session_opens_witness:
  "\<exists>s' cl' c. handle_swapchain_create plain_env (sf_group_serial s') (sf_wire s') [10, 11, 12] (swapchain_new []) = Some (True, c)
    \<and> sc_out c = [PlainMessage MT_OK (sf_group_serial s')] \<and> length (sc_images c) = 3
    \<and> session_start \<lparr>se_surface = s', se_client = cl'\<lparr>received_replies := send_serial cl'\<rparr>, se_requests = [],
        se_events = [], se_chain = c, se_encode = paced_server\<rparr>"
proof -
  define s where "s = snd (init_image_group 3 (sample_surface []))"
  have i: "init_image_group 3 (sample_surface []) = (True, s)"
    by (simp add: s_def init_image_group_def sample_surface_def sample_layer_env_def upt_rec memory_type_def Let_def)
  have img: "length (sf_images s) = 3" "sf_env s = sample_layer_env"
    using init_image_group_wire(7,8)[OF i] by (simp_all add: sample_surface_def wire_zero_def)
  define cl' where "cl' = sample_layer_client 2 1"
  have cs: "calls_succeed (sf_env s)" by (simp add: img(2) calls_succeed_def sample_layer_env_def)
  have len: "length (put_image_group (sf_wire s)) = 104"
    using init_image_group_wire(6)[OF i] image_group_format.put_length
    by (simp add: sample_surface_def wire_zero_def image_group_ok_def sizeof_image_group_def)
  have all: "list_all (\<lambda>x. ex_acquired x \<and> ex_ready x) (sf_images s)"
    using init_image_group_wire(8)[OF i] by (simp add: sample_surface_def wire_zero_def list_all_length)
  have snd_ok: "layer_send (ImageGroupMessage 0 (sf_wire s) fds) s (sample_layer_client 1 1) = (2, cl')" if "length fds = 3" for fds
    using that len img(2) by (simp add: layer_send_sample) (simp add: sample_layer_client_def cl'_def)
  let ?s1 = "s\<lparr>sf_group_serial := 2, sf_present_id := 0, sf_complete_id := 0, sf_wait_pairs := []\<rparr>"
  obtain imgs where "reset_images [0..<length (sf_images s)] ?s1 = (True, ?s1\<lparr>sf_images := imgs\<rparr>)"
    using reset_images_ok[of ?s1 "[0..<length (sf_images s)]"] cs all by auto
  then have "send_image_group (sample_layer_client 1 1) s = (True, cl', ?s1\<lparr>sf_images := imgs\<rparr>)"
    using snd_ok img by (simp add: send_image_group_def memory_fds_def sample_layer_env_def image_iff)
  then obtain s' where g: "send_image_group (sample_layer_client 1 1) s = (True, cl', s')" by blast
  have "\<exists>c. handle_swapchain_create plain_env (sf_group_serial s') (sf_wire s') [10, 11, 12] (swapchain_new []) = Some (True, c)
    \<and> sc_out c = [PlainMessage MT_OK (sf_group_serial s')] \<and> length (sc_images c) = unat (3 :: u32)
    \<and> session_start \<lparr>se_surface = s', se_client = cl'\<lparr>received_replies := send_serial cl'\<rparr>, se_requests = [],
        se_events = [], se_chain = c, se_encode = paced_server\<rparr>"
    by (rule session_opens[OF i _ _ g cs])
      (simp_all add: s_def init_image_group_def sample_surface_def sample_layer_env_def upt_rec memory_type_def Let_def
        wire_zero_def forced_color_space_def COLOR_SPACE_SRGB_def server_supports_def image_extent_error_def plain_env_def
        layer_handlers_def cl'_def sample_layer_client_def mutable_formats_def)
  then show ?thesis by auto
qed

text \<open>
  C7. Images are never lost and never in two places: in every reachable state of a session, the right to use an
  image is in exactly one place - with the application, in a presentation under way, with the server, or in an
  acquire event under way - and so is the notice that the server has let go of it.
\<close>

theorem image_ownership:
  assumes "session_reachable w" "i < length (sf_images (se_surface w))"
  shows "owners w i = 1 \<and> notices w i = 1"
  by (rule session_invD(14)[OF session_reachable_inv[OF assms(1)] assms(2)])

text \<open>The session after the application has presented its first image.\<close>

definition fresh_image :: exportable_image where
  "fresh_image = image_zero\<lparr>ex_acquired := True, ex_ready := True\<rparr>"

definition open_session :: session where
  "open_session = \<lparr>se_surface = (sample_surface (replicate 3 fresh_image))\<lparr>sf_group_serial := 2\<rparr>,
     se_client = sample_layer_client 2 2, se_requests = [], se_events = [],
     se_chain = (swapchain_new [])\<lparr>sc_group_serial := 2, sc_images := replicate 3 (image_new False)\<rparr>,
     se_encode = paced_server\<rparr>"

lemma open_session_presents:
  "\<exists>w. session_reachable w \<and> length (sf_images (se_surface w)) = 3 \<and> length (se_requests w) = 1"
proof -
  have st: "session_start open_session"
    by (simp add: session_start_def open_session_def sample_defs calls_succeed_def swapchain_new_def sc_inv_def
        layer_handlers_def fresh_image_def image_new_def list_all_length image_zero_def)
  let ?s = "se_surface open_session"
  have r: "ready_image ?s = Some 0"
    by (simp add: ready_image_def open_session_def sample_surface_def fresh_image_def image_zero_def upt_rec)
  obtain s1 where c: "record_copy 0 ?s = (Inr 20, s1)"
    by (simp add: record_copy_def open_session_def sample_defs fresh_image_def image_zero_def VK_SUCCESS_def Let_def)
  obtain img where s1: "s1 = ?s\<lparr>sf_images := (sf_images ?s)[0 := img]\<rparr>"
    by (rule record_copy_shape[OF c ready_imageD(1)[OF r]])
  obtain wire s2 where m: "mark_presented 0 7 None s1 = (wire, s2)" by (metis prod.exhaust)
  have b: "0 < length (sf_images s1)" "length (sf_images s1) \<le> 2 ^ 16"
    by (simp_all add: s1 open_session_def sample_surface_def)
  obtain img2 where "sf_images s2 = (sf_images s1)[0 := img2]" "sf_env s2 = sf_env s1"
    by (rule mark_presentedD[OF m b])
  then have e2: "sf_env s2 = sample_layer_env" "length (sf_images s2) = 3"
    by (simp_all add: s1 open_session_def sample_surface_def)
  have "length (put_present_image wire) \<le> 104" using present_image_format.put_length by (simp add: sizeof_present_image_def)
  then obtain cl where l: "layer_send (PresentImageMessage 0 wire 20) s2 (se_client open_session) = (3, cl)"
    using e2(1) by (simp add: layer_send_sample) (simp add: open_session_def sample_layer_client_def)
  have "session_step open_session (open_session\<lparr>se_surface := s2, se_client := cl, se_requests := se_requests open_session @ [(3, wire, 20)]\<rparr>)"
    by (rule session_step.present[OF r c m l]) (simp_all add: s1 open_session_def sample_surface_def)
  from session_reachable.step[OF session_reachable.start[OF st] this] e2(2) show ?thesis
    by (intro exI conjI) (assumption, simp_all add: open_session_def)
qed

lemma image_ownership_witness:
  "\<exists>w. session_reachable w \<and> length (se_requests w) = 1 \<and> owners w 0 = 1 \<and> notices w 0 = 1"
proof -
  obtain w where w: "session_reachable w" "length (sf_images (se_surface w)) = 3" "length (se_requests w) = 1"
    using open_session_presents by blast
  with image_ownership[OF w(1), of 0] show ?thesis by auto
qed

text \<open>
  C8. Neither side rejects the other: in every reachable state the client accepts the next message from the
  server, and the server, when it can import the semaphore, accepts the next presentation and answers it with
  OK before anything else.
\<close>

theorem session_never_rejects:
  assumes "session_reachable w"
  shows "(\<forall>m ms. se_events w = m # ms \<longrightarrow> fst (process (Some m) (se_client w) (se_surface w)))
    \<and> (\<forall>serial p fd rs env. se_requests w = (serial, p, fd) # rs \<longrightarrow> vk_semaphore env \<longrightarrow> vk_import env \<longrightarrow>
        (\<exists>c sv ms. sc_handle env (Some (PresentImageMessage serial p fd)) (se_chain w) (se_encode w) = Some (True, c, sv)
          \<and> sc_out c = sc_out (se_chain w) @ PlainMessage MT_OK serial # ms))"
proof -
  have inv: "session_inv w" by (rule session_reachable_inv[OF assms])
  note I = session_invD[OF inv]
  have "fst (process (Some m) (se_client w) (se_surface w))" if "se_events w = m # ms" for m ms
    using session_receive[OF inv that] by auto
  moreover have "\<exists>c sv ms. sc_handle env (Some (PresentImageMessage serial p fd)) (se_chain w) (se_encode w) = Some (True, c, sv)
      \<and> sc_out c = sc_out (se_chain w) @ PlainMessage MT_OK serial # ms"
    if rq: "se_requests w = (serial, p, fd) # rs" and sem: "vk_semaphore env" "vk_import env" for serial p fd rs env
  proof -
    note S = session_serve_ready[OF inv rq]
    have n: "length (sc_images (se_chain w)) \<le> 2 ^ 32" using I(1,2) by simp
    obtain c sv where h: "handle_present env serial p (se_chain w) (se_encode w) = Some (True, c, sv)"
      using handle_present_succeeds[OF I(6,5) n S(1-4) sem] by blast
    obtain ms where "accepts serial p (se_chain w) c ms" using handle_present_accepts[OF h I(5) n S(1-4)] by blast
    then have "sc_out c = sc_out (se_chain w) @ PlainMessage MT_OK serial # ms" by (auto simp: accepts_def returns_def)
    with h show ?thesis by (auto simp: sc_handle_def)
  qed
  ultimately show ?thesis by blast
qed

lemma session_never_rejects_witness:
  "\<exists>w serial p fd c sv ms. session_reachable w \<and> se_requests w = [(serial, p, fd)]
    \<and> sc_handle plain_env (Some (PresentImageMessage serial p fd)) (se_chain w) (se_encode w) = Some (True, c, sv)
    \<and> sc_out c = sc_out (se_chain w) @ PlainMessage MT_OK serial # ms"
proof -
  obtain w where w: "session_reachable w" "length (se_requests w) = 1" using open_session_presents by blast
  then obtain serial p fd where "se_requests w = [(serial, p, fd)]" by (cases "se_requests w") auto
  with w(1) session_never_rejects[OF w(1)] show ?thesis
    by (fastforce simp: plain_env_def)
qed

end
