(* ===== verification/Cross_Wsi.thy ===== *)
theory Cross_Wsi
  imports Pyro_Prelude
begin

text \<open>
  The cross-WSI layer (\<open>cross-wsi-layer/cross_wsi_layer.cpp\<close>): an application renders on a source GPU, and a worker
  thread of the layer copies every presented image to a swapchain of a sink GPU and presents it there.  This theory has
  the operations of its \<open>Swapchain\<close>, \<open>Device\<close> and \<open>Instance\<close>; \<open>Cross_Wsi_Threads\<close> runs them on several threads.

  Environment.  The results of Vulkan calls are arguments, with the handles they create; 0 is the null handle.
  What is recorded into command buffers, and buffers and memory objects that are only created and destroyed, are
  left out.
\<close>

section \<open>Results\<close>

type_synonym vk_result = int
type_synonym vk_handle = nat

definition VK_SUCCESS :: vk_result where "VK_SUCCESS = 0"
definition VK_NOT_READY :: vk_result where "VK_NOT_READY = 1"
definition VK_TIMEOUT :: vk_result where "VK_TIMEOUT = 2"
definition VK_INCOMPLETE :: vk_result where "VK_INCOMPLETE = 5"
definition VK_ERROR_OUT_OF_HOST_MEMORY :: vk_result where "VK_ERROR_OUT_OF_HOST_MEMORY = -1"
definition VK_ERROR_OUT_OF_DEVICE_MEMORY :: vk_result where "VK_ERROR_OUT_OF_DEVICE_MEMORY = -2"
definition VK_ERROR_DEVICE_LOST :: vk_result where "VK_ERROR_DEVICE_LOST = -4"
definition VK_ERROR_SURFACE_LOST_KHR :: vk_result where "VK_ERROR_SURFACE_LOST_KHR = -1000000000"
definition VK_SUBOPTIMAL_KHR :: vk_result where "VK_SUBOPTIMAL_KHR = 1000001003"
definition VK_ERROR_OUT_OF_DATE_KHR :: vk_result where "VK_ERROR_OUT_OF_DATE_KHR = -1000001004"

lemmas vk_result_defs = VK_SUCCESS_def VK_NOT_READY_def VK_TIMEOUT_def VK_INCOMPLETE_def VK_ERROR_OUT_OF_HOST_MEMORY_def
  VK_ERROR_OUT_OF_DEVICE_MEMORY_def VK_ERROR_DEVICE_LOST_def VK_ERROR_SURFACE_LOST_KHR_def VK_SUBOPTIMAL_KHR_def
  VK_ERROR_OUT_OF_DATE_KHR_def

definition VK_QUEUE_FAMILY_IGNORED :: u32 where "VK_QUEUE_FAMILY_IGNORED = -1"
definition VK_QUEUE_GRAPHICS_BIT :: u32 where "VK_QUEUE_GRAPHICS_BIT = 1"
definition VK_QUEUE_COMPUTE_BIT :: u32 where "VK_QUEUE_COMPUTE_BIT = 2"
definition VK_QUEUE_TRANSFER_BIT :: u32 where "VK_QUEUE_TRANSFER_BIT = 4"
definition VK_MEMORY_PROPERTY_DEVICE_LOCAL_BIT :: u32 where "VK_MEMORY_PROPERTY_DEVICE_LOCAL_BIT = 1"
definition VK_MEMORY_PROPERTY_HOST_VISIBLE_BIT :: u32 where "VK_MEMORY_PROPERTY_HOST_VISIBLE_BIT = 2"

section \<open>Extension names\<close>

definition findExtension :: "string list \<Rightarrow> string \<Rightarrow> bool" where
  "findExtension props ext = list_ex (\<lambda>p. p = ext) props"

definition addUniqueExtension :: "string list \<Rightarrow> string list \<Rightarrow> string \<Rightarrow> bool \<times> string list" where
  "addUniqueExtension allowed name_list name =
     (if findExtension name_list name then (True, name_list)
      else if findExtension allowed name then (True, name_list @ [name]) else (False, name_list))"

definition redirectedExtensions :: "string list" where
  "redirectedExtensions = [''VK_KHR_swapchain'', ''VK_KHR_present_id'', ''VK_KHR_present_wait'',
     ''VK_EXT_swapchain_maintenance1'', ''VK_KHR_swapchain_maintenance1'']"

definition blockedExtensions :: "string list" where
  "blockedExtensions = [''VK_KHR_display_swapchain'', ''VK_GOOGLE_display_timing'', ''VK_KHR_shared_presentable_image'',
     ''VK_AMD_display_native_hdr'', ''VK_EXT_display_control'', ''VK_EXT_hdr_metadata'', ''VK_KHR_incremental_present'',
     ''VK_NV_present_barrier'', ''VK_NV_low_latency2'', ''VK_EXT_full_screen_exclusive'', ''VK_KHR_present_id2'',
     ''VK_KHR_present_wait2'', ''VK_EXT_present_timing'']"

section \<open>The instance\<close>

text \<open>The physical devices with their names.\<close>

definition findPhysicalDevice :: "string \<Rightarrow> (vk_handle \<times> string) list \<Rightarrow> vk_handle" where
  "findPhysicalDevice tag gpus = (case List.find (\<lambda>(g, name). strstr name tag) gpus of Some (g, _) \<Rightarrow> g | None \<Rightarrow> 0)"

record wsi_instance =
  sinkGpu :: vk_handle
  sourceGpu :: vk_handle
  sinkGpuQueueFamily :: u32

definition graphics_family :: "u32 list \<Rightarrow> u32" where
  "graphics_family props =
     (case List.find (\<lambda>i. props ! i AND VK_QUEUE_GRAPHICS_BIT \<noteq> 0) [0..<length props] of
        Some i \<Rightarrow> word_of_nat i | None \<Rightarrow> VK_QUEUE_FAMILY_IGNORED)"

definition instance_init :: "string option \<Rightarrow> string option \<Rightarrow> (vk_handle \<times> string) list \<Rightarrow> (vk_handle \<Rightarrow> u32 list) \<Rightarrow> wsi_instance" where
  "instance_init env_sink env_source gpus families =
     (let sink = (case env_sink of None \<Rightarrow> 0 | Some tag \<Rightarrow> findPhysicalDevice tag gpus);
          source = (case env_source of None \<Rightarrow> 0 | Some tag \<Rightarrow> findPhysicalDevice tag gpus);
          family = (if sink \<noteq> 0 then graphics_family (families sink) else VK_QUEUE_FAMILY_IGNORED)
      in \<lparr>sinkGpu = (if family = VK_QUEUE_FAMILY_IGNORED then 0 else sink), sourceGpu = source, sinkGpuQueueFamily = family\<rparr>)"

text \<open>
  Queries that fill an array of the caller: \<open>None\<close> asks for the number of elements.  The result has the elements
  written and the number reported.
\<close>

definition fill_array :: "nat option \<Rightarrow> 'a list \<Rightarrow> vk_result \<times> nat \<times> 'a list" where
  "fill_array capacity xs =
     (case capacity of
        None \<Rightarrow> (VK_SUCCESS, length xs, [])
      | Some n \<Rightarrow> (if length xs \<le> n then VK_SUCCESS else VK_INCOMPLETE, min n (length xs), take n xs))"

definition enumerate_physical_devices ::
  "wsi_instance \<Rightarrow> nat option \<Rightarrow> vk_result \<times> nat \<times> vk_handle list \<Rightarrow> vk_result \<times> nat \<times> vk_handle list" where
  "enumerate_physical_devices inst capacity next_layer =
     (if sourceGpu inst \<noteq> 0 then
        case capacity of
          None \<Rightarrow> (VK_SUCCESS, 1, [])
        | Some n \<Rightarrow> (if n \<noteq> 0 then VK_SUCCESS else VK_INCOMPLETE, n, if n \<noteq> 0 then [sourceGpu inst] else [])
      else next_layer)"

definition hidden_extension :: "string list \<Rightarrow> string \<Rightarrow> bool" where
  "hidden_extension sink_props ext =
     (if findExtension redirectedExtensions ext then \<not> findExtension sink_props ext
      else findExtension blockedExtensions ext)"

definition enumerate_device_extensions ::
  "wsi_instance \<Rightarrow> string option \<Rightarrow> vk_handle \<Rightarrow> string list \<Rightarrow> string list \<Rightarrow> nat option
   \<Rightarrow> vk_result \<times> nat \<times> string list \<Rightarrow> vk_result \<times> nat \<times> string list" where
  "enumerate_device_extensions inst layer gpu props sink_props capacity next_layer =
     (if (case layer of None \<Rightarrow> False | Some l \<Rightarrow> strstr l ''VK_LAYER_pyrofling_cross_wsi'') then (VK_SUCCESS, 0, [])
      else if sinkGpu inst = 0 \<or> gpu = sinkGpu inst then next_layer
      else fill_array capacity (filter (\<lambda>e. \<not> hidden_extension sink_props e) props))"

text \<open>Whether a queue of a device can present: the query that is passed on, or the answer.\<close>

definition surface_support :: "wsi_instance \<Rightarrow> vk_handle \<Rightarrow> u32 list \<Rightarrow> u32 \<Rightarrow> bool + vk_handle \<times> u32" where
  "surface_support inst gpu props family =
     (let flags = VK_QUEUE_GRAPHICS_BIT OR VK_QUEUE_COMPUTE_BIT OR VK_QUEUE_TRANSFER_BIT in
      if sinkGpu inst = 0 then Inr (gpu, family)
      else if gpu \<noteq> sinkGpu inst \<and> (length props \<le> unat family \<or> props ! unat family AND flags = 0) then Inl False
      else Inr (sinkGpu inst, sinkGpuQueueFamily inst))"

section \<open>The device\<close>

definition source_extensions :: "wsi_instance \<Rightarrow> vk_handle \<Rightarrow> string list \<Rightarrow> string list \<Rightarrow> string list" where
  "source_extensions inst gpu supported enabled =
     (if findExtension enabled ''VK_KHR_swapchain'' \<and> gpu \<noteq> sinkGpu inst \<and> sinkGpu inst \<noteq> 0 then
        fold (\<lambda>name xs. snd (addUniqueExtension supported xs name))
          [''VK_KHR_dedicated_allocation'', ''VK_KHR_get_memory_requirements2'', ''VK_KHR_image_format_list'',
           ''VK_KHR_external_semaphore'', ''VK_KHR_external_fence'', ''VK_KHR_external_memory'',
           ''VK_EXT_external_memory_host'', ''VK_KHR_external_semaphore_fd'', ''VK_KHR_external_fence_fd'',
           ''VK_KHR_external_memory_fd''] enabled
      else enabled)"

text \<open>The queues of the create info: flags, family and number of queues.\<close>

definition device_queues :: "(u32 \<times> u32 \<times> nat) list \<Rightarrow> (u32 \<Rightarrow> nat \<Rightarrow> vk_handle) \<Rightarrow> (vk_handle \<times> u32) list" where
  "device_queues infos get_queue =
     concat (map (\<lambda>(flags, family, n). if flags \<noteq> 0 then [] else map (\<lambda>j. (get_queue family j, family)) [0..<n]) infos)"

definition sink_extensions :: "wsi_instance \<Rightarrow> vk_handle \<Rightarrow> string list \<Rightarrow> string list option" where
  "sink_extensions inst gpu enabled =
     (if findExtension enabled ''VK_KHR_swapchain'' \<and> sinkGpu inst \<noteq> 0 \<and> gpu \<noteq> sinkGpu inst then
        Some ([''VK_KHR_swapchain'', ''VK_EXT_external_memory_host'', ''VK_KHR_external_memory'']
          @ filter (findExtension redirectedExtensions) enabled)
      else None)"

definition queueToFamilyIndex :: "(vk_handle \<times> u32) list \<Rightarrow> vk_handle \<Rightarrow> u32" where
  "queueToFamilyIndex qs queue = (case List.find (\<lambda>q. fst q = queue) qs of Some q \<Rightarrow> snd q | None \<Rightarrow> VK_QUEUE_FAMILY_IGNORED)"

definition forceSignalSemaphore :: "(vk_handle \<times> u32) list \<Rightarrow> vk_result \<Rightarrow> vk_result" where
  "forceSignalSemaphore qs submitted = (if qs \<noteq> [] \<and> submitted \<noteq> VK_SUCCESS then submitted else VK_SUCCESS)"

text \<open>The result, the handle that is stored, and the handle that is destroyed.\<close>

definition createExportableSignalledSemaphore ::
  "(vk_handle \<times> u32) list \<Rightarrow> vk_result \<times> vk_handle \<Rightarrow> vk_result \<Rightarrow> vk_result \<times> vk_handle \<times> vk_handle list" where
  "createExportableSignalledSemaphore qs created submitted =
     (if fst created \<noteq> VK_SUCCESS then (fst created, 0, [])
      else let res = forceSignalSemaphore qs submitted
           in if res \<noteq> VK_SUCCESS then (res, 0, [0]) else (res, snd created, []))"

section \<open>The swapchain\<close>

record wsi_image =
  sinkImage :: vk_handle
  sourceImage :: vk_handle
  externalHostMemory :: vk_handle
  sourceFence :: vk_handle
  sourceAcquireSemaphore :: vk_handle
  sinkReleaseSemaphore :: vk_handle
  sinkAcquireFence :: vk_handle

definition wsi_image_new :: wsi_image where
  "wsi_image_new = \<lparr>sinkImage = 0, sourceImage = 0, externalHostMemory = 0, sourceFence = 0, sourceAcquireSemaphore = 0,
     sinkReleaseSemaphore = 0, sinkAcquireFence = 0\<rparr>"

record work =
  presentId :: u64
  work_index :: nat
  work_mode :: int
  setsMode :: bool

record wsi_swapchain =
  images :: "wsi_image list"
  acquireQueue :: "nat list"
  swapchainStatus :: vk_result
  sinkSwapchain :: vk_handle
  sinkFencePool :: "vk_handle list"
  sourcePool :: vk_handle
  sourceFamily :: u32
  submitCount :: u64
  processedSourceCount :: u64
  pendingWaitId :: u64
  sw_width :: u32
  sw_height :: u32
  nextWork :: work
  workQueue :: "work list"

definition wsi_swapchain_new :: wsi_swapchain where
  "wsi_swapchain_new = \<lparr>images = [], acquireQueue = [], swapchainStatus = VK_SUCCESS, sinkSwapchain = 0, sinkFencePool = [],
     sourcePool = 0, sourceFamily = VK_QUEUE_FAMILY_IGNORED, submitCount = 0, processedSourceCount = 0, pendingWaitId = 0,
     sw_width = 0, sw_height = 0, nextWork = \<lparr>presentId = 0, work_index = 0, work_mode = 0, setsMode = False\<rparr>, workQueue = []\<rparr>"

text \<open>Whom an operation wakes on the condition variable.\<close>

datatype wsi_wake = WakeNone | WakeOne | WakeAll

definition markResult :: "vk_result \<Rightarrow> wsi_swapchain \<Rightarrow> vk_result \<times> wsi_swapchain \<times> wsi_wake" where
  "markResult err s =
     (if err = VK_SUCCESS then (swapchainStatus s, s, WakeNone)
      else let s = (if err < 0 \<or> swapchainStatus s = VK_SUCCESS \<and> err = VK_SUBOPTIMAL_KHR then s\<lparr>swapchainStatus := err\<rparr> else s)
           in if swapchainStatus s = VK_SUCCESS then (err, s, WakeNone) else (swapchainStatus s, s, WakeAll))"

subsection \<open>Creation\<close>

definition find_memory_type :: "u32 \<Rightarrow> u32 \<Rightarrow> u32 list \<Rightarrow> nat option" where
  "find_memory_type flag bits types = List.find (\<lambda>i. types ! i AND flag \<noteq> 0 \<and> bit bits i) [0..<length types]"

text \<open>Results of the host pointer query, of the allocation and of the binding.\<close>

record host_env =
  he_query :: "vk_result \<times> u32"
  he_allocate :: vk_result
  he_bind :: vk_result

definition importHostBuffer :: "host_env \<Rightarrow> u32 list \<Rightarrow> u32 \<Rightarrow> vk_result" where
  "importHostBuffer e types bits =
     (if fst (he_query e) \<noteq> VK_SUCCESS then VK_ERROR_OUT_OF_HOST_MEMORY
      else if find_memory_type VK_MEMORY_PROPERTY_HOST_VISIBLE_BIT (bits AND snd (he_query e)) types = None
      then VK_ERROR_OUT_OF_HOST_MEMORY
      else if he_allocate e \<noteq> VK_SUCCESS \<or> he_bind e \<noteq> VK_SUCCESS then VK_ERROR_OUT_OF_DEVICE_MEMORY
      else VK_SUCCESS)"

definition allocateImageMemory :: "u32 list \<Rightarrow> u32 \<Rightarrow> vk_result \<Rightarrow> vk_result \<Rightarrow> vk_result" where
  "allocateImageMemory types bits allocated bound =
     (if find_memory_type VK_MEMORY_PROPERTY_DEVICE_LOCAL_BIT bits types = None then VK_ERROR_OUT_OF_DEVICE_MEMORY
      else if allocated \<noteq> VK_SUCCESS then allocated
      else bound)"

definition host_buffer_size :: "u64 \<Rightarrow> u64 \<Rightarrow> u64" where
  "host_buffer_size source sink = (max source sink + 64 * 1024 - 1) AND NOT (64 * 1024 - 1)"

record image_env =
  ie_image :: "vk_result \<times> vk_handle"
  ie_image_bits :: u32
  ie_allocate :: vk_result
  ie_bind :: vk_result
  ie_source_reqs :: "u64 \<times> u32"
  ie_sink_reqs :: "u64 \<times> u32"
  ie_host :: "u64 \<Rightarrow> vk_handle"
  ie_source :: host_env
  ie_sink :: host_env
  ie_fence :: "vk_result \<times> vk_handle"
  ie_release :: "vk_result \<times> vk_handle"
  ie_semaphore :: "vk_result \<times> vk_handle"
  ie_signal :: vk_result

text \<open>The result of the semaphore at the end is not looked at.\<close>

definition setupSwapchainImage ::
  "image_env \<Rightarrow> u32 list \<Rightarrow> u32 list \<Rightarrow> (vk_handle \<times> u32) list \<Rightarrow> vk_handle \<Rightarrow> wsi_image \<Rightarrow> vk_result \<times> wsi_image" where
  "setupSwapchainImage e source_types sink_types qs vk_image img =
     (let img = img\<lparr>sinkImage := vk_image\<rparr> in
      if fst (ie_image e) \<noteq> VK_SUCCESS then (fst (ie_image e), img)
      else let img = img\<lparr>sourceImage := snd (ie_image e)\<rparr>;
               res = allocateImageMemory source_types (ie_image_bits e) (ie_allocate e) (ie_bind e) in
      if res \<noteq> VK_SUCCESS then (res, img)
      else let img = img\<lparr>externalHostMemory := ie_host e (host_buffer_size (fst (ie_source_reqs e)) (fst (ie_sink_reqs e)))\<rparr> in
      if externalHostMemory img = 0 then (VK_ERROR_OUT_OF_HOST_MEMORY, img)
      else let res = importHostBuffer (ie_source e) source_types (snd (ie_source_reqs e)) in
      if res \<noteq> VK_SUCCESS then (res, img)
      else let res = importHostBuffer (ie_sink e) sink_types (snd (ie_sink_reqs e)) in
      if res \<noteq> VK_SUCCESS then (res, img)
      else if fst (ie_fence e) \<noteq> VK_SUCCESS then (fst (ie_fence e), img)
      else let img = img\<lparr>sourceFence := snd (ie_fence e)\<rparr> in
      if fst (ie_release e) \<noteq> VK_SUCCESS then (fst (ie_release e), img)
      else (VK_SUCCESS, img\<lparr>sinkReleaseSemaphore := snd (ie_release e),
              sourceAcquireSemaphore := fst (snd (createExportableSignalledSemaphore qs (ie_semaphore e) (ie_signal e)))\<rparr>))"

text \<open>Command buffers: a pool, and for every image the results of allocating and of ending.\<close>

fun record_commands :: "(vk_result \<times> vk_result) list \<Rightarrow> vk_result" where
  "record_commands [] = VK_SUCCESS"
| "record_commands ((allocated, ended) # rs) =
     (if allocated \<noteq> VK_SUCCESS \<or> ended \<noteq> VK_SUCCESS then VK_ERROR_DEVICE_LOST else record_commands rs)"

definition initSinkCommands :: "vk_handle \<Rightarrow> (vk_result \<times> vk_result) list \<Rightarrow> vk_result" where
  "initSinkCommands pool rs = (if pool = 0 then VK_ERROR_OUT_OF_HOST_MEMORY else record_commands rs)"

text \<open>\<open>None\<close>: the caller waits until the worker has processed all source work.\<close>

definition initSourceCommands ::
  "u32 \<Rightarrow> vk_handle \<Rightarrow> (vk_result \<times> vk_result) list \<Rightarrow> wsi_swapchain \<Rightarrow> (vk_result \<times> wsi_swapchain) option" where
  "initSourceCommands family created rs s =
     (if family \<noteq> sourceFamily s \<and> submitCount s \<noteq> processedSourceCount s then None
      else if family = sourceFamily s \<and> sourcePool s \<noteq> 0 then Some (VK_SUCCESS, s)
      else let s = s\<lparr>sourcePool := created, sourceFamily := family\<rparr>
           in Some (if created = 0 then VK_ERROR_DEVICE_LOST else record_commands rs, s))"

subsection \<open>Acquiring from the sink\<close>

text \<open>
  The results of creating a fence, of acquiring an image (with its index), and of waiting for and resetting the fence
  of the last time the image was acquired.
\<close>

record pump_env =
  pe_fence :: "vk_result \<times> vk_handle"
  pe_acquire :: "vk_result \<times> nat"
  pe_wait :: vk_result
  pe_reset :: vk_result

definition pump_fence :: "pump_env \<Rightarrow> wsi_swapchain \<Rightarrow> (vk_handle \<times> wsi_swapchain) option" where
  "pump_fence e s =
     (if sinkFencePool s = [] then
        if fst (pe_fence e) \<noteq> VK_SUCCESS then None else Some (snd (pe_fence e), s)
      else Some (last (sinkFencePool s), s\<lparr>sinkFencePool := butlast (sinkFencePool s)\<rparr>))"

text \<open>An index that is no image of the swapchain has no outcome.\<close>

definition pumpAcquireSinkImage :: "pump_env \<Rightarrow> wsi_swapchain \<Rightarrow> (vk_result \<times> wsi_swapchain \<times> wsi_wake) outcome" where
  "pumpAcquireSinkImage e s =
     (case pump_fence e s of
        None \<Rightarrow> Some (markResult (fst (pe_fence e)) s)
      | Some (fence, s) \<Rightarrow>
          let (res, index) = pe_acquire e in
          if 0 \<le> res then do {
            img \<leftarrow> load (images s) index;
            let old = sinkAcquireFence img;
            if old \<noteq> 0 \<and> (pe_wait e \<noteq> VK_SUCCESS \<or> pe_reset e \<noteq> VK_SUCCESS)
            then Some (markResult VK_ERROR_DEVICE_LOST s)
            else do {
              let s = s\<lparr>sinkFencePool := sinkFencePool s @ (if old \<noteq> 0 then [old] else []),
                        images := (images s)[index := img\<lparr>sinkAcquireFence := fence\<rparr>],
                        acquireQueue := acquireQueue s @ [index]\<rparr>;
              let (r, s, w) = markResult res s;
              Some (r, s, if w = WakeAll then WakeAll else WakeOne) } }
          else Some (markResult res (s\<lparr>sinkFencePool := sinkFencePool s @ [fence]\<rparr>)))"

definition getNumForwardProgressImages :: "nat \<Rightarrow> nat list + nat \<Rightarrow> nat" where
  "getNumForwardProgressImages count caps =
     (let min_count = (case caps of Inl modes \<Rightarrow> fold max modes 0 | Inr n \<Rightarrow> n)
      in if count < min_count then 1 else count - min_count + 1)"

subsection \<open>Initialisation\<close>

record init_env =
  in_old :: "vk_handle"
  in_created :: "vk_result \<times> vk_handle"
  in_images :: "vk_handle list"
  in_setup :: "nat \<Rightarrow> image_env"
  in_source_types :: "u32 list"
  in_sink_types :: "u32 list"
  in_queues :: "(vk_handle \<times> u32) list"
  in_pool :: vk_handle
  in_commands :: "(vk_result \<times> vk_result) list"
  in_caps :: "nat list + nat"
  in_pump :: "nat \<Rightarrow> pump_env"

primrec setup_images :: "init_env \<Rightarrow> nat list \<Rightarrow> wsi_swapchain \<Rightarrow> vk_result \<times> wsi_swapchain" where
  "setup_images e [] s = (VK_SUCCESS, s)"
| "setup_images e (i # is) s =
     (let (res, img) = setupSwapchainImage (in_setup e i) (in_source_types e) (in_sink_types e) (in_queues e) (in_images e ! i) (images s ! i);
          s = s\<lparr>images := (images s)[i := img]\<rparr>
      in if res \<noteq> VK_SUCCESS then (res, s) else setup_images e is s)"

text \<open>The images that are acquired in advance; failures are only recorded.\<close>

definition pump_once :: "init_env \<Rightarrow> nat \<Rightarrow> wsi_swapchain \<Rightarrow> wsi_swapchain outcome" where
  "pump_once e i s = do {
     (res, s, _) \<leftarrow> pumpAcquireSinkImage (in_pump e i) s;
     Some (fst (snd (markResult res s))) }"

text \<open>The result, the swapchain, and whether the worker was started.\<close>

definition swapchain_init :: "init_env \<Rightarrow> u32 \<Rightarrow> u32 \<Rightarrow> wsi_swapchain \<Rightarrow> (vk_result \<times> wsi_swapchain \<times> bool) outcome" where
  "swapchain_init e w h s =
     (let s = s\<lparr>sinkSwapchain := snd (in_created e), sw_width := w, sw_height := h\<rparr> in
      if fst (in_created e) \<noteq> VK_SUCCESS then Some (fst (in_created e), s, False)
      else let n = length (in_images e); s = s\<lparr>images := replicate n wsi_image_new\<rparr>;
               (res, s) = setup_images e [0..<n] s in
      if res \<noteq> VK_SUCCESS then Some (res, s, False)
      else let res = initSinkCommands (in_pool e) (in_commands e) in
      if res < 0 then Some (res, s, False)
      else do {
        s \<leftarrow> for_list (pump_once e) [0..<getNumForwardProgressImages n (in_caps e)] s;
        Some (VK_SUCCESS, s, True) })"

subsection \<open>The worker\<close>

definition worker_ready :: "wsi_swapchain \<Rightarrow> bool" where
  "worker_ready s \<longleftrightarrow> workQueue s \<noteq> [] \<or> swapchainStatus s < 0"

definition worker_take :: "wsi_swapchain \<Rightarrow> work option \<times> wsi_swapchain" where
  "worker_take s =
     (if swapchainStatus s < 0 then (None, s) else (Some (hd (workQueue s)), s\<lparr>workQueue := tl (workQueue s)\<rparr>))"

text \<open>What is passed to the sink: the image, the present id and the mode, if they are set.\<close>

type_synonym present_info = "nat \<times> u64 option \<times> int option"

definition present_info :: "work \<Rightarrow> present_info" where
  "present_info w = (work_index w, if presentId w \<noteq> 0 then Some (presentId w) else None, if setsMode w then Some (work_mode w) else None)"

text \<open>The parts of one round; the first component says whether the worker goes on.\<close>

definition lose_device :: "wsi_swapchain \<Rightarrow> bool \<times> wsi_swapchain \<times> wsi_wake" where
  "lose_device s = (False, snd (markResult VK_ERROR_DEVICE_LOST s))"

definition worker_source :: "vk_result \<Rightarrow> vk_result \<Rightarrow> wsi_swapchain \<Rightarrow> bool \<times> wsi_swapchain \<times> wsi_wake" where
  "worker_source waited reset s =
     (if waited \<noteq> VK_SUCCESS \<or> reset \<noteq> VK_SUCCESS then lose_device s
      else (True, s\<lparr>processedSourceCount := processedSourceCount s + 1\<rparr>, WakeOne))"

definition worker_sink :: "vk_result \<Rightarrow> vk_result \<Rightarrow> vk_result \<Rightarrow> wsi_swapchain \<Rightarrow> bool \<times> wsi_swapchain \<times> wsi_wake" where
  "worker_sink waited reset submitted s =
     (if waited \<noteq> VK_SUCCESS \<or> reset \<noteq> VK_SUCCESS then lose_device s
      else let (r, s, w) = markResult submitted s in (0 \<le> r, s, w))"

definition worker_present :: "vk_result \<Rightarrow> work \<Rightarrow> wsi_swapchain \<Rightarrow> bool \<times> wsi_swapchain \<times> wsi_wake" where
  "worker_present presented wk s =
     (let (r, s, w) = markResult presented s
      in if r < 0 then (False, s, w)
         else if presentId wk \<noteq> 0 then (True, s\<lparr>pendingWaitId := presentId wk\<rparr>, WakeAll)
         else (True, s, w))"

definition worker_pump :: "pump_env \<Rightarrow> wsi_swapchain \<Rightarrow> (bool \<times> wsi_swapchain \<times> wsi_wake) outcome" where
  "worker_pump e s = do { (r, s, w) \<leftarrow> pumpAcquireSinkImage e s; Some (0 \<le> r, s, w) }"

subsection \<open>The application\<close>

definition setPresentId :: "u64 \<Rightarrow> wsi_swapchain \<Rightarrow> wsi_swapchain" where
  "setPresentId k s = s\<lparr>nextWork := (nextWork s)\<lparr>presentId := k\<rparr>\<rparr>"

definition setPresentMode :: "int \<Rightarrow> wsi_swapchain \<Rightarrow> wsi_swapchain" where
  "setPresentMode m s = s\<lparr>nextWork := (nextWork s)\<lparr>setsMode := True, work_mode := m\<rparr>\<rparr>"

text \<open>The submission of the copy, and of the fence of the caller if there is one.\<close>

definition submitSourceWork ::
  "(vk_result \<times> wsi_swapchain) \<Rightarrow> vk_result \<Rightarrow> vk_result option \<Rightarrow> vk_result \<times> wsi_swapchain \<times> wsi_wake" where
  "submitSourceWork commands submitted fenced =
     (let (res, s) = commands in
      if res \<noteq> VK_SUCCESS then (res, s, WakeNone)
      else if submitted \<noteq> VK_SUCCESS then markResult submitted s
      else case fenced of Some r \<Rightarrow> markResult r s | None \<Rightarrow> markResult VK_SUCCESS s)"

definition wake_both :: "wsi_wake \<Rightarrow> wsi_wake \<Rightarrow> wsi_wake" where
  "wake_both a b = (if a = WakeAll \<or> b = WakeAll then WakeAll else if a = WakeOne \<or> b = WakeOne then WakeOne else WakeNone)"

definition queuePresent ::
  "(vk_result \<times> wsi_swapchain) \<Rightarrow> vk_result \<Rightarrow> vk_result option \<Rightarrow> nat \<Rightarrow> vk_result \<times> wsi_swapchain \<times> wsi_wake" where
  "queuePresent commands submitted fenced index =
     (let (result, s, w) = submitSourceWork commands submitted fenced in
      if result < 0 then (let (r, s, w') = markResult result s in (r, s, wake_both w w'))
      else let wk = (nextWork s)\<lparr>work_index := index\<rparr>;
               s = s\<lparr>workQueue := workQueue s @ [wk], submitCount := submitCount s + 1,
                     nextWork := wk\<lparr>presentId := 0, setsMode := False\<rparr>\<rparr>;
               (r, s, w') = markResult VK_SUCCESS s
           in (r, s, wake_both WakeOne (wake_both w w')))"

definition acquire_ready :: "wsi_swapchain \<Rightarrow> bool" where
  "acquire_ready s \<longleftrightarrow> acquireQueue s \<noteq> [] \<or> swapchainStatus s < 0"

definition acquire_take :: "wsi_swapchain \<Rightarrow> (vk_result + nat) \<times> wsi_swapchain" where
  "acquire_take s =
     (if swapchainStatus s < 0 then (Inl (swapchainStatus s), s)
      else (Inr (hd (acquireQueue s)), s\<lparr>acquireQueue := tl (acquireQueue s)\<rparr>))"

text \<open>What the caller gets when the time is over and there is no image.\<close>

definition acquire_expired :: "u64 \<Rightarrow> vk_result" where
  "acquire_expired timeout = (if timeout \<noteq> 0 then VK_TIMEOUT else VK_NOT_READY)"

text \<open>
  The signal for the caller's semaphore (results of exporting and importing, if there is one), then for its fence
  (results of creating, exporting and importing).  The second component says whether the image stays with the
  caller, returns to the queue or is lost.
\<close>

datatype fate = Kept | Requeued | Lost

definition semaphore_signal :: "(vk_result \<times> vk_result) option \<Rightarrow> (vk_result \<times> fate) option" where
  "semaphore_signal sem =
     (case sem of None \<Rightarrow> None
      | Some (exported, imported) \<Rightarrow>
          if exported \<noteq> VK_SUCCESS then Some (exported, Lost)
          else if imported \<noteq> VK_SUCCESS then Some (imported, Requeued) else None)"

text \<open>The result of the export is compared with that of the creation, which is success, and the latter is returned.\<close>

definition fence_signal :: "(vk_result \<times> vk_result \<times> vk_result) option \<Rightarrow> (vk_result \<times> fate) option" where
  "fence_signal fence =
     (case fence of None \<Rightarrow> None
      | Some (created, exported, imported) \<Rightarrow>
          if created \<noteq> VK_SUCCESS then Some (created, Lost)
          else if created \<noteq> exported then Some (created, Kept)
          else if imported \<noteq> VK_SUCCESS then Some (imported, Requeued) else None)"

definition acquire_signal ::
  "(vk_result \<times> vk_result) option \<Rightarrow> (vk_result \<times> vk_result \<times> vk_result) option \<Rightarrow> nat \<Rightarrow> wsi_swapchain
   \<Rightarrow> vk_result \<times> fate \<times> wsi_swapchain \<times> wsi_wake" where
  "acquire_signal sem fence index s =
     (case (case semaphore_signal sem of Some r \<Rightarrow> Some r | None \<Rightarrow> fence_signal fence) of
        None \<Rightarrow> (let (r, s, w) = markResult VK_SUCCESS s in (r, Kept, s, w))
      | Some (res, Requeued) \<Rightarrow>
          (let (r, s, w) = markResult res (s\<lparr>acquireQueue := acquireQueue s @ [index]\<rparr>) in (r, Requeued, s, w))
      | Some (res, f) \<Rightarrow> (res, f, s, WakeNone))"

text \<open>Images given back unused: a new semaphore for each; an error ends the loop.\<close>

fun releaseSwapchainImages ::
  "(vk_handle \<times> u32) list \<Rightarrow> (nat \<times> (vk_result \<times> vk_handle) \<times> vk_result) list \<Rightarrow> wsi_swapchain \<Rightarrow> (vk_result \<times> wsi_swapchain) outcome" where
  "releaseSwapchainImages qs [] s = Some (VK_SUCCESS, s)"
| "releaseSwapchainImages qs ((index, created, submitted) # rs) s = do {
     img \<leftarrow> load (images s) index;
     let (res, sem, _) = createExportableSignalledSemaphore qs created submitted;
     let s = s\<lparr>images := (images s)[index := img\<lparr>sourceAcquireSemaphore := sem\<rparr>]\<rparr>;
     if res \<noteq> VK_SUCCESS then Some (res, s)
     else releaseSwapchainImages qs rs (s\<lparr>acquireQueue := acquireQueue s @ [index]\<rparr>) }"

definition wait_ready :: "u64 \<Rightarrow> wsi_swapchain \<Rightarrow> bool" where
  "wait_ready k s \<longleftrightarrow> k \<le> pendingWaitId s \<or> swapchainStatus s < 0"

text \<open>
  After the wait: the status if it is an error; otherwise the sink is asked, with the time that is left
  (\<open>elapsed\<close>: the time that has passed; the largest time-out is for ever).
\<close>

definition wait_timeout :: "u64 \<Rightarrow> u64 \<Rightarrow> u64 option" where
  "wait_timeout timeout elapsed = (if timeout = -1 then Some timeout else if timeout < elapsed then None else Some (timeout - elapsed))"

definition waitForPresent :: "(u64 \<Rightarrow> vk_result) \<Rightarrow> u64 \<Rightarrow> u64 \<Rightarrow> wsi_swapchain \<Rightarrow> vk_result \<times> wsi_swapchain \<times> wsi_wake" where
  "waitForPresent sink timeout elapsed s =
     (if swapchainStatus s < 0 then (swapchainStatus s, s, WakeNone)
      else case wait_timeout timeout elapsed of
        None \<Rightarrow> (VK_TIMEOUT, s, WakeNone)
      | Some t \<Rightarrow> markResult (sink t) s)"

definition getSwapchainImages :: "nat option \<Rightarrow> wsi_swapchain \<Rightarrow> vk_result \<times> nat \<times> vk_handle list" where
  "getSwapchainImages capacity s = fill_array capacity (map sourceImage (images s))"

text \<open>Retiring: the status, the wsi_wake-up, and, once the worker has ended, the images that are given back to the sink.\<close>

definition retire_status :: "wsi_swapchain \<Rightarrow> wsi_swapchain \<times> wsi_wake" where
  "retire_status s = (s\<lparr>swapchainStatus := VK_ERROR_OUT_OF_DATE_KHR\<rparr>, WakeAll)"

definition wsi_retire_images :: "bool \<Rightarrow> wsi_swapchain \<Rightarrow> nat list \<times> wsi_swapchain" where
  "wsi_retire_images maintenance1 s = (if maintenance1 then (acquireQueue s, s\<lparr>acquireQueue := []\<rparr>) else ([], s))"

definition destroy_status :: "wsi_swapchain \<Rightarrow> wsi_swapchain \<times> wsi_wake" where
  "destroy_status s = (s\<lparr>swapchainStatus := VK_ERROR_SURFACE_LOST_KHR\<rparr>, WakeOne)"

text \<open>The fences of the source that the destructor waits for, and the fences of the sink that it destroys.\<close>

definition destroy_fences :: "wsi_swapchain \<Rightarrow> vk_handle list \<times> vk_handle list" where
  "destroy_fences s =
     (map (\<lambda>w. sourceFence (images s ! work_index w)) (workQueue s),
      filter (\<lambda>f. f \<noteq> 0) (map sinkAcquireFence (images s)) @ sinkFencePool s)"

subsection \<open>Presenting on several swapchains\<close>

text \<open>The result of \<open>QueuePresentKHR\<close> from the results of its swapchains.\<close>

definition combine_results :: "vk_result list \<Rightarrow> vk_result" where
  "combine_results rs =
     (let res = fold (\<lambda>r acc. if r < 0 then r else acc) rs VK_SUCCESS in
      if VK_ERROR_DEVICE_LOST \<in> set rs then VK_ERROR_DEVICE_LOST
      else if VK_ERROR_SURFACE_LOST_KHR \<in> set rs then VK_ERROR_SURFACE_LOST_KHR
      else if res = VK_SUCCESS \<and> VK_SUBOPTIMAL_KHR \<in> set rs then VK_SUBOPTIMAL_KHR
      else res)"

text \<open>The wait semaphores, one submission each; the first failure is returned.\<close>

definition wait_submissions :: "vk_result list \<Rightarrow> vk_result" where
  "wait_submissions rs = (case List.find (\<lambda>r. r \<noteq> VK_SUCCESS) rs of Some r \<Rightarrow> r | None \<Rightarrow> VK_SUCCESS)"

definition prepare_present :: "u64 option \<Rightarrow> int option \<Rightarrow> wsi_swapchain \<Rightarrow> wsi_swapchain" where
  "prepare_present k m s =
     (let s = (case k of Some k \<Rightarrow> setPresentId k s | None \<Rightarrow> s) in case m of Some m \<Rightarrow> setPresentMode m s | None \<Rightarrow> s)"

text \<open>\<open>AcquireNextImage2KHR\<close> takes the semaphore for the swapchain.\<close>

record acquire_info =
  ai_swapchain :: vk_handle
  ai_semaphore :: vk_handle

definition acquire2_swapchain :: "acquire_info \<Rightarrow> vk_handle" where
  "acquire2_swapchain info = ai_semaphore info"

end
