(* ===== verification/Cross_Wsi_Threads.thy ===== *)
theory Cross_Wsi_Threads
  imports Cross_Wsi "HOL-Library.Multiset"
begin

text \<open>
  The threads of the cross-WSI layer: the worker (\<open>Swapchain::runWorker\<close>), an application thread that acquires, presents,
  releases and retires, and a thread in \<open>waitForPresent\<close>, which Vulkan allows at the same time.  They share one
  mutex and one condition variable.  A step is what a thread does from one wait, or one unlock that another thread can
  observe, to the next; \<open>asleep\<close> is the set of threads that wait on the condition variable, any of which may also
  wake by itself.
\<close>

section \<open>Threads\<close>

datatype thread = Worker | App | Waiter

text \<open>Where each thread is; the worker carries its work, the application the image (and the queue family).\<close>

datatype worker_pc = WLoop | WSource work | WSink work | WPresent work | WPump | WGone

datatype app_pc = AIdle | AAcquire | ATaken nat | ASource nat u32

datatype waiter_pc = PIdle | PWait u64

text \<open>
  \<open>held\<close>: images the application owns; \<open>lost\<close>: images that were acquired from the sink and that nobody will use
  again; \<open>submitted\<close> and \<open>presented\<close>: what was queued by the application and what was passed to the sink.
\<close>

record wsi_system =
  ws :: wsi_swapchain
  wpc :: worker_pc
  apc :: app_pc
  ppc :: waiter_pc
  asleep :: "thread set"
  held :: "nat multiset"
  lost :: "nat multiset"
  submitted :: "present_info list"
  presented :: "present_info list"

definition wakes :: "wsi_wake \<Rightarrow> thread set \<Rightarrow> thread set \<Rightarrow> bool" where
  "wakes k a a' = (case k of WakeNone \<Rightarrow> a' = a | WakeAll \<Rightarrow> a' = {}
     | WakeOne \<Rightarrow> a = {} \<and> a' = {} \<or> (\<exists>t \<in> a. a' = a - {t}))"

section \<open>Where an image is\<close>

fun worker_images :: "worker_pc \<Rightarrow> nat multiset" where
  "worker_images (WSource w) = {#work_index w#}"
| "worker_images (WSink w) = {#work_index w#}"
| "worker_images (WPresent w) = {#work_index w#}"
| "worker_images _ = {#}"

fun app_images :: "app_pc \<Rightarrow> nat multiset" where
  "app_images (ATaken i) = {#i#}"
| "app_images (ASource i f) = {#i#}"
| "app_images _ = {#}"

definition owned :: "wsi_system \<Rightarrow> nat multiset" where
  "owned w = mset (acquireQueue (ws w)) + mset (map work_index (workQueue (ws w))) + worker_images (wpc w)
     + app_images (apc w) + held w + lost w"

section \<open>Steps\<close>

text \<open>The sink hands out only images of the swapchain that are not acquired already.\<close>

definition sink_grants :: "pump_env \<Rightarrow> wsi_system \<Rightarrow> bool" where
  "sink_grants e w \<longleftrightarrow> (0 \<le> fst (pe_acquire e) \<longrightarrow> snd (pe_acquire e) < length (images (ws w)) \<and> snd (pe_acquire e) \<notin># owned w)"

inductive wsi_step :: "wsi_system \<Rightarrow> wsi_system \<Rightarrow> bool" where
  worker_sleep: "wpc w = WLoop \<Longrightarrow> Worker \<notin> asleep w \<Longrightarrow> \<not> worker_ready (ws w)
    \<Longrightarrow> wsi_step w (w\<lparr>asleep := insert Worker (asleep w)\<rparr>)"
| worker_takes: "wpc w = WLoop \<Longrightarrow> Worker \<notin> asleep w \<Longrightarrow> worker_ready (ws w) \<Longrightarrow> worker_take (ws w) = (x, s)
    \<Longrightarrow> wsi_step w (w\<lparr>ws := s, wpc := (case x of None \<Rightarrow> WGone | Some wk \<Rightarrow> WSource wk)\<rparr>)"
| worker_sources: "wpc w = WSource wk \<Longrightarrow> worker_source a b (ws w) = (ok, s, k) \<Longrightarrow> wakes k (asleep w) z
    \<Longrightarrow> wsi_step w (w\<lparr>ws := s, asleep := z, wpc := (if ok then WSink wk else WGone),
          lost := (if ok then lost w else add_mset (work_index wk) (lost w))\<rparr>)"
| worker_sinks: "wpc w = WSink wk \<Longrightarrow> worker_sink a b c (ws w) = (ok, s, k) \<Longrightarrow> wakes k (asleep w) z
    \<Longrightarrow> wsi_step w (w\<lparr>ws := s, asleep := z, wpc := (if ok then WPresent wk else WGone),
          lost := (if ok then lost w else add_mset (work_index wk) (lost w))\<rparr>)"
| worker_presents: "wpc w = WPresent wk \<Longrightarrow> worker_present r wk (ws w) = (ok, s, k) \<Longrightarrow> wakes k (asleep w) z
    \<Longrightarrow> wsi_step w (w\<lparr>ws := s, asleep := z, wpc := (if ok then WPump else WGone),
          presented := (if 0 \<le> r then presented w @ [present_info wk] else presented w),
          lost := (if 0 \<le> r then lost w else add_mset (work_index wk) (lost w))\<rparr>)"
| worker_pumps: "wpc w = WPump \<Longrightarrow> sink_grants e w \<Longrightarrow> worker_pump e (ws w) = Some (ok, s, k) \<Longrightarrow> wakes k (asleep w) z
    \<Longrightarrow> wsi_step w (w\<lparr>ws := s, asleep := z, wpc := (if ok then WLoop else WGone)\<rparr>)"
| wakes_up: "t \<in> asleep w \<Longrightarrow> wsi_step w (w\<lparr>asleep := asleep w - {t}\<rparr>)"
| app_acquires: "apc w = AIdle \<Longrightarrow> wsi_step w (w\<lparr>apc := AAcquire\<rparr>)"
| app_sleep: "apc w = AAcquire \<Longrightarrow> App \<notin> asleep w \<Longrightarrow> \<not> acquire_ready (ws w)
    \<Longrightarrow> wsi_step w (w\<lparr>asleep := insert App (asleep w)\<rparr>)"
| app_expires: "apc w = AAcquire \<Longrightarrow> \<not> acquire_ready (ws w) \<Longrightarrow> wsi_step w (w\<lparr>apc := AIdle, asleep := asleep w - {App}\<rparr>)"
| app_takes: "apc w = AAcquire \<Longrightarrow> App \<notin> asleep w \<Longrightarrow> acquire_ready (ws w) \<Longrightarrow> acquire_take (ws w) = (x, s)
    \<Longrightarrow> wsi_step w (w\<lparr>ws := s, apc := (case x of Inl r \<Rightarrow> AIdle | Inr i \<Rightarrow> ATaken i)\<rparr>)"
| app_signals: "apc w = ATaken i \<Longrightarrow> acquire_signal sem fence i (ws w) = (r, f, s, k) \<Longrightarrow> wakes k (asleep w) z
    \<Longrightarrow> wsi_step w (w\<lparr>ws := s, asleep := z, apc := AIdle, held := (if f = Kept then add_mset i (held w) else held w),
          lost := (if f = Lost then add_mset i (lost w) else lost w)\<rparr>)"
| app_presents: "apc w = AIdle \<Longrightarrow> i \<in># held w
    \<Longrightarrow> wsi_step w (w\<lparr>ws := prepare_present pid m (ws w), apc := ASource i fam, held := held w - {#i#}\<rparr>)"
| app_source_sleep: "apc w = ASource i fam \<Longrightarrow> App \<notin> asleep w \<Longrightarrow> initSourceCommands fam pool rs (ws w) = None
    \<Longrightarrow> wsi_step w (w\<lparr>asleep := insert App (asleep w)\<rparr>)"
| app_queues: "apc w = ASource i fam \<Longrightarrow> App \<notin> asleep w \<Longrightarrow> initSourceCommands fam pool rs (ws w) = Some cmds
    \<Longrightarrow> queuePresent cmds sub fen i = (r, s, k) \<Longrightarrow> ok = (0 \<le> fst (submitSourceWork cmds sub fen)) \<Longrightarrow> wakes k (asleep w) z
    \<Longrightarrow> wsi_step w (w\<lparr>ws := s, asleep := z, apc := AIdle,
          submitted := (if ok then submitted w @ [present_info (last (workQueue s))] else submitted w),
          lost := (if ok then lost w else add_mset i (lost w))\<rparr>)"
| app_releases: "apc w = AIdle \<Longrightarrow> i \<in># held w \<Longrightarrow> releaseSwapchainImages qs [(i, created, sig)] (ws w) = Some (r, s)
    \<Longrightarrow> wsi_step w (w\<lparr>ws := s, held := held w - {#i#}, lost := (if r = VK_SUCCESS then lost w else add_mset i (lost w))\<rparr>)"
| app_retires: "apc w = AIdle \<Longrightarrow> retire_status (ws w) = (s, k) \<Longrightarrow> wakes k (asleep w) z \<Longrightarrow> wsi_step w (w\<lparr>ws := s, asleep := z\<rparr>)"
| waiter_begins: "ppc w = PIdle \<Longrightarrow> wsi_step w (w\<lparr>ppc := PWait pid\<rparr>)"
| waiter_sleep: "ppc w = PWait pid \<Longrightarrow> Waiter \<notin> asleep w \<Longrightarrow> \<not> wait_ready pid (ws w)
    \<Longrightarrow> wsi_step w (w\<lparr>asleep := insert Waiter (asleep w)\<rparr>)"
| waiter_expires: "ppc w = PWait pid \<Longrightarrow> \<not> wait_ready pid (ws w) \<Longrightarrow> wsi_step w (w\<lparr>ppc := PIdle, asleep := asleep w - {Waiter}\<rparr>)"
| waiter_returns: "ppc w = PWait pid \<Longrightarrow> Waiter \<notin> asleep w \<Longrightarrow> wait_ready pid (ws w)
    \<Longrightarrow> waitForPresent sink t el (ws w) = (r, s, k) \<Longrightarrow> wakes k (asleep w) z
    \<Longrightarrow> wsi_step w (w\<lparr>ws := s, asleep := z, ppc := PIdle\<rparr>)"

text \<open>The swapchain has just been created; the sink has not handed out an image twice.\<close>

definition wsi_start :: "init_env \<Rightarrow> wsi_system \<Rightarrow> bool" where
  "wsi_start e w \<longleftrightarrow> (\<exists>wd ht. swapchain_init e wd ht wsi_swapchain_new = Some (VK_SUCCESS, ws w, True))
     \<and> distinct (acquireQueue (ws w)) \<and> wpc w = WLoop \<and> apc w = AIdle \<and> ppc w = PIdle \<and> asleep w = {}
     \<and> held w = {#} \<and> lost w = {#} \<and> submitted w = [] \<and> presented w = []"

inductive wsi_reachable :: "init_env \<Rightarrow> wsi_system \<Rightarrow> bool" for e where
  start: "wsi_start e w \<Longrightarrow> wsi_reachable e w"
| step: "wsi_reachable e w \<Longrightarrow> wsi_step w w' \<Longrightarrow> wsi_reachable e w'"

section \<open>The frame of the operations\<close>

text \<open>The queues and the images are all that ownership depends on.\<close>

definition queue_view :: "wsi_swapchain \<Rightarrow> nat list \<times> work list \<times> nat" where
  "queue_view s = (acquireQueue s, workQueue s, length (images s))"

lemma markResult_view [simp]: "queue_view (fst (snd (markResult r s))) = queue_view s"
  by (simp add: markResult_def queue_view_def Let_def)

lemma marked_view: "markResult r s = (x, s', k) \<Longrightarrow> queue_view s' = queue_view s"
  by (metis fst_conv markResult_view snd_conv)

lemma lose_device_view: "lose_device s = (ok, s', k) \<Longrightarrow> queue_view s' = queue_view s \<and> \<not> ok"
  by (cases "markResult VK_ERROR_DEVICE_LOST s") (auto simp: lose_device_def dest: marked_view)

lemma queue_view_update [simp]:
  "queue_view (s\<lparr>processedSourceCount := a\<rparr>) = queue_view s" "queue_view (s\<lparr>pendingWaitId := b\<rparr>) = queue_view s"
  "queue_view (s\<lparr>sourcePool := c\<rparr>) = queue_view s" "queue_view (s\<lparr>sourceFamily := d\<rparr>) = queue_view s" "queue_view (s\<lparr>nextWork := n\<rparr>) = queue_view s"
  "queue_view (s\<lparr>swapchainStatus := r\<rparr>) = queue_view s" "queue_view (s\<lparr>sinkFencePool := f\<rparr>) = queue_view s"
  by (simp_all add: queue_view_def)

lemma worker_view:
  "worker_source a b s = (ok, s', k) \<Longrightarrow> queue_view s' = queue_view s"
  "worker_sink a b c s = (ok, s', k) \<Longrightarrow> queue_view s' = queue_view s"
  "worker_present r wk s = (ok, s', k) \<Longrightarrow> queue_view s' = queue_view s"
  by (auto simp: worker_source_def worker_sink_def worker_present_def Let_def split: if_splits prod.splits
      dest!: lose_device_view marked_view)

lemma worker_presented: "worker_present r wk s = (True, s', k) \<Longrightarrow> 0 \<le> r"
  by (auto simp: worker_present_def markResult_def Let_def VK_SUCCESS_def split: if_splits prod.splits)

lemma app_view:
  "prepare_present p m s = s' \<Longrightarrow> queue_view s' = queue_view s"
  "initSourceCommands f pool rs s = Some (r, s') \<Longrightarrow> queue_view s' = queue_view s"
  "waitForPresent sink t el s = (x, s', k) \<Longrightarrow> queue_view s' = queue_view s"
  "retire_status s = (s', k) \<Longrightarrow> queue_view s' = queue_view s"
  by (auto simp: prepare_present_def setPresentId_def setPresentMode_def initSourceCommands_def waitForPresent_def
      retire_status_def Let_def split: option.splits if_splits dest!: marked_view)

lemma pump_view:
  assumes "pumpAcquireSinkImage e s = Some (r, s', k)"
  shows "queue_view s' = queue_view s \<or> 0 \<le> fst (pe_acquire e) \<and> snd (pe_acquire e) < length (images s)
    \<and> queue_view s' = (acquireQueue s @ [snd (pe_acquire e)], workQueue s, length (images s))"
proof (cases "pump_fence e s")
  case None
  with assms show ?thesis by (auto simp: pumpAcquireSinkImage_def dest: marked_view)
next
  case (Some x)
  obtain fence s1 where x: "x = (fence, s1)" by (cases x)
  have v: "queue_view s1 = queue_view s" using Some x by (auto simp: pump_fence_def split: if_splits)
  then have q: "acquireQueue s1 = acquireQueue s" "workQueue s1 = workQueue s" "length (images s1) = length (images s)"
    by (simp_all add: queue_view_def)
  show ?thesis
  proof (cases "0 \<le> fst (pe_acquire e)")
    case False
    with assms Some x v show ?thesis by (cases "pe_acquire e") (auto simp: pumpAcquireSinkImage_def dest!: marked_view)
  next
    case True
    define s2 where "s2 = (\<lambda>img. s1\<lparr>sinkFencePool := sinkFencePool s1 @ (if sinkAcquireFence img \<noteq> 0 then [sinkAcquireFence img] else []),
      images := (images s1)[snd (pe_acquire e) := img\<lparr>sinkAcquireFence := fence\<rparr>],
      acquireQueue := acquireQueue s1 @ [snd (pe_acquire e)]\<rparr>)"
    have v2: "queue_view (s2 img) = (acquireQueue s @ [snd (pe_acquire e)], workQueue s, length (images s))" for img
      by (simp add: s2_def queue_view_def q)
    from assms Some x True obtain img where img: "load (images s1) (snd (pe_acquire e)) = Some img"
      by (auto simp: pumpAcquireSinkImage_def Option.bind_eq_Some_conv split: prod.splits)
    have "markResult VK_ERROR_DEVICE_LOST s1 = (r, s', k) \<or> (\<exists>k'. markResult (fst (pe_acquire e)) (s2 img) = (r, s', k'))"
    proof (cases "sinkAcquireFence img \<noteq> 0 \<and> (pe_wait e \<noteq> VK_SUCCESS \<or> pe_reset e \<noteq> VK_SUCCESS)")
      case c: True
      from assms Some x True img c show ?thesis
        by (cases "pe_acquire e") (simp add: pumpAcquireSinkImage_def)
    next
      case c: False
      from assms Some x True img c show ?thesis
        by (cases "pe_acquire e", cases "markResult (fst (pe_acquire e)) (s2 img)")
          (simp only: pumpAcquireSinkImage_def Let_def s2_def, simp split: if_splits)
    qed
    with v v2 True img q(3) show ?thesis by (auto simp: load_def split: if_splits dest!: marked_view)
  qed
qed

lemma signal_view:
  assumes "acquire_signal sem fence i s = (r, f, s', k)"
  shows "queue_view s' = (if f = Requeued then (acquireQueue s @ [i], workQueue s, length (images s)) else queue_view s)"
  using assms by (auto simp: acquire_signal_def queue_view_def split: option.splits prod.splits fate.splits dest!: marked_view)

lemma submit_view: "submitSourceWork (r0, s0) sub fen = (r, s', k) \<Longrightarrow> queue_view s' = queue_view s0"
  by (auto simp: submitSourceWork_def split: if_splits option.splits dest!: marked_view)

lemma queuePresent_view:
  assumes "queuePresent (r0, s0) sub fen i = (r, s', k)"
  shows "if 0 \<le> fst (submitSourceWork (r0, s0) sub fen)
    then \<exists>wk. work_index wk = i \<and> queue_view s' = (acquireQueue s0, workQueue s0 @ [wk], length (images s0))
    else queue_view s' = queue_view s0"
proof -
  obtain q s1 k1 where sub: "submitSourceWork (r0, s0) sub fen = (q, s1, k1)" by (rule prod_cases3)
  have v: "acquireQueue s1 = acquireQueue s0" "workQueue s1 = workQueue s0" "length (images s1) = length (images s0)"
    using submit_view[OF sub] by (simp_all add: queue_view_def)
  show ?thesis
  proof (cases "q < 0")
    case True
    with assms sub submit_view[OF sub] show ?thesis by (auto simp: queuePresent_def Let_def split: prod.splits dest!: marked_view)
  next
    case False
    with assms sub v show ?thesis
      by (auto simp: queuePresent_def Let_def queue_view_def split: prod.splits dest!: marked_view intro!: exI[of _ "(nextWork s1)\<lparr>work_index := i\<rparr>"])
  qed
qed

lemma release_view:
  assumes "releaseSwapchainImages qs [(i, created, sig)] s = Some (r, s')"
  shows "queue_view s' = (if r = VK_SUCCESS then (acquireQueue s @ [i], workQueue s, length (images s)) else queue_view s)"
proof -
  obtain res sem d where c: "createExportableSignalledSemaphore qs created sig = (res, sem, d)" by (rule prod_cases3)
  show ?thesis using assms by (cases "load (images s) i") (auto simp: c queue_view_def Let_def split: if_splits)
qed

section \<open>Ownership\<close>

lemma owned_view:
  "owned w = mset (fst (queue_view (ws w))) + mset (map work_index (fst (snd (queue_view (ws w))))) + worker_images (wpc w)
     + app_images (apc w) + held w + lost w"
  by (simp add: owned_def queue_view_def)

lemma owned_step:
  assumes "wsi_step w w'"
  shows "length (images (ws w')) = length (images (ws w)) \<and>
    (owned w' = owned w \<and> (wpc w' = WPump \<longrightarrow> wpc w = WPump)
     \<or> (\<exists>i. owned w = add_mset i (owned w'))
     \<or> (\<exists>i < length (images (ws w)). i \<notin># owned w \<and> owned w' = add_mset i (owned w) \<and> wpc w = WPump \<and> wpc w' \<noteq> WPump))"
  using assms
proof cases
  case (worker_takes x s)
  then show ?thesis
    by (cases "workQueue (ws w)") (auto simp: owned_def worker_take_def worker_ready_def split: if_splits)
next
  case (worker_sources wk a b ok s k z)
  from worker_view(1)[OF worker_sources(3)] worker_sources(1,2) show ?thesis
    by (auto simp: owned_view) (simp_all add: queue_view_def)
next
  case (worker_sinks wk a b c ok s k z)
  from worker_view(2)[OF worker_sinks(3)] worker_sinks(1,2) show ?thesis
    by (auto simp: owned_view) (simp_all add: queue_view_def)
next
  case (worker_presents wk r ok s k z)
  from worker_view(3)[OF worker_presents(3)] worker_presents(1,2,3) show ?thesis
    by (auto simp: owned_view dest: worker_presented) (simp_all add: queue_view_def)
next
  case (worker_pumps e ok s k z)
  then obtain r where p: "pumpAcquireSinkImage e (ws w) = Some (r, s, k)" "ok = (0 \<le> r)"
    by (auto simp: worker_pump_def Option.bind_eq_Some_conv)
  from pump_view[OF p(1)] worker_pumps(1-3) show ?thesis
    by (auto simp: owned_view sink_grants_def) (auto simp: queue_view_def)
next
  case (app_takes x s)
  then show ?thesis
    by (cases "acquireQueue (ws w)") (auto simp: owned_def acquire_take_def acquire_ready_def split: if_splits)
next
  case (app_signals i sem fence r f s k z)
  from signal_view[OF app_signals(3)] app_signals(1,2) show ?thesis
    by (cases f) (auto simp: owned_view queue_view_def)
next
  case (app_presents i fam pid m)
  from app_view(1)[OF refl, of pid m "ws w"] app_presents show ?thesis
    by (auto simp: owned_view insert_DiffM2 dest!: multi_member_split) (simp_all add: queue_view_def)
next
  case (app_queues i fam pool rs cmds sub fen r s k ok z)
  obtain r0 s0 where c: "cmds = (r0, s0)" by (cases cmds)
  have v: "queue_view s0 = queue_view (ws w)" using app_view(2) app_queues(4) c by blast
  from queuePresent_view[OF app_queues(5)[unfolded c]] v app_queues(1,2,6) show ?thesis
    by (auto simp: owned_view c queue_view_def split: if_splits)
next
  case (app_releases i qs created sig r s)
  from release_view[OF app_releases(4)] app_releases(1-3) show ?thesis
    by (auto simp: owned_view queue_view_def dest!: multi_member_split split: if_splits)
next
  case (app_retires s k z)
  from app_view(4)[OF app_retires(3)] app_retires(1,2) show ?thesis by (auto simp: owned_view) (simp_all add: queue_view_def)
next
  case (waiter_returns pid sink t el r s k z)
  from app_view(3)[OF waiter_returns(5)] waiter_returns(1) show ?thesis by (auto simp: owned_view) (simp_all add: queue_view_def)
qed (auto simp: owned_def)

section \<open>The start\<close>

lemma setup_images_frame:
  "setup_images e is s = (r, s') \<Longrightarrow> length (images s') = length (images s) \<and> acquireQueue s' = acquireQueue s \<and> workQueue s' = workQueue s"
  by (induction "is" arbitrary: s) (auto simp: Let_def split: prod.splits if_splits)

lemma pump_once_frame:
  assumes "pump_once e i s = Some s'" "workQueue s = []" "set (acquireQueue s) \<subseteq> {..<length (images s)}"
  shows "length (images s') = length (images s)" "workQueue s' = []" "set (acquireQueue s') \<subseteq> {..<length (images s)}"
    "length (acquireQueue s') \<le> Suc (length (acquireQueue s))"
proof -
  obtain r s1 k where p: "pumpAcquireSinkImage (in_pump e i) s = Some (r, s1, k)" and s': "queue_view s' = queue_view s1"
    using assms(1) by (auto simp: pump_once_def Option.bind_eq_Some_conv)
  from pump_view[OF p] s' assms(2,3) show "length (images s') = length (images s)" "workQueue s' = []"
    "set (acquireQueue s') \<subseteq> {..<length (images s)}" "length (acquireQueue s') \<le> Suc (length (acquireQueue s))"
    by (auto simp: queue_view_def)
qed

definition wsi_bound :: "init_env \<Rightarrow> nat" where
  "wsi_bound e = getNumForwardProgressImages (length (in_images e)) (in_caps e)"

lemma pumps_frame:
  assumes "for_list (pump_once e) is s = Some s'" "workQueue s = []" "set (acquireQueue s) \<subseteq> {..<length (images s)}"
  shows "length (images s') = length (images s) \<and> workQueue s' = [] \<and> set (acquireQueue s') \<subseteq> {..<length (images s)}
    \<and> length (acquireQueue s') \<le> length (acquireQueue s) + length is"
  using assms
proof (induction "is" arbitrary: s)
  case (Cons i "is")
  then obtain s1 where s1: "pump_once e i s = Some s1" "for_list (pump_once e) is s1 = Some s'"
    by (auto simp: Option.bind_eq_Some_conv)
  note f = pump_once_frame[OF s1(1) Cons.prems(2,3)]
  from Cons.IH[OF s1(2)] f show ?case by auto
qed simp

lemma init_frame:
  assumes "swapchain_init e wd ht wsi_swapchain_new = Some (VK_SUCCESS, s, True)"
  shows "length (images s) = length (in_images e)" "workQueue s = []" "set (acquireQueue s) \<subseteq> {..<length (in_images e)}"
    "length (acquireQueue s) \<le> wsi_bound e"
proof -
  define s0 where "s0 = wsi_swapchain_new\<lparr>sinkSwapchain := snd (in_created e), sw_width := wd, sw_height := ht,
    images := replicate (length (in_images e)) wsi_image_new\<rparr>"
  obtain r s1 where s1: "setup_images e [0..<length (in_images e)] s0 = (r, s1)" by fastforce
  have f1: "length (images s1) = length (in_images e)" "acquireQueue s1 = []" "workQueue s1 = []"
    using setup_images_frame[OF s1] by (simp_all add: s0_def wsi_swapchain_new_def)
  have "for_list (pump_once e) [0..<wsi_bound e] s1 = Some s"
    using assms s1 by (auto simp: swapchain_init_def s0_def Let_def Option.bind_eq_Some_conv wsi_bound_def split: if_splits prod.splits)
  from pumps_frame[OF this] f1
  show "length (images s) = length (in_images e)" "workQueue s = []" "set (acquireQueue s) \<subseteq> {..<length (in_images e)}"
    "length (acquireQueue s) \<le> wsi_bound e" by auto
qed

section \<open>The invariant\<close>

definition images_inv :: "init_env \<Rightarrow> wsi_system \<Rightarrow> bool" where
  "images_inv e w \<longleftrightarrow> length (images (ws w)) = length (in_images e) \<and> (\<forall>i. count (owned w) i \<le> 1)
     \<and> set_mset (owned w) \<subseteq> {..<length (in_images e)} \<and> size (owned w) + (if wpc w = WPump then 1 else 0) \<le> wsi_bound e"

lemma images_inv_start:
  assumes "wsi_start e w"
  shows "images_inv e w"
proof -
  obtain wd ht where i: "swapchain_init e wd ht wsi_swapchain_new = Some (VK_SUCCESS, ws w, True)"
    using assms by (auto simp: wsi_start_def)
  have o: "owned w = mset (acquireQueue (ws w))" and d: "distinct (acquireQueue (ws w))" and p: "wpc w = WLoop"
    using assms init_frame(2)[OF i] by (simp_all add: wsi_start_def owned_def)
  from init_frame[OF i] d p show ?thesis
    by (simp add: images_inv_def o distinct_count_atmost_1)
qed

lemma images_inv_step:
  assumes "wsi_step w w'" "images_inv e w"
  shows "images_inv e w'"
proof -
  have n: "length (images (ws w')) = length (images (ws w))" using owned_step[OF assms(1)] by blast
  from owned_step[OF assms(1)] consider
      (same) "owned w' = owned w" "wpc w' = WPump \<longrightarrow> wpc w = WPump"
    | (less) i where "owned w = add_mset i (owned w')"
    | (more) i where "i < length (images (ws w))" "i \<notin># owned w" "owned w' = add_mset i (owned w)" "wpc w = WPump" "wpc w' \<noteq> WPump"
    by blast
  then show ?thesis
  proof cases
    case same
    with assms(2) n show ?thesis by (auto simp: images_inv_def)
  next
    case less
    have "count (owned w') j \<le> count (owned w) j" for j by (simp add: less)
    moreover have "count (owned w) j \<le> 1" for j using assms(2) by (simp add: images_inv_def)
    ultimately have "\<forall>j. count (owned w') j \<le> 1" using le_trans by blast
    with assms(2) n less show ?thesis by (auto simp: images_inv_def split: if_splits)
  next
    case more
    with assms(2) n show ?thesis by (auto simp: images_inv_def not_in_iff)
  qed
qed

text \<open>What has been queued: what was presented, what the worker holds, and what waits.\<close>

fun in_flight :: "worker_pc \<Rightarrow> present_info list" where
  "in_flight (WSource w) = [present_info w]"
| "in_flight (WSink w) = [present_info w]"
| "in_flight (WPresent w) = [present_info w]"
| "in_flight _ = []"

definition history_inv :: "wsi_system \<Rightarrow> bool" where
  "history_inv w \<longleftrightarrow> (if wpc w = WGone then \<exists>rest. submitted w = presented w @ rest
     else submitted w = presented w @ in_flight (wpc w) @ map present_info (workQueue (ws w)))"

lemma history_frame:
  assumes "history_inv w" "workQueue (ws w') = workQueue (ws w)" "wpc w' = wpc w" "submitted w' = submitted w" "presented w' = presented w"
  shows "history_inv w'"
  using assms by (simp add: history_inv_def)

lemma view_work: "queue_view s' = queue_view s \<Longrightarrow> workQueue s' = workQueue s"
  by (simp add: queue_view_def)

lemma history_inv_step:
  assumes "wsi_step w w'" "history_inv w"
  shows "history_inv w'"
  using assms(1)
proof cases
  case (worker_takes x s)
  then show ?thesis using assms(2)
    by (cases "workQueue (ws w)") (auto simp: history_inv_def worker_take_def worker_ready_def split: if_splits)
next
  case (worker_sources wk a b ok s k z)
  with assms(2) view_work[OF worker_view(1)[OF worker_sources(3)]] show ?thesis by (simp add: history_inv_def)
next
  case (worker_sinks wk a b c ok s k z)
  with assms(2) view_work[OF worker_view(2)[OF worker_sinks(3)]] show ?thesis by (simp add: history_inv_def)
next
  case (worker_presents wk r ok s k z)
  with assms(2) view_work[OF worker_view(3)[OF worker_presents(3)]] show ?thesis
    by (cases ok) (auto simp: history_inv_def dest: worker_presented)
next
  case (worker_pumps e ok s k z)
  then obtain r where p: "pumpAcquireSinkImage e (ws w) = Some (r, s, k)"
    by (auto simp: worker_pump_def Option.bind_eq_Some_conv)
  have "workQueue s = workQueue (ws w)" using pump_view[OF p] by (auto simp: queue_view_def)
  with worker_pumps assms(2) show ?thesis by (auto simp: history_inv_def)
next
  case (app_takes x s)
  then have "workQueue s = workQueue (ws w)" by (auto simp: acquire_take_def split: if_splits)
  with app_takes(1) show ?thesis by (auto intro!: history_frame[OF assms(2)])
next
  case (app_signals i sem fence r f s k z)
  have "workQueue s = workQueue (ws w)" using signal_view[OF app_signals(3)] by (auto simp: queue_view_def split: if_splits)
  with app_signals(1) show ?thesis by (auto intro!: history_frame[OF assms(2)])
next
  case (app_presents i fam pid m)
  with view_work[OF app_view(1)[OF refl, of pid m "ws w"]] show ?thesis by (auto intro!: history_frame[OF assms(2)])
next
  case (app_queues i fam pool rs cmds sub fen r s k ok z)
  obtain r0 s0 where c: "cmds = (r0, s0)" by (cases cmds)
  have v: "workQueue s0 = workQueue (ws w)" using view_work app_view(2) app_queues(4) c by blast
  from queuePresent_view[OF app_queues(5)[unfolded c]] v app_queues(1,6) assms(2) show ?thesis
    by (auto simp: history_inv_def c queue_view_def split: if_splits)
next
  case (app_releases i qs created sig r s)
  have "workQueue s = workQueue (ws w)" using release_view[OF app_releases(4)] by (auto simp: queue_view_def split: if_splits)
  with app_releases(1) show ?thesis by (auto intro!: history_frame[OF assms(2)])
next
  case (app_retires s k z)
  with view_work[OF app_view(4)[OF app_retires(3)]] show ?thesis by (auto intro!: history_frame[OF assms(2)])
next
  case (waiter_returns pid sink t el r s k z)
  with view_work[OF app_view(3)[OF waiter_returns(5)]] show ?thesis by (auto intro!: history_frame[OF assms(2)])
qed (use assms(2) in \<open>auto simp: history_inv_def\<close>)

lemma wsi_invariants: "wsi_reachable e w \<Longrightarrow> images_inv e w \<and> history_inv w"
proof (induction rule: wsi_reachable.induct)
  case (start w)
  moreover from start obtain wd ht where "swapchain_init e wd ht wsi_swapchain_new = Some (VK_SUCCESS, ws w, True)"
    by (auto simp: wsi_start_def)
  ultimately show ?case using images_inv_start init_frame(2) by (auto simp: wsi_start_def history_inv_def)
qed (blast intro: images_inv_step history_inv_step)

section \<open>A swapchain for the examples\<close>

definition demo_host :: host_env where
  "demo_host = \<lparr>he_query = (VK_SUCCESS, 1), he_allocate = VK_SUCCESS, he_bind = VK_SUCCESS\<rparr>"

definition demo_image :: image_env where
  "demo_image = \<lparr>ie_image = (VK_SUCCESS, 11), ie_image_bits = 1, ie_allocate = VK_SUCCESS, ie_bind = VK_SUCCESS,
     ie_source_reqs = (4096, 1), ie_sink_reqs = (8192, 1), ie_host = (\<lambda>n. 12), ie_source = demo_host, ie_sink = demo_host,
     ie_fence = (VK_SUCCESS, 13), ie_release = (VK_SUCCESS, 14), ie_semaphore = (VK_SUCCESS, 15), ie_signal = VK_SUCCESS\<rparr>"

text \<open>Two images, of which the sink keeps \<open>n\<close>, and two queue families.\<close>

definition demo_env :: "nat \<Rightarrow> init_env" where
  "demo_env n = \<lparr>in_old = 0, in_created = (VK_SUCCESS, 1), in_images = [2, 3], in_setup = (\<lambda>i. demo_image),
     in_source_types = [3], in_sink_types = [3], in_queues = [(4, 0), (5, 1)], in_pool = 6,
     in_commands = [(VK_SUCCESS, VK_SUCCESS), (VK_SUCCESS, VK_SUCCESS)], in_caps = Inr n,
     in_pump = (\<lambda>i. \<lparr>pe_fence = (VK_SUCCESS, 20 + i), pe_acquire = (VK_SUCCESS, i), pe_wait = VK_SUCCESS, pe_reset = VK_SUCCESS\<rparr>)\<rparr>"

definition demo_swapchain :: "nat \<Rightarrow> wsi_swapchain" where
  "demo_swapchain n = (case swapchain_init (demo_env n) 640 480 wsi_swapchain_new of Some (r, s, b) \<Rightarrow> s | None \<Rightarrow> wsi_swapchain_new)"

definition demo_system :: "wsi_swapchain \<Rightarrow> wsi_system" where
  "demo_system s = \<lparr>ws = s, wpc = WLoop, apc = AIdle, ppc = PIdle, asleep = {}, held = {#}, lost = {#}, submitted = [], presented = []\<rparr>"

lemma demo_init:
  "swapchain_init (demo_env 1) 640 480 wsi_swapchain_new = Some (VK_SUCCESS, demo_swapchain 1, True)"
  "swapchain_init (demo_env 2) 640 480 wsi_swapchain_new = Some (VK_SUCCESS, demo_swapchain 2, True)"
  by code_simp+

lemma demo_fields1:
  "acquireQueue (demo_swapchain 1) = [0, 1]" "workQueue (demo_swapchain 1) = []" "swapchainStatus (demo_swapchain 1) = 0"
  "sourceFamily (demo_swapchain 1) = -1" "submitCount (demo_swapchain 1) = 0" "processedSourceCount (demo_swapchain 1) = 0"
  by code_simp+

lemma demo_fields2:
  "acquireQueue (demo_swapchain 2) = [0]" "workQueue (demo_swapchain 2) = []" "swapchainStatus (demo_swapchain 2) = 0"
  "pendingWaitId (demo_swapchain 2) = 0" "sourceFamily (demo_swapchain 2) = -1" "submitCount (demo_swapchain 2) = 0"
  "processedSourceCount (demo_swapchain 2) = 0"
  by code_simp+

lemma demo_started:
  assumes "swapchain_init e wd ht wsi_swapchain_new = Some (VK_SUCCESS, s, True)" "distinct (acquireQueue s)"
  shows "wsi_reachable e (demo_system s)"
  using assms by (intro wsi_reachable.start) (auto simp: wsi_start_def demo_system_def)

lemmas demo_simps = demo_system_def worker_ready_def wait_ready_def acquire_ready_def VK_SUCCESS_def

text \<open>An image is acquired, and an image is presented, without errors.\<close>

lemma acquire_run:
  assumes r: "wsi_reachable e w" and w: "apc w = AIdle" "App \<notin> asleep w" "acquireQueue (ws w) = i # q" "swapchainStatus (ws w) = 0"
  shows "wsi_reachable e (w\<lparr>ws := (ws w)\<lparr>acquireQueue := q\<rparr>, held := add_mset i (held w)\<rparr>)"
proof -
  let ?s = "(ws w)\<lparr>acquireQueue := q\<rparr>"
  from wsi_reachable.step[OF r wsi_step.app_acquires[OF w(1)]] have "wsi_reachable e (w\<lparr>apc := AAcquire\<rparr>)" .
  from wsi_reachable.step[OF this wsi_step.app_takes[of _ "Inr i" ?s]] w
  have "wsi_reachable e (w\<lparr>ws := ?s, apc := ATaken i\<rparr>)" by (simp add: acquire_ready_def acquire_take_def)
  moreover have "acquire_signal None None i ?s = (0, Kept, ?s, WakeNone)"
    using w by (simp add: acquire_signal_def semaphore_signal_def fence_signal_def markResult_def vk_result_defs)
  ultimately show ?thesis
    using wsi_reachable.step[OF _ wsi_step.app_signals[of _ i None None 0 Kept ?s WakeNone "asleep w"], of e "w\<lparr>ws := ?s, apc := ATaken i\<rparr>"] w
    by (cases w) (simp add: wakes_def)
qed

lemma present_run:
  assumes r: "wsi_reachable e w" and w: "apc w = AIdle" "App \<notin> asleep w" "i \<in># held w" "swapchainStatus (ws w) = 0"
    "submitCount (ws w) = processedSourceCount (ws w)" "wakes WakeOne (asleep w) z"
  obtains s h where "wsi_reachable e (w\<lparr>ws := s, asleep := z, held := held w - {#i#}, submitted := h\<rparr>)"
    "acquireQueue s = acquireQueue (ws w)" "workQueue s \<noteq> []" "swapchainStatus s = 0" "pendingWaitId s = pendingWaitId (ws w)"
    "sourceFamily s = fam" "submitCount s = submitCount (ws w) + 1" "processedSourceCount s = processedSourceCount (ws w)"
proof -
  let ?w = "w\<lparr>apc := ASource i fam, held := held w - {#i#}\<rparr>"
  have r1: "wsi_reachable e ?w"
    using wsi_reachable.step[OF r wsi_step.app_presents[OF w(1,3), where pid = None and m = None and fam = fam]] by (simp add: prepare_present_def)
  obtain s0 where c: "initSourceCommands fam 7 [] (ws ?w) = Some (0, s0)" "queue_view s0 = queue_view (ws w)" "swapchainStatus s0 = 0"
      "pendingWaitId s0 = pendingWaitId (ws w)" "sourceFamily s0 = fam" "submitCount s0 = submitCount (ws w)"
      "processedSourceCount s0 = processedSourceCount (ws w)"
    using w by (cases "fam = sourceFamily (ws w) \<and> sourcePool (ws w) \<noteq> 0") (auto simp: initSourceCommands_def Let_def VK_SUCCESS_def)
  define s where "s = s0\<lparr>workQueue := workQueue s0 @ [(nextWork s0)\<lparr>work_index := i\<rparr>], submitCount := submitCount s0 + 1,
    nextWork := (nextWork s0)\<lparr>work_index := i, presentId := 0, setsMode := False\<rparr>\<rparr>"
  have m: "submitSourceWork (0, s0) 0 None = (0, s0, WakeNone)"
    using c(3) by (simp add: submitSourceWork_def markResult_def VK_SUCCESS_def)
  have q: "queuePresent (0, s0) 0 None i = (0, s, WakeOne)"
    using c(3) by (simp add: queuePresent_def m Let_def s_def markResult_def VK_SUCCESS_def wake_both_def)
  from wsi_reachable.step[OF r1 wsi_step.app_queues[OF _ _ c(1) q refl, of z]] w m
  have "wsi_reachable e (w\<lparr>ws := s, asleep := z, held := held w - {#i#}, submitted := submitted w @ [present_info (last (workQueue s))]\<rparr>)"
    by (cases w) simp
  with that c show ?thesis by (simp add: s_def queue_view_def)
qed

section \<open>Images\<close>

text \<open>
  C10. Every image of the swapchain has at most one owner among the queue for the application, the application, the queue
  for the worker and the worker, so the application never renders to an image that the worker copies; never more
  images are acquired from the sink than \<open>getNumForwardProgressImages\<close> allows; and the frames are presented on the sink in the order in which the application queued them, none skipped or
  repeated.  The sink hands out only images that are not acquired (\<open>sink_grants\<close>), as Vulkan promises.
\<close>

theorem wsi_images:
  assumes "wsi_reachable e w"
  shows "(\<forall>i. count (owned w) i \<le> 1) \<and> set_mset (owned w) \<subseteq> {..<length (images (ws w))}
    \<and> size (owned w) \<le> getNumForwardProgressImages (length (in_images e)) (in_caps e)
    \<and> (\<exists>rest. submitted w = presented w @ rest)"
  using wsi_invariants[OF assms] by (auto simp: images_inv_def history_inv_def wsi_bound_def split: if_splits)

theorem wsi_images_witness:
  "\<exists>w :: wsi_system. wsi_reachable (demo_env 2) w \<and> workQueue (ws w) \<noteq> [] \<and> size (owned w) \<le> 1 \<and> (\<exists>rest. submitted w = presented w @ rest)"
proof -
  have d: "distinct (acquireQueue (demo_swapchain 2))" unfolding demo_fields2 by simp
  let ?w = "demo_system (demo_swapchain 2)"
  have w1: "wsi_reachable (demo_env 2) (?w\<lparr>ws := (ws ?w)\<lparr>acquireQueue := []\<rparr>, held := add_mset 0 (held ?w)\<rparr>)"
    by (rule acquire_run[OF demo_started[OF demo_init(2) d]]) (simp_all add: demo_system_def demo_fields2)
  obtain s h where w2: "wsi_reachable (demo_env 2) (?w\<lparr>ws := s, held := {#}, submitted := h\<rparr>)" and s: "workQueue s \<noteq> []"
    by (rule present_run[OF w1, of 0 "{}" 0]) (auto simp: demo_system_def demo_fields2 wakes_def)
  have "getNumForwardProgressImages (length (in_images (demo_env 2))) (in_caps (demo_env 2)) = 1"
    by (simp add: demo_env_def getNumForwardProgressImages_def)
  with wsi_images[OF w2] w2 s show ?thesis by (intro exI[of _ "?w\<lparr>ws := s, held := {#}, submitted := h\<rparr>"]) simp
qed

end
