(* ===== verification/Cross_Wsi_Wakeups.thy ===== *)
theory Cross_Wsi_Wakeups
  imports Cross_Wsi_Threads
begin

text \<open>
  Waking on the condition variable that the threads of the cross-WSI layer share: a wake-up that is lost, the wake-ups
  that are not, and a wait that ignores the status.
\<close>

section \<open>A lost wake-up\<close>

lemma lost_trace:
  assumes s: "acquireQueue s = [0]" "workQueue s = []" "swapchainStatus s = 0" "pendingWaitId s = 0"
      "submitCount s = 0" "processedSourceCount s = 0" and r: "wsi_reachable e (demo_system s)"
  shows "\<exists>w. wsi_reachable e w \<and> workQueue (ws w) \<noteq> [] \<and> swapchainStatus (ws w) = VK_SUCCESS \<and> wpc w = WLoop
    \<and> apc w = AAcquire \<and> ppc w = PWait 1 \<and> asleep w = {Worker, App, Waiter}"
proof -
  note S = s demo_simps
  let ?w = "demo_system s"
  have "wsi_reachable e (?w\<lparr>asleep := {Worker}\<rparr>)"
    using wsi_reachable.step[OF r wsi_step.worker_sleep] by (simp add: S)
  from wsi_reachable.step[OF this wsi_step.waiter_begins[of _ 1]]
  have "wsi_reachable e (?w\<lparr>asleep := {Worker}, ppc := PWait 1\<rparr>)" by (simp add: S)
  from wsi_reachable.step[OF this wsi_step.waiter_sleep[of _ 1]]
  have "wsi_reachable e (?w\<lparr>asleep := {Waiter, Worker}, ppc := PWait 1\<rparr>)" by (simp add: S)
  from acquire_run[OF this, of 0 "[]"]
  have w1: "wsi_reachable e (?w\<lparr>asleep := {Waiter, Worker}, ppc := PWait 1, ws := s\<lparr>acquireQueue := []\<rparr>, held := {#0#}\<rparr>)" by (simp add: S)
  have z: "wakes WakeOne {Waiter, Worker} {Worker}" by (auto simp: wakes_def)
  obtain s' h where w2: "wsi_reachable e (?w\<lparr>ws := s', asleep := {Worker}, ppc := PWait 1, submitted := h\<rparr>)"
    and s': "acquireQueue s' = []" "workQueue s' \<noteq> []" "swapchainStatus s' = 0" "pendingWaitId s' = 0"
    by (rule present_run[OF w1, of 0 "{Worker}" 0]) (auto simp: S z)
  from wsi_reachable.step[OF w2 wsi_step.waiter_sleep[of _ 1]]
  have "wsi_reachable e (?w\<lparr>ws := s', asleep := {Waiter, Worker}, ppc := PWait 1, submitted := h\<rparr>)" by (simp add: S s')
  from wsi_reachable.step[OF this wsi_step.app_acquires]
  have "wsi_reachable e (?w\<lparr>ws := s', asleep := {Waiter, Worker}, ppc := PWait 1, submitted := h, apc := AAcquire\<rparr>)" by (simp add: S)
  from wsi_reachable.step[OF this wsi_step.app_sleep]
  have "wsi_reachable e (?w\<lparr>ws := s', asleep := {App, Waiter, Worker}, ppc := PWait 1, submitted := h, apc := AAcquire\<rparr>)" by (simp add: S s')
  then show ?thesis by (intro exI conjI, assumption) (auto simp: S s')
qed

text \<open>
  C34. A wake-up can be lost: a reachable state in which a frame is queued, the swapchain has no error, and the worker,
  the application (for an image) and the thread in \<open>waitForPresent\<close> all sleep.  \<open>queuePresent\<close> notifies one of the
  sleepers, and that was the thread that waits for the frame to be presented.
\<close>

theorem lost_wakeup:
  "\<exists>e w. wsi_reachable e w \<and> workQueue (ws w) \<noteq> [] \<and> swapchainStatus (ws w) = VK_SUCCESS \<and> wpc w = WLoop
     \<and> apc w = AAcquire \<and> ppc w = PWait 1 \<and> asleep w = {Worker, App, Waiter}"
  using lost_trace[OF demo_fields2(1-4,6,7) demo_started[OF demo_init(2)]] by (auto simp: demo_fields2)

section \<open>Without a thread in waitForPresent\<close>

text \<open>Executions in which no thread enters \<open>waitForPresent\<close>.\<close>

inductive wsi_paired :: "init_env \<Rightarrow> wsi_system \<Rightarrow> bool" for e where
  paired_start: "wsi_start e w \<Longrightarrow> wsi_paired e w"
| paired_step: "wsi_paired e w \<Longrightarrow> wsi_step w w' \<Longrightarrow> ppc w' = PIdle \<Longrightarrow> wsi_paired e w'"

definition app_blocked :: "app_pc \<Rightarrow> wsi_swapchain \<Rightarrow> bool" where
  "app_blocked pc s = (case pc of AAcquire \<Rightarrow> \<not> acquire_ready s
     | ASource i fam \<Rightarrow> fam \<noteq> sourceFamily s \<and> submitCount s \<noteq> processedSourceCount s | _ \<Rightarrow> False)"

definition wake_inv :: "wsi_system \<Rightarrow> bool" where
  "wake_inv w \<longleftrightarrow> Waiter \<notin> asleep w \<and> (Worker \<in> asleep w \<longrightarrow> wpc w = WLoop \<and> \<not> worker_ready (ws w))
     \<and> (App \<in> asleep w \<longrightarrow> app_blocked (apc w) (ws w))"

text \<open>A result that wakes nobody changes nothing.\<close>

lemma marked_quiet: "markResult r s = (x, s', k) \<Longrightarrow> s' = s \<and> k = WakeNone \<or> k = WakeAll"
  by (auto simp: markResult_def Let_def vk_result_defs split: if_splits)

lemma wakes_all: "wakes WakeAll a z \<Longrightarrow> z = {}"
  by (simp add: wakes_def)

lemma wakes_less: "wakes k a z \<Longrightarrow> z \<subseteq> a"
  by (auto simp: wakes_def split: wsi_wake.splits)

lemma wakes_single: "wakes WakeOne a z \<Longrightarrow> a \<subseteq> {t} \<Longrightarrow> z = {}"
  by (auto simp: wakes_def)

lemma wake_inv_empty [simp]: "asleep w = {} \<Longrightarrow> wake_inv w"
  by (simp add: wake_inv_def)

lemma sleepers_worker:
  assumes "wake_inv w" "wpc w \<noteq> WLoop"
  shows "asleep w \<subseteq> {App}"
  using assms thread.exhaust unfolding wake_inv_def by blast

lemma sleepers_app:
  assumes "wake_inv w" "\<not> app_blocked (apc w) (ws w)"
  shows "asleep w \<subseteq> {Worker}"
  using assms thread.exhaust unfolding wake_inv_def by blast

lemma marked_error: "r < 0 \<Longrightarrow> markResult r s = (x, s', k) \<Longrightarrow> k = WakeAll"
  by (auto simp: markResult_def Let_def vk_result_defs split: if_splits)

lemma marked_lost: "markResult VK_ERROR_DEVICE_LOST s = (x, s', k) \<Longrightarrow> k = WakeAll"
  using marked_error[of VK_ERROR_DEVICE_LOST] by (simp add: VK_ERROR_DEVICE_LOST_def)

lemma lost_wakes: "lose_device s = (ok, s', k) \<Longrightarrow> k = WakeAll"
  by (cases "markResult VK_ERROR_DEVICE_LOST s") (auto simp: lose_device_def dest: marked_lost)

lemma worker_wakes:
  "worker_source a b s = (ok, s', k) \<Longrightarrow> k = WakeOne \<or> k = WakeAll"
  "worker_sink a b c s = (ok, s', k) \<Longrightarrow> s' = s \<and> k = WakeNone \<or> k = WakeAll"
  "worker_present r wk s = (ok, s', k) \<Longrightarrow> s' = s \<and> k = WakeNone \<or> k = WakeAll"
  by (auto simp: worker_source_def worker_sink_def worker_present_def Let_def
      split: if_splits prod.splits dest: marked_quiet lost_wakes)

lemma pump_wakes:
  assumes "pumpAcquireSinkImage e s = Some (r, s', k)"
  shows "s' = s \<and> k = WakeNone \<or> k = WakeOne \<or> k = WakeAll"
proof (cases "pump_fence e s")
  case None
  with assms show ?thesis by (auto simp: pumpAcquireSinkImage_def dest: marked_quiet)
next
  case (Some x)
  with assms show ?thesis
    by (cases x, cases "pe_acquire e")
      (auto simp: pumpAcquireSinkImage_def Option.bind_eq_Some_conv Let_def not_le
        split: if_splits prod.splits dest: marked_error marked_lost)
qed

lemma signal_wakes:
  "acquire_signal sem fence i s = (r, f, s', k) \<Longrightarrow> k = WakeAll \<or> k = WakeNone \<and> workQueue s' = workQueue s \<and> swapchainStatus s' = swapchainStatus s"
  by (auto simp: acquire_signal_def split: option.splits prod.splits fate.splits dest!: marked_quiet)

lemma queue_wakes: "queuePresent cmds sub fen i = (r, s', k) \<Longrightarrow> k = WakeOne \<or> k = WakeAll"
  by (auto simp: queuePresent_def wake_both_def Let_def split: if_splits prod.splits dest: marked_error)

lemma release_status:
  "releaseSwapchainImages qs [(i, created, sig)] s = Some (r, s') \<Longrightarrow> swapchainStatus s' = swapchainStatus s \<and> workQueue s' = workQueue s"
  by (cases "load (images s) i"; cases "createExportableSignalledSemaphore qs created sig") (auto simp: Let_def split: if_splits)

lemma wake_inv_step:
  assumes "wsi_step w w'" "wake_inv w" "ppc w = PIdle" "ppc w' = PIdle"
  shows "wake_inv w'"
  using assms(1)
proof cases
  case (worker_takes x s)
  then have "app_blocked (apc w) s = app_blocked (apc w) (ws w)"
    by (auto simp: worker_take_def app_blocked_def acquire_ready_def split: if_splits app_pc.splits)
  with worker_takes assms(2) show ?thesis by (auto simp: wake_inv_def)
next
  case (worker_sources wk a b ok s k z)
  have "z = {}" using worker_wakes(1)[OF worker_sources(3)] sleepers_worker[OF assms(2)] worker_sources(2,4)
    wakes_all[of "asleep w" z] wakes_single[of "asleep w" z App] by auto
  with worker_sources show ?thesis by simp
next
  case (worker_sinks wk a b c ok s k z)
  have "z = {} \<or> s = ws w" using worker_wakes(2)[OF worker_sinks(3)] worker_sinks(4) wakes_all[of "asleep w" z] by auto
  with worker_sinks assms(2) sleepers_worker[OF assms(2)] wakes_less[OF worker_sinks(4)] show ?thesis by (auto simp: wake_inv_def)
next
  case (worker_presents wk r ok s k z)
  have "z = {} \<or> s = ws w" using worker_wakes(3)[OF worker_presents(3)] worker_presents(4) wakes_all[of "asleep w" z] by auto
  with worker_presents assms(2) sleepers_worker[OF assms(2)] wakes_less[OF worker_presents(4)] show ?thesis by (auto simp: wake_inv_def)
next
  case (worker_pumps e ok s k z)
  then obtain r where p: "pumpAcquireSinkImage e (ws w) = Some (r, s, k)"
    by (auto simp: worker_pump_def Option.bind_eq_Some_conv)
  have "z = {} \<or> s = ws w" using pump_wakes[OF p] sleepers_worker[OF assms(2)] worker_pumps(2,5)
    wakes_all[of "asleep w" z] wakes_single[of "asleep w" z App] by auto
  with worker_pumps assms(2) sleepers_worker[OF assms(2)] wakes_less[OF worker_pumps(5)] show ?thesis by (auto simp: wake_inv_def)
next
  case (app_takes x s)
  then have "worker_ready s = worker_ready (ws w)" by (auto simp: acquire_take_def worker_ready_def split: if_splits)
  with app_takes assms(2) show ?thesis by (auto simp: wake_inv_def)
next
  case (app_signals i sem fence r f s k z)
  have a: "asleep w \<subseteq> {Worker}" using sleepers_app[OF assms(2)] app_signals(2) by (simp add: app_blocked_def)
  from signal_wakes[OF app_signals(3)] show ?thesis
  proof
    assume "k = WakeAll"
    with app_signals wakes_all show ?thesis by simp
  next
    assume "k = WakeNone \<and> workQueue s = workQueue (ws w) \<and> swapchainStatus s = swapchainStatus (ws w)"
    then have "worker_ready s = worker_ready (ws w)" by (simp add: worker_ready_def)
    with app_signals(1) a assms(2) wakes_less[OF app_signals(4)] show ?thesis by (auto simp: wake_inv_def)
  qed
next
  case (app_presents i fam pid m)
  have "worker_ready (prepare_present pid m (ws w)) = worker_ready (ws w)"
    by (simp add: worker_ready_def prepare_present_def setPresentId_def setPresentMode_def Let_def split: option.splits)
  with app_presents assms(2) show ?thesis by (auto simp: wake_inv_def app_blocked_def)
next
  case (app_queues i fam pool rs cmds sub fen r s k ok z)
  have "z = {}" using queue_wakes[OF app_queues(5)] assms(2) app_queues(3,7) wakes_all wakes_single[of "asleep w" z Worker] thread.exhaust
    unfolding wake_inv_def by blast
  with app_queues show ?thesis by simp
next
  case (app_releases i qs created sig r s)
  have "worker_ready s = worker_ready (ws w)" using release_status[OF app_releases(4)] by (simp add: worker_ready_def)
  with app_releases(1,2) assms(2) show ?thesis by (auto simp: wake_inv_def app_blocked_def)
next
  case (app_retires s k z)
  then show ?thesis using wakes_all by (auto simp: retire_status_def)
next
  case (app_source_sleep i fam pool rs)
  with assms(2) show ?thesis by (auto simp: wake_inv_def app_blocked_def initSourceCommands_def Let_def split: if_splits)
qed (use assms(2-4) in \<open>auto simp: wake_inv_def app_blocked_def\<close>)

text \<open>
  C14. No wake-up is lost between an application thread and the worker: as long as no thread waits in \<open>waitForPresent\<close>,
  the worker never sleeps while a frame is queued or an error is set, and the application never sleeps in \<open>acquire\<close>
  while an image is queued or an error is set, nor in \<open>initSourceCommands\<close> once the worker has processed all source work.
\<close>

theorem no_wakeup_lost:
  assumes "wsi_paired e w"
  shows "(Worker \<in> asleep w \<longrightarrow> workQueue (ws w) = [] \<and> 0 \<le> swapchainStatus (ws w))
    \<and> (App \<in> asleep w \<longrightarrow> apc w = AAcquire \<and> acquireQueue (ws w) = [] \<and> 0 \<le> swapchainStatus (ws w)
       \<or> (\<exists>i fam. apc w = ASource i fam \<and> submitCount (ws w) \<noteq> processedSourceCount (ws w)))"
proof -
  have "wake_inv w \<and> ppc w = PIdle" using assms
  proof (induction rule: wsi_paired.induct)
    case (paired_start w)
    then show ?case by (simp add: wsi_start_def)
  next
    case (paired_step w w')
    then show ?case using wake_inv_step by blast
  qed
  then show ?thesis
    by (cases "apc w") (auto simp: wake_inv_def worker_ready_def acquire_ready_def app_blocked_def)
qed

theorem no_wakeup_lost_witness:
  "\<exists>w :: wsi_system. wsi_paired (demo_env 2) w \<and> Worker \<in> asleep w \<and> workQueue (ws w) = [] \<and> 0 \<le> swapchainStatus (ws w)"
proof -
  let ?w = "demo_system (demo_swapchain 2)"
  have "wsi_start (demo_env 2) ?w" using demo_init(2) by (auto simp: wsi_start_def demo_system_def demo_fields2)
  then have p: "wsi_paired (demo_env 2) (?w\<lparr>asleep := insert Worker (asleep ?w)\<rparr>)"
    by (intro wsi_paired.paired_step[OF wsi_paired.paired_start wsi_step.worker_sleep]) (simp_all add: demo_simps demo_fields2)
  from no_wakeup_lost[OF p] p show ?thesis by (intro exI[of _ "?w\<lparr>asleep := insert Worker (asleep ?w)\<rparr>"]) simp
qed

section \<open>A wait that ignores the status\<close>

definition stuck :: "nat \<Rightarrow> u32 \<Rightarrow> wsi_system \<Rightarrow> bool" where
  "stuck i fam w \<longleftrightarrow> wpc w = WGone \<and> apc w = ASource i fam \<and> fam \<noteq> sourceFamily (ws w) \<and> submitCount (ws w) \<noteq> processedSourceCount (ws w)"

lemma marked_source:
  "markResult r s = (x, s', k) \<Longrightarrow> sourceFamily s' = sourceFamily s \<and> submitCount s' = submitCount s \<and> processedSourceCount s' = processedSourceCount s"
  by (auto simp: markResult_def Let_def split: if_splits)

lemma stuck_step:
  assumes "wsi_step w w'" "stuck i fam w"
  shows "stuck i fam w'"
  using assms(1)
proof cases
  case (waiter_returns pid sink t el r s k z)
  then have "sourceFamily s = sourceFamily (ws w)" "submitCount s = submitCount (ws w)" "processedSourceCount s = processedSourceCount (ws w)"
    by (auto simp: waitForPresent_def split: option.splits if_splits dest: marked_source)
  with waiter_returns(1) assms(2) show ?thesis by (simp add: stuck_def)
qed (use assms(2) in \<open>auto simp: stuck_def initSourceCommands_def\<close>)

lemma stuck_for_ever: "wsi_step\<^sup>*\<^sup>* w w' \<Longrightarrow> stuck i fam w \<Longrightarrow> stuck i fam w'"
  by (induction rule: rtranclp_induct) (blast intro: stuck_step)+

lemma stuck_trace:
  assumes s: "acquireQueue s = [0, 1]" "workQueue s = []" "swapchainStatus s = 0" "submitCount s = 0" "processedSourceCount s = 0"
    and r: "wsi_reachable e (demo_system s)"
  shows "\<exists>w. wsi_reachable e w \<and> stuck 1 1 w"
proof -
  note S = s demo_simps
  let ?w = "demo_system s"
  from acquire_run[OF r, of 0 "[1]"]
  have "wsi_reachable e (?w\<lparr>ws := s\<lparr>acquireQueue := [1]\<rparr>, held := {#0#}\<rparr>)" by (simp add: S)
  from acquire_run[OF this, of 1 "[]"]
  have w1: "wsi_reachable e (?w\<lparr>ws := s\<lparr>acquireQueue := []\<rparr>, held := {#1, 0#}\<rparr>)" by (simp add: S)
  obtain s' h where w2: "wsi_reachable e (?w\<lparr>ws := s', held := {#1#}, submitted := h\<rparr>)"
    and s': "sourceFamily s' = 0" "submitCount s' = 1" "processedSourceCount s' = 0"
    by (rule present_run[OF w1, of 0 "{}" 0]) (auto simp: S wakes_def)
  let ?s = "s'\<lparr>swapchainStatus := VK_ERROR_OUT_OF_DATE_KHR\<rparr>"
  from wsi_reachable.step[OF w2 wsi_step.app_retires[of _ ?s WakeAll "{}"]]
  have w3: "wsi_reachable e (?w\<lparr>ws := ?s, held := {#1#}, submitted := h\<rparr>)" by (simp add: S retire_status_def wakes_def)
  have "worker_take ?s = (None, ?s)" "worker_ready ?s" by (simp_all add: worker_take_def worker_ready_def vk_result_defs)
  with wsi_reachable.step[OF w3 wsi_step.worker_takes[of _ None ?s]]
  have w4: "wsi_reachable e (?w\<lparr>ws := ?s, wpc := WGone, held := {#1#}, submitted := h\<rparr>)" by (simp add: demo_system_def)
  from wsi_reachable.step[OF w4 wsi_step.app_presents[where i = 1 and pid = None and m = None and fam = 1]]
  have "wsi_reachable e (?w\<lparr>ws := ?s, wpc := WGone, apc := ASource 1 1, held := {#}, submitted := h\<rparr>)"
    by (simp add: demo_system_def prepare_present_def)
  then show ?thesis by (intro exI conjI, assumption) (simp add: stuck_def s')
qed

text \<open>
  C35. A present can hang for ever: in a reachable state (a frame was presented on one queue family and the swapchain was
  retired before the worker took it) an application thread that presents on another queue family waits in
  \<open>initSourceCommands\<close>, and no continuation whatever lets it go on, since that wait does not look at the status and
  the worker has ended.
\<close>

theorem family_change_hangs:
  "\<exists>e w. wsi_reachable e w \<and> {w'. wsi_step\<^sup>*\<^sup>* w w'} \<subseteq> {w'. apc w' = ASource 1 1}"
proof -
  have "distinct (acquireQueue (demo_swapchain 1))" unfolding demo_fields1 by simp
  then obtain w where "wsi_reachable (demo_env 1) w" "stuck 1 1 w"
    using stuck_trace[OF demo_fields1(1-3,5,6) demo_started[OF demo_init(1)]] by blast
  then show ?thesis using stuck_for_ever by (fastforce simp: stuck_def)
qed

end
