(* ===== verification/Latency_Layer.thy ===== *)
theory Latency_Layer
  imports Complex_Main Cross_Wsi
begin

text \<open>
  The latency measurement layer (\<open>latency-measurement-layer/latency_measurement_layer.cpp\<close>): it copies a part of every
  presented image, a worker thread looks for the frame in which a synthetic input becomes visible, and the timing that
  the driver reports for this frame goes to a file.  This theory has its operations; \<open>Latency_Threads\<close> runs them on
  the threads of the layer.

  Environment.  As in \<open>Cross_Wsi\<close> the results of Vulkan calls are arguments.  Debug output, the recording of commands and
  the input devices are left out.  The mean square error is a quotient of integers: the sums are exact in a
  \<open>double\<close> (fewer than \<open>2 ^ 14\<close> pixels), and the quotients are compared only with quotients that differ from them by much more than
  rounding can.
\<close>

section \<open>Extensions and formats\<close>

definition lm_blockedExtensions :: "string list" where
  "lm_blockedExtensions = [''VK_GOOGLE_display_timing'', ''VK_KHR_present_id'', ''VK_KHR_present_wait'', ''VK_EXT_present_timing'']"

definition lm_device_extensions :: "string option \<Rightarrow> string list \<Rightarrow> nat option \<Rightarrow> vk_result \<times> nat \<times> string list" where
  "lm_device_extensions layer props capacity =
     (if (case layer of None \<Rightarrow> False | Some l \<Rightarrow> strstr l ''VK_LAYER_pyrofling_latency_measurement'') then (VK_SUCCESS, 0, [])
      else fill_array capacity (filter (\<lambda>p. \<not> findExtension lm_blockedExtensions p) props))"

definition VK_FORMAT_A2B10G10R10_UNORM_PACK32 :: u32 where "VK_FORMAT_A2B10G10R10_UNORM_PACK32 = 64"
definition VK_ERROR_UNKNOWN :: vk_result where "VK_ERROR_UNKNOWN = -13"

text \<open>The format and the colour space.\<close>

definition isSupportedFormat :: "u32 \<times> u32 \<Rightarrow> bool" where
  "isSupportedFormat f \<longleftrightarrow> snd f \<in> {0, 1000104008} \<and> fst f \<in> {44, 50, 37, 43, VK_FORMAT_A2B10G10R10_UNORM_PACK32}"

definition surface_formats :: "nat option \<Rightarrow> (u32 \<times> u32) list \<Rightarrow> vk_result \<times> nat \<times> (u32 \<times> u32) list" where
  "surface_formats capacity formats = fill_array capacity (filter isSupportedFormat formats)"

text \<open>The second version; \<open>chained\<close>: whether an element of the caller's array has an extension structure.\<close>

definition surface_formats2 ::
  "(nat \<Rightarrow> bool) \<Rightarrow> nat option \<Rightarrow> (u32 \<times> u32) list \<Rightarrow> vk_result \<times> nat \<times> (u32 \<times> u32) list" where
  "surface_formats2 chained capacity formats =
     (let (res, n, fs) = surface_formats capacity formats in
      if capacity \<noteq> None \<and> list_ex chained [0..<n] then (VK_ERROR_UNKNOWN, n, []) else (res, n, fs))"

definition lm_surface_support :: "u32 list \<Rightarrow> u32 \<Rightarrow> bool option" where
  "lm_surface_support props family =
     (if length props \<le> unat family \<or> props ! unat family AND (VK_QUEUE_GRAPHICS_BIT OR VK_QUEUE_COMPUTE_BIT) = 0 then Some False else None)"

text \<open>
  The extensions and features with which the device is created: \<open>chained\<close> is what the application asks for, \<open>queried\<close>
  what the device has, for present timing and present ids.
\<close>

definition lm_create_device ::
  "string list \<Rightarrow> string list \<Rightarrow> bool option \<times> bool option \<Rightarrow> bool \<times> bool \<Rightarrow> string list \<times> bool \<times> bool" where
  "lm_create_device supported enabled chained queried =
     (if findExtension enabled ''VK_KHR_swapchain'' then
        let xs = snd (addUniqueExtension supported enabled ''VK_KHR_calibrated_timestamps'');
            (timing, xs) = addUniqueExtension supported xs ''VK_EXT_present_timing'';
            (id2, xs) = addUniqueExtension supported xs ''VK_KHR_present_id2''
        in (xs, timing \<and> (case fst chained of Some b \<Rightarrow> b | None \<Rightarrow> fst queried),
            id2 \<and> (case snd chained of Some b \<Rightarrow> b | None \<Rightarrow> snd queried))
      else (enabled, False, False))"

section \<open>Registered swapchains\<close>

definition getSwapchain :: "vk_handle \<Rightarrow> (vk_handle \<times> 'a) list \<Rightarrow> 'a option" where
  "getSwapchain h swaps = map_option snd (List.find (\<lambda>p. fst p = h) swaps)"

definition registerSwapchain :: "vk_handle \<Rightarrow> 'a \<Rightarrow> (vk_handle \<times> 'a) list \<Rightarrow> (vk_handle \<times> 'a) list" where
  "registerSwapchain h swap swaps = swaps @ [(h, swap)]"

fun unregisterSwapchain :: "vk_handle \<Rightarrow> (vk_handle \<times> 'a) list \<Rightarrow> (vk_handle \<times> 'a) list" where
  "unregisterSwapchain h [] = []"
| "unregisterSwapchain h (p # ps) = (if fst p = h then ps else p # unregisterSwapchain h ps)"

section \<open>Pixels\<close>

text \<open>A colour component: \<open>bits\<close> wide, the \<open>k\<close>-th from below.\<close>

definition channel :: "nat \<Rightarrow> nat \<Rightarrow> u32 \<Rightarrow> int" where
  "channel bits k p = uint (drop_bit (k * bits) p AND mask bits)"

definition square_error :: "nat \<Rightarrow> u32 \<Rightarrow> u32 \<Rightarrow> int" where
  "square_error bits a b = sum_list (map (\<lambda>k. (channel bits k a - channel bits k b)\<^sup>2) [0..<3])"

definition mean_square_error :: "nat \<Rightarrow> u32 list \<Rightarrow> u32 list \<Rightarrow> nat \<Rightarrow> rat" where
  "mean_square_error bits a b count = of_int (sum_list (map (\<lambda>i. square_error bits (a ! i) (b ! i)) [0..<count])) / of_nat (3 * count)"

definition computeMSE8 :: "u32 list \<Rightarrow> u32 list \<Rightarrow> nat \<Rightarrow> rat" where
  "computeMSE8 = mean_square_error 8"

definition computeMSE10 :: "u32 list \<Rightarrow> u32 list \<Rightarrow> nat \<Rightarrow> rat" where
  "computeMSE10 = mean_square_error 10"

text \<open>The difference that is shown on the screen, ten times enlarged and limited.\<close>

definition error_channel :: "nat \<Rightarrow> int \<Rightarrow> nat \<Rightarrow> u32 \<Rightarrow> u32 \<Rightarrow> int" where
  "error_channel bits limit k a b = min (\<bar>channel bits k a - channel bits k b\<bar> * 10) limit"

definition error_pixel :: "nat \<Rightarrow> int \<Rightarrow> u32 \<Rightarrow> u32 \<Rightarrow> u32" where
  "error_pixel bits limit a b = word_of_int (error_channel bits limit 0 a b) OR push_bit bits (word_of_int (error_channel bits limit 1 a b))
     OR push_bit (2 * bits) (word_of_int (error_channel bits limit 2 a b))"

definition copyErrorSignalRGB10 :: "u32 list \<Rightarrow> u32 list \<Rightarrow> nat \<Rightarrow> u32 list" where
  "copyErrorSignalRGB10 as bs count = map (\<lambda>i. error_pixel 10 700 (as ! i) (bs ! i)) [0..<count]"

definition copyErrorSignalRGBA8 :: "u32 list \<Rightarrow> u32 list \<Rightarrow> nat \<Rightarrow> u32 list" where
  "copyErrorSignalRGBA8 as bs count = map (\<lambda>i. error_pixel 8 255 (as ! i) (bs ! i)) [0..<count]"

section \<open>The swapchain\<close>

record feedback_entry =
  fe_presentId :: u64
  fe_submitted :: u64
  fe_queueDone :: u64
  fe_presentDone :: u64
  fe_presentStage :: u32

datatype lm_work = WaitGPUWork u64 nat | HandleFeedback feedback_entry

text \<open>\<open>mapped\<close>: the pixels that were copied from the image, followed by those that are shown in it.\<close>

record lm_image =
  lm_vk_image :: vk_handle
  mapped :: "u32 list"
  lm_fence :: vk_handle
  busy :: bool

definition FeedbackQueueSize :: nat where "FeedbackQueueSize = 64"

record lm_swapchain =
  lm_images :: "lm_image list"
  lm_workQueue :: "lm_work list"
  lm_status :: vk_result
  cmdPool :: vk_handle
  cmdFamily :: u32
  lm_width :: u32
  lm_height :: u32
  representativeWidth :: u32
  representativeHeight :: u32
  lm_format :: u32
  presentTiming :: bool
  supportedStages :: u32
  lastCandidateFrameId :: u64
  lastStimulusTime :: u64
  timeDomainId :: u64
  timeDomain :: u32
  feedbackQueue :: "feedback_entry list"
  feedbackQueueSize :: nat
  internalPresentId :: u64
  latencyReport :: "(u64 \<times> feedback_entry) list option"

definition pixel_count :: "lm_swapchain \<Rightarrow> nat" where
  "pixel_count s = unat (representativeWidth s * representativeHeight s)"

text \<open>A new swapchain; the array of the feedback queue is not initialised.\<close>

definition lm_swapchain_new :: "feedback_entry list \<Rightarrow> bool \<Rightarrow> u32 \<Rightarrow> lm_swapchain" where
  "lm_swapchain_new garbage timing stages = \<lparr>lm_images = [], lm_workQueue = [], lm_status = VK_SUCCESS, cmdPool = 0,
     cmdFamily = VK_QUEUE_FAMILY_IGNORED, lm_width = 0, lm_height = 0, representativeWidth = 0, representativeHeight = 0, lm_format = 0,
     presentTiming = timing, supportedStages = stages, lastCandidateFrameId = 0, lastStimulusTime = 0, timeDomainId = 0, timeDomain = 0,
     feedbackQueue = garbage, feedbackQueueSize = 0, internalPresentId = 0, latencyReport = None\<rparr>"

subsection \<open>Creation\<close>

definition VK_PRESENT_STAGE_QUEUE_OPERATIONS_END_BIT_EXT :: u32 where "VK_PRESENT_STAGE_QUEUE_OPERATIONS_END_BIT_EXT = 1"
definition VK_PRESENT_STAGE_REQUEST_DEQUEUED_BIT_EXT :: u32 where "VK_PRESENT_STAGE_REQUEST_DEQUEUED_BIT_EXT = 2"
definition VK_PRESENT_STAGE_IMAGE_FIRST_PIXEL_OUT_BIT_EXT :: u32 where "VK_PRESENT_STAGE_IMAGE_FIRST_PIXEL_OUT_BIT_EXT = 4"
definition VK_PRESENT_STAGE_IMAGE_FIRST_PIXEL_VISIBLE_BIT_EXT :: u32 where "VK_PRESENT_STAGE_IMAGE_FIRST_PIXEL_VISIBLE_BIT_EXT = 8"
definition VK_TIME_DOMAIN_PRESENT_STAGE_LOCAL_EXT :: u32 where "VK_TIME_DOMAIN_PRESENT_STAGE_LOCAL_EXT = 1000208000"

definition visible_stages :: u32 where
  "visible_stages = VK_PRESENT_STAGE_REQUEST_DEQUEUED_BIT_EXT OR VK_PRESENT_STAGE_IMAGE_FIRST_PIXEL_OUT_BIT_EXT
     OR VK_PRESENT_STAGE_IMAGE_FIRST_PIXEL_VISIBLE_BIT_EXT"

text \<open>Whether a surface has the stages that are measured.\<close>

definition timing_usable :: "bool \<Rightarrow> u32 \<Rightarrow> bool" where
  "timing_usable supported stages \<longleftrightarrow> supported \<and> stages AND VK_PRESENT_STAGE_QUEUE_OPERATIONS_END_BIT_EXT \<noteq> 0 \<and> stages AND visible_stages \<noteq> 0"

text \<open>Results of creating a buffer, of allocating, binding and mapping its memory, and of creating a fence.\<close>

record lm_image_env =
  le_buffer :: vk_result
  le_memory_bits :: u32
  le_allocate :: vk_result
  le_bind :: vk_result
  le_map :: "vk_result \<times> u32 list"
  le_fence :: "vk_result \<times> vk_handle"

definition host_memory_type :: "u32 \<Rightarrow> u32 list \<Rightarrow> nat option" where
  "host_memory_type bits types = List.find (\<lambda>i. types ! i AND (2 OR 8 OR 4) = 2 OR 8 OR 4 \<and> bit bits i) [0..<length types]"

definition lm_setupSwapchainImage :: "lm_image_env \<Rightarrow> u32 list \<Rightarrow> vk_handle \<Rightarrow> lm_image \<Rightarrow> vk_result \<times> lm_image" where
  "lm_setupSwapchainImage e types vk_image img =
     (let img = img\<lparr>lm_vk_image := vk_image\<rparr> in
      if le_buffer e \<noteq> VK_SUCCESS then (le_buffer e, img)
      else if host_memory_type (le_memory_bits e) types = None then (VK_ERROR_OUT_OF_DEVICE_MEMORY, img)
      else if le_allocate e \<noteq> VK_SUCCESS \<or> le_bind e \<noteq> VK_SUCCESS \<or> fst (le_map e) \<noteq> VK_SUCCESS then (VK_ERROR_OUT_OF_DEVICE_MEMORY, img)
      else let img = img\<lparr>mapped := snd (le_map e)\<rparr> in
      if fst (le_fence e) \<noteq> VK_SUCCESS then (fst (le_fence e), img)
      else (VK_SUCCESS, img\<lparr>lm_fence := snd (le_fence e)\<rparr>))"

primrec lm_setup_images :: "(lm_image_env \<times> vk_handle) list \<Rightarrow> u32 list \<Rightarrow> lm_image list \<Rightarrow> vk_result \<times> lm_image list" where
  "lm_setup_images [] types imgs = (VK_SUCCESS, imgs)"
| "lm_setup_images (x # xs) types imgs =
     (let (res, img) = lm_setupSwapchainImage (fst x) types (snd x) \<lparr>lm_vk_image = 0, mapped = [], lm_fence = 0, busy = False\<rparr>
      in if res \<noteq> VK_SUCCESS then (res, imgs @ [img]) else lm_setup_images xs types (imgs @ [img]))"

text \<open>
  The time domain of the presentation engine (\<open>domains\<close>: domains with their ids, if the query succeeds) and the size of
  the timing queue; without them there is no timing.
\<close>

definition choose_domain :: "(u32 \<times> u64) list option \<Rightarrow> vk_result \<Rightarrow> lm_swapchain \<Rightarrow> lm_swapchain" where
  "choose_domain domains sized s =
     (if \<not> presentTiming s then s
      else case domains of None \<Rightarrow> s\<lparr>presentTiming := False\<rparr>
      | Some ds \<Rightarrow>
          (case List.find (\<lambda>d. fst d = VK_TIME_DOMAIN_PRESENT_STAGE_LOCAL_EXT) ds of
             None \<Rightarrow> s\<lparr>presentTiming := False\<rparr>
           | Some d \<Rightarrow> s\<lparr>timeDomainId := snd d, timeDomain := fst d, presentTiming := (sized = VK_SUCCESS)\<rparr>))"

definition lm_init ::
  "u32 \<Rightarrow> u32 \<Rightarrow> u32 \<Rightarrow> (lm_image_env \<times> vk_handle) list \<Rightarrow> u32 list \<Rightarrow> (u32 \<times> u64) list option \<Rightarrow> vk_result
   \<Rightarrow> lm_swapchain \<Rightarrow> vk_result \<times> lm_swapchain" where
  "lm_init w h fmt imgs types domains sized s =
     (let s = s\<lparr>lm_width := w, lm_height := h, lm_format := fmt, representativeWidth := min w 128, representativeHeight := min h 128\<rparr>;
          (res, is) = lm_setup_images imgs types [];
          s = s\<lparr>lm_images := is\<rparr>
      in if res \<noteq> VK_SUCCESS then (res, s) else (VK_SUCCESS, choose_domain domains sized s))"

text \<open>The rectangle of the image that is copied: its offset, in signed 32-bit arithmetic, and its extent.\<close>

definition half_int :: "int \<Rightarrow> int" where
  "half_int d = (if 0 \<le> d then d div 2 else - ((- d) div 2))"

definition capture_rect :: "lm_swapchain \<Rightarrow> (int \<times> int) \<times> u32 \<times> u32" where
  "capture_rect s =
     ((half_int (sint (lm_width s - representativeWidth s)), half_int (sint (lm_height s - representativeHeight s))),
      representativeWidth s, representativeHeight s)"

text \<open>\<open>None\<close>: the caller waits until no image is busy.\<close>

definition lm_initSourceCommands ::
  "u32 \<Rightarrow> vk_handle \<Rightarrow> (vk_result \<times> vk_result) list \<Rightarrow> lm_swapchain \<Rightarrow> (vk_result \<times> lm_swapchain) option" where
  "lm_initSourceCommands family created rs s =
     (if family \<noteq> cmdFamily s \<and> list_ex busy (lm_images s) then None
      else if family = cmdFamily s \<and> cmdPool s \<noteq> 0 then Some (VK_SUCCESS, s)
      else let s = s\<lparr>cmdPool := created, cmdFamily := family\<rparr>
           in Some (if created = 0 then VK_ERROR_DEVICE_LOST else record_commands rs, s))"

subsection \<open>Feedback\<close>

text \<open>
  A timing that the driver reports, with the result of the calibration: the monotonic clock, and the clocks of the two
  stages, at the same moment.
\<close>

record past_timing =
  pt_presentId :: u64
  pt_timeDomain :: u32
  pt_timeDomainId :: u64
  pt_stages :: "(u32 \<times> u64) list"
  pt_calibrated :: "(u64 \<times> u64 \<times> u64) option"

definition scan_stages :: "(u32 \<times> u64) list \<Rightarrow> u64 \<times> u64 \<times> u32" where
  "scan_stages stages = fold (\<lambda>(stage, time) (queueDone, presentDone, presentStage).
     let queueDone = (if stage = VK_PRESENT_STAGE_QUEUE_OPERATIONS_END_BIT_EXT then time else queueDone)
     in if stage AND visible_stages \<noteq> 0 \<and> presentStage < stage then (queueDone, time, stage) else (queueDone, presentDone, presentStage))
     stages (0, 0, 0)"

definition calibrate :: "(u64 \<times> u64 \<times> u64) option \<Rightarrow> u64 \<times> u64 \<Rightarrow> u64 \<times> u64" where
  "calibrate stamps done =
     (let (queueDone, presentDone) = done in
      if presentDone \<noteq> 0 \<and> queueDone \<noteq> 0 then
        case stamps of
          Some (t0, t1, t2) \<Rightarrow> (t0 - (t1 - queueDone), t0 - (t2 - presentDone))
        | None \<Rightarrow> (0, 0)
      else done)"

definition reportCompleteEventLocked :: "feedback_entry \<Rightarrow> lm_swapchain \<Rightarrow> lm_swapchain" where
  "reportCompleteEventLocked e s = s\<lparr>lm_workQueue := lm_workQueue s @ [HandleFeedback e]\<rparr>"

text \<open>The entry with the id of the timing leaves the queue, whose last entry takes its place.\<close>

definition take_entry :: "u64 \<Rightarrow> lm_swapchain \<Rightarrow> (feedback_entry option \<times> lm_swapchain) outcome" where
  "take_entry k s =
     (case List.find (\<lambda>i. fe_presentId (feedbackQueue s ! i) = k) [0..<feedbackQueueSize s] of
        None \<Rightarrow> Some (None, s)
      | Some i \<Rightarrow> do {
          e \<leftarrow> load (feedbackQueue s) i;
          moved \<leftarrow> load (feedbackQueue s) (feedbackQueueSize s - 1);
          q \<leftarrow> store (feedbackQueue s) i moved;
          Some (Some e, s\<lparr>feedbackQueue := q, feedbackQueueSize := feedbackQueueSize s - 1\<rparr>) })"

text \<open>The second component says whether a thread is notified.\<close>

definition updateFeedback :: "past_timing \<Rightarrow> lm_swapchain \<Rightarrow> (lm_swapchain \<times> bool) outcome" where
  "updateFeedback t s = do {
     let s = s\<lparr>timeDomain := pt_timeDomain t, timeDomainId := pt_timeDomainId t\<rparr>;
     let (q, p, stage) = scan_stages (pt_stages t);
     let (queueDone, presentDone) = calibrate (pt_calibrated t) (q, p);
     (found, s) \<leftarrow> take_entry (pt_presentId t) s;
     Some (case found of
        None \<Rightarrow> (s, False)
      | Some e \<Rightarrow>
          if presentDone \<noteq> 0 \<and> queueDone \<noteq> 0
          then (reportCompleteEventLocked (e\<lparr>fe_queueDone := queueDone, fe_presentDone := presentDone, fe_presentStage := stage\<rparr>) s, True)
          else (s, False)) }"

fun update_all :: "past_timing list \<Rightarrow> lm_swapchain \<Rightarrow> (lm_swapchain \<times> bool) outcome" where
  "update_all [] s = Some (s, False)"
| "update_all (t # ts) s = do { (s, n) \<leftarrow> updateFeedback t s; (s, m) \<leftarrow> update_all ts s; Some (s, n \<or> m) }"

text \<open>\<open>timings\<close>: what the driver has, unless the call fails.\<close>

definition pollFeedback :: "past_timing list option \<Rightarrow> lm_swapchain \<Rightarrow> (lm_swapchain \<times> bool) outcome" where
  "pollFeedback timings s =
     (if \<not> presentTiming s then Some (s, False)
      else case timings of None \<Rightarrow> Some (s, False) | Some ts \<Rightarrow> update_all ts s)"

subsection \<open>Presenting\<close>

definition lm_forwards :: "nat \<Rightarrow> lm_swapchain \<Rightarrow> bool" where
  "lm_forwards swapchainCount s \<longleftrightarrow> swapchainCount \<noteq> 1 \<or> \<not> presentTiming s"

text \<open>
  Until the copy of the image is submitted: feedback, the wait semaphores, and the present id, the one of the application
  if it has one.
\<close>

definition present_begin ::
  "past_timing list option \<Rightarrow> vk_result list \<Rightarrow> u64 option \<Rightarrow> lm_swapchain \<Rightarrow> ((vk_result + u64) \<times> lm_swapchain \<times> bool) outcome" where
  "present_begin timings waits ids s = do {
     (s, n) \<leftarrow> pollFeedback timings s;
     let res = wait_submissions waits;
     let given = (case ids of Some k \<Rightarrow> k | None \<Rightarrow> 0);
     Some (if res \<noteq> VK_SUCCESS then (Inl res, s, n)
           else if given = 0 then (Inr (internalPresentId s + 1), s\<lparr>internalPresentId := internalPresentId s + 1\<rparr>, n)
           else (Inr given, s\<lparr>internalPresentId := max (internalPresentId s) given\<rparr>, n)) }"

definition submit_ready :: "nat \<Rightarrow> lm_swapchain \<Rightarrow> bool" where
  "submit_ready i s \<longleftrightarrow> \<not> busy (lm_images s ! i) \<or> lm_status s < 0"

text \<open>After the wait: the status, the submission of the copy, and the work for the worker.\<close>

definition lm_submitSourceWork :: "vk_result \<Rightarrow> nat \<Rightarrow> u64 \<Rightarrow> lm_swapchain \<Rightarrow> vk_result \<times> lm_swapchain" where
  "lm_submitSourceWork submitted i k s =
     (if lm_status s < 0 then (lm_status s, s)
      else if submitted \<noteq> VK_SUCCESS then (submitted, s)
      else (VK_SUCCESS, s\<lparr>lm_images := (lm_images s)[i := (lm_images s ! i)\<lparr>busy := True\<rparr>], lm_workQueue := lm_workQueue s @ [WaitGPUWork k i]\<rparr>))"

text \<open>The entry for the feedback, if there is room; the second component says whether a timing is asked for.\<close>

definition register_feedback :: "u64 \<Rightarrow> u64 \<Rightarrow> lm_swapchain \<Rightarrow> (lm_swapchain \<times> bool) outcome" where
  "register_feedback k now s =
     (if feedbackQueueSize s < FeedbackQueueSize \<and> k \<noteq> 0 then do {
        q \<leftarrow> store (feedbackQueue s) (feedbackQueueSize s) \<lparr>fe_presentId = k, fe_submitted = now, fe_queueDone = 0, fe_presentDone = 0, fe_presentStage = 0\<rparr>;
        Some (s\<lparr>feedbackQueue := q, feedbackQueueSize := feedbackQueueSize s + 1\<rparr>, True) }
      else Some (s, False))"

text \<open>The semaphores are signalled again, and the image is presented.\<close>

definition present_end :: "vk_result list \<Rightarrow> vk_result \<Rightarrow> vk_result" where
  "present_end signals presented = (if wait_submissions signals \<noteq> VK_SUCCESS then wait_submissions signals else presented)"

subsection \<open>The worker\<close>

definition NumHistoryFrames :: nat where "NumHistoryFrames = 16"

text \<open>The variables of the worker; the pixels are not initialised.\<close>

record lm_worker =
  prev :: "u32 list"
  current :: "u32 list"
  mseHistory :: "rat list"
  numFeedbacksSinceDelta :: u64
  stimulusTime :: u64
  lastFeedbackId :: u64

definition lm_worker_new :: "u32 list \<Rightarrow> u32 list \<Rightarrow> lm_worker" where
  "lm_worker_new garbage garbage' = \<lparr>prev = garbage, current = garbage', mseHistory = replicate NumHistoryFrames 0,
     numFeedbacksSinceDelta = 0, stimulusTime = 0, lastFeedbackId = 0\<rparr>"

definition lm_worker_ready :: "lm_swapchain \<Rightarrow> bool" where
  "lm_worker_ready s \<longleftrightarrow> lm_workQueue s \<noteq> [] \<or> lm_status s < 0"

definition lm_worker_take :: "lm_swapchain \<Rightarrow> lm_work option \<times> lm_swapchain" where
  "lm_worker_take s =
     (if lm_status s < 0 then (None, s) else (Some (hd (lm_workQueue s)), s\<lparr>lm_workQueue := tl (lm_workQueue s)\<rparr>))"

text \<open>A finished copy: the pixels change places, the difference is shown, and the image is free again.\<close>

definition worker_frame :: "nat \<Rightarrow> lm_worker \<Rightarrow> lm_swapchain \<Rightarrow> (lm_worker \<times> lm_swapchain) outcome" where
  "worker_frame i w s = do {
     img \<leftarrow> load (lm_images s) i;
     let n = pixel_count s;
     guard (2 * n \<le> length (mapped img));
     let w = w\<lparr>prev := current w, current := take n (mapped img), mseHistory := tl (mseHistory w) @ [last (mseHistory w)]\<rparr>;
     let shown = (if lm_format s = VK_FORMAT_A2B10G10R10_UNORM_PACK32 then copyErrorSignalRGB10 else copyErrorSignalRGBA8) (current w) (prev w) n;
     let img = img\<lparr>mapped := take n (mapped img) @ shown @ drop (2 * n) (mapped img), busy := False\<rparr>;
     Some (w, s\<lparr>lm_images := (lm_images s)[i := img]\<rparr>) }"

text \<open>Then the frame is judged: it is a candidate if it differs much more from its predecessor than the frames before.\<close>

definition worker_judge :: "u64 \<Rightarrow> lm_worker \<Rightarrow> lm_swapchain \<Rightarrow> lm_worker \<times> lm_swapchain" where
  "worker_judge k w s =
     (let mse = (if lm_format s = VK_FORMAT_A2B10G10R10_UNORM_PACK32 then computeMSE10 else computeMSE8) (current w) (prev w) (pixel_count s);
          w = w\<lparr>mseHistory := (mseHistory w)[NumHistoryFrames - 1 := mse]\<rparr>;
          max_mse = fold max (take (NumHistoryFrames - 1) (mseHistory w)) 0
      in if 16 * max_mse < mse \<and> 1 / 4 < mse \<and> word_of_nat NumHistoryFrames < k \<and> lastCandidateFrameId s = 0
         then (w\<lparr>numFeedbacksSinceDelta := 0, stimulusTime := lastStimulusTime s\<rparr>, s\<lparr>lastCandidateFrameId := k\<rparr>)
         else (w, s))"

text \<open>Feedback: a line of the report for the first frame on the screen that is not older than the candidate.\<close>

definition worker_feedback :: "feedback_entry \<Rightarrow> lm_worker \<Rightarrow> lm_swapchain \<Rightarrow> lm_worker \<times> lm_swapchain" where
  "worker_feedback e w s =
     (let s = (if lastCandidateFrameId s \<le> fe_presentId e \<and> lastFeedbackId w < lastCandidateFrameId s \<and> stimulusTime w \<noteq> 0
               then s\<lparr>latencyReport := map_option (\<lambda>ls. ls @ [(stimulusTime w, e)]) (latencyReport s)\<rparr> else s);
          s = (if numFeedbacksSinceDelta w = 2 * word_of_nat NumHistoryFrames then s\<lparr>lastCandidateFrameId := 0, lastStimulusTime := 0\<rparr> else s)
      in (w\<lparr>numFeedbacksSinceDelta := numFeedbacksSinceDelta w + 1, lastFeedbackId := fe_presentId e\<rparr>, s))"

definition worker_exit :: "lm_swapchain \<Rightarrow> lm_swapchain" where
  "worker_exit s = s\<lparr>lm_status := VK_ERROR_DEVICE_LOST\<rparr>"

definition lm_destroy_status :: "lm_swapchain \<Rightarrow> lm_swapchain" where
  "lm_destroy_status s = s\<lparr>lm_status := VK_ERROR_SURFACE_LOST_KHR\<rparr>"

subsection \<open>The stimulus\<close>

datatype stimulus = Neutral | Active bool bool

text \<open>
  A round of the input thread: whether the trigger file exists, whether the report can be opened, two readings of the clock and
  random bits.  The result is what the input device gets, if anything, the variable \<open>lastInputWasActive\<close>, and
  \<open>None\<close> when the thread ends.  \<open>held\<close> is the input that is sent at the moment.
\<close>

definition stimulus_edge :: "u64 \<Rightarrow> int" where
  "stimulus_edge delta = sint (ucast (delta div (200 * 1000 * 1000)) :: u32)"

definition stimulus_round ::
  "bool \<Rightarrow> bool \<Rightarrow> u64 \<Rightarrow> u64 \<Rightarrow> bool \<times> bool \<Rightarrow> bool \<Rightarrow> stimulus \<Rightarrow> lm_swapchain \<Rightarrow> (stimulus \<times> bool \<times> lm_swapchain) option" where
  "stimulus_round trigger opens now later rng active held s =
     (if lm_status s < 0 then None
      else let active = (if lastStimulusTime s = 0 then False else active) in
      if \<not> trigger then Some (Neutral, active, s\<lparr>lastCandidateFrameId := 0, lastStimulusTime := 0, latencyReport := None\<rparr>)
      else let s = (if latencyReport s = None \<and> opens then s\<lparr>latencyReport := Some []\<rparr> else s) in
      if lastCandidateFrameId s = 0 then
        if stimulus_edge (now - lastStimulusTime s) mod 8 = 0 \<or> lastStimulusTime s = 0 then
          if active then Some (held, True, s)
          else Some (Active (fst rng) (snd rng), True, s\<lparr>lastStimulusTime := later\<rparr>)
        else Some (Neutral, False, s)
      else Some (Neutral, False, s))"

end
