(* ===== verification/Latency_Threads.thy ===== *)
theory Latency_Threads
  imports Latency_Layer "HOL-Library.Multiset"
begin

text \<open>
  What the latency measurement layer promises: its feedback queue is a bag of entries, an image is not copied again
  while a copy of it is pending, and a stimulus gives at most one line of the report.
\<close>

section \<open>The feedback queue\<close>

definition queue_ok :: "lm_swapchain \<Rightarrow> bool" where
  "queue_ok s \<longleftrightarrow> length (feedbackQueue s) = FeedbackQueueSize \<and> feedbackQueueSize s \<le> FeedbackQueueSize"

definition feedback_bag :: "lm_swapchain \<Rightarrow> feedback_entry multiset" where
  "feedback_bag s = mset (take (feedbackQueueSize s) (feedbackQueue s))"

lemma mset_remove_swap:
  assumes "i < n" "n \<le> length q"
  shows "mset (take n q) = add_mset (q ! i) (mset (take (n - 1) (q[i := q ! (n - 1)])))"
proof -
  obtain m where n: "n = Suc m" using assms(1) by (cases n) auto
  have t: "take n q = take m q @ [q ! m]" using assms(2) n take_Suc_conv_app_nth[of m q] by simp
  show ?thesis
  proof (cases "i = m")
    case True
    then show ?thesis using t n by simp
  next
    case False
    then have im: "i < m" using assms(1) n by simp
    then have "take m (q[i := q ! m]) = (take m q)[i := q ! m]" by (simp add: take_update_swap)
    moreover have "q ! i \<in># mset (take m q)" using im assms(2) n by (auto simp: in_set_conv_nth)
    ultimately show ?thesis using t n im assms(2)
      by (simp add: mset_update add_mset_commute)
  qed
qed

lemma take_entry_bag:
  assumes "queue_ok s"
  shows "\<exists>r s'. take_entry k s = Some (r, s') \<and> queue_ok s' \<and> lm_workQueue s' = lm_workQueue s \<and>
    (case r of None \<Rightarrow> k \<notin># image_mset fe_presentId (feedback_bag s) \<and> s' = s
     | Some e \<Rightarrow> fe_presentId e = k \<and> feedback_bag s = add_mset e (feedback_bag s'))"
proof (cases "List.find (\<lambda>i. fe_presentId (feedbackQueue s ! i) = k) [0..<feedbackQueueSize s]")
  case None
  then have "k \<notin> fe_presentId ` set (take (feedbackQueueSize s) (feedbackQueue s))"
    using assms by (fastforce simp: find_None_iff in_set_conv_nth queue_ok_def)
  with None assms show ?thesis by (simp add: take_entry_def feedback_bag_def)
next
  case (Some i)
  then have i: "i < feedbackQueueSize s" "fe_presentId (feedbackQueue s ! i) = k" by (auto simp: find_Some_iff)
  with Some assms mset_remove_swap[of i "feedbackQueueSize s" "feedbackQueue s"] show ?thesis
    by (auto simp: take_entry_def load_def store_def queue_ok_def feedback_bag_def)
qed

abbreviation fresh_entry :: "u64 \<Rightarrow> u64 \<Rightarrow> feedback_entry" where
  "fresh_entry k now \<equiv> \<lparr>fe_presentId = k, fe_submitted = now, fe_queueDone = 0, fe_presentDone = 0, fe_presentStage = 0\<rparr>"

lemma register_bag:
  assumes "queue_ok s"
  shows "\<exists>s' asked. register_feedback k now s = Some (s', asked) \<and> queue_ok s' \<and> (asked \<longleftrightarrow> size (feedback_bag s) < 64 \<and> k \<noteq> 0)
    \<and> feedback_bag s' = (if asked then add_mset (fresh_entry k now) (feedback_bag s) else feedback_bag s)"
proof -
  have "size (feedback_bag s) = feedbackQueueSize s" using assms by (simp add: feedback_bag_def queue_ok_def)
  then show ?thesis using assms
    by (auto simp: register_feedback_def store_def queue_ok_def feedback_bag_def FeedbackQueueSize_def take_Suc_conv_app_nth)
qed

text \<open>The times that a timing gives.\<close>

definition timing_done :: "past_timing \<Rightarrow> u64 \<times> u64 \<times> u32" where
  "timing_done t = (let (q, p, stage) = scan_stages (pt_stages t); (q, p) = calibrate (pt_calibrated t) (q, p) in (q, p, stage))"

lemma update_bag:
  assumes "queue_ok s" "timing_done t = (q, p, stage)"
  shows "\<exists>s' n. updateFeedback t s = Some (s', n) \<and> queue_ok s' \<and>
    (if pt_presentId t \<in># image_mset fe_presentId (feedback_bag s)
     then \<exists>e. fe_presentId e = pt_presentId t \<and> feedback_bag s = add_mset e (feedback_bag s')
       \<and> lm_workQueue s' = lm_workQueue s @ (if p \<noteq> 0 \<and> q \<noteq> 0
            then [HandleFeedback (e\<lparr>fe_queueDone := q, fe_presentDone := p, fe_presentStage := stage\<rparr>)] else [])
     else feedback_bag s' = feedback_bag s \<and> lm_workQueue s' = lm_workQueue s)"
proof -
  define s0 where "s0 = s\<lparr>timeDomain := pt_timeDomain t, timeDomainId := pt_timeDomainId t\<rparr>"
  have s0: "queue_ok s0" "feedback_bag s0 = feedback_bag s" "lm_workQueue s0 = lm_workQueue s"
    using assms by (simp_all add: s0_def queue_ok_def feedback_bag_def)
  obtain r s' where r: "take_entry (pt_presentId t) s0 = Some (r, s')" "queue_ok s'" "lm_workQueue s' = lm_workQueue s"
    "case r of None \<Rightarrow> pt_presentId t \<notin># image_mset fe_presentId (feedback_bag s) \<and> s' = s0
     | Some e \<Rightarrow> fe_presentId e = pt_presentId t \<and> feedback_bag s = add_mset e (feedback_bag s')"
    using take_entry_bag[OF s0(1), of "pt_presentId t"] unfolding s0(2,3) by blast
  obtain q0 p0 where d: "scan_stages (pt_stages t) = (q0, p0, stage)" "calibrate (pt_calibrated t) (q0, p0) = (q, p)"
    using assms(2) by (auto simp: timing_done_def split: prod.splits)
  show ?thesis
  proof (cases r)
    case None
    with r d s0(2) show ?thesis by (auto simp: updateFeedback_def s0_def[symmetric])
  next
    case (Some e)
    then have "pt_presentId t \<in># image_mset fe_presentId (feedback_bag s)" using r(4) by simp
    moreover have "updateFeedback t s = Some (if p \<noteq> 0 \<and> q \<noteq> 0
        then (reportCompleteEventLocked (e\<lparr>fe_queueDone := q, fe_presentDone := p, fe_presentStage := stage\<rparr>) s', True) else (s', False))"
      using r(1) Some d by (simp add: updateFeedback_def s0_def[symmetric])
    ultimately show ?thesis using r Some by (auto simp: reportCompleteEventLocked_def queue_ok_def feedback_bag_def)
  qed
qed

text \<open>
  C13. The feedback queue, an array with a length from which entries are removed by moving the last one, is a bag of
  at most 64 entries: no access is outside the array; a present adds its entry exactly when there is room and the id is
  not 0; a timing removes one entry with its id, if there is one, and passes it on with the calibrated times exactly
  when both are known; a timing with an unknown id changes nothing.
\<close>

theorem feedback_queue_is_bag:
  assumes "queue_ok s" "timing_done t = (q, p, stage)"
  shows "(\<exists>s' asked. register_feedback k now s = Some (s', asked) \<and> queue_ok s' \<and> (asked \<longleftrightarrow> size (feedback_bag s) < 64 \<and> k \<noteq> 0)
      \<and> feedback_bag s' = (if asked then add_mset (fresh_entry k now) (feedback_bag s) else feedback_bag s))
    \<and> (\<exists>s' n. updateFeedback t s = Some (s', n) \<and> queue_ok s' \<and>
      (if pt_presentId t \<in># image_mset fe_presentId (feedback_bag s)
       then \<exists>e. fe_presentId e = pt_presentId t \<and> feedback_bag s = add_mset e (feedback_bag s')
         \<and> lm_workQueue s' = lm_workQueue s @ (if p \<noteq> 0 \<and> q \<noteq> 0
              then [HandleFeedback (e\<lparr>fe_queueDone := q, fe_presentDone := p, fe_presentStage := stage\<rparr>)] else [])
       else feedback_bag s' = feedback_bag s \<and> lm_workQueue s' = lm_workQueue s))"
  using register_bag[OF assms(1)] update_bag[OF assms] by blast

section \<open>The report\<close>

fun feedbacks :: "feedback_entry list \<Rightarrow> lm_worker \<Rightarrow> lm_swapchain \<Rightarrow> lm_worker \<times> lm_swapchain" where
  "feedbacks [] w s = (w, s)"
| "feedbacks (e # es) w s = (let (w, s) = worker_feedback e w s in feedbacks es w s)"

text \<open>Without a candidate, or once a frame not older than it has been seen, feedback adds no line.\<close>

lemma feedbacks_quiet:
  assumes "lastCandidateFrameId s = 0 \<or> lastCandidateFrameId s \<le> lastFeedbackId w"
    "sorted_wrt (<) (lastFeedbackId w # map fe_presentId es)"
  shows "latencyReport (snd (feedbacks es w s)) = latencyReport s"
  using assms
proof (induction es arbitrary: w s)
  case (Cons e es)
  obtain w' s' where f: "worker_feedback e w s = (w', s')" by fastforce
  have "latencyReport s' = latencyReport s" "lastFeedbackId w' = fe_presentId e"
    and c: "lastCandidateFrameId s' = 0 \<or> lastCandidateFrameId s' = lastCandidateFrameId s"
    using f Cons.prems(1) by (auto simp: worker_feedback_def Let_def split: if_splits)
  moreover have "lastFeedbackId w \<le> fe_presentId e" using Cons.prems(2) by (simp add: less_imp_le)
  then have "lastCandidateFrameId s' = 0 \<or> lastCandidateFrameId s' \<le> fe_presentId e" using c Cons.prems(1) by auto
  ultimately show ?case using Cons.IH[of s' w'] Cons.prems f by auto
qed simp

lemma feedbacks_no_candidate: "lastCandidateFrameId s = 0 \<Longrightarrow> lastCandidateFrameId (snd (feedbacks es w s)) = 0"
  by (induction es arbitrary: w s) (auto simp: worker_feedback_def Let_def split: if_splits)

lemma unat_less_64: "unat (x :: u64) = n \<Longrightarrow> n \<le> 32 \<Longrightarrow> (x = 32 \<longleftrightarrow> n = 32) \<and> unat (x + 1) = n + 1"
proof -
  assume x: "unat x = n" "n \<le> 32"
  then have "x = word_of_nat n" by auto
  moreover have "unat (x + 1) = n + 1" using x by (simp add: unat_word_ariths)
  ultimately show ?thesis using x by auto
qed

lemma feedbacks_candidate:
  assumes "unat (numFeedbacksSinceDelta w) = n" "n \<le> 32"
  shows "lastCandidateFrameId (snd (feedbacks es w s)) = (if 33 - n \<le> length es then 0 else lastCandidateFrameId s)"
  using assms
proof (induction es arbitrary: w s n)
  case (Cons e es)
  obtain w' s' where f: "worker_feedback e w s = (w', s')" by fastforce
  note u = unat_less_64[OF Cons.prems]
  have w': "unat (numFeedbacksSinceDelta w') = n + 1" and s': "lastCandidateFrameId s' = (if n = 32 then 0 else lastCandidateFrameId s)"
    using f u by (auto simp: worker_feedback_def Let_def NumHistoryFrames_def)
  show ?case
  proof (cases "n = 32")
    case True
    then show ?thesis using feedbacks_no_candidate[of s' es w'] s' f by simp
  next
    case False
    then show ?thesis using Cons.IH[OF w', of s'] Cons.prems(2) s' f by auto
  qed
qed simp

lemma feedbacks_run:
  assumes "latencyReport s = Some ls" "lastFeedbackId w < lastCandidateFrameId s" "stimulusTime w \<noteq> 0"
    "unat (numFeedbacksSinceDelta w) = n" "n \<le> 32" "sorted_wrt (<) (map fe_presentId es)"
  shows "latencyReport (snd (feedbacks es w s)) = Some (ls @ map (Pair (stimulusTime w))
      (take 1 (filter (\<lambda>e. lastCandidateFrameId s \<le> fe_presentId e) (take (33 - n) es))))"
  using assms
proof (induction es arbitrary: w s n ls)
  case Nil
  then show ?case by simp
next
  case (Cons e es)
  obtain w' s' where f: "worker_feedback e w s = (w', s')" by fastforce
  note u = unat_less_64[OF Cons.prems(4,5)]
  let ?c = "lastCandidateFrameId s"
  have w': "lastFeedbackId w' = fe_presentId e" "stimulusTime w' = stimulusTime w" "unat (numFeedbacksSinceDelta w') = n + 1"
    using f u by (auto simp: worker_feedback_def Let_def)
  have s': "lastCandidateFrameId s' = (if n = 32 then 0 else ?c)"
    "latencyReport s' = Some (ls @ (if ?c \<le> fe_presentId e then [(stimulusTime w, e)] else []))"
    using f u Cons.prems(1-3) by (auto simp: worker_feedback_def Let_def NumHistoryFrames_def split: if_splits)
  have sorted: "sorted_wrt (<) (lastFeedbackId w' # map fe_presentId es)" using Cons.prems(6) w'(1) by simp
  have m: "33 - n = Suc (32 - n)" using Cons.prems(5) by simp
  show ?case
  proof (cases "n = 32 \<or> ?c \<le> fe_presentId e")
    case True
    then have "latencyReport (snd (feedbacks es w' s')) = latencyReport s'"
      using feedbacks_quiet[OF _ sorted] s'(1) w'(1) by auto
    with True s' f m show ?thesis by auto
  next
    case False
    then show ?thesis
      using Cons.IH[of s' ls w' "n + 1"] s' w' f m Cons.prems(3,5,6) by (auto simp: not_le)
  qed
qed

text \<open>
  C27. A stimulus gives at most one line of the report.  When a frame has just become the candidate, then of the feedback
  that arrives, with increasing ids as the driver delivers it, exactly the first entry not older than the candidate is
  reported, if it is among the next 33; after 33 entries the candidate is dropped and a new stimulus may begin.
\<close>

theorem one_line_per_stimulus:
  assumes "latencyReport s = Some ls" "lastFeedbackId w < lastCandidateFrameId s" "stimulusTime w \<noteq> 0"
    "numFeedbacksSinceDelta w = 0" "sorted_wrt (<) (map fe_presentId es)"
  shows "latencyReport (snd (feedbacks es w s)) = Some (ls @ map (Pair (stimulusTime w))
      (take 1 (filter (\<lambda>e. lastCandidateFrameId s \<le> fe_presentId e) (take 33 es))))
    \<and> lastCandidateFrameId (snd (feedbacks es w s)) = (if 33 \<le> length es then 0 else lastCandidateFrameId s)"
  using feedbacks_run[of s ls w 0 es] feedbacks_candidate[of w 0 es s] assms by simp

theorem one_line_per_stimulus_witness:
  "latencyReport (snd (feedbacks [fresh_entry 20 1, fresh_entry 22 2, fresh_entry 23 3] ((lm_worker_new [] [])\<lparr>stimulusTime := 5\<rparr>)
     ((lm_swapchain_new [] True 1)\<lparr>latencyReport := Some [], lastCandidateFrameId := 21\<rparr>))) = Some [(5, fresh_entry 22 2)]"
  using one_line_per_stimulus[where s = "(lm_swapchain_new [] True 1)\<lparr>latencyReport := Some [], lastCandidateFrameId := 21\<rparr>" and ls = "[]"
      and w = "(lm_worker_new [] [])\<lparr>stimulusTime := 5\<rparr>" and es = "[fresh_entry 20 1, fresh_entry 22 2, fresh_entry 23 3]"]
  by (simp add: lm_worker_new_def lm_swapchain_new_def)

definition sample_queue :: lm_swapchain where
  "sample_queue = (lm_swapchain_new (fresh_entry 7 1 # fresh_entry 8 2 # replicate 62 (fresh_entry 0 0)) True 3)\<lparr>feedbackQueueSize := 2\<rparr>"

definition sample_timing :: past_timing where
  "sample_timing = \<lparr>pt_presentId = 7, pt_timeDomain = 0, pt_timeDomainId = 0, pt_stages = [(1, 100), (4, 120)], pt_calibrated = Some (1000, 500, 500)\<rparr>"

theorem feedback_queue_is_bag_witness:
  "\<exists>(s' :: lm_swapchain) n e. updateFeedback sample_timing sample_queue = Some (s', n) \<and> fe_presentId e = 7
     \<and> feedback_bag sample_queue = add_mset e (feedback_bag s')
     \<and> lm_workQueue s' = [HandleFeedback (e\<lparr>fe_queueDone := 600, fe_presentDone := 620, fe_presentStage := 4\<rparr>)]"
proof -
  have q: "queue_ok sample_queue" by (simp add: queue_ok_def sample_queue_def FeedbackQueueSize_def lm_swapchain_new_def)
  have t: "timing_done sample_timing = (600, 620, 4)" by code_simp
  have b: "pt_presentId sample_timing = 7" "lm_workQueue sample_queue = []"
    "7 \<in># image_mset fe_presentId (feedback_bag sample_queue)"
    by (simp_all add: sample_timing_def sample_queue_def lm_swapchain_new_def feedback_bag_def)
  from feedback_queue_is_bag[OF q t, where k = 0 and now = 0] b show ?thesis by auto
qed

section \<open>Threads\<close>

text \<open>
  The worker and the application: \<open>LGpu\<close> while the worker waits for a copy, \<open>LJudge\<close> after it has freed the image;
  \<open>QSource\<close> while the application waits for a change of the queue family, \<open>QSubmit\<close> while it waits for its image.
\<close>

datatype lm_pc = LLoop | LGpu u64 nat | LJudge u64 | LGone

datatype lm_app = QIdle | QSource nat u32 u64 | QSubmit nat u64

record lm_system =
  lsw :: lm_swapchain
  lwk :: lm_worker
  lpc :: lm_pc
  qpc :: lm_app

inductive lm_step :: "lm_system \<Rightarrow> lm_system \<Rightarrow> bool" where
  lm_take: "lpc w = LLoop \<Longrightarrow> lm_worker_ready (lsw w) \<Longrightarrow> lm_worker_take (lsw w) = (Some (WaitGPUWork k i), s)
    \<Longrightarrow> lm_step w (w\<lparr>lsw := s, lpc := LGpu k i\<rparr>)"
| lm_feedback: "lpc w = LLoop \<Longrightarrow> lm_worker_ready (lsw w) \<Longrightarrow> lm_worker_take (lsw w) = (Some (HandleFeedback e), s)
    \<Longrightarrow> worker_feedback e (lwk w) s = (wk, s') \<Longrightarrow> lm_step w (w\<lparr>lsw := s', lwk := wk\<rparr>)"
| lm_end: "lpc w = LLoop \<Longrightarrow> lm_worker_ready (lsw w) \<Longrightarrow> lm_worker_take (lsw w) = (None, s)
    \<Longrightarrow> lm_step w (w\<lparr>lsw := worker_exit s, lpc := LGone\<rparr>)"
| lm_lost: "lpc w = LGpu k i \<Longrightarrow> lm_step w (w\<lparr>lsw := worker_exit (lsw w), lpc := LGone\<rparr>)"
| lm_frame: "lpc w = LGpu k i \<Longrightarrow> worker_frame i (lwk w) (lsw w) = Some (wk, s) \<Longrightarrow> lm_step w (w\<lparr>lsw := s, lwk := wk, lpc := LJudge k\<rparr>)"
| lm_judge: "lpc w = LJudge k \<Longrightarrow> worker_judge k (lwk w) (lsw w) = (wk, s) \<Longrightarrow> lm_step w (w\<lparr>lsw := s, lwk := wk, lpc := LLoop\<rparr>)"
| lm_present: "qpc w = QIdle \<Longrightarrow> \<not> lm_forwards 1 (lsw w) \<Longrightarrow> i < length (lm_images (lsw w)) \<Longrightarrow> present_begin ts waits ids (lsw w) = Some (r, s, n)
    \<Longrightarrow> lm_step w (w\<lparr>lsw := s, qpc := (case r of Inl _ \<Rightarrow> QIdle | Inr k \<Rightarrow> QSource i fam k)\<rparr>)"
| lm_source: "qpc w = QSource i fam k \<Longrightarrow> lm_initSourceCommands fam pool rs (lsw w) = Some (r, s)
    \<Longrightarrow> lm_step w (w\<lparr>lsw := s, qpc := (if r = VK_SUCCESS then QSubmit i k else QIdle)\<rparr>)"
| lm_submit: "qpc w = QSubmit i k \<Longrightarrow> submit_ready i (lsw w) \<Longrightarrow> lm_submitSourceWork sub i k (lsw w) = (r, s)
    \<Longrightarrow> (if r = VK_SUCCESS then register_feedback k now s else Some (s, False)) = Some (s', asked) \<Longrightarrow> lm_step w (w\<lparr>lsw := s', qpc := QIdle\<rparr>)"
| lm_stimulus: "stimulus_round trigger opens t1 t2 rng act hold (lsw w) = Some (x, y, s) \<Longrightarrow> lm_step w (w\<lparr>lsw := s\<rparr>)"
| lm_destroy: "qpc w = QIdle \<Longrightarrow> lm_step w (w\<lparr>lsw := lm_destroy_status (lsw w)\<rparr>)"

definition lm_start :: "lm_system \<Rightarrow> bool" where
  "lm_start w \<longleftrightarrow> (\<exists>garbage timing stages wd ht fmt imgs types domains sized. length garbage = FeedbackQueueSize \<and>
     lm_init wd ht fmt imgs types domains sized (lm_swapchain_new garbage timing stages) = (VK_SUCCESS, lsw w))
     \<and> (\<exists>g g'. lwk w = lm_worker_new g g') \<and> lpc w = LLoop \<and> qpc w = QIdle"

inductive lm_reachable :: "lm_system \<Rightarrow> bool" where
  lm_init: "lm_start w \<Longrightarrow> lm_reachable w"
| lm_next: "lm_reachable w \<Longrightarrow> lm_step w w' \<Longrightarrow> lm_reachable w'"

text \<open>The copies of an image for which the worker has to wait.\<close>

definition is_copy :: "nat \<Rightarrow> lm_work \<Rightarrow> bool" where
  "is_copy i wk = (case wk of WaitGPUWork k j \<Rightarrow> i = j | HandleFeedback e \<Rightarrow> False)"

definition pending_copies :: "nat \<Rightarrow> lm_system \<Rightarrow> nat" where
  "pending_copies i w = length (filter (is_copy i) (lm_workQueue (lsw w))) + (case lpc w of LGpu k j \<Rightarrow> if i = j then 1 else 0 | _ \<Rightarrow> 0)"

definition busy_image :: "lm_swapchain \<Rightarrow> nat \<Rightarrow> bool" where
  "busy_image s i \<longleftrightarrow> i < length (lm_images s) \<and> busy (lm_images s ! i)"

definition app_image_ok :: "lm_app \<Rightarrow> lm_swapchain \<Rightarrow> bool" where
  "app_image_ok q s = (case q of QIdle \<Rightarrow> True | QSource i f k \<Rightarrow> i < length (lm_images s) | QSubmit i k \<Rightarrow> i < length (lm_images s))"

definition copies_inv :: "lm_system \<Rightarrow> bool" where
  "copies_inv w \<longleftrightarrow> queue_ok (lsw w) \<and> app_image_ok (qpc w) (lsw w)
     \<and> (\<forall>i. pending_copies i w \<le> of_bool (busy_image (lsw w) i) \<and> (lpc w \<noteq> LGone \<longrightarrow> pending_copies i w = of_bool (busy_image (lsw w) i)))"

text \<open>What the invariant reads of the swapchain.\<close>

definition copy_view :: "lm_swapchain \<Rightarrow> lm_work list \<times> bool list \<times> bool" where
  "copy_view s = (filter (\<lambda>wk. \<exists>k i. wk = WaitGPUWork k i) (lm_workQueue s), map busy (lm_images s), queue_ok s)"

lemma copy_view_frame:
  assumes "copy_view s' = copy_view s"
  shows "length (lm_images s') = length (lm_images s)" "busy_image s' i = busy_image s i" "queue_ok s' = queue_ok s"
    "length (filter (is_copy i) (lm_workQueue s')) = length (filter (is_copy i) (lm_workQueue s))"
proof -
  have b: "map busy (lm_images s') = map busy (lm_images s)" and q: "queue_ok s' = queue_ok s" using assms by (simp_all add: copy_view_def)
  then show l: "length (lm_images s') = length (lm_images s)" "queue_ok s' = queue_ok s" using map_eq_imp_length_eq by blast+
  show "busy_image s' i = busy_image s i" using b l(1) unfolding busy_image_def by (metis nth_map)
  have f: "filter (is_copy i) ws = filter (is_copy i) (filter (\<lambda>wk. \<exists>k i. wk = WaitGPUWork k i) ws)" for ws
    by (induction ws) (auto simp: is_copy_def split: lm_work.splits)
  show "length (filter (is_copy i) (lm_workQueue s')) = length (filter (is_copy i) (lm_workQueue s))"
    using assms f[of "lm_workQueue s'"] f[of "lm_workQueue s"] by (simp add: copy_view_def)
qed

text \<open>The copy that the worker waits for.\<close>

definition gpu_copies :: "lm_pc \<Rightarrow> nat \<Rightarrow> nat" where
  "gpu_copies pc i = (case pc of LGpu k j \<Rightarrow> of_bool (i = j) | _ \<Rightarrow> 0)"

lemma pending_copies_alt: "pending_copies i w = length (filter (is_copy i) (lm_workQueue (lsw w))) + gpu_copies (lpc w) i"
  by (simp add: pending_copies_def gpu_copies_def split: lm_pc.splits)

lemma copies_invI:
  assumes "queue_ok (lsw w)" "app_image_ok (qpc w) (lsw w)" "\<And>i. pending_copies i w \<le> of_bool (busy_image (lsw w) i)"
    "\<And>i. lpc w \<noteq> LGone \<Longrightarrow> pending_copies i w = of_bool (busy_image (lsw w) i)"
  shows "copies_inv w"
  using assms unfolding copies_inv_def by blast

lemma copies_invD:
  assumes "copies_inv w"
  shows "queue_ok (lsw w)" "app_image_ok (qpc w) (lsw w)" "pending_copies i w \<le> of_bool (busy_image (lsw w) i)"
    "lpc w \<noteq> LGone \<Longrightarrow> pending_copies i w = of_bool (busy_image (lsw w) i)"
  using assms unfolding copies_inv_def by blast+

lemma copies_inv_same:
  assumes "copies_inv w" "\<And>i. pending_copies i w' = pending_copies i w" "\<And>i. busy_image (lsw w') i = busy_image (lsw w) i"
    "queue_ok (lsw w')" "app_image_ok (qpc w') (lsw w')" "lpc w = LGone \<Longrightarrow> lpc w' = LGone"
  shows "copies_inv w'"
proof (rule copies_invI)
  fix i
  show "pending_copies i w' \<le> of_bool (busy_image (lsw w') i)" unfolding assms(2,3) by (rule copies_invD(3)[OF assms(1)])
  assume "lpc w' \<noteq> LGone"
  then show "pending_copies i w' = of_bool (busy_image (lsw w') i)" unfolding assms(2,3) using assms(6) copies_invD(4)[OF assms(1)] by blast
qed (fact assms)+

lemma copies_inv_frame:
  assumes "copies_inv w" "copy_view (lsw w') = copy_view (lsw w)" "app_image_ok (qpc w') (lsw w)"
    "gpu_copies (lpc w') = gpu_copies (lpc w)" "lpc w = LGone \<longrightarrow> lpc w' = LGone"
  shows "copies_inv w'"
proof -
  note f = copy_view_frame[OF assms(2)]
  have "app_image_ok (qpc w') (lsw w')" using assms(3) f(1) by (simp add: app_image_ok_def split: lm_app.splits)
  moreover have "pending_copies i w' = pending_copies i w" for i using assms(4) f(4) by (simp add: pending_copies_alt)
  ultimately show ?thesis using assms(1,5) f(2,3) copies_invD(1)[OF assms(1)] by (intro copies_inv_same[OF assms(1)]) auto
qed

lemma queue_ok_more:
  "length (feedbackQueue s') = length (feedbackQueue s) \<Longrightarrow> feedbackQueueSize s' = feedbackQueueSize s \<Longrightarrow> queue_ok s' = queue_ok s"
  by (simp add: queue_ok_def)

lemma take_entry_images: "take_entry k s = Some (r, s') \<Longrightarrow> lm_images s' = lm_images s"
  by (auto simp: take_entry_def Option.bind_eq_Some_conv split: option.splits)

lemma updateFeedback_view:
  assumes "updateFeedback t s = Some (s', n)" "queue_ok s"
  shows "copy_view s' = copy_view s"
proof -
  obtain q p stage where d: "timing_done t = (q, p, stage)" by (rule prod_cases3)
  from update_bag[OF assms(2) d] assms(1) have v: "queue_ok s'"
    "\<exists>es. (\<forall>e \<in> set es. \<exists>x. e = HandleFeedback x) \<and> lm_workQueue s' = lm_workQueue s @ es"
    by (auto split: if_splits)
  moreover have "lm_images s' = lm_images s"
    using assms(1) by (auto simp: updateFeedback_def Option.bind_eq_Some_conv reportCompleteEventLocked_def split: prod.splits option.splits if_splits
        dest!: take_entry_images)
  ultimately show ?thesis using assms(2) by (auto simp: copy_view_def filter_empty_conv)
qed

lemma update_all_view: "update_all ts s = Some (s', n) \<Longrightarrow> queue_ok s \<Longrightarrow> copy_view s' = copy_view s"
proof (induction ts arbitrary: s n)
  case (Cons t ts)
  then obtain s1 n1 m where s1: "updateFeedback t s = Some (s1, n1)" "update_all ts s1 = Some (s', m)"
    by (auto simp: Option.bind_eq_Some_conv)
  from updateFeedback_view[OF s1(1) Cons.prems(2)] Cons.IH[OF s1(2)] Cons.prems(2) show ?case by (simp add: copy_view_def)
qed simp

lemma present_begin_view:
  assumes "present_begin ts waits ids s = Some (r, s', n)" "queue_ok s"
  shows "copy_view s' = copy_view s"
proof -
  obtain s1 m where p: "pollFeedback ts s = Some (s1, m)" and s': "copy_view s' = copy_view s1"
    using assms(1) by (auto simp: present_begin_def Option.bind_eq_Some_conv copy_view_def queue_ok_def Let_def split: if_splits)
  from p have "copy_view s1 = copy_view s"
    using update_all_view assms(2) by (auto simp: pollFeedback_def split: if_splits option.splits)
  with s' show ?thesis by simp
qed

lemma register_view: "register_feedback k now s = Some (s', b) \<Longrightarrow> queue_ok s \<Longrightarrow> copy_view s' = copy_view s"
  by (auto simp: register_feedback_def store_def copy_view_def queue_ok_def FeedbackQueueSize_def Option.bind_eq_Some_conv split: if_splits)

lemma quiet_views:
  "worker_feedback e wk s = (wk', s') \<Longrightarrow> copy_view s' = copy_view s"
  "worker_judge k wk s = (wk', s') \<Longrightarrow> copy_view s' = copy_view s"
  "lm_initSourceCommands fam pool rs s = Some (r, s') \<Longrightarrow> copy_view s' = copy_view s"
  "stimulus_round trigger opens t1 t2 rng act hold s = Some (x, y, s') \<Longrightarrow> copy_view s' = copy_view s"
  "copy_view (worker_exit s) = copy_view s" "copy_view (lm_destroy_status s) = copy_view s"
  by (auto simp: worker_feedback_def worker_judge_def lm_initSourceCommands_def stimulus_round_def worker_exit_def
      lm_destroy_status_def Let_def copy_view_def queue_ok_def split: if_splits)

lemma copies_inv_step:
  assumes "lm_step w w'" "copies_inv w"
  shows "copies_inv w'"
  using assms(1)
proof cases
  case (lm_take k i s)
  then obtain q where q: "lm_workQueue (lsw w) = WaitGPUWork k i # q" "s = (lsw w)\<lparr>lm_workQueue := q\<rparr>"
    by (cases "lm_workQueue (lsw w)") (auto simp: lm_worker_take_def lm_worker_ready_def split: if_splits)
  have "pending_copies j w' = pending_copies j w" "busy_image (lsw w') j = busy_image (lsw w) j" for j
    using lm_take q by (auto simp: pending_copies_alt gpu_copies_def is_copy_def busy_image_def)
  moreover have "queue_ok (lsw w')" "app_image_ok (qpc w') (lsw w')" "lpc w \<noteq> LGone"
    using lm_take q copies_invD(1,2)[OF assms(2)] by (auto simp: queue_ok_def app_image_ok_def split: lm_app.splits)
  ultimately show ?thesis by (intro copies_inv_same[OF assms(2)]) auto
next
  case (lm_feedback e s wk s')
  have "copy_view s = copy_view (lsw w)" using lm_feedback(3,4)
    by (cases "lm_workQueue (lsw w)") (auto simp: lm_worker_take_def lm_worker_ready_def copy_view_def queue_ok_def split: if_splits)
  with lm_feedback quiet_views(1)[OF lm_feedback(5)] assms(2) show ?thesis
    by (intro copies_inv_frame[OF assms(2)]) (auto simp: copies_inv_def)
next
  case (lm_end s)
  then have "copy_view (worker_exit s) = copy_view (lsw w)" by (auto simp: lm_worker_take_def quiet_views split: if_splits)
  with lm_end assms(2) show ?thesis
    by (intro copies_inv_frame[OF assms(2)]) (auto simp: copies_inv_def gpu_copies_def)
next
  case (lm_lost k i)
  note f = copy_view_frame[OF quiet_views(5)[of "lsw w"]]
  have "pending_copies j w' \<le> pending_copies j w" for j using lm_lost by (simp add: pending_copies_alt gpu_copies_def f(4))
  then have "pending_copies j w' \<le> of_bool (busy_image (lsw w) j)" for j using assms(2) le_trans unfolding copies_inv_def by blast
  with lm_lost f assms(2) show ?thesis by (simp add: copies_inv_def app_image_ok_def split: lm_app.splits)
next
  case (lm_frame k i wk s)
  then obtain img img' where img: "load (lm_images (lsw w)) i = Some img" "s = (lsw w)\<lparr>lm_images := (lm_images (lsw w))[i := img']\<rparr>" "\<not> busy img'"
    by (auto simp: worker_frame_def Let_def Option.bind_eq_Some_conv)
  have i: "i < length (lm_images (lsw w))" using img(1) by (auto simp: load_def split: if_splits)
  have inv: "pending_copies j w = of_bool (busy_image (lsw w) j)" for j using assms(2) lm_frame(2) by (simp add: copies_inv_def)
  have "pending_copies j w' = of_bool (busy_image s j)" for j
    using inv[of j] lm_frame img(2,3) i by (auto simp: pending_copies_alt gpu_copies_def busy_image_def nth_list_update split: if_splits)
  with lm_frame img assms(2) show ?thesis by (simp add: copies_inv_def queue_ok_def app_image_ok_def split: lm_app.splits)
next
  case (lm_judge k wk s)
  with quiet_views(2)[OF lm_judge(3)] assms(2) show ?thesis
    by (intro copies_inv_frame[OF assms(2)]) (auto simp: copies_inv_def gpu_copies_def)
next
  case (lm_present i ts waits ids r s n fam)
  with present_begin_view[OF lm_present(5)] assms(2) show ?thesis
    by (intro copies_inv_frame[OF assms(2)]) (auto simp: copies_inv_def app_image_ok_def split: sum.splits)
next
  case (lm_source i fam k pool rs r s)
  with quiet_views(3)[OF lm_source(3)] assms(2) show ?thesis
    by (intro copies_inv_frame[OF assms(2)]) (auto simp: copies_inv_def app_image_ok_def)
next
  case (lm_submit i k sub r s now s' asked)
  have qok: "queue_ok s" using lm_submit(4) assms(2) by (auto simp: lm_submitSourceWork_def copies_inv_def queue_ok_def split: if_splits)
  have v: "copy_view s' = copy_view s" using lm_submit(5) register_view[OF _ qok] by (auto split: if_splits)
  show ?thesis
  proof (cases "r = VK_SUCCESS \<and> 0 \<le> lm_status (lsw w)")
    case True
    have i: "i < length (lm_images (lsw w))" using copies_invD(2)[OF assms(2)] lm_submit(2) by (simp add: app_image_ok_def)
    have s: "s = (lsw w)\<lparr>lm_images := (lm_images (lsw w))[i := (lm_images (lsw w) ! i)\<lparr>busy := True\<rparr>], lm_workQueue := lm_workQueue (lsw w) @ [WaitGPUWork k i]\<rparr>"
      "\<not> busy (lm_images (lsw w) ! i)"
      using True lm_submit(3,4) by (auto simp: lm_submitSourceWork_def submit_ready_def VK_SUCCESS_def split: if_splits)
    note f = copy_view_frame[OF v]
    have p: "pending_copies j w' = pending_copies j w + of_bool (j = i)" "busy_image (lsw w') j = (busy_image (lsw w) j \<or> j = i)" for j
      using lm_submit(1,2) f i by (auto simp: pending_copies_alt s(1) is_copy_def busy_image_def nth_list_update)
    have z: "\<not> busy_image (lsw w) i" using s(2) by (simp add: busy_image_def)
    show ?thesis
    proof (rule copies_invI)
      fix j
      show "pending_copies j w' \<le> of_bool (busy_image (lsw w') j)"
        unfolding p using copies_invD(3)[OF assms(2), of j] z by (cases "j = i") auto
      assume "lpc w' \<noteq> LGone"
      then show "pending_copies j w' = of_bool (busy_image (lsw w') j)"
        unfolding p using copies_invD(4)[OF assms(2), of j] z lm_submit(1) by (cases "j = i") auto
    qed (use lm_submit(1) f(3) qok in \<open>auto simp: app_image_ok_def\<close>)
  next
    case False
    then have "s = lsw w" using lm_submit(4) by (auto simp: lm_submitSourceWork_def VK_SUCCESS_def split: if_splits)
    with v lm_submit show ?thesis by (intro copies_inv_frame[OF assms(2)]) (auto simp: app_image_ok_def)
  qed
next
  case (lm_stimulus trigger opens t1 t2 rng act hold x y s)
  with quiet_views(4)[OF lm_stimulus(2)] assms(2) show ?thesis
    by (intro copies_inv_frame[OF assms(2)]) (auto simp: copies_inv_def)
next
  case lm_destroy
  with quiet_views(6)[of "lsw w"] assms(2) show ?thesis
    by (intro copies_inv_frame[OF assms(2)]) (auto simp: copies_inv_def)
qed

lemma setup_images_free: "lm_setup_images xs types imgs = (r, is) \<Longrightarrow> \<forall>img \<in> set imgs. \<not> busy img \<Longrightarrow> \<forall>img \<in> set is. \<not> busy img"
proof (induction xs arbitrary: imgs)
  case (Cons x xs)
  obtain res img where i: "lm_setupSwapchainImage (fst x) types (snd x) \<lparr>lm_vk_image = 0, mapped = [], lm_fence = 0, busy = False\<rparr> = (res, img)"
    by fastforce
  have "\<not> busy img" using i by (auto simp: lm_setupSwapchainImage_def Let_def split: if_splits)
  with Cons.IH[of "imgs @ [img]"] Cons.prems i show ?case by (auto split: if_splits)
qed simp

lemma choose_domain_frame [simp]:
  "lm_images (choose_domain domains sized s) = lm_images s" "lm_workQueue (choose_domain domains sized s) = lm_workQueue s"
  "queue_ok (choose_domain domains sized s) = queue_ok s"
  by (auto simp: choose_domain_def queue_ok_def split: option.splits)

lemma copies_inv_start:
  assumes "lm_start w"
  shows "copies_inv w"
proof -
  obtain garbage timing stages wd ht fmt imgs types domains sized where g: "length garbage = FeedbackQueueSize"
    "lm_init wd ht fmt imgs types domains sized (lm_swapchain_new garbage timing stages) = (VK_SUCCESS, lsw w)"
    using assms by (auto simp: lm_start_def)
  obtain r "is" where i: "lm_setup_images imgs types [] = (r, is)" by fastforce
  define s0 where "s0 = (lm_swapchain_new garbage timing stages)\<lparr>lm_width := wd, lm_height := ht, lm_format := fmt,
    representativeWidth := min wd 128, representativeHeight := min ht 128, lm_images := is\<rparr>"
  have "lsw w = choose_domain domains sized s0" using g(2) i by (auto simp: lm_init_def s0_def Let_def split: if_splits)
  moreover have "lm_images s0 = is" "lm_workQueue s0 = []" "queue_ok s0"
    using g(1) by (simp_all add: s0_def lm_swapchain_new_def queue_ok_def)
  ultimately have s: "lm_images (lsw w) = is" "lm_workQueue (lsw w) = []" "queue_ok (lsw w)" by simp_all
  have "\<not> busy_image (lsw w) j" for j using setup_images_free[OF i] s(1) by (auto simp: busy_image_def)
  with s assms show ?thesis by (intro copies_invI) (auto simp: lm_start_def pending_copies_def app_image_ok_def)
qed

lemma update_all_defined: "queue_ok s \<Longrightarrow> \<exists>s' n. update_all ts s = Some (s', n)"
proof (induction ts arbitrary: s)
  case (Cons t ts)
  obtain q p stage where d: "timing_done t = (q, p, stage)" by (rule prod_cases3)
  from update_bag[OF Cons.prems d] obtain s1 n where "updateFeedback t s = Some (s1, n)" "queue_ok s1" by blast
  with Cons.IH[of s1] show ?case by (auto simp: Option.bind_eq_Some_conv)
qed auto

text \<open>
  C11. In every reachable state of application, worker and input thread an image has at most one pending copy, and while the
  worker runs it has one exactly when it is marked busy, so that its fence and its buffer are never in use twice;
  and the next present, whatever timings the driver delivers, stays within the feedback queue.
\<close>

theorem one_copy_pending:
  assumes "lm_reachable w"
  shows "pending_copies i w \<le> of_bool (busy_image (lsw w) i) \<and> (lpc w \<noteq> LGone \<longrightarrow> pending_copies i w = of_bool (busy_image (lsw w) i))
    \<and> (\<exists>x. present_begin ts waits ids (lsw w) = Some x) \<and> (\<exists>x. register_feedback k now (lsw w) = Some x)"
proof -
  have inv: "copies_inv w" using assms
    by (induction rule: lm_reachable.induct) (auto intro: copies_inv_start copies_inv_step)
  note q = copies_invD(1)[OF inv]
  have "\<exists>s n. pollFeedback ts (lsw w) = Some (s, n)"
    using update_all_defined[OF q] by (cases ts) (auto simp: pollFeedback_def)
  then obtain s n where "pollFeedback ts (lsw w) = Some (s, n)" by blast
  then have "present_begin ts waits ids (lsw w) \<noteq> None" by (simp add: present_begin_def Let_def)
  then have "\<exists>x. present_begin ts waits ids (lsw w) = Some x" by blast
  with register_bag[OF q] copies_invD(3,4)[OF inv] show ?thesis by blast
qed

definition sample_image :: lm_image_env where
  "sample_image = \<lparr>le_buffer = VK_SUCCESS, le_memory_bits = 1, le_allocate = VK_SUCCESS, le_bind = VK_SUCCESS,
     le_map = (VK_SUCCESS, [0, 0]), le_fence = (VK_SUCCESS, 9)\<rparr>"

definition sample_swapchain :: lm_swapchain where
  "sample_swapchain = snd (lm_init 1 1 37 [(sample_image, 5)] [14] (Some [(VK_TIME_DOMAIN_PRESENT_STAGE_LOCAL_EXT, 1)]) VK_SUCCESS
     (lm_swapchain_new (replicate 64 (fresh_entry 0 0)) True 7))"

lemma sample_swapchain_facts:
  "lm_init 1 1 37 [(sample_image, 5)] [14] (Some [(VK_TIME_DOMAIN_PRESENT_STAGE_LOCAL_EXT, 1)]) VK_SUCCESS
     (lm_swapchain_new (replicate 64 (fresh_entry 0 0)) True 7) = (VK_SUCCESS, sample_swapchain)"
  "length (lm_images sample_swapchain) = 1" "presentTiming sample_swapchain" "busy (lm_images sample_swapchain ! 0) = False"
  "cmdPool sample_swapchain = 0" "lm_status sample_swapchain = 0" "lm_workQueue sample_swapchain = []"
  "queue_ok sample_swapchain"
  by code_simp+

theorem one_copy_pending_witness:
  "\<exists>w :: lm_system. lm_reachable w \<and> busy_image (lsw w) 0 \<and> pending_copies 0 w = 1"
proof -
  note S = sample_swapchain_facts
  let ?w = "\<lparr>lsw = sample_swapchain, lwk = lm_worker_new [] [], lpc = LLoop, qpc = QIdle\<rparr>"
  have "length (replicate 64 (fresh_entry 0 0)) = FeedbackQueueSize" by (simp add: FeedbackQueueSize_def)
  with S(1) have "lm_start ?w" unfolding lm_start_def by fastforce
  then have "lm_reachable ?w" by (rule lm_reachable.lm_init)
  moreover have "present_begin None [] (Some 1) sample_swapchain = Some (Inr 1, sample_swapchain\<lparr>internalPresentId := max (internalPresentId sample_swapchain) 1\<rparr>, False)"
    using S(3) by (simp add: present_begin_def pollFeedback_def wait_submissions_def)
  ultimately have r1: "lm_reachable (?w\<lparr>lsw := sample_swapchain\<lparr>internalPresentId := max (internalPresentId sample_swapchain) 1\<rparr>, qpc := QSource 0 0 1\<rparr>)"
    using lm_reachable.lm_next[OF _ lm_step.lm_present[of ?w 0 None "[]" "Some 1"]] S(2,3) by (fastforce simp: lm_forwards_def)
  let ?s = "sample_swapchain\<lparr>internalPresentId := max (internalPresentId sample_swapchain) 1, cmdPool := 7, cmdFamily := 0\<rparr>"
  have r2: "lm_reachable (?w\<lparr>lsw := ?s, qpc := QSubmit 0 1\<rparr>)"
    using lm_reachable.lm_next[OF r1 lm_step.lm_source[of _ 0 0 1 7 "[]" VK_SUCCESS ?s]] S
    by (simp add: lm_initSourceCommands_def list_ex_length)
  let ?t = "?s\<lparr>lm_images := (lm_images ?s)[0 := (lm_images ?s ! 0)\<lparr>busy := True\<rparr>], lm_workQueue := lm_workQueue ?s @ [WaitGPUWork 1 0]\<rparr>"
  have t: "lm_submitSourceWork VK_SUCCESS 0 1 ?s = (VK_SUCCESS, ?t)" "submit_ready 0 ?s"
    using S(4,6) by (simp_all add: lm_submitSourceWork_def submit_ready_def)
  have "queue_ok ?t" using S(8) by (simp add: queue_ok_def)
  then obtain u asked where u: "register_feedback 1 0 ?t = Some (u, asked)" "copy_view u = copy_view ?t"
    using register_bag register_view by blast
  have r3: "lm_reachable (?w\<lparr>lsw := u\<rparr>)"
    using lm_reachable.lm_next[OF r2 lm_step.lm_submit[of _ 0 1 VK_SUCCESS VK_SUCCESS ?t 0 u asked]] t u by simp
  have "busy_image ?t 0" using S(2) by (simp add: busy_image_def)
  then have "busy_image u 0" using copy_view_frame(2)[OF u(2)] by blast
  with r3 one_copy_pending[OF r3, where i = 0 and ts = None and waits = "[]" and ids = None and k = 0 and now = 0]
  show ?thesis by (intro exI[of _ "?w\<lparr>lsw := u\<rparr>"]) simp
qed

end
