(* ===== verification/Virtual_Gamepad.thy ===== *)
theory Virtual_Gamepad
  imports Pyro_Protocol
begin

text \<open>
  The virtual gamepad of the server (\<open>virtual_gamepad.hpp\<close>, \<open>virtual_gamepad.cpp\<close>): the gamepad states that a stream client sends
  become input events of the kernel, only for what has changed.  Results of \<open>ioctl\<close> are arguments.
\<close>

section \<open>Events\<close>

record input_event =
  ev_type :: nat
  ev_code :: nat
  ev_value :: int

definition EV_SYN :: nat where "EV_SYN = 0"
definition EV_KEY :: nat where "EV_KEY = 1"
definition EV_REL :: nat where "EV_REL = 2"
definition EV_ABS :: nat where "EV_ABS = 3"
definition ABS_X :: nat where "ABS_X = 0"
definition ABS_Y :: nat where "ABS_Y = 1"
definition ABS_Z :: nat where "ABS_Z = 2"
definition ABS_RX :: nat where "ABS_RX = 3"
definition ABS_RY :: nat where "ABS_RY = 4"
definition ABS_RZ :: nat where "ABS_RZ = 5"
definition ABS_HAT0X :: nat where "ABS_HAT0X = 16"
definition ABS_HAT0Y :: nat where "ABS_HAT0Y = 17"

definition BTN_A :: nat where "BTN_A = 0x130"
definition BTN_B :: nat where "BTN_B = 0x131"
definition BTN_X :: nat where "BTN_X = 0x133"
definition BTN_Y :: nat where "BTN_Y = 0x134"
definition BTN_TL :: nat where "BTN_TL = 0x136"
definition BTN_TR :: nat where "BTN_TR = 0x137"
definition BTN_SELECT :: nat where "BTN_SELECT = 0x13a"
definition BTN_START :: nat where "BTN_START = 0x13b"
definition BTN_THUMBL :: nat where "BTN_THUMBL = 0x13d"
definition BTN_THUMBR :: nat where "BTN_THUMBR = 0x13e"

lemmas event_codes_defs = EV_SYN_def EV_KEY_def EV_REL_def EV_ABS_def
lemmas axis_defs = ABS_X_def ABS_Y_def ABS_Z_def ABS_RX_def ABS_RY_def ABS_RZ_def ABS_HAT0X_def ABS_HAT0Y_def

lemmas button_defs = BTN_A_def BTN_B_def BTN_X_def BTN_Y_def BTN_TL_def BTN_TR_def BTN_SELECT_def BTN_START_def BTN_THUMBL_def BTN_THUMBR_def

definition button_mapping :: "nat list" where
  "button_mapping = [BTN_A, BTN_B, BTN_X, BTN_Y, BTN_TL, BTN_TR, BTN_THUMBL, BTN_THUMBR, BTN_START, BTN_SELECT]"

definition write_event :: "nat \<Rightarrow> nat \<Rightarrow> int \<Rightarrow> input_event list" where
  "write_event t c v = [\<lparr>ev_type = t, ev_code = c, ev_value = v\<rparr>]"

section \<open>The device\<close>

datatype DebugMode = NoDebug | RightAnalogToMouse

record virtual_gamepad =
  debug_mode :: DebugMode
  last_state :: pyro_gamepad_state

definition zero_state :: pyro_gamepad_state where
  "zero_state = \<lparr>gp_seq = 0, buttons = 0, axis_lx = 0, axis_ly = 0, axis_rx = 0, axis_ry = 0, lz = 0, rz = 0, hat_x = 0, hat_y = 0\<rparr>"

text \<open>The axes in the order of \<open>init_gamepad\<close>, with the range that is announced for each.\<close>

definition gamepad_axes :: "nat list" where
  "gamepad_axes = [ABS_X, ABS_Y, ABS_RX, ABS_RY, ABS_Z, ABS_RZ, ABS_HAT0X, ABS_HAT0Y]"

definition axis_range :: "nat \<Rightarrow> int \<times> int" where
  "axis_range axis =
     (let range = (if axis = ABS_HAT0X \<or> axis = ABS_HAT0Y then 1 else if axis = ABS_Z \<or> axis = ABS_RZ then 0xff else 0x7fff)
      in (if axis = ABS_Z \<or> axis = ABS_RZ then 0 else - range, range))"

text \<open>
  Setting up: the two kinds of events, the buttons, for every axis its bit and its range, and the device.  \<open>False\<close>: an
  exception, as soon as a call fails.
\<close>

definition init_gamepad :: "(int \<times> int) \<Rightarrow> (nat \<Rightarrow> int) \<Rightarrow> (nat \<Rightarrow> int) \<Rightarrow> (nat \<Rightarrow> int \<times> int \<Rightarrow> int) \<Rightarrow> int \<times> int \<Rightarrow> bool" where
  "init_gamepad evbits keybit absbit abs_setup create \<longleftrightarrow> 0 \<le> fst evbits \<and> 0 \<le> snd evbits \<and> list_all (\<lambda>b. 0 \<le> keybit b) button_mapping
     \<and> list_all (\<lambda>a. 0 \<le> absbit a \<and> 0 \<le> abs_setup a (axis_range a)) gamepad_axes \<and> 0 \<le> fst create \<and> 0 \<le> snd create"

definition init_debug_mouse :: "int list \<Rightarrow> int \<times> int \<Rightarrow> bool" where
  "init_debug_mouse bits create \<longleftrightarrow> list_all (\<lambda>r. 0 \<le> r) bits \<and> 0 \<le> fst create \<and> 0 \<le> snd create"

section \<open>Reporting a state\<close>

text \<open>Division of \<open>int\<close> rounds towards zero.\<close>

definition scale_motion :: "int \<Rightarrow> int" where
  "scale_motion d = (if 0 \<le> d then d div 3000 else - ((- d) div 3000))"

definition mouse_events :: "pyro_gamepad_state \<Rightarrow> pyro_gamepad_state \<Rightarrow> input_event list" where
  "mouse_events state before =
     (let delta_x = (axis_rx state \<noteq> 0 \<and> axis_rx state \<noteq> axis_rx before);
          delta_y = (axis_ry state \<noteq> 0 \<and> axis_ry state \<noteq> axis_ry before)
      in (if delta_x then write_event EV_REL 0 (scale_motion (sint (axis_rx state) - sint (axis_rx before))) else [])
       @ (if delta_y then write_event EV_REL 1 (scale_motion (sint (axis_ry state) - sint (axis_ry before))) else [])
       @ (if delta_x \<or> delta_y then write_event EV_SYN 0 0 else []))"

definition button_events :: "u16 \<Rightarrow> u16 \<Rightarrow> input_event list" where
  "button_events now before =
     concat (map (\<lambda>k. if bit (now XOR before) k \<and> k < length button_mapping
                      then write_event EV_KEY (button_mapping ! k) (if bit now k then 1 else 0) else []) [0..<16])"

definition axis_event :: "int \<Rightarrow> int \<Rightarrow> nat \<Rightarrow> input_event list" where
  "axis_event now before code = (if now \<noteq> before then write_event EV_ABS code now else [])"

text \<open>The sticks and the hats are signed, the triggers are not.\<close>

definition pad_events :: "pyro_gamepad_state \<Rightarrow> pyro_gamepad_state \<Rightarrow> input_event list" where
  "pad_events state before = button_events (buttons state) (buttons before)
     @ axis_event (sint (axis_lx state)) (sint (axis_lx before)) ABS_X
     @ axis_event (sint (axis_ly state)) (sint (axis_ly before)) ABS_Y
     @ axis_event (sint (axis_rx state)) (sint (axis_rx before)) ABS_RX
     @ axis_event (sint (axis_ry state)) (sint (axis_ry before)) ABS_RY
     @ axis_event (uint (lz state)) (uint (lz before)) ABS_Z
     @ axis_event (uint (rz state)) (uint (rz before)) ABS_RZ
     @ axis_event (sint (hat_x state)) (sint (hat_x before)) ABS_HAT0X
     @ axis_event (sint (hat_y state)) (sint (hat_y before)) ABS_HAT0Y
     @ write_event EV_SYN 0 0"

definition report_state :: "pyro_gamepad_state \<Rightarrow> virtual_gamepad \<Rightarrow> input_event list \<times> virtual_gamepad" where
  "report_state state v =
     (case debug_mode v of RightAnalogToMouse \<Rightarrow> mouse_events state (last_state v) | NoDebug \<Rightarrow> pad_events state (last_state v),
      v\<lparr>last_state := state\<rparr>)"

section \<open>What the kernel sees\<close>

text \<open>
  A device has the keys and the axes that were set up for it.  It keeps for every key whether it is pressed and for every axis its
  value; an event sets one of them, and an event for another key or axis is dropped by the kernel.
\<close>

record pad_device =
  keybits :: "nat list"
  absbits :: "nat list"
  pressed :: "nat \<Rightarrow> bool"
  position :: "nat \<Rightarrow> int"

definition apply_event :: "input_event \<Rightarrow> pad_device \<Rightarrow> pad_device" where
  "apply_event e d =
     (if ev_type e = EV_KEY \<and> ev_code e \<in> set (keybits d) then d\<lparr>pressed := (pressed d)(ev_code e := ev_value e \<noteq> 0)\<rparr>
      else if ev_type e = EV_ABS \<and> ev_code e \<in> set (absbits d) then d\<lparr>position := (position d)(ev_code e := ev_value e)\<rparr>
      else d)"

text \<open>The device that \<open>init_gamepad\<close> creates: it has the keys and the axes set up there, and nothing is pressed.\<close>

definition created_device :: pad_device where
  "created_device = \<lparr>keybits = button_mapping, absbits = gamepad_axes, pressed = (\<lambda>k. False), position = (\<lambda>a. 0)\<rparr>"

text \<open>
  What a reader of the device expects of a gamepad state, written down from the fields of the protocol and the codes of the kernel
  alone: the left button of the cross is \<open>BTN_X\<close> and the upper one \<open>BTN_Y\<close>.
\<close>

definition shows_buttons :: "u16 \<Rightarrow> pad_device \<Rightarrow> bool" where
  "shows_buttons b d \<longleftrightarrow>
     pressed d BTN_A = (b AND PYRO_PAD_SOUTH_BIT \<noteq> 0) \<and> pressed d BTN_B = (b AND PYRO_PAD_EAST_BIT \<noteq> 0)
   \<and> pressed d BTN_X = (b AND PYRO_PAD_WEST_BIT \<noteq> 0) \<and> pressed d BTN_Y = (b AND PYRO_PAD_NORTH_BIT \<noteq> 0)
   \<and> pressed d BTN_TL = (b AND PYRO_PAD_TL_BIT \<noteq> 0) \<and> pressed d BTN_TR = (b AND PYRO_PAD_TR_BIT \<noteq> 0)
   \<and> pressed d BTN_THUMBL = (b AND PYRO_PAD_THUMBL_BIT \<noteq> 0) \<and> pressed d BTN_THUMBR = (b AND PYRO_PAD_THUMBR_BIT \<noteq> 0)
   \<and> pressed d BTN_START = (b AND PYRO_PAD_START_BIT \<noteq> 0) \<and> pressed d BTN_SELECT = (b AND PYRO_PAD_SELECT_BIT \<noteq> 0)"

definition shows_axes :: "pyro_gamepad_state \<Rightarrow> pad_device \<Rightarrow> bool" where
  "shows_axes g d \<longleftrightarrow>
     position d ABS_X = sint (axis_lx g) \<and> position d ABS_Y = sint (axis_ly g)
   \<and> position d ABS_RX = sint (axis_rx g) \<and> position d ABS_RY = sint (axis_ry g)
   \<and> position d ABS_Z = uint (lz g) \<and> position d ABS_RZ = uint (rz g)
   \<and> position d ABS_HAT0X = sint (hat_x g) \<and> position d ABS_HAT0Y = sint (hat_y g)"

definition shows_state :: "pyro_gamepad_state \<Rightarrow> pad_device \<Rightarrow> bool" where
  "shows_state g d \<longleftrightarrow> shows_buttons (buttons g) d \<and> shows_axes g d"

primrec run_reports :: "pyro_gamepad_state list \<Rightarrow> virtual_gamepad \<times> pad_device \<Rightarrow> virtual_gamepad \<times> pad_device" where
  "run_reports [] vd = vd"
| "run_reports (g # gs) vd = (let (es, v) = report_state g (fst vd) in run_reports gs (v, fold apply_event es (snd vd)))"

lemma apply_event_simps [simp]:
  "apply_event \<lparr>ev_type = EV_KEY, ev_code = c, ev_value = x\<rparr> d =
     (if c \<in> set (keybits d) then d\<lparr>pressed := (pressed d)(c := x \<noteq> 0)\<rparr> else d)"
  "apply_event \<lparr>ev_type = EV_ABS, ev_code = c, ev_value = x\<rparr> d =
     (if c \<in> set (absbits d) then d\<lparr>position := (position d)(c := x)\<rparr> else d)"
  "apply_event \<lparr>ev_type = EV_SYN, ev_code = c, ev_value = x\<rparr> d = d"
  by (simp_all add: apply_event_def event_codes_defs)

lemma apply_events_bits [simp]:
  "keybits (fold apply_event es d) = keybits d" "absbits (fold apply_event es d) = absbits d"
  by (induction es arbitrary: d) (simp_all add: apply_event_def)

lemma distinct_buttons: "distinct button_mapping"
  by (simp add: button_mapping_def button_defs)

lemma apply_buttons:
  fixes now before :: u16 and d :: pad_device
  defines "ev \<equiv> \<lambda>k. if bit (now XOR before) k \<and> k < length button_mapping
    then write_event EV_KEY (button_mapping ! k) (if bit now k then 1 else 0) else []"
  assumes "distinct ks" "k < length button_mapping" "keybits d = button_mapping"
  shows "position (fold apply_event (concat (map ev ks)) d) = position d
    \<and> pressed (fold apply_event (concat (map ev ks)) d) (button_mapping ! k) =
       (if k \<in> set ks \<and> bit (now XOR before) k then bit now k else pressed d (button_mapping ! k))"
  using assms(2-4)
proof (induction ks arbitrary: d)
  case (Cons j ks)
  show ?case using Cons.IH[of "fold apply_event (ev j) d"] Cons.prems distinct_buttons
    by (auto simp: ev_def write_event_def nth_eq_iff_index_eq)
qed simp

text \<open>The mask of a button and its position in the mapping.\<close>

lemma mask_is_bit: "(b AND 2 ^ k \<noteq> 0) = bit b k" for b :: u16
  by (simp add: and_exp_eq_0_iff_not_bit)

lemma shows_buttons_bits:
  "shows_buttons b d \<longleftrightarrow> (\<forall>k < length button_mapping. pressed d (button_mapping ! k) = bit b k)"
proof -
  have "k < length button_mapping \<longleftrightarrow> k \<in> set [0, 1, 2, 3, 4, 5, 6, 7, 8, 9]" for k by (auto simp: button_mapping_def)
  then have "(\<forall>k < length button_mapping. pressed d (button_mapping ! k) = bit b k) \<longleftrightarrow>
      list_all (\<lambda>k. pressed d (button_mapping ! k) = bit b k) [0, 1, 2, 3, 4, 5, 6, 7, 8, 9]"
    unfolding list_all_iff by blast
  also have "\<dots> \<longleftrightarrow> shows_buttons b d"
    using mask_is_bit[of b 0] mask_is_bit[of b 1] mask_is_bit[of b 2] mask_is_bit[of b 3] mask_is_bit[of b 4]
      mask_is_bit[of b 5] mask_is_bit[of b 6] mask_is_bit[of b 7] mask_is_bit[of b 8] mask_is_bit[of b 9]
    by (simp add: shows_buttons_def button_mapping_def PYRO_PAD_SOUTH_BIT_def PYRO_PAD_EAST_BIT_def PYRO_PAD_WEST_BIT_def
        PYRO_PAD_NORTH_BIT_def PYRO_PAD_TL_BIT_def PYRO_PAD_TR_BIT_def PYRO_PAD_THUMBL_BIT_def PYRO_PAD_THUMBR_BIT_def
        PYRO_PAD_START_BIT_def PYRO_PAD_SELECT_BIT_def)
  finally show ?thesis by simp
qed

lemma apply_button_events:
  assumes "keybits d = button_mapping" "shows_buttons before d"
  shows "position (fold apply_event (button_events now before) d) = position d"
    and "shows_buttons now (fold apply_event (button_events now before) d)"
proof -
  let ?d = "fold apply_event (button_events now before) d"
  have l: "length button_mapping = 10" by (simp add: button_mapping_def)
  have b: "position ?d = position d \<and> pressed ?d (button_mapping ! k) =
      (if bit (now XOR before) k then bit now k else pressed d (button_mapping ! k))" if "k < length button_mapping" for k
    using apply_buttons[of "[0..<16]" k d now before] that assms(1) l by (simp add: button_events_def)
  show "position ?d = position d" using b[of 0] l by simp
  show "shows_buttons now ?d" using b assms(2) unfolding shows_buttons_bits by (simp add: bit_xor_iff)
qed

lemma apply_axis_event [simp]:
  "pressed (fold apply_event (axis_event now before c) d) = pressed d"
  "position (fold apply_event (axis_event now before c) d) a =
     (if a = c \<and> c \<in> set (absbits d) \<and> now \<noteq> before then now else position d a)"
  by (auto simp: axis_event_def write_event_def)

lemma pad_events_show:
  assumes "keybits d = button_mapping" "absbits d = gamepad_axes" "shows_state h d"
  shows "shows_state g (fold apply_event (pad_events g h) d)"
proof -
  define d1 where "d1 = fold apply_event (button_events (buttons g) (buttons h)) d"
  have b: "position d1 = position d" "shows_buttons (buttons g) d1" "absbits d1 = gamepad_axes"
    using assms apply_button_events[of d "buttons h" "buttons g"] by (simp_all add: d1_def shows_state_def)
  have "shows_axes h d1" using assms(3) b(1) by (simp add: shows_state_def shows_axes_def)
  then have "shows_axes g (fold apply_event (pad_events g h) d)"
    by (simp add: shows_axes_def pad_events_def write_event_def b(3) gamepad_axes_def axis_defs flip: d1_def)
  moreover have "pressed (fold apply_event (pad_events g h) d) = pressed d1"
    by (simp add: pad_events_def write_event_def flip: d1_def)
  ultimately show ?thesis using b(2) by (simp add: shows_state_def shows_buttons_def)
qed

text \<open>
  C25. The device mirrors the client: on the device that \<open>init_gamepad\<close> sets up, after any sequence of reports, each of which sends only
  what has changed, the ten buttons and the eight axes show the fields of the last reported state.
\<close>

theorem gamepad_mirrors:
  assumes "debug_mode v = NoDebug" "keybits d = button_mapping" "absbits d = gamepad_axes" "shows_state (last_state v) d"
  shows "shows_state (last (last_state v # gs)) (snd (run_reports gs (v, d)))"
  using assms
proof (induction gs arbitrary: v d)
  case (Cons g gs)
  from Cons.IH[of "v\<lparr>last_state := g\<rparr>" "fold apply_event (pad_events g (last_state v)) d"] Cons.prems pad_events_show
  show ?case by (simp add: report_state_def)
qed simp

definition idle_pad :: virtual_gamepad where
  "idle_pad = \<lparr>debug_mode = NoDebug, last_state = zero_state\<rparr>"

theorem gamepad_mirrors_witness:
  "shows_state (zero_state\<lparr>buttons := 2, axis_lx := 5\<rparr>)
     (snd (run_reports [zero_state\<lparr>buttons := 1\<rparr>, zero_state\<lparr>buttons := 2, axis_lx := 5\<rparr>] (idle_pad, created_device)))"
proof -
  have i: "debug_mode idle_pad = NoDebug" "keybits created_device = button_mapping" "absbits created_device = gamepad_axes"
      "shows_state (last_state idle_pad) created_device"
    by (simp_all add: idle_pad_def created_device_def shows_state_def shows_buttons_def shows_axes_def zero_state_def)
  from gamepad_mirrors[OF i, where gs = "[zero_state\<lparr>buttons := 1\<rparr>, zero_state\<lparr>buttons := 2, axis_lx := 5\<rparr>]"] show ?thesis by simp
qed

text \<open>A stick can report a value below the range that was announced for its axis.\<close>

theorem axis_below_range:
  "pad_events (zero_state\<lparr>axis_lx := 0x8000\<rparr>) zero_state = write_event EV_ABS ABS_X (fst (axis_range ABS_X) - 1) @ write_event EV_SYN 0 0"
  by code_simp

end
