(* ===== verification/Server_Setup.thy ===== *)
theory Server_Setup
  imports Ipc_Messages
begin

text \<open>
  Start-up of the server and arrival of clients (\<open>pyrofling.cpp\<close>): the GPUs of the machine, the choice of the GPU for a client, the
  encoder, the first messages of a client, the command line and the timer.  What Granite and the system answer is an argument.
\<close>

section \<open>GPUs\<close>

text \<open>
  A context object: made but without a Vulkan instance, or complete.  The ids are those of the driver; without a
  valid LUID the field is filled with \<open>0xff\<close>.
\<close>

datatype gpu_context = ContextMade | ContextReady

record physical_device =
  pd_device_uuid :: "byte list"
  pd_driver_id :: "byte list"
  pd_luid :: "byte list"
  pd_luid_valid :: bool
  pd_context :: "gpu_context option"

definition query_gpu :: "byte list \<times> byte list \<times> byte list \<times> bool \<Rightarrow> physical_device" where
  "query_gpu props = (case props of (driver, device, ident, valid) \<Rightarrow>
     \<lparr>pd_device_uuid = device, pd_driver_id = driver, pd_luid = (if valid then ident else replicate 8 0xff), pd_luid_valid = valid, pd_context = None\<rparr>)"

section \<open>Options\<close>

record encode_options =
  op_path :: string
  op_width :: u32
  op_height :: u32
  op_fps :: u32
  op_audio :: bool
  op_gop_negative :: bool
  op_bit_depth :: u32
  op_hdr10 :: bool
  op_fec :: bool
  op_chroma_444 :: bool
  op_encoder :: string
  op_muxer :: string

text \<open>The options of the command line; a string without an option is the URL.  \<open>Other\<close> stands for the options
  that the model has no use for.\<close>

datatype cli_option = Fps u32 | Client_Rate u32 | Width u32 | Height u32 | Device_Index u32 | Help | Gop_Negative bool | Encoder string
  | Muxer string | Port string | No_Audio | Ten_Bit | Hdr10 | Chroma_444 | Fec | Url string | Other

record command_line =
  cl_options :: encode_options
  cl_rate :: u32
  cl_device_index :: u32
  cl_port :: string
  cl_ended :: bool

definition default_options :: encode_options where
  "default_options = \<lparr>op_path = '''', op_width = 1280, op_height = 720, op_fps = 60, op_audio = True, op_gop_negative = False, op_bit_depth = 8,
     op_hdr10 = False, op_fec = False, op_chroma_444 = False, op_encoder = ''libx264'', op_muxer = ''''\<rparr>"

definition default_command_line :: command_line where
  "default_command_line = \<lparr>cl_options = default_options, cl_rate = 1, cl_device_index = 0, cl_port = '''', cl_ended = False\<rparr>"

definition apply_option :: "cli_option \<Rightarrow> command_line \<Rightarrow> command_line" where
  "apply_option opt c =
     (let p = cl_options c in
      case opt of Fps n \<Rightarrow> c\<lparr>cl_options := p\<lparr>op_fps := n\<rparr>\<rparr> | Client_Rate n \<Rightarrow> c\<lparr>cl_rate := n\<rparr>
      | Width n \<Rightarrow> c\<lparr>cl_options := p\<lparr>op_width := n\<rparr>\<rparr> | Height n \<Rightarrow> c\<lparr>cl_options := p\<lparr>op_height := n\<rparr>\<rparr>
      | Device_Index n \<Rightarrow> c\<lparr>cl_device_index := n\<rparr> | Help \<Rightarrow> c\<lparr>cl_ended := True\<rparr>
      | Gop_Negative b \<Rightarrow> c\<lparr>cl_options := p\<lparr>op_gop_negative := b\<rparr>\<rparr> | Encoder s \<Rightarrow> c\<lparr>cl_options := p\<lparr>op_encoder := s\<rparr>\<rparr>
      | Muxer s \<Rightarrow> c\<lparr>cl_options := p\<lparr>op_muxer := s\<rparr>\<rparr> | Port s \<Rightarrow> c\<lparr>cl_port := s\<rparr> | No_Audio \<Rightarrow> c\<lparr>cl_options := p\<lparr>op_audio := False\<rparr>\<rparr>
      | Ten_Bit \<Rightarrow> c\<lparr>cl_options := p\<lparr>op_bit_depth := 10\<rparr>\<rparr> | Hdr10 \<Rightarrow> c\<lparr>cl_options := p\<lparr>op_hdr10 := True, op_bit_depth := 10\<rparr>\<rparr>
      | Chroma_444 \<Rightarrow> c\<lparr>cl_options := p\<lparr>op_chroma_444 := True\<rparr>\<rparr> | Fec \<Rightarrow> c\<lparr>cl_options := p\<lparr>op_fec := True\<rparr>\<rparr>
      | Url s \<Rightarrow> c\<lparr>cl_options := p\<lparr>op_path := s\<rparr>\<rparr> | Other \<Rightarrow> c)"

section \<open>The encoder\<close>

datatype enc_format = YUV420P | YUV444P | NV12 | P010 | P016 | YUV420P16 | YUV444P16

definition encoder_format :: "encode_options \<Rightarrow> enc_format" where
  "encoder_format opts =
     (let enc = op_encoder opts;
          fmt = (if op_chroma_444 opts then YUV444P else YUV420P);
          fmt = (if 8 < op_bit_depth opts then
                   if strstr enc ''nvenc'' then P016 else if strstr enc ''vaapi'' then P010 else if strstr enc ''pyro'' then P016 else fmt
                 else fmt)
      in if op_hdr10 opts \<and> (enc = ''pyrowave'' \<or> enc = ''rawvideo'') then if op_chroma_444 opts then YUV444P16 else YUV420P16
         else if fmt = YUV420P \<and> (strstr enc ''nvenc'' \<or> strstr enc ''vaapi'' \<or> strstr enc ''_pyro'') then NV12
         else fmt)"

definition muxer_format :: "encode_options \<Rightarrow> string option" where
  "muxer_format opts = (if op_muxer opts \<noteq> '''' then Some (op_muxer opts) else if strstr (op_path opts) ''://'' then Some ''flv'' else None)"

text \<open>
  A \<open>Swapchain\<close> object, identified by its address: its references and the GPU of its association.  Its images are in
  \<open>Swapchain\<close>; the ends of its pipe and its duplicate of the client's socket live as long as the object.
\<close>

record swapchain_object =
  so_ptr :: nat
  so_refs :: nat
  so_association :: "nat option"

text \<open>
  The server: GPUs, the GPU of the encoder if there is an encoder, for every client that came the GPU it was given, the registered
  swapchains, the swapchain objects that are alive, the pipe connections that the dispatcher keeps for them (identifier 1), and what
  the stream server was told.
\<close>

record server_setup =
  su_gpus :: "physical_device list"
  su_options :: encode_options
  su_encoder :: "nat option"
  su_associations :: "nat list"
  su_handlers :: "nat list"
  su_objects :: "swapchain_object list"
  su_pipes :: "nat list"
  su_fec :: bool
  su_idr_on_loss :: bool

text \<open>Results: instance, device, encoder, and the audio recorder, if there is one.\<close>

record encoder_env =
  ee_instance :: bool
  ee_device :: bool
  ee_encoder :: bool
  ee_audio :: "bool option"

definition open_context :: "encoder_env \<Rightarrow> physical_device \<Rightarrow> bool \<times> physical_device" where
  "open_context e g =
     (if pd_context g \<noteq> None then (True, g)
      else if \<not> ee_instance e then (False, g\<lparr>pd_context := Some ContextMade\<rparr>)
      else if \<not> ee_device e then (False, g\<lparr>pd_context := None\<rparr>)
      else (True, g\<lparr>pd_context := Some ContextReady\<rparr>))"

definition init_encoder_for_device :: "encoder_env \<Rightarrow> nat \<Rightarrow> server_setup \<Rightarrow> bool \<times> server_setup" where
  "init_encoder_for_device e index s =
     (if length (su_gpus s) \<le> index then (False, s)
      else let (ok, g) = open_context e (su_gpus s ! index); s = s\<lparr>su_gpus := (su_gpus s)[index := g]\<rparr> in
      if \<not> ok then (False, s)
      else if su_encoder s \<noteq> None then (True, s)
      else let s = s\<lparr>su_fec := op_fec (su_options s), su_idr_on_loss := op_gop_negative (su_options s)\<rparr> in
      if ee_encoder e \<and> (op_audio (su_options s) \<longrightarrow> ee_audio e \<noteq> Some False) then (True, s\<lparr>su_encoder := Some index\<rparr>)
      else (False, s))"

section \<open>Clients\<close>

definition gpu_matches :: "device_info \<Rightarrow> physical_device \<Rightarrow> bool" where
  "gpu_matches d g \<longleftrightarrow>
     luid_valid d \<noteq> 0 \<and> pd_luid_valid g \<and> take 8 (pd_luid g) = take 8 (luid d)
     \<or> pd_device_uuid g = device_uuid d \<and> pd_driver_id g = driver_uuid d"

definition create_device :: "encoder_env \<Rightarrow> device_info \<Rightarrow> server_setup \<Rightarrow> nat option \<times> server_setup" where
  "create_device e d s =
     (case List.find (\<lambda>i. gpu_matches d (su_gpus s ! i)) [0..<length (su_gpus s)] of
        None \<Rightarrow> (None, s)
      | Some i \<Rightarrow>
          (let (ok, s) = init_encoder_for_device e i s in
           if ok then (Some i, s\<lparr>su_associations := su_associations s @ [i]\<rparr>) else (None, s)))"

text \<open>
  References of a swapchain object, as an intrusive pointer counts them; the last one that is given up destroys the object.
\<close>

definition add_reference :: "nat \<Rightarrow> swapchain_object list \<Rightarrow> swapchain_object list" where
  "add_reference p os = map (\<lambda>x. if so_ptr x = p then x\<lparr>so_refs := so_refs x + 1\<rparr> else x) os"

definition release_reference :: "nat \<Rightarrow> swapchain_object list \<Rightarrow> swapchain_object list" where
  "release_reference p os =
     filter (\<lambda>x. 0 < so_refs x) (map (\<lambda>x. if so_ptr x = p then x\<lparr>so_refs := so_refs x - 1\<rparr> else x) os)"

definition set_association :: "nat \<Rightarrow> nat option \<Rightarrow> swapchain_object list \<Rightarrow> swapchain_object list" where
  "set_association p a os = map (\<lambda>x. if so_ptr x = p then x\<lparr>so_association := a\<rparr> else x) os"

text \<open>
  The constructor, called by \<open>make_handle\<close> at the address \<open>p\<close>: without a pipe it throws.  The object has the reference of the
  handle and one for the pipe connection.  \<open>added\<close>: the kernel takes the connection; when it does not, the connection is destroyed
  at once and its reference is given back.
\<close>

definition swapchain_new :: "bool \<Rightarrow> bool \<Rightarrow> nat \<Rightarrow> server_setup \<Rightarrow> server_setup outcome" where
  "swapchain_new pipe_ok added p s =
     (if \<not> pipe_ok then None
      else let os = add_reference p (su_objects s @ [\<lparr>so_ptr = p, so_refs = 1, so_association = None\<rparr>]) in
      Some (if added then s\<lparr>su_objects := os, su_pipes := su_pipes s @ [p]\<rparr>
            else s\<lparr>su_objects := release_reference p os\<rparr>))"

text \<open>
  The first messages of a client: whether the connection stays, the handler it gets, the reply, and the state.  \<open>sent\<close>:
  whether the reply could be sent; \<open>new\<close>: the address of the new swapchain.  The swapchain is made before its GPU is looked for; its
  handle \<open>swap\<close> moves to the registered handlers or ends with the call.
\<close>

definition register_handler ::
  "encoder_env \<Rightarrow> bool \<Rightarrow> bool \<Rightarrow> bool \<Rightarrow> nat \<Rightarrow> ipc_message option \<Rightarrow> server_setup
     \<Rightarrow> (bool \<times> nat option \<times> (ipc_type \<times> u64) option \<times> server_setup) outcome" where
  "register_handler e pipe_ok added sent new msg s =
     (case msg of
        None \<Rightarrow> Some (False, None, None, s)
      | Some (ClientHelloMessage k h) \<Rightarrow>
          if intent h \<noteq> VulkanExternalStream then Some (False, None, Some (MT_ErrorProtocol, k), s)
          else Some (sent, None, Some (MT_ServerHello, k), s)
      | Some (DeviceMessage k d) \<Rightarrow> do {
          s \<leftarrow> swapchain_new pipe_ok added new s;
          let (gpu, s) = create_device e d s;
          Some (if gpu \<noteq> None
            then (sent, Some new, Some (MT_OK, k),
                  s\<lparr>su_objects := add_reference new (set_association new gpu (su_objects s)), su_handlers := su_handlers s @ [new]\<rparr>)
            else (sent, None, Some (MT_Error, k), s\<lparr>su_objects := release_reference new (su_objects s)\<rparr>)) }
      | Some m \<Rightarrow> Some (False, None, Some (MT_ErrorProtocol, get_serial m), s))"

text \<open>A swapchain that is not registered violates the assertion.\<close>

fun unregister_handler :: "nat \<Rightarrow> nat list \<Rightarrow> nat list outcome" where
  "unregister_handler h [] = None"
| "unregister_handler h (x # xs) = (if x = h then Some xs else map_option (Cons x) (unregister_handler h xs))"

text \<open>
  The end of a connection of the swapchain: identifier 0 is the client (the registered handle goes too, and the sentinel written into
  the pipe ends the pipe connection in a later round), identifier 1 is the pipe, which the dispatcher has removed.
\<close>

definition swapchain_release_id :: "nat \<Rightarrow> nat \<Rightarrow> server_setup \<Rightarrow> server_setup outcome" where
  "swapchain_release_id ident p s =
     (if ident = 0 then do {
        hs \<leftarrow> unregister_handler p (su_handlers s);
        Some (s\<lparr>su_handlers := hs, su_objects := release_reference p (release_reference p (su_objects s))\<rparr>) }
      else Some (s\<lparr>su_pipes := remove1 p (su_pipes s), su_objects := release_reference p (su_objects s)\<rparr>))"

section \<open>The main program\<close>

text \<open>The period of the timer in nanoseconds: a division by zero has no outcome.\<close>

definition timer_period :: "u32 \<Rightarrow> u32 \<Rightarrow> nat outcome" where
  "timer_period frames factor = do { guard (frames * factor \<noteq> 0); Some (1000000000 div unat (frames * factor)) }"

definition timerfd_settime_ok :: "nat \<Rightarrow> bool" where
  "timerfd_settime_ok nsec \<longleftrightarrow> nsec < 1000000000"

datatype start = Exit_Failure | Exit_Success | Running server_setup nat

definition main_inner :: "encoder_env \<Rightarrow> bool \<Rightarrow> bool \<Rightarrow> cli_option list option \<Rightarrow> server_setup \<Rightarrow> start outcome" where
  "main_inner e timer_ok added parsed s =
     (case parsed of
        None \<Rightarrow> Some Exit_Failure
      | Some os \<Rightarrow>
          (let c = fold apply_option os default_command_line; p = cl_options c in
           if cl_ended c then Some Exit_Success
           else if (op_path p = '''') = (cl_port c = '''') then Some Exit_Failure
           else let (ok, s) = init_encoder_for_device e (unat (cl_device_index c)) (s\<lparr>su_options := p\<rparr>) in
           if \<not> ok \<or> \<not> timer_ok then Some Exit_Failure
           else do {
             period \<leftarrow> timer_period (op_fps p) (cl_rate c);
             Some (if timerfd_settime_ok period \<and> added then Running s period else Exit_Failure) }))"

section \<open>Properties\<close>

text \<open>
  The GPUs in use have a context object, and the references of every swapchain object are those of its holders: a registered
  swapchain is held by the handler list and by the client's connection, and every pipe connection holds one.
\<close>

definition gpus_ok :: "server_setup \<Rightarrow> bool" where
  "gpus_ok s \<longleftrightarrow> (\<forall>i \<in> set (su_associations s). i < length (su_gpus s) \<and> pd_context (su_gpus s ! i) \<noteq> None)
     \<and> (\<forall>i. su_encoder s = Some i \<longrightarrow> i < length (su_gpus s) \<and> pd_context (su_gpus s ! i) \<noteq> None)"

definition holders :: "nat \<Rightarrow> server_setup \<Rightarrow> nat" where
  "holders p s = 2 * count_list (su_handlers s) p + count_list (su_pipes s) p"

definition references_ok :: "server_setup \<Rightarrow> bool" where
  "references_ok s \<longleftrightarrow> distinct (map so_ptr (su_objects s))
     \<and> (\<forall>x \<in> set (su_objects s). so_refs x = holders (so_ptr x) s \<and> 0 < so_refs x)
     \<and> set (su_handlers s) \<union> set (su_pipes s) \<subseteq> so_ptr ` set (su_objects s)"

definition setup_ok :: "server_setup \<Rightarrow> bool" where
  "setup_ok s \<longleftrightarrow> gpus_ok s \<and> references_ok s"

lemma open_context_frame:
  assumes "open_context e g = (ok, g')"
  shows "pd_context g \<noteq> None \<longrightarrow> g' = g" "gpu_matches d g' = gpu_matches d g"
    "ok \<longrightarrow> pd_context g' = Some (if pd_context g = Some ContextMade then ContextMade else ContextReady)"
    "ok \<longleftrightarrow> pd_context g \<noteq> None \<or> ee_instance e \<and> ee_device e"
  using assms by (auto simp: open_context_def gpu_matches_def split: if_splits) (metis gpu_context.exhaust)

lemma init_encoder_frame:
  assumes "init_encoder_for_device e i s = (ok, s')"
  shows "su_associations s' = su_associations s" "su_handlers s' = su_handlers s" "su_objects s' = su_objects s" "su_pipes s' = su_pipes s"
  using assms by (auto simp: init_encoder_for_device_def Let_def split: if_splits prod.splits)

lemma init_encoder_ok:
  assumes "init_encoder_for_device e i s = (ok, s')" "gpus_ok s" "i < length (su_gpus s)"
  shows "gpus_ok s'" "ok \<longrightarrow> su_encoder s' \<noteq> None \<and>
    pd_context (su_gpus s' ! i) = Some (if pd_context (su_gpus s ! i) = Some ContextMade then ContextMade else ContextReady)"
proof -
  obtain o1 g where g: "open_context e (su_gpus s ! i) = (o1, g)" by fastforce
  note f = open_context_frame[OF g]
  have k: "pd_context (su_gpus s ! j) \<noteq> None \<longrightarrow> pd_context ((su_gpus s)[i := g] ! j) \<noteq> None" for j
    using f by (cases "j = i") (auto simp: nth_list_update assms(3))
  show "gpus_ok s'" using assms g f(3) k
    by (auto simp: init_encoder_for_device_def gpus_ok_def Let_def nth_list_update split: if_splits prod.splits)
  show "ok \<longrightarrow> su_encoder s' \<noteq> None \<and>
    pd_context (su_gpus s' ! i) = Some (if pd_context (su_gpus s ! i) = Some ContextMade then ContextMade else ContextReady)"
    using assms(1,3) g f(3) by (auto simp: init_encoder_for_device_def Let_def split: if_splits prod.splits)
qed

text \<open>Whether a GPU can be used: its context is there or can be made, and the encoder is there or can be started.\<close>

definition gpu_opens :: "encoder_env \<Rightarrow> server_setup \<Rightarrow> nat \<Rightarrow> bool" where
  "gpu_opens e s i \<longleftrightarrow> (pd_context (su_gpus s ! i) \<noteq> None \<or> ee_instance e \<and> ee_device e)
     \<and> (su_encoder s \<noteq> None \<or> ee_encoder e \<and> (op_audio (su_options s) \<longrightarrow> ee_audio e \<noteq> Some False))"

lemma init_encoder_opens: "i < length (su_gpus s) \<Longrightarrow> fst (init_encoder_for_device e i s) \<longleftrightarrow> gpu_opens e s i"
  by (auto simp: init_encoder_for_device_def open_context_def gpu_opens_def Let_def)

text \<open>The GPU that a client is given, and what making it ready does to the rest of the server.\<close>

definition first_match :: "device_info \<Rightarrow> server_setup \<Rightarrow> nat \<Rightarrow> bool" where
  "first_match d s i \<longleftrightarrow> gpu_matches d (su_gpus s ! i) \<and> (\<forall>j < i. \<not> gpu_matches d (su_gpus s ! j))"

lemma create_device_ok:
  assumes "create_device e d s = (gpu, s')" "gpus_ok s"
  shows "gpus_ok s'" "su_handlers s' = su_handlers s" "su_objects s' = su_objects s" "su_pipes s' = su_pipes s"
    "gpu = None \<longrightarrow> su_associations s' = su_associations s \<and> \<not> (\<exists>k < length (su_gpus s). first_match d s k \<and> gpu_opens e s k)"
    "gpu = Some i \<longrightarrow> i < length (su_gpus s) \<and> su_associations s' = su_associations s @ [i] \<and> su_encoder s' \<noteq> None
       \<and> first_match d s i
       \<and> pd_context (su_gpus s' ! i) = Some (if pd_context (su_gpus s ! i) = Some ContextMade then ContextMade else ContextReady)"
proof -
  have *: "gpus_ok s' \<and> su_handlers s' = su_handlers s \<and> su_objects s' = su_objects s \<and> su_pipes s' = su_pipes s
    \<and> (gpu = None \<longrightarrow> su_associations s' = su_associations s \<and> \<not> (\<exists>k < length (su_gpus s). first_match d s k \<and> gpu_opens e s k))
    \<and> (gpu = Some i \<longrightarrow> i < length (su_gpus s) \<and> su_associations s' = su_associations s @ [i] \<and> su_encoder s' \<noteq> None
       \<and> first_match d s i
       \<and> pd_context (su_gpus s' ! i) = Some (if pd_context (su_gpus s ! i) = Some ContextMade then ContextMade else ContextReady))"
  proof (cases "List.find (\<lambda>i. gpu_matches d (su_gpus s ! i)) [0..<length (su_gpus s)]")
    case (Some j)
    obtain ok s1 where i: "init_encoder_for_device e j s = (ok, s1)" by fastforce
    have m: "j < length (su_gpus s)" "first_match d s j" using Some by (auto simp: find_Some_iff first_match_def)
    have "k = j" if "first_match d s k" for k using m(2) that by (auto simp: first_match_def) (meson linorder_neqE_nat)
    moreover have "ok = gpu_opens e s j" using init_encoder_opens[OF m(1), of e] i by simp
    ultimately have no: "\<not> ok \<longrightarrow> \<not> (\<exists>k < length (su_gpus s). first_match d s k \<and> gpu_opens e s k)" by blast
    have l: "length (su_gpus s1) = length (su_gpus s)"
      using i by (auto simp: init_encoder_for_device_def Let_def split: if_splits prod.splits)
    show ?thesis using assms Some i m l init_encoder_frame[OF i] init_encoder_ok[OF i assms(2) m(1)]
      no
      by (cases ok) (auto simp: create_device_def gpus_ok_def)
  next
    case None
    then have "\<not> (\<exists>k < length (su_gpus s). first_match d s k)" by (auto simp: first_match_def find_None_iff)
    with None assms show ?thesis by (auto simp: create_device_def)
  qed
  then show "gpus_ok s'" "su_handlers s' = su_handlers s" "su_objects s' = su_objects s" "su_pipes s' = su_pipes s"
    "gpu = None \<longrightarrow> su_associations s' = su_associations s \<and> \<not> (\<exists>k < length (su_gpus s). first_match d s k \<and> gpu_opens e s k)"
    "gpu = Some i \<longrightarrow> i < length (su_gpus s) \<and> su_associations s' = su_associations s @ [i] \<and> su_encoder s' \<noteq> None
       \<and> first_match d s i
       \<and> pd_context (su_gpus s' ! i) = Some (if pd_context (su_gpus s ! i) = Some ContextMade then ContextMade else ContextReady)"
    by blast+
qed

text \<open>References of a new object: the others keep theirs.\<close>

lemma map_other: "p \<notin> so_ptr ` set os \<Longrightarrow> map (\<lambda>x. if so_ptr x = p then f x else x) os = os"
  by (induction os) auto

lemma objects_alive: "references_ok s \<Longrightarrow> filter (\<lambda>x. 0 < so_refs x) (su_objects s) = su_objects s"
  unfolding references_ok_def filter_id_conv by blast

lemma swapchain_new_objects:
  assumes "swapchain_new pipe_ok added p s = Some s'" "references_ok s" "p \<notin> so_ptr ` set (su_objects s)"
  shows "su_objects s' = su_objects s @ [\<lparr>so_ptr = p, so_refs = (if added then 2 else 1), so_association = None\<rparr>]"
    "su_pipes s' = su_pipes s @ (if added then [p] else [])" "su_handlers s' = su_handlers s" "su_gpus s' = su_gpus s"
    "su_associations s' = su_associations s" "su_encoder s' = su_encoder s" "su_options s' = su_options s"
proof -
  have "filter (\<lambda>x. 0 < so_refs x) (su_objects s) = su_objects s" by (rule objects_alive[OF assms(2)])
  with assms show "su_objects s' = su_objects s @ [\<lparr>so_ptr = p, so_refs = (if added then 2 else 1), so_association = None\<rparr>]"
    "su_pipes s' = su_pipes s @ (if added then [p] else [])" "su_handlers s' = su_handlers s" "su_gpus s' = su_gpus s"
    "su_associations s' = su_associations s" "su_encoder s' = su_encoder s" "su_options s' = su_options s"
    by (auto simp: swapchain_new_def add_reference_def release_reference_def Let_def map_other split: if_splits)
qed

lemma references_ok_new:
  assumes "references_ok s" "p \<notin> so_ptr ` set (su_objects s)" "su_objects s' = su_objects s @ os"
    "map so_ptr os = (if n = 0 then [] else [p])" "list_all (\<lambda>x. so_refs x = n) os"
    "su_handlers s' = su_handlers s @ hs" "su_pipes s' = su_pipes s @ ps" "set hs \<union> set ps \<subseteq> {p}" "n = 2 * length hs + length ps"
  shows "references_ok s'"
proof -
  have c: "count_list xs q = (if q = p then length xs else 0)" if "set xs \<subseteq> {p}" for xs :: "nat list" and q
    using that by (induction xs) auto
  have z: "count_list (su_handlers s) p = 0" "count_list (su_pipes s) p = 0"
    using assms(1,2) unfolding references_ok_def by (auto simp: count_list_0_iff)
  have h: "holders q s' = (if q = p then n else holders q s)" for q
    using assms(8) z by (simp add: holders_def assms(6,7,9) c)
  have "distinct (map so_ptr (su_objects s'))" using assms(1-4) by (auto simp: references_ok_def)
  moreover have "set (su_handlers s') \<union> set (su_pipes s') \<subseteq> so_ptr ` set (su_objects s')"
  proof -
    have "set hs \<union> set ps \<subseteq> so_ptr ` set os"
    proof (cases "n = 0")
      case False
      then have "so_ptr ` set os = {p}" using arg_cong[OF assms(4), of set] by simp
      then show ?thesis using assms(8) by simp
    qed (use assms(9) in simp)
    then show ?thesis using assms(1) unfolding references_ok_def assms(3,6,7) by auto
  qed
  moreover have "so_refs x = holders (so_ptr x) s' \<and> 0 < so_refs x" if "x \<in> set (su_objects s')" for x
  proof (cases "x \<in> set os")
    case True
    then have "so_ptr x = p" "so_refs x = n" "n \<noteq> 0" using assms(4,5) by (auto simp: list_all_iff split: if_splits dest: arg_cong[where f = set])
    then show ?thesis by (simp add: h)
  next
    case False
    then have "x \<in> set (su_objects s)" using that assms(3) by simp
    then show ?thesis using assms(1,2) unfolding references_ok_def h by auto
  qed
  ultimately show ?thesis unfolding references_ok_def by blast
qed

text \<open>
  C28. When the pipe of its swapchain can be made, a client that announces its device gets the first GPU with its ids, with an encoder,
  and a registered swapchain on that GPU with one reference for every holder; the context of the GPU is ready, unless a
  context object without an instance had been left there by an earlier failure, which is then used as it is.  The GPUs that
  earlier clients use keep their contexts.  Only a client without such a GPU, or whose GPU or encoder cannot be opened, is
  refused: it gets an error reply and neither handler nor association, and the swapchain object that was made for it stays,
  held by its own pipe connection only.
\<close>

theorem client_gets_its_gpu:
  assumes "setup_ok s" "new \<notin> so_ptr ` set (su_objects s)"
    "register_handler e True added sent new (Some (DeviceMessage k d)) s = Some (stays, h, reply, s')"
  shows "setup_ok s' \<and> stays = sent \<and>
    (if reply = Some (MT_OK, k)
     then h = Some new \<and> su_handlers s' = su_handlers s @ [new] \<and> su_encoder s' \<noteq> None
       \<and> (\<exists>i < length (su_gpus s). su_associations s' = su_associations s @ [i] \<and> first_match d s i
            \<and> pd_context (su_gpus s' ! i) = Some (if pd_context (su_gpus s ! i) = Some ContextMade then ContextMade else ContextReady)
            \<and> su_objects s' = su_objects s @ [\<lparr>so_ptr = new, so_refs = (if added then 3 else 2), so_association = Some i\<rparr>])
     else reply = Some (MT_Error, k) \<and> \<not> (\<exists>i < length (su_gpus s). first_match d s i \<and> gpu_opens e s i)
       \<and> h = None \<and> su_handlers s' = su_handlers s \<and> su_associations s' = su_associations s
       \<and> su_objects s' = su_objects s @ (if added then [\<lparr>so_ptr = new, so_refs = 1, so_association = None\<rparr>] else []))"
proof -
  obtain s1 where s1: "swapchain_new True added new s = Some s1" by (simp add: swapchain_new_def Let_def)
  obtain gpu s2 where c: "create_device e d s1 = (gpu, s2)" by fastforce
  have ok: "gpus_ok s" "references_ok s" using assms(1) by (simp_all add: setup_ok_def)
  note n = swapchain_new_objects[OF s1 ok(2) assms(2)]
  have g1: "gpus_ok s1" using ok(1) by (simp add: gpus_ok_def n)
  have fm: "first_match d s1 = first_match d s" "gpu_opens e s1 = gpu_opens e s" by (simp_all add: fun_eq_iff first_match_def gpu_opens_def n)
  note cd = create_device_ok[OF c g1, unfolded n fm]
  have z: "filter (\<lambda>x. 0 < so_refs x) (su_objects s) = su_objects s" by (rule objects_alive[OF ok(2)])
  show ?thesis
  proof (cases gpu)
    case None
    with assms(2,3) s1 c cd have r: "stays = sent" "h = None" "reply = Some (MT_Error, k)" "su_handlers s' = su_handlers s" "gpus_ok s'"
        "su_associations s' = su_associations s" "su_pipes s' = su_pipes s @ (if added then [new] else [])"
        "\<not> (\<exists>i < length (su_gpus s). first_match d s i \<and> gpu_opens e s i)"
        "su_objects s' = su_objects s @ (if added then [\<lparr>so_ptr = new, so_refs = 1, so_association = None\<rparr>] else [])"
      by (auto simp: register_handler_def gpus_ok_def release_reference_def map_other z)
    have "references_ok s'"
      by (rule references_ok_new[OF ok(2) assms(2) r(9), of "if added then 1 else 0" "[]"]) (use r in auto)
    with r show ?thesis by (simp add: setup_ok_def)
  next
    case (Some i)
    with assms(2,3) s1 c cd have r: "stays = sent" "h = Some new" "reply = Some (MT_OK, k)" "su_handlers s' = su_handlers s @ [new]" "gpus_ok s'"
        "su_pipes s' = su_pipes s @ (if added then [new] else [])" "su_gpus s' = su_gpus s2" "su_encoder s' = su_encoder s2"
        "su_associations s' = su_associations s2"
        "su_objects s' = su_objects s @ [\<lparr>so_ptr = new, so_refs = (if added then 3 else 2), so_association = Some i\<rparr>]"
      by (auto simp: register_handler_def gpus_ok_def add_reference_def set_association_def map_other simp del: map_map)
    have "references_ok s'"
      by (rule references_ok_new[OF ok(2) assms(2) r(10), of "if added then 3 else 2" "[new]" "if added then [new] else []"]) (use r in auto)
    with r cd(6)[of i] Some show ?thesis by (auto simp: setup_ok_def)
  qed
qed

definition one_gpu :: server_setup where
  "one_gpu = \<lparr>su_gpus = [query_gpu ([1], [2], [], False), query_gpu ([3], [4], [], False)], su_options = default_options, su_encoder = None,
     su_associations = [], su_handlers = [], su_objects = [], su_pipes = [], su_fec = False, su_idr_on_loss = False\<rparr>"

definition good_env :: encoder_env where
  "good_env = \<lparr>ee_instance = True, ee_device = True, ee_encoder = True, ee_audio = None\<rparr>"

theorem client_gets_its_gpu_witness:
  "\<exists>s' :: server_setup. register_handler good_env True True True 7
         (Some (DeviceMessage 1 \<lparr>device_uuid = [4], driver_uuid = [3], luid = [], luid_valid = 0\<rparr>)) one_gpu
       = Some (True, Some 7, Some (MT_OK, 1), s') \<and> setup_ok s'
     \<and> (\<exists>i < 2. su_objects s' = [\<lparr>so_ptr = 7, so_refs = 3, so_association = Some i\<rparr>] \<and> pd_context (su_gpus s' ! i) = Some ContextReady)"
proof -
  let ?r = "register_handler good_env True True True 7 (Some (DeviceMessage 1 \<lparr>device_uuid = [4], driver_uuid = [3], luid = [], luid_valid = 0\<rparr>)) one_gpu"
  have ok: "setup_ok one_gpu" "7 \<notin> so_ptr ` set (su_objects one_gpu)"
    by (simp_all add: setup_ok_def gpus_ok_def references_ok_def one_gpu_def)
  have "map_option (\<lambda>(stays, h, reply, s'). reply) ?r = Some (Some (MT_OK, 1))" by code_simp
  then obtain stays h s' where x: "?r = Some (stays, h, Some (MT_OK, 1), s')" by auto
  have "pd_context (su_gpus one_gpu ! i) = None" if "i < 2" for i
    using that by (cases i) (auto simp: one_gpu_def query_gpu_def)
  with client_gets_its_gpu[OF ok x] x show ?thesis by (auto simp: one_gpu_def)
qed

text \<open>A client that has left leaves nothing of its swapchain behind, once the pipe has delivered the sentinel.\<close>

lemma unregister_last: "p \<notin> set hs \<Longrightarrow> unregister_handler p (hs @ [p]) = Some hs"
  by (induction hs) auto

lemma remove1_last: "p \<notin> set xs \<Longrightarrow> remove1 p (xs @ [p]) = xs"
  by (simp add: remove1_append)

theorem client_leaves_nothing:
  assumes "references_ok s" "p \<notin> so_ptr ` set (su_objects s)" "su_handlers s' = su_handlers s @ [p]" "su_pipes s' = su_pipes s @ [p]"
    "su_objects s' = su_objects s @ [\<lparr>so_ptr = p, so_refs = 3, so_association = a\<rparr>]"
  shows "\<exists>s1 s2. swapchain_release_id 0 p s' = Some s1 \<and> swapchain_release_id 1 p s1 = Some s2
    \<and> su_objects s2 = su_objects s \<and> su_handlers s2 = su_handlers s \<and> su_pipes s2 = su_pipes s"
proof -
  have z: "filter (\<lambda>x. 0 < so_refs x) (su_objects s) = su_objects s" by (rule objects_alive[OF assms(1)])
  have "p \<notin> set (su_handlers s)" "p \<notin> set (su_pipes s)" using assms(1,2) by (auto simp: references_ok_def)
  then show ?thesis
    using assms(2-5) by (simp add: swapchain_release_id_def release_reference_def map_other z unregister_last remove1_last)
qed

text \<open>A GPU whose Vulkan instance could not be made is taken for ready the next time.\<close>

theorem failed_instance_is_kept:
  assumes "init_encoder_for_device e i s = (False, s')" "i < length (su_gpus s)" "pd_context (su_gpus s ! i) = None" "\<not> ee_instance e"
    "ee_encoder e'" "ee_audio e' = None" "su_encoder s = None"
  shows "fst (init_encoder_for_device e' i s')" "pd_context (su_gpus (snd (init_encoder_for_device e' i s')) ! i) = Some ContextMade"
  using assms by (auto simp: init_encoder_for_device_def open_context_def Let_def)

text \<open>The timer takes every rate but 1 frame per second; a rate of 0 has no outcome.\<close>

theorem timer_period_valid:
  "(case timer_period frames factor of None \<Rightarrow> frames * factor = 0
    | Some n \<Rightarrow> frames * factor \<noteq> 0 \<and> (timerfd_settime_ok n \<longleftrightarrow> frames * factor \<noteq> 1))"
proof (cases "frames * factor = 0")
  case False
  then have "0 < unat (frames * factor)" by (simp add: unat_gt_0)
  moreover have "frames * factor = 1 \<longleftrightarrow> unat (frames * factor) = 1" by (metis unat_1 word_unat_eq_iff)
  moreover have "1000000000 div unat (frames * factor) < 1000000000 \<longleftrightarrow> unat (frames * factor) \<noteq> 1" if "0 < unat (frames * factor)"
    using that by (cases "unat (frames * factor) = 1") (auto intro: div_less_dividend)
  ultimately show ?thesis using False by (simp add: timer_period_def timerfd_settime_ok_def)
qed (simp add: timer_period_def)

end
