(* ===== verification/Spec2Isabelle.thy ===== *)
theory Spec2Isabelle
  imports Stream_Handshake Client_Slots File_Handle Simple_Socket Ipc_Session Capture_Session Cross_Wsi_Wakeups Latency_Threads Virtual_Gamepad Server_Setup
begin

text \<open>
  \<^bold>\<open>A verification library for PyroFling.\<close>

  PyroFling streams Vulkan applications.  A layer inside the application (\<open>capture-layer\<close>) exports the images the
  application presents and passes them, over a local socket (\<open>ipc\<close>), to a server (\<open>pyrofling.cpp\<close>).  The server keeps
  one swapchain per client, scans out the latest due image at every heartbeat, encodes it and hands the encoded packets
  to the stream server (\<open>pyro-server\<close>).  This one cuts a packet into datagrams (\<open>proto\<close>), adds forward error
  correction (\<open>lt\<close>) and sends them to stream clients (\<open>pyro-client\<close>), which receive through \<open>simple_socket\<close>, repair
  losses and hand whole packets to a viewer.  Independently of this, the layer \<open>cross-wsi-layer\<close> lets an application
  render on one GPU and present on another, and \<open>latency-measurement-layer\<close> measures when input becomes visible.

  \<^bold>\<open>How programs are modelled.\<close>  Structures and classes are records, enumerations datatypes, and every function of the
  sources is a definition of the same name where HOL allows it.  Integers have their width (\<open>u8\<close> to \<open>u64\<close> are words)
  wherever they can wrap; Vulkan results and descriptors are \<open>int\<close>.  An \<open>'a outcome\<close> is \<open>None\<close> when the C++ program has no
  defined result: an index out of range, a failed assertion, a null dereference, a read of storage nobody wrote
  (\<open>Pyro_Prelude\<close>).  What is not PyroFling's own code (system calls, Vulkan, the codec, the Granite library) is an argument: the
  result of the call, or a function that gives it.  The reference counts of Granite's intrusive pointers are numbers: an object is
  made with one reference and destroyed with its last.  Threads are step relations whose steps are what a thread does
  between two points at which others can interfere.

  \<^bold>\<open>The theories.\<close>
  \<^item> \<open>Pyro_Prelude\<close>: machine types, outcomes, checked loads and stores, loops, little-endian encodings, and their lemmas.
  \<^item> \<open>LT_Shuffle\<close>, \<open>LT_Encode\<close>, \<open>LT_Decode\<close> (\<open>lt/*.cpp\<close>): index shuffler, FEC encoder, peeling decoder with their arrays
    and bit masks.  \<open>LT_Correct\<close> has the invariant of the decoder against the code it decodes, \<open>LT_Codec\<close> joins encoder and
    decoder: decoding is exact for every order of arrivals in which no FEC block is repeated.
  \<^item> \<open>Pyro_Protocol\<close> (\<open>proto/pyro_protocol.h\<close>): message types, sequence numbers, payload flags and the encodings of all
    structures.  The locale \<open>wire_format\<close> states what an encoding promises; it is interpreted for every structure.
  \<^item> \<open>Stream_Server\<close> (\<open>pyro-server/*\<close>): connections, the TCP message loop, cookies, packetiser, time-outs and key
    frames.  \<open>Stream_Control\<close> has the properties of its control traffic, \<open>Packetiser\<close> those of its datagrams.
  \<^item> \<open>Stream_Client\<close> (\<open>pyro-client/*\<close>): packet slots, reassembly, waiting, handshake, statistics.  \<open>Client_Slots\<close> has the
    well-formedness of the slots under arbitrary datagrams and what breaks it.
  \<^item> \<open>Reassembly\<close>, \<open>Stream_Transfer\<close>, \<open>Stream_Handshake\<close>: server, network and client together.
  \<^item> \<open>Simple_Socket\<close> (\<open>simple_socket.*\<close>): blocking reads and writes, and the ring between its two threads, as a refinement of
    a queue (locale \<open>two_phase_fifo\<close>).
  \<^item> \<open>File_Handle\<close> (\<open>ipc/file_handle.*\<close>): owners of descriptors.  \<open>Ipc_Messages\<close> (\<open>ipc/messages.*\<close>): the messages, their
    format (locale \<open>checked_format\<close>), sending and parsing with descriptors.  \<open>Ipc_Client\<close> (\<open>ipc/client.*\<close>): requests and
    replies, and the threads in \<open>wait_reply\<close>.  \<open>Ipc_Dispatcher\<close> (\<open>ipc/listener.*\<close>): the event loop.
  \<^item> \<open>Swapchain\<close> (\<open>pyrofling.cpp\<close>, \<open>SwapchainServer\<close> and encode scheduling) and \<open>Heartbeat\<close> (\<open>HeartbeatHandler\<close>).
    \<open>Server_Setup\<close> has its start-up, options and first messages of clients, \<open>Virtual_Gamepad\<close> (\<open>virtual_gamepad.*\<close>) the events
    for the gamepad states of stream clients.  \<open>Ipc_Session\<close> joins server, format and client (locale \<open>reply_channel\<close>).
  \<^item> \<open>Capture_Layer\<close> (\<open>capture-layer/capture_layer.cpp\<close>) and \<open>Capture_Session\<close>, the layer and the server together.
  \<^item> \<open>Cross_Wsi\<close> (\<open>cross-wsi-layer/cross_wsi_layer.cpp\<close>), \<open>Cross_Wsi_Threads\<close> and \<open>Cross_Wsi_Wakeups\<close>: the operations of its
    swapchain, its threads, and their condition variable.
  \<^item> \<open>Latency_Layer\<close> (\<open>latency-measurement-layer/latency_measurement_layer.cpp\<close>) and \<open>Latency_Threads\<close>: feedback queue, worker,
    input thread.

  \<^bold>\<open>What the theorems show.\<close>
  \<^item> Streaming: what the packetiser sends is, after losses, reordering and repetition of data blocks, returned by
    \<open>wait_next_packet\<close> whenever peeling determines it (\<open>video_packet_transfer\<close>, \<open>single_loss_transfer\<close>); the codec alone is
    exact (\<open>fec_decode_exact\<close>); the handshake ends with success when one of its rounds is good (\<open>handshake_completes\<close>);
    whether a connection is kept or dropped, and in which state, does not depend on the cuts of the TCP stream
    (\<open>segmentation_irrelevant\<close>); datagrams go only to an address that has shown the cookie (\<open>datagrams_need_cookie\<close>).
  \<^item> Local socket: round trip of messages, no descriptor leaked or closed twice, at most one thread at the poll, no
    dangling connection in the event loop, termination of sending.
  \<^item> Images: the swapchain of the server keeps its protocol under any input (\<open>swapchain_protocol\<close>), and over all
    interleavings of layer and server every image is in exactly one place and no side rejects the other
    (\<open>image_ownership\<close>, \<open>session_never_rejects\<close>, \<open>session_opens\<close>).
  \<^item> Cross-WSI: single ownership of images, order of frames (\<open>wsi_images\<close>), no wake-up lost between application and worker
    (\<open>no_wakeup_lost\<close>).  Latency layer: the feedback queue is a bag (\<open>feedback_queue_is_bag\<close>), one pending copy per image, one line
    per stimulus.
  \<^item> Server: a client gets the first GPU with its ids and a swapchain with one reference per holder, and what a refused one leaves
    behind is stated as well (\<open>client_gets_its_gpu\<close>); the input device shows the last reported gamepad state
    (\<open>gamepad_mirrors\<close>); a sentinel ends the event loop with every connection destroyed once (\<open>sentinel_ends_loop\<close>).
  \<^item> Errors: conditions under which the code misbehaves, such as a repeated FEC block (\<open>duplicate_fec_corrupts\<close>), an unchecked
    header, a greeting that does not leave (\<open>failed_greeting_crashes\<close>), or the hang-up of a cancelled connection
    (\<open>cancelled_hangup_stops_server\<close>), and reachable states in which a wake-up is lost.

  \<^bold>\<open>Bounds.\<close>  A packet whose transfer is proved has at most 8192 blocks, half the range of the 14-bit subsequence
  numbers and the widest window in which their order is known (\<open>window_fits\<close>); for the slots of the client it has at most 65532 blocks, so that sizes do not wrap (\<open>packet_fits\<close>).
  The ring of \<open>Simple_Socket\<close> has fewer than \<open>2 ^ 32\<close> slots since its counters are 32 bits wide.  A swapchain has at most
  \<open>2 ^ 16\<close> images.  The handshake has 64 rounds and a message buffer of 259 bytes as in the code.  Loops of the code end, and
  are total functions of the model, except where a system call is repeated; those take the list of its results, and
  an exhausted list is a value of its own.

  \<^bold>\<open>Not modelled.\<close>  \<open>pyrofling_viewer.cpp\<close> is an application on Granite: window, drawing, audio.  Of the three layers, the entry points for the loader, the dispatch tables
  (\<open>layer-util\<close>), command recording and the copying of Vulkan structures are left out: they have no state
  besides that of Vulkan.  \<open>pyrofling_gamepad.cpp\<close>, \<open>pyrofling_latency_tester.cpp\<close> and \<open>pyrofling_app_query.cpp\<close> are input and
  output; \<open>slangmosh_*.hpp\<close> are generated; PipeWire capture and the construction of codec objects in \<open>pyrofling.cpp\<close> are calls of
  libraries that are not part of the sources.  Real time enters as arguments; bodies
  of packets of the codec are arbitrary bytes.
\<close>

end
